(* ===== verification/Prelude.thy ===== *)
theory Prelude
  imports Complex_Main "HOL-Library.Char_ord" "HOL-Library.List_Lexorder"
begin

section \<open>Shared vocabulary of the development\<close>

text \<open>
  What every other theory uses: the Python values the firmware passes around
  (\<open>pyval\<close>), the exceptions it raises (\<open>exc\<close>), results that are
  either an exception or a value, lookups in Python dictionaries, Python's
  string operations, and the named collections of lemmas.

  A Python \<open>str\<close> is represented by its UTF-8 encoding, as MicroPython stores
  it: a \<open>string\<close> (a list of bytes). \<open>len(s.encode("utf-8"))\<close> is then
  \<open>length s\<close>, and \<open>len(s)\<close> counts the bytes that are not continuation bytes.
  Byte-wise comparison of UTF-8 is code point order, so \<open>sorted\<close> on strings
  is \<open>sort\<close>.
\<close>

named_theorems res_simps \<open>equations about results and their sequencing\<close>
named_theorems inv_simps \<open>invariants and the projections they mention\<close>

subsection \<open>Exceptions and results\<close>

text \<open>
  The exception classes the modelled code raises or tells apart. The
  human-readable message is not modelled. \<open>ConfigError\<close> and
  \<open>DeviceValidationError\<close> carry their stable code; \<open>ConfigError\<close> also the
  sorted unknown fields and, for a schema mismatch, the received version
  (the \<open>details\<close> of the source).
\<close>

datatype err_code =
    Code_invalid_value | Code_missing_key | Code_unknown_config_fields
  | Code_unsupported_device_type | Code_invalid_config_schema_version
  | Code_unreadable_file | Code_storage_error

datatype exc =
    MemoryError | OSError | MQTTException | ValueError | TypeError | AttributeError
  | KeyError | IndexError | RuntimeError | OverflowError | ZeroDivisionError | ArithmeticError
  | UnsupportedValueError | NonStringKeyError | NonFiniteFloatError
  | SerializationError | MessageTooLargeError | OutboundMessageTooLargeError
  | StartupLogTooLargeError | WifiConfigError
  | DeviceValidationError err_code
  | ConfigError err_code "string list" "int option"

type_synonym 'a res = "exc + 'a"

definition andthen :: "'a res \<Rightarrow> ('a \<Rightarrow> 'b res) \<Rightarrow> 'b res" where
  "andthen m f = (case m of Inl e \<Rightarrow> Inl e | Inr x \<Rightarrow> f x)"

lemma andthen_Inl [simp]: "andthen (Inl e) f = Inl e"
  by (simp add: andthen_def)

lemma andthen_Inr [simp]: "andthen (Inr x) f = f x"
  by (simp add: andthen_def)

lemma andthen_return [simp]: "andthen m Inr = m"
  by (cases m) simp_all

lemma andthen_eq_Inr [res_simps]:
  "andthen m f = Inr y \<longleftrightarrow> (\<exists>x. m = Inr x \<and> f x = Inr y)"
  by (cases m) auto

lemma andthen_eq_Inl [res_simps]:
  "andthen m f = Inl e \<longleftrightarrow> m = Inl e \<or> (\<exists>x. m = Inr x \<and> f x = Inl e)"
  by (cases m) auto

definition require :: "bool \<Rightarrow> exc \<Rightarrow> unit res" where
  "require c e = (if c then Inr () else Inl e)"

lemma require_eq_Inr [res_simps, simp]: "require c e = Inr u \<longleftrightarrow> c"
  by (simp add: require_def)

lemma require_eq_Inl [res_simps, simp]: "require c e = Inl e' \<longleftrightarrow> \<not> c \<and> e' = e"
  by (auto simp: require_def)

text \<open>A validation loop: the body for each element, stopping at the first exception.\<close>

fun for_each :: "('a \<Rightarrow> unit res) \<Rightarrow> 'a list \<Rightarrow> unit res" where
  "for_each f [] = Inr ()"
| "for_each f (x # xs) = andthen (f x) (\<lambda>_. for_each f xs)"

lemma for_each_eq_Inr [res_simps, simp]:
  "for_each f xs = Inr u \<longleftrightarrow> (\<forall>x \<in> set xs. f x = Inr ())"
  by (induction xs) (auto simp: res_simps)

lemma for_each_eq_InlD:
  "for_each f xs = Inl e \<Longrightarrow> \<exists>x \<in> set xs. f x = Inl e"
  by (induction xs) (auto simp: res_simps)

text \<open>The same loop when the body threads an accumulator (a set or a dict of owners).\<close>

fun fold_res :: "('a \<Rightarrow> 's \<Rightarrow> 's res) \<Rightarrow> 'a list \<Rightarrow> 's \<Rightarrow> 's res" where
  "fold_res f [] s = Inr s"
| "fold_res f (x # xs) s = andthen (f x s) (fold_res f xs)"

lemma fold_res_append:
  "fold_res f (xs @ ys) s = andthen (fold_res f xs s) (fold_res f ys)"
proof (induction xs arbitrary: s)
  case Nil
  then show ?case by simp
next
  case (Cons x xs)
  then show ?case by (cases "f x s") simp_all
qed

lemma fold_res_inv:
  assumes "fold_res f xs s = Inr t" and "I s"
    and "\<And>x s t. x \<in> set xs \<Longrightarrow> I s \<Longrightarrow> f x s = Inr t \<Longrightarrow> I t"
  shows "I t"
  using assms
proof (induction xs arbitrary: s)
  case Nil
  then show ?case by simp
next
  case (Cons x xs)
  from Cons.prems(1) obtain u where u: "f x s = Inr u" "fold_res f xs u = Inr t"
    by (auto simp: res_simps)
  have "I u" using Cons.prems(2,3) u(1) by auto
  with u(2) Cons.prems(3) show ?case by (intro Cons.IH) auto
qed

text \<open>Every exception of a result satisfies \<open>P\<close>.\<close>

definition raises_only :: "(exc \<Rightarrow> bool) \<Rightarrow> 'a res \<Rightarrow> bool" where
  "raises_only P m \<longleftrightarrow> (\<forall>e. m = Inl e \<longrightarrow> P e)"

named_theorems raise_rules \<open>which exceptions a result can raise\<close>

lemma raises_only_Inr [simp, raise_rules]: "raises_only P (Inr x)"
  by (simp add: raises_only_def)

lemma raises_only_Inl [simp]: "raises_only P (Inl e) = P e"
  by (simp add: raises_only_def)

lemma raises_only_require [raise_rules]: "(\<not> c \<Longrightarrow> P e) \<Longrightarrow> raises_only P (require c e)"
  by (auto simp: raises_only_def)

lemma raises_only_andthen [raise_rules]:
  "raises_only P m \<Longrightarrow> (\<And>x. m = Inr x \<Longrightarrow> raises_only P (f x)) \<Longrightarrow> raises_only P (andthen m f)"
  by (cases m) (auto simp: raises_only_def)

lemma raises_only_for_each [raise_rules]:
  "(\<And>x. x \<in> set xs \<Longrightarrow> raises_only P (f x)) \<Longrightarrow> raises_only P (for_each f xs)"
  using for_each_eq_InlD unfolding raises_only_def by metis

lemma raises_only_fold_res [raise_rules]:
  "(\<And>x s. x \<in> set xs \<Longrightarrow> raises_only P (f x s)) \<Longrightarrow> raises_only P (fold_res f xs s)"
proof (induction xs arbitrary: s)
  case (Cons x xs)
  then show ?case by (auto intro!: raises_only_andthen)
qed simp

lemma raises_only_mono: "raises_only P m \<Longrightarrow> (\<And>e. P e \<Longrightarrow> Q e) \<Longrightarrow> raises_only Q m"
  by (auto simp: raises_only_def)

subsection \<open>Python values\<close>

text \<open>
  A float is a finite number (its exact rational value), an infinity or NaN.
  \<open>PObj\<close> stands for a value of any type the code has no case for.
\<close>

datatype pyfloat = Finite rat | PosInf | NegInf | NaN

datatype pyval =
    PNone
  | PBool bool
  | PInt int
  | PFloat pyfloat
  | PStr string
  | PList "pyval list"
  | PTuple "pyval list"
  | PDict "(pyval \<times> pyval) list"
  | PObj nat

type_synonym pydict = "(pyval \<times> pyval) list"

definition dget :: "pydict \<Rightarrow> string \<Rightarrow> pyval option" where
  "dget d k = map_of d (PStr k)"

definition dhas :: "pydict \<Rightarrow> string \<Rightarrow> bool" where
  "dhas d k = (dget d k \<noteq> None)"

text \<open>\<open>d.get(k)\<close> and \<open>d.get(k, v)\<close>.\<close>

definition dget_none :: "pydict \<Rightarrow> string \<Rightarrow> pyval" where
  "dget_none d k = (case dget d k of None \<Rightarrow> PNone | Some v \<Rightarrow> v)"

definition dget_or :: "pydict \<Rightarrow> string \<Rightarrow> pyval \<Rightarrow> pyval" where
  "dget_or d k v = (case dget d k of None \<Rightarrow> v | Some w \<Rightarrow> w)"

text \<open>\<open>d[k]\<close>: a missing key raises.\<close>

definition dindex :: "pydict \<Rightarrow> string \<Rightarrow> pyval res" where
  "dindex d k = (case dget d k of None \<Rightarrow> Inl KeyError | Some v \<Rightarrow> Inr v)"

lemma dindex_eq_Inr [res_simps, simp]: "dindex d k = Inr v \<longleftrightarrow> dget d k = Some v"
  by (simp add: dindex_def split: option.splits)

lemma dindex_eq_Inl [res_simps]: "dindex d k = Inl e \<longleftrightarrow> \<not> dhas d k \<and> e = KeyError"
  by (auto simp: dindex_def dhas_def split: option.splits)

lemma dindex_dhas: "dhas d k \<Longrightarrow> dindex d k = Inr (dget_none d k)"
  by (auto simp: dindex_def dhas_def dget_none_def)

text \<open>The string keys of a dictionary; a document read by \<open>json\<close> has no others.\<close>

fun str_keys :: "pydict \<Rightarrow> string list" where
  "str_keys [] = []"
| "str_keys ((PStr s, v) # d) = s # str_keys d"
| "str_keys ((k, v) # d) = str_keys d"

lemma set_str_keys: "s \<in> set (str_keys d) \<longleftrightarrow> dhas d s"
  by (induction d rule: str_keys.induct) (auto simp: dhas_def dget_def)

text \<open>\<open>sorted(set(d) - allowed)\<close>.\<close>

definition unknown_keys :: "pydict \<Rightarrow> string list \<Rightarrow> string list" where
  "unknown_keys d allowed = sort (remdups (filter (\<lambda>k. k \<notin> set allowed) (str_keys d)))"

lemma set_unknown_keys: "set (unknown_keys d allowed) = {k. dhas d k \<and> k \<notin> set allowed}"
  by (auto simp: unknown_keys_def set_str_keys)

lemma unknown_keys_Nil [simp]:
  "unknown_keys d allowed = [] \<longleftrightarrow> (\<forall>k. dhas d k \<longrightarrow> k \<in> set allowed)"
proof -
  have "unknown_keys d allowed = [] \<longleftrightarrow> set (unknown_keys d allowed) = {}"
    by (simp only: set_empty)
  then show ?thesis by (auto simp: set_unknown_keys)
qed

fun is_dict :: "pyval \<Rightarrow> bool" where
  "is_dict (PDict d) = True"
| "is_dict v = False"

fun is_list :: "pyval \<Rightarrow> bool" where
  "is_list (PList d) = True"
| "is_list v = False"

fun is_str :: "pyval \<Rightarrow> bool" where
  "is_str (PStr s) = True"
| "is_str v = False"

text \<open>\<open>isinstance(v, int) and not isinstance(v, bool)\<close>.\<close>

fun is_int :: "pyval \<Rightarrow> bool" where
  "is_int (PInt i) = True"
| "is_int v = False"

fun the_int :: "pyval \<Rightarrow> int" where
  "the_int (PInt i) = i"
| "the_int (PBool b) = (if b then 1 else 0)"
| "the_int v = 0"

fun the_str :: "pyval \<Rightarrow> string" where
  "the_str (PStr s) = s"
| "the_str v = []"

fun the_dict :: "pyval \<Rightarrow> pydict" where
  "the_dict (PDict d) = d"
| "the_dict v = []"

fun the_list :: "pyval \<Rightarrow> pyval list" where
  "the_list (PList xs) = xs"
| "the_list v = []"

text \<open>Dictionaries and lists are the unhashable values; a hash lookup of one raises.\<close>

fun hashable :: "pyval \<Rightarrow> bool" where
  "hashable (PList xs) = False"
| "hashable (PDict d) = False"
| "hashable (PTuple xs) = list_all hashable xs"
| "hashable v = True"

subsection \<open>Python equality\<close>

text \<open>
  \<open>==\<close>: numbers (bools included) compare by value across types, NaN equals
  nothing, lists and tuples compare element-wise, dictionaries as mappings.
\<close>

fun num_of :: "pyval \<Rightarrow> pyfloat option" where
  "num_of (PInt i) = Some (Finite (of_int i))"
| "num_of (PBool b) = Some (Finite (if b then 1 else 0))"
| "num_of (PFloat f) = Some f"
| "num_of v = None"

definition num_eq :: "pyfloat \<Rightarrow> pyfloat \<Rightarrow> bool" where
  "num_eq a b \<longleftrightarrow> a = b \<and> a \<noteq> NaN"

fun py_eq :: "pyval \<Rightarrow> pyval \<Rightarrow> bool"
  and py_eq_list :: "pyval list \<Rightarrow> pyval list \<Rightarrow> bool"
  and py_eq_items :: "pydict \<Rightarrow> pydict \<Rightarrow> bool" where
  "py_eq (PList xs) v = (case v of PList ys \<Rightarrow> py_eq_list xs ys | _ \<Rightarrow> False)"
| "py_eq (PTuple xs) v = (case v of PTuple ys \<Rightarrow> py_eq_list xs ys | _ \<Rightarrow> False)"
| "py_eq (PDict d) v =
     (case v of PDict e \<Rightarrow> length d = length e \<and> py_eq_items d e | _ \<Rightarrow> False)"
| "py_eq PNone v = (v = PNone)"
| "py_eq (PStr s) v = (v = PStr s)"
| "py_eq (PObj n) v = (v = PObj n)"
| "py_eq (PInt i) v = (case num_of v of Some b \<Rightarrow> num_eq (Finite (of_int i)) b | None \<Rightarrow> False)"
| "py_eq (PBool x) v =
     (case num_of v of Some b \<Rightarrow> num_eq (Finite (if x then 1 else 0)) b | None \<Rightarrow> False)"
| "py_eq (PFloat f) v = (case num_of v of Some b \<Rightarrow> num_eq f b | None \<Rightarrow> False)"
| "py_eq_list [] ys = (ys = [])"
| "py_eq_list (x # xs) ys = (case ys of [] \<Rightarrow> False | y # zs \<Rightarrow> py_eq x y \<and> py_eq_list xs zs)"
| "py_eq_items [] e = True"
| "py_eq_items ((k, v) # d) e =
     ((case map_of e k of None \<Rightarrow> False | Some w \<Rightarrow> py_eq v w) \<and> py_eq_items d e)"

subsection \<open>Strings\<close>

definition is_continuation :: "char \<Rightarrow> bool" where
  "is_continuation c \<longleftrightarrow> 128 \<le> (of_char c :: nat) \<and> (of_char c :: nat) < 192"

text \<open>\<open>len(s)\<close>: code points, one per byte that does not continue one.\<close>

definition py_len :: "string \<Rightarrow> nat" where
  "py_len s = length (filter (\<lambda>c. \<not> is_continuation c) s)"

lemma py_len_le: "py_len s \<le> length s"
  by (simp add: py_len_def)

text \<open>\<open>s.lower()\<close>: MicroPython lowers the ASCII letters and leaves other bytes alone.\<close>

definition char_lower :: "char \<Rightarrow> char" where
  "char_lower c = (let n = (of_char c :: nat) in if 65 \<le> n \<and> n \<le> 90 then char_of (n + 32) else c)"

definition py_lower :: "string \<Rightarrow> string" where
  "py_lower s = map char_lower s"

lemma char_lower_idem [simp]: "char_lower (char_lower c) = char_lower c"
proof (cases "65 \<le> (of_char c :: nat) \<and> (of_char c :: nat) \<le> 90")
  case True
  then show ?thesis by (simp add: char_lower_def Let_def of_char_of)
next
  case False
  then have "char_lower c = c" by (auto simp: char_lower_def Let_def)
  then show ?thesis by simp
qed

lemma py_lower_idem [simp]: "py_lower (py_lower s) = py_lower s"
  by (simp add: py_lower_def comp_def)

subsection \<open>Stateful programs\<close>

text \<open>
  A program reads a world (what the environment decides: clock readings, faults, the other
  core) and transforms a state. It returns, raises, or is cut by a loss of power; a cut is
  not an exception, so no handler sees it.
\<close>

datatype 'a outcome = Return 'a | Raise exc | Cut

type_synonym ('w, 's, 'a) prog = "'w \<Rightarrow> 's \<Rightarrow> 'a outcome \<times> 's"

definition io_return :: "'a \<Rightarrow> ('w, 's, 'a) prog" where
  "io_return x w s = (Return x, s)"

definition io_raise :: "exc \<Rightarrow> ('w, 's, 'a) prog" where
  "io_raise e w s = (Raise e, s)"

definition io_bind :: "('w, 's, 'a) prog \<Rightarrow> ('a \<Rightarrow> ('w, 's, 'b) prog) \<Rightarrow> ('w, 's, 'b) prog" where
  "io_bind m f w s =
     (case m w s of
        (Return x, t) \<Rightarrow> f x w t
      | (Raise e, t) \<Rightarrow> (Raise e, t)
      | (Cut, t) \<Rightarrow> (Cut, t))"

definition io_try :: "('w, 's, 'a) prog \<Rightarrow> (exc \<Rightarrow> ('w, 's, 'a) prog) \<Rightarrow> ('w, 's, 'a) prog" where
  "io_try m handler w s =
     (case m w s of
        (Raise e, t) \<Rightarrow> handler e w t
      | (r, t) \<Rightarrow> (r, t))"

definition io_res :: "'a res \<Rightarrow> ('w, 's, 'a) prog" where
  "io_res r = (case r of Inl e \<Rightarrow> io_raise e | Inr x \<Rightarrow> io_return x)"

definition io_get :: "('s \<Rightarrow> 'a) \<Rightarrow> ('w, 's, 'a) prog" where
  "io_get f w s = (Return (f s), s)"

text \<open>What follows may depend on the world.\<close>

definition io_ask :: "('w \<Rightarrow> ('w, 's, 'a) prog) \<Rightarrow> ('w, 's, 'a) prog" where
  "io_ask f w s = f w w s"

definition io_set :: "('s \<Rightarrow> 's) \<Rightarrow> ('w, 's, unit) prog" where
  "io_set f w s = (Return (), f s)"

text \<open>
  \<open>run_to m w s Q\<close>: \<open>m\<close> ends with an outcome and a state in \<open>Q\<close>. The equations compute
  the weakest precondition, so \<open>simp\<close> runs a program symbolically.
\<close>

definition run_to :: "('w, 's, 'a) prog \<Rightarrow> 'w \<Rightarrow> 's \<Rightarrow> ('a outcome \<Rightarrow> 's \<Rightarrow> bool) \<Rightarrow> bool" where
  "run_to m w s Q = (case m w s of (r, t) \<Rightarrow> Q r t)"

named_theorems run_simps \<open>weakest preconditions of programs\<close>

lemma run_to_return [run_simps, simp]: "run_to (io_return x) w s Q = Q (Return x) s"
  by (simp add: run_to_def io_return_def)

lemma run_to_raise [run_simps, simp]: "run_to (io_raise e) w s Q = Q (Raise e) s"
  by (simp add: run_to_def io_raise_def)

lemma run_to_get [run_simps, simp]: "run_to (io_get f) w s Q = Q (Return (f s)) s"
  by (simp add: run_to_def io_get_def)

lemma run_to_ask [run_simps, simp]: "run_to (io_ask f) w s Q = run_to (f w) w s Q"
  by (simp add: run_to_def io_ask_def)

lemma run_to_set [run_simps, simp]: "run_to (io_set f) w s Q = Q (Return ()) (f s)"
  by (simp add: run_to_def io_set_def)

lemma run_to_res [run_simps, simp]:
  "run_to (io_res r) w s Q = (case r of Inl e \<Rightarrow> Q (Raise e) s | Inr x \<Rightarrow> Q (Return x) s)"
  by (simp add: io_res_def split: sum.splits)

lemma run_to_bind [run_simps, simp]:
  "run_to (io_bind m f) w s Q =
     run_to m w s (\<lambda>r t. case r of Return x \<Rightarrow> run_to (f x) w t Q | Raise e \<Rightarrow> Q (Raise e) t | Cut \<Rightarrow> Q Cut t)"
  by (auto simp: run_to_def io_bind_def split: outcome.splits prod.splits)

lemma run_to_try [run_simps, simp]:
  "run_to (io_try m h) w s Q =
     run_to m w s (\<lambda>r t. case r of Raise e \<Rightarrow> run_to (h e) w t Q | _ \<Rightarrow> Q r t)"
  by (auto simp: run_to_def io_try_def split: outcome.splits prod.splits)

lemma run_to_if [run_simps, simp]:
  "run_to (if b then m else n) w s Q = (if b then run_to m w s Q else run_to n w s Q)"
  by simp

lemma run_to_mono:
  "run_to m w s P \<Longrightarrow> (\<And>r t. P r t \<Longrightarrow> Q r t) \<Longrightarrow> run_to m w s Q"
  by (auto simp: run_to_def split: prod.splits)

lemma run_to_conj: "run_to m w s (\<lambda>r t. P r t \<and> Q r t) \<longleftrightarrow> run_to m w s P \<and> run_to m w s Q"
  by (auto simp: run_to_def split: prod.splits)

lemma run_toD: "run_to m w s Q \<Longrightarrow> m w s = (r, t) \<Longrightarrow> Q r t"
  by (simp add: run_to_def)

lemma run_toI: "(\<And>r t. m w s = (r, t) \<Longrightarrow> Q r t) \<Longrightarrow> run_to m w s Q"
  by (auto simp: run_to_def split: prod.splits)

lemma run_to_bindI:
  assumes "run_to m w s P"
    and "\<And>x t. P (Return x) t \<Longrightarrow> run_to (f x) w t Q"
    and "\<And>e t. P (Raise e) t \<Longrightarrow> Q (Raise e) t"
    and "\<And>t. P Cut t \<Longrightarrow> Q Cut t"
  shows "run_to (io_bind m f) w s Q"
  unfolding run_to_bind using assms(2-4)
  by (intro run_to_mono [OF assms(1)]) (auto split: outcome.splits)

lemma io_return_bind: "io_bind (io_return x) f = f x"
  by (simp add: io_bind_def io_return_def fun_eq_iff)

lemma io_bind_return: "io_bind m io_return = m"
  by (auto simp: io_bind_def io_return_def fun_eq_iff split: prod.splits outcome.splits)

lemma io_bind_assoc: "io_bind (io_bind m f) g = io_bind m (\<lambda>x. io_bind (f x) g)"
  by (auto simp: io_bind_def fun_eq_iff split: prod.splits outcome.splits)

subsection \<open>Lists\<close>

lemma sum_list_remove_nth:
  fixes f :: "'a \<Rightarrow> int"
  assumes "i < length xs"
  shows "sum_list (map f (take i xs @ drop (Suc i) xs)) = sum_list (map f xs) - f (xs ! i)"
proof -
  have "sum_list (map f xs) = sum_list (map f (take i xs @ xs ! i # drop (Suc i) xs))"
    using id_take_nth_drop [OF assms] by simp
  then show ?thesis by simp
qed

end
