(* ===== verification/Ticks.thy ===== *)
theory Ticks
  imports Prelude
begin

section \<open>The 30-bit tick counter, uptime, schedules and sliced waits\<close>

text \<open>
  MicroPython's \<open>time.ticks_ms\<close> on the RP2 counts milliseconds modulo \<open>2^30\<close>;
  \<open>ticks_diff\<close> is the signed distance in \<open>[-2^29, 2^29)\<close> and \<open>ticks_add\<close> raises
  \<open>OverflowError\<close> for a delta outside \<open>(-2^29, 2^29)\<close>. On top of them:
  the accumulated uptime (\<open>uptime.py\<close>), the anchored schedules of Core 1
  (\<open>_regrid_next_boundary\<close> and the boundary-skipping loops of \<open>core1_main\<close>),
  the sliced waits (\<open>network_wait.py\<close>, \<open>device_manager.py\<close>) and the
  elapsed-time gates of Core 0. A true time is an unbounded \<open>int\<close> of milliseconds and
  \<open>ticks_of\<close> is what the counter shows at it.
\<close>

subsection \<open>Tick arithmetic\<close>

definition ticks_period :: int where
  "ticks_period = 2 ^ 30"

definition ticks_half :: int where
  "ticks_half = 2 ^ 29"

definition ticks_of :: "int \<Rightarrow> int" where
  "ticks_of t = t mod ticks_period"

definition ticks_diff :: "int \<Rightarrow> int \<Rightarrow> int" where
  "ticks_diff a b = (a - b + ticks_half) mod ticks_period - ticks_half"

definition ticks_add :: "int \<Rightarrow> int \<Rightarrow> int res" where
  "ticks_add t d =
     (if - ticks_half < d \<and> d < ticks_half then Inr ((t + d) mod ticks_period)
      else Inl OverflowError)"

lemmas ticks_consts = ticks_period_def ticks_half_def

lemma ticks_of_range [simp]: "0 \<le> ticks_of t" "ticks_of t < ticks_period"
  by (simp_all add: ticks_of_def ticks_period_def)

lemma ticks_of_idem [simp]: "ticks_of (ticks_of t) = ticks_of t"
  by (simp add: ticks_of_def)

lemma ticks_diff_range: "- ticks_half \<le> ticks_diff a b" "ticks_diff a b < ticks_half"
proof -
  have "0 \<le> (a - b + ticks_half) mod ticks_period"
    by (rule pos_mod_sign) (simp add: ticks_period_def)
  then show "- ticks_half \<le> ticks_diff a b" by (simp add: ticks_diff_def)
  have "(a - b + ticks_half) mod ticks_period < ticks_period"
    by (rule pos_mod_bound) (simp add: ticks_period_def)
  then show "ticks_diff a b < ticks_half" by (simp add: ticks_diff_def ticks_consts)
qed

lemma ticks_diff_of:
  "ticks_diff (ticks_of a) (ticks_of b) = (a - b + ticks_half) mod ticks_period - ticks_half"
proof -
  have "(a mod ticks_period - b mod ticks_period + ticks_half) mod ticks_period =
        (a - b + ticks_half) mod ticks_period"
    by (metis mod_add_left_eq mod_diff_eq)
  then show ?thesis by (simp add: ticks_diff_def ticks_of_def)
qed

lemma ticks_diff_exact [simp]:
  assumes "- ticks_half \<le> a - b" and "a - b < ticks_half"
  shows "ticks_diff (ticks_of a) (ticks_of b) = a - b"
proof -
  have "(a - b + ticks_half) mod ticks_period = a - b + ticks_half"
    using assms by (intro mod_pos_pos_trivial) (simp_all add: ticks_consts)
  then show ?thesis by (simp add: ticks_diff_of)
qed

lemma ticks_diff_stale:
  assumes "ticks_half \<le> a - b" and "a - b < ticks_period"
  shows "ticks_diff (ticks_of a) (ticks_of b) = a - b - ticks_period"
proof -
  have "(a - b + ticks_half) mod ticks_period = (a - b + ticks_half - ticks_period) mod ticks_period"
    by (simp add: mod_diff_right_eq [symmetric])
  also have "\<dots> = a - b + ticks_half - ticks_period"
    using assms by (intro mod_pos_pos_trivial) (simp_all add: ticks_consts)
  finally show ?thesis by (simp add: ticks_diff_of)
qed

lemma ticks_add_of [simp]:
  "- ticks_half < d \<Longrightarrow> d < ticks_half \<Longrightarrow> ticks_add (ticks_of t) d = Inr (ticks_of (t + d))"
  by (simp add: ticks_add_def ticks_of_def mod_simps)

lemma ticks_add_overflow [simp]: "ticks_half \<le> d \<Longrightarrow> ticks_add t d = Inl OverflowError"
  by (simp add: ticks_add_def)

subsection \<open>Uptime\<close>

record uptime_state =
  last_ticks_ms :: int
  accumulated_ms :: int

definition create_uptime_state :: "int \<Rightarrow> uptime_state" where
  "create_uptime_state boot_ticks_ms = \<lparr>last_ticks_ms = boot_ticks_ms, accumulated_ms = 0\<rparr>"

text \<open>\<open>now_ms\<close> is the reading of \<open>time.ticks_ms()\<close>; the result is the uptime and the new state.\<close>

definition current_uptime_ms :: "int \<Rightarrow> uptime_state \<Rightarrow> int \<times> uptime_state" where
  "current_uptime_ms now_ms st =
     (let acc = accumulated_ms st + ticks_diff now_ms (last_ticks_ms st)
      in (acc, st\<lparr>accumulated_ms := acc, last_ticks_ms := now_ms\<rparr>))"

fun uptime_samples :: "uptime_state \<Rightarrow> int list \<Rightarrow> uptime_state" where
  "uptime_samples st [] = st"
| "uptime_samples st (now_ms # rest) = uptime_samples (snd (current_uptime_ms now_ms st)) rest"

text \<open>True sample times, each at or after the one before and less than half a period later.\<close>

fun spaced :: "int \<Rightarrow> int list \<Rightarrow> bool" where
  "spaced a [] = True"
| "spaced a (t # ts) = (a \<le> t \<and> t - a < ticks_half \<and> spaced t ts)"

lemma uptime_samples_tracks:
  "spaced a ts \<Longrightarrow> last_ticks_ms st = ticks_of a \<Longrightarrow>
   accumulated_ms (uptime_samples st (map ticks_of ts)) = accumulated_ms st + (last (a # ts) - a)
   \<and> last_ticks_ms (uptime_samples st (map ticks_of ts)) = ticks_of (last (a # ts))"
proof (induction ts arbitrary: a st)
  case Nil
  then show ?case by simp
next
  case (Cons t ts)
  let ?st = "snd (current_uptime_ms (ticks_of t) st)"
  have lt: "last_ticks_ms ?st = ticks_of t"
    by (simp add: current_uptime_ms_def Let_def)
  have acc: "accumulated_ms ?st = accumulated_ms st + (t - a)"
    using Cons.prems by (simp add: current_uptime_ms_def Let_def ticks_consts)
  have "spaced t ts" using Cons.prems by simp
  from Cons.IH [OF this lt] acc show ?case by auto
qed

lemma spaced_last: "spaced a ts \<Longrightarrow> a \<le> last (a # ts)"
  by (induction ts arbitrary: a) force+

subsection \<open>Anchored boundaries\<close>

text \<open>\<open>_regrid_next_boundary\<close>: Python's \<open>//\<close> raises on a zero interval.\<close>

definition regrid_next_boundary :: "int \<Rightarrow> int \<Rightarrow> int \<Rightarrow> int res" where
  "regrid_next_boundary anchor now interval_ms =
     (let elapsed = ticks_diff now anchor in
      if elapsed < 0 then Inr anchor
      else if interval_ms = 0 then Inl ZeroDivisionError
      else ticks_add anchor ((elapsed div interval_ms + 1) * interval_ms))"

text \<open>
  The advance loop of every scheduler in \<open>core1_main\<close>:
  \<open>while ticks_diff(now, next) >= 0: next = ticks_add(next, interval)\<close>.
  \<open>None\<close> means that it does not return.
\<close>

partial_function (option) skip_elapsed :: "int \<Rightarrow> int \<Rightarrow> int \<Rightarrow> int res option" where
  "skip_elapsed now next_ms interval_ms =
     (if ticks_diff now next_ms \<ge> 0
      then (case ticks_add next_ms interval_ms of
              Inl e \<Rightarrow> Some (Inl e)
            | Inr n \<Rightarrow> skip_elapsed now n interval_ms)
      else Some (Inr next_ms))"

text \<open>The least boundary of the grid through \<open>d\<close> that lies strictly after \<open>n\<close>.\<close>

definition next_grid :: "int \<Rightarrow> int \<Rightarrow> int \<Rightarrow> int" where
  "next_grid d n i = (if n < d then d else d + ((n - d) div i + 1) * i)"

lemma next_grid_after: "0 < i \<Longrightarrow> n < next_grid d n i"
proof -
  assume i: "0 < i"
  have "n - d < i * ((n - d) div i) + i"
    using i mult_div_mod_eq [of i "n - d"] pos_mod_bound [of i "n - d"] by linarith
  then have "n - d < ((n - d) div i + 1) * i" by (simp add: ring_distribs mult.commute)
  then show ?thesis by (simp add: next_grid_def)
qed

lemma next_grid_le: "0 < i \<Longrightarrow> d \<le> n \<Longrightarrow> next_grid d n i \<le> n + i"
proof -
  assume i: "0 < i" and "d \<le> n"
  have "i * ((n - d) div i) \<le> n - d"
    using i mult_div_mod_eq [of i "n - d"] pos_mod_sign [of i "n - d"] by linarith
  with \<open>d \<le> n\<close> show ?thesis by (simp add: next_grid_def algebra_simps)
qed

lemma next_grid_dvd: "i dvd (next_grid d n i - d)"
  by (simp add: next_grid_def)

lemma div_less_of_less_mult:
  fixes i m k :: int
  assumes "0 < i" and "m < i * k"
  shows "m div i < k"
proof (rule ccontr)
  assume "\<not> m div i < k"
  then have "i * k \<le> i * (m div i)" using assms(1) by (intro mult_left_mono) auto
  also have "\<dots> \<le> m"
    using mult_div_mod_eq [of i m] pos_mod_sign [OF assms(1), of m] by linarith
  finally show False using assms(2) by linarith
qed

lemma next_grid_least:
  assumes "0 < i" and "d \<le> b" and "i dvd (b - d)" and "n < b"
  shows "next_grid d n i \<le> b"
proof (cases "n < d")
  case True
  with assms show ?thesis by (simp add: next_grid_def)
next
  case False
  from assms(3) obtain k where k: "b - d = i * k" by (auto elim: dvdE)
  have "n - d < i * k" using assms(4) k by linarith
  then have "(n - d) div i < k" by (rule div_less_of_less_mult [OF assms(1)])
  then have "((n - d) div i + 1) * i \<le> k * i" using assms(1) by (intro mult_right_mono) auto
  then show ?thesis using False k by (simp add: next_grid_def mult.commute)
qed

lemma next_grid_step:
  assumes "0 < i" and "d \<le> n"
  shows "next_grid (d + i) n i = next_grid d n i"
proof (cases "n < d + i")
  case True
  then have "(n - d) div i = 0" using assms by (intro div_pos_pos_trivial) auto
  with True assms show ?thesis by (simp add: next_grid_def)
next
  case False
  have "(n - (d + i)) div i = (n - d) div i - 1"
    using assms(1) div_add_self2 [of i "n - d - i"] by (simp add: algebra_simps)
  with False assms show ?thesis by (simp add: next_grid_def algebra_simps)
qed

lemma regrid_grid:
  assumes "0 < i" and "a \<le> n" and "n - a < ticks_half"
    and "next_grid a n i - a < ticks_half"
  shows "regrid_next_boundary (ticks_of a) (ticks_of n) i = Inr (ticks_of (next_grid a n i))"
proof -
  have d: "ticks_diff (ticks_of n) (ticks_of a) = n - a"
    using assms by (intro ticks_diff_exact) (simp_all add: ticks_consts)
  have eq: "next_grid a n i = a + ((n - a) div i + 1) * i"
    using assms(2) by (simp add: next_grid_def)
  have pos: "0 < ((n - a) div i + 1) * i"
    using next_grid_after [OF assms(1), of n a] assms(2) eq by linarith
  have "ticks_add (ticks_of a) (((n - a) div i + 1) * i) =
        Inr (ticks_of (a + ((n - a) div i + 1) * i))"
  proof (rule ticks_add_of)
    show "- ticks_half < ((n - a) div i + 1) * i" using pos by (simp add: ticks_consts)
    show "((n - a) div i + 1) * i < ticks_half" using assms(4) eq by linarith
  qed
  then show ?thesis using assms(1,2) d eq by (simp add: regrid_next_boundary_def)
qed

lemma skip_elapsed_grid:
  assumes "0 < i" and "i < ticks_half" and "n - d < ticks_half" and "d - n \<le> ticks_half"
  shows "skip_elapsed (ticks_of n) (ticks_of d) i = Some (Inr (ticks_of (next_grid d n i)))"
  using assms
proof (induction "nat (n - d + 1)" arbitrary: d rule: less_induct)
  case less
  have diff: "ticks_diff (ticks_of n) (ticks_of d) = n - d"
    using less.prems by (intro ticks_diff_exact) auto
  show ?case
  proof (cases "n < d")
    case True
    then show ?thesis by (subst skip_elapsed.simps) (simp add: diff next_grid_def)
  next
    case False
    have "ticks_add (ticks_of d) i = Inr (ticks_of (d + i))"
      using less.prems by (intro ticks_add_of) (simp_all add: ticks_consts)
    then have "skip_elapsed (ticks_of n) (ticks_of d) i = skip_elapsed (ticks_of n) (ticks_of (d + i)) i"
      using False by (subst skip_elapsed.simps) (simp add: diff)
    also have "\<dots> = Some (Inr (ticks_of (next_grid (d + i) n i)))"
      using less.prems False by (intro less.hyps) auto
    also have "next_grid (d + i) n i = next_grid d n i"
      using less.prems False by (intro next_grid_step) auto
    finally show ?thesis .
  qed
qed

subsection \<open>Sliced waits\<close>

datatype wait_act = Service | SleepMs int

text \<open>
  \<open>sleep_sliced\<close>: \<open>int(delay_sec * 10)\<close> slices. The configured delays are
  integers, so the product is exact.
\<close>

definition sleep_sliced :: "int \<Rightarrow> wait_act list" where
  "sleep_sliced delay_sec =
     (if delay_sec \<le> 0 then []
      else concat (replicate (nat (delay_sec * 10)) [Service, SleepMs 100]))"

text \<open>\<open>DeviceManager._sleep_with_activity_refresh\<close>; \<open>Service\<close> is the liveness refresh.\<close>

function sleep_with_activity_refresh :: "int \<Rightarrow> wait_act list" where
  "sleep_with_activity_refresh delay_ms =
     (if delay_ms > 0
      then (let step_ms = min delay_ms 100
            in SleepMs step_ms # Service # sleep_with_activity_refresh (delay_ms - step_ms))
      else [])"
  by pat_completeness auto
termination
  by (relation "measure nat") (auto simp: min_def)

declare sleep_with_activity_refresh.simps [simp del]

fun slept_ms :: "wait_act list \<Rightarrow> int" where
  "slept_ms [] = 0"
| "slept_ms (Service # xs) = slept_ms xs"
| "slept_ms (SleepMs d # xs) = d + slept_ms xs"

text \<open>The longest stretch without a servicing call; \<open>u\<close> is the stretch already open.\<close>

fun longest_unserviced :: "int \<Rightarrow> wait_act list \<Rightarrow> int" where
  "longest_unserviced u [] = u"
| "longest_unserviced u (Service # xs) = max u (longest_unserviced 0 xs)"
| "longest_unserviced u (SleepMs d # xs) = longest_unserviced (u + d) xs"

lemma slept_ms_append: "slept_ms (xs @ ys) = slept_ms xs + slept_ms ys"
  by (induction xs rule: slept_ms.induct) auto

lemma slept_ms_slices: "slept_ms (concat (replicate n [Service, SleepMs 100])) = 100 * int n"
  by (induction n) (auto simp: algebra_simps)

lemma longest_unserviced_slices:
  "0 \<le> u \<Longrightarrow> u \<le> 100 \<Longrightarrow> longest_unserviced u (concat (replicate n [Service, SleepMs 100])) \<le> 100"
  by (induction n arbitrary: u) auto

lemma longest_unserviced_refresh:
  "longest_unserviced 0 (sleep_with_activity_refresh d) \<le> 100"
proof (induction d rule: sleep_with_activity_refresh.induct)
  case (1 d)
  then show ?case by (subst sleep_with_activity_refresh.simps) (auto simp: Let_def)
qed

lemma slept_ms_refresh: "slept_ms (sleep_with_activity_refresh d) = max d 0"
proof (induction d rule: sleep_with_activity_refresh.induct)
  case (1 d)
  then show ?case by (subst sleep_with_activity_refresh.simps) (auto simp: Let_def)
qed

subsection \<open>Properties\<close>

text \<open>
  C1: the accumulated uptime equals the true elapsed time, across any number of wraps of
  the tick counter, as long as two consecutive samples are less than half a period apart.
\<close>

theorem uptime_exact:
  assumes "spaced boot ts" and "ts \<noteq> []"
  shows "accumulated_ms (uptime_samples (create_uptime_state (ticks_of boot)) (map ticks_of ts))
         = last ts - boot"
  using uptime_samples_tracks [OF assms(1), of "create_uptime_state (ticks_of boot)"] assms(2)
  by (simp add: create_uptime_state_def)

theorem uptime_exact_witness:
  "accumulated_ms (uptime_samples (create_uptime_state (ticks_of 5))
     (map ticks_of [500000000, 1000000000, 1500000000])) = 1499999995"
proof -
  have "spaced 5 [500000000, 1000000000, 1500000000]" by code_simp
  from uptime_exact [OF this] show ?thesis by simp
qed

text \<open>
  the periodic schedulers. Advancing a boundary past \<open>now\<close> ends, and the result is
  the least boundary of the same grid strictly after \<open>now\<close> (missed boundaries are
  skipped, the phase is kept); \<open>_regrid_next_boundary\<close> computes the same one from the anchor.
\<close>

theorem boundaries_stay_on_grid:
  assumes "0 < i" and "i < ticks_half" and "n - d < ticks_half" and "d - n \<le> ticks_half"
  shows "skip_elapsed (ticks_of n) (ticks_of d) i = Some (Inr (ticks_of (next_grid d n i)))
     \<and> n < next_grid d n i \<and> i dvd (next_grid d n i - d)
     \<and> (d \<le> n \<longrightarrow> next_grid d n i \<le> n + i)
     \<and> (d \<le> n \<and> next_grid d n i - d < ticks_half \<longrightarrow>
          regrid_next_boundary (ticks_of d) (ticks_of n) i = Inr (ticks_of (next_grid d n i)))"
  using skip_elapsed_grid [OF assms] next_grid_after [OF assms(1)] next_grid_dvd
    next_grid_le [OF assms(1)] regrid_grid [OF assms(1)] assms(3)
  by blast

theorem boundaries_stay_on_grid_witness:
  "skip_elapsed (ticks_of 1073741900) (ticks_of 1073741800) 30 = Some (Inr 96)"
proof -
  have "(0::int) < 30 \<and> (30::int) < ticks_half \<and> 1073741900 - 1073741800 < ticks_half
    \<and> 1073741800 - 1073741900 \<le> ticks_half"
    by (simp add: ticks_consts)
  moreover have "ticks_of (next_grid 1073741800 1073741900 30) = 96" by code_simp
  ultimately show ?thesis
    using boundaries_stay_on_grid [of 30 1073741900 1073741800] by simp
qed

text \<open>
  a sliced network wait lasts the whole configured delay and services the watchdogs
  at least every 100 ms; so does the device manager's retry sleep.
\<close>

theorem waits_stay_serviced:
  "slept_ms (sleep_sliced d) = 1000 * max d 0
   \<and> longest_unserviced 0 (sleep_sliced d) \<le> 100
   \<and> slept_ms (sleep_with_activity_refresh d) = max d 0
   \<and> longest_unserviced 0 (sleep_with_activity_refresh d) \<le> 100"
  using slept_ms_slices [of "nat (d * 10)"] longest_unserviced_slices [of 0 "nat (d * 10)"]
    slept_ms_refresh [of d] longest_unserviced_refresh [of d]
  by (simp add: sleep_sliced_def)

end
