(* ===== verification/Messages.thy ===== *)
theory Messages
  imports Prelude
begin

section \<open>Outbound values: JSON safety, serialization, timestamps\<close>

text \<open>
  \<open>message_protocol.py\<close> and \<open>message_serializer.py\<close>: the two validators of
  outbound values, MicroPython's \<open>json.dumps\<close> on the values they accept, the size
  ceiling, and the UTC timestamp of the messages. The decimal text of a finite
  float is a parameter \<open>fr\<close> (the port's float formatting).
\<close>

subsection \<open>JSON safety\<close>

fun is_json_safe :: "pyval \<Rightarrow> bool" where
  "is_json_safe PNone = True"
| "is_json_safe (PStr s) = True"
| "is_json_safe (PInt i) = True"
| "is_json_safe (PBool b) = True"
| "is_json_safe (PFloat f) = (case f of Finite r \<Rightarrow> True | _ \<Rightarrow> False)"
| "is_json_safe (PList xs) = list_all is_json_safe xs"
| "is_json_safe (PTuple xs) = list_all is_json_safe xs"
| "is_json_safe (PDict d) = list_all (\<lambda>(k, v). is_str k \<and> is_json_safe v) d"
| "is_json_safe (PObj n) = False"

fun validate_value :: "pyval \<Rightarrow> unit res"
  and validate_items :: "pyval list \<Rightarrow> unit res"
  and validate_entries :: "pydict \<Rightarrow> unit res" where
  "validate_value PNone = Inr ()"
| "validate_value (PBool b) = Inr ()"
| "validate_value (PInt i) = Inr ()"
| "validate_value (PFloat f) =
     (case f of Finite r \<Rightarrow> Inr () | _ \<Rightarrow> Inl NonFiniteFloatError)"
| "validate_value (PStr s) = Inr ()"
| "validate_value (PList xs) = validate_items xs"
| "validate_value (PTuple xs) = validate_items xs"
| "validate_value (PDict d) = validate_entries d"
| "validate_value (PObj n) = Inl UnsupportedValueError"
| "validate_items [] = Inr ()"
| "validate_items (x # xs) = andthen (validate_value x) (\<lambda>_. validate_items xs)"
| "validate_entries [] = Inr ()"
| "validate_entries ((k, v) # d) =
     (if \<not> is_str k then Inl NonStringKeyError
      else andthen (validate_value v) (\<lambda>_. validate_entries d))"

lemma validate_value_ok:
  "(validate_value v = Inr ()) = is_json_safe v"
  "(validate_items xs = Inr ()) = list_all is_json_safe xs"
  "(validate_entries d = Inr ()) = list_all (\<lambda>(k, v). is_str k \<and> is_json_safe v) d"
proof (induction v and xs and d rule: validate_value_validate_items_validate_entries.induct)
  case (4 f)
  then show ?case by (cases f) auto
qed (auto simp: res_simps)

lemma validate_value_error:
  "validate_value v = Inl e \<Longrightarrow> e \<in> {UnsupportedValueError, NonStringKeyError, NonFiniteFloatError}"
  "validate_items xs = Inl e \<Longrightarrow> e \<in> {UnsupportedValueError, NonStringKeyError, NonFiniteFloatError}"
  "validate_entries d = Inl e \<Longrightarrow> e \<in> {UnsupportedValueError, NonStringKeyError, NonFiniteFloatError}"
proof (induction v and xs and d rule: validate_value_validate_items_validate_entries.induct)
  case (4 f)
  then show ?case by (cases f) auto
qed (auto simp: res_simps split: if_splits)

subsection \<open>Decimal and hexadecimal text\<close>

definition digit :: "nat \<Rightarrow> char" where
  "digit d = char_of (if d < 10 then 48 + d else 87 + d)"

fun nat_str :: "nat \<Rightarrow> string" where
  "nat_str n = (if n < 10 then [digit n] else nat_str (n div 10) @ [digit (n mod 10)])"

declare nat_str.simps [simp del]

definition int_str :: "int \<Rightarrow> string" where
  "int_str i = (if i < 0 then ''-'' @ nat_str (nat (- i)) else nat_str (nat i))"

text \<open>\<open>{:0wd}\<close> of a non-negative number.\<close>

definition pad_str :: "nat \<Rightarrow> nat \<Rightarrow> string" where
  "pad_str w n = replicate (w - length (nat_str n)) (CHR ''0'') @ nat_str n"

lemma nat_str_nonempty [simp]: "nat_str n \<noteq> []"
  by (subst nat_str.simps) simp

lemma length_nat_str_le: "0 < k \<Longrightarrow> n < 10 ^ k \<Longrightarrow> length (nat_str n) \<le> k"
proof (induction n arbitrary: k rule: nat_str.induct)
  case (1 n)
  show ?case
  proof (cases "n < 10")
    case True
    with "1.prems" show ?thesis by (subst nat_str.simps) simp
  next
    case False
    then obtain j where k: "k = Suc j" "0 < j" using "1.prems"
      by (cases k) (auto, metis gr0I power_0 power_one_right mult.right_neutral)
    have "n div 10 < 10 ^ j" using "1.prems" k by (simp add: less_mult_imp_div_less mult.commute)
    then have "length (nat_str (n div 10)) \<le> j" using "1.IH" False k by simp
    with False k show ?thesis by (subst nat_str.simps) simp
  qed
qed

lemma length_pad_str: "0 < w \<Longrightarrow> n < 10 ^ w \<Longrightarrow> length (pad_str w n) = w"
  using length_nat_str_le [of w n] by (simp add: pad_str_def)

subsection \<open>json.dumps\<close>

definition json_char :: "char \<Rightarrow> string" where
  "json_char c =
     (let n = (of_char c :: nat) in
      if n = 34 \<or> n = 92 then [CHR 0x5C, c]
      else if n \<ge> 32 then [c]
      else if n = 10 then [CHR 0x5C, CHR ''n'']
      else if n = 13 then [CHR 0x5C, CHR ''r'']
      else if n = 9 then [CHR 0x5C, CHR ''t'']
      else [CHR 0x5C, CHR ''u'', CHR ''0'', CHR ''0'', digit (n div 16), digit (n mod 16)])"

definition json_string :: "string \<Rightarrow> string" where
  "json_string s = [CHR 0x22] @ concat (map json_char s) @ [CHR 0x22]"

fun join_comma :: "string list \<Rightarrow> string" where
  "join_comma [] = []"
| "join_comma [s] = s"
| "join_comma (s # t # rest) = s @ '', '' @ join_comma (t # rest)"

fun json_text :: "(rat \<Rightarrow> string) \<Rightarrow> pyval \<Rightarrow> string" where
  "json_text fr PNone = ''null''"
| "json_text fr (PBool b) = (if b then ''true'' else ''false'')"
| "json_text fr (PInt i) = int_str i"
| "json_text fr (PFloat f) = (case f of Finite r \<Rightarrow> fr r | _ \<Rightarrow> [])"
| "json_text fr (PStr s) = json_string s"
| "json_text fr (PList xs) = ''['' @ join_comma (map (json_text fr) xs) @ '']''"
| "json_text fr (PTuple xs) = ''['' @ join_comma (map (json_text fr) xs) @ '']''"
| "json_text fr (PDict d) =
     ''{'' @ join_comma (map (\<lambda>(k, v). json_text fr k @ '': '' @ json_text fr v) d) @ ''}''"
| "json_text fr (PObj n) = []"

definition json_members :: "(rat \<Rightarrow> string) \<Rightarrow> pydict \<Rightarrow> string" where
  "json_members fr d = join_comma (map (\<lambda>(k, v). json_text fr k @ '': '' @ json_text fr v) d)"

lemma json_text_dict: "json_text fr (PDict d) = ''{'' @ json_members fr d @ ''}''"
  by (simp add: json_members_def)

text \<open>\<open>json.dumps\<close> is specified on JSON-safe values only; elsewhere it raises here.\<close>

definition json_dumps :: "(rat \<Rightarrow> string) \<Rightarrow> pyval \<Rightarrow> string option" where
  "json_dumps fr v = (if is_json_safe v then Some (json_text fr v) else None)"

subsection \<open>Serialization of an outbound message\<close>

definition MAX_OUTBOUND_MESSAGE_BYTES :: nat where
  "MAX_OUTBOUND_MESSAGE_BYTES = 16 * 1024"

lemma max_bytes_binary [code_unfold]:
  "MAX_OUTBOUND_MESSAGE_BYTES < n \<longleftrightarrow> (16384 :: int) < int n"
  "n \<le> MAX_OUTBOUND_MESSAGE_BYTES \<longleftrightarrow> int n \<le> (16384 :: int)"
  by (simp_all add: MAX_OUTBOUND_MESSAGE_BYTES_def)

definition serialize_to_bytes :: "(rat \<Rightarrow> string) \<Rightarrow> pyval \<Rightarrow> string res" where
  "serialize_to_bytes fr message =
     (case json_dumps fr message of None \<Rightarrow> Inl SerializationError | Some s \<Rightarrow> Inr s)"

definition serialize_and_validate_message :: "(rat \<Rightarrow> string) \<Rightarrow> pyval \<Rightarrow> string res" where
  "serialize_and_validate_message fr message =
     andthen (if \<not> is_json_safe message then validate_value message else Inr ()) (\<lambda>_.
     andthen (serialize_to_bytes fr message) (\<lambda>payload_bytes.
       if length payload_bytes > MAX_OUTBOUND_MESSAGE_BYTES then Inl MessageTooLargeError
       else Inr payload_bytes))"

lemma serialize_ok_iff:
  "serialize_and_validate_message fr m = Inr bs \<longleftrightarrow>
   is_json_safe m \<and> bs = json_text fr m \<and> length bs \<le> MAX_OUTBOUND_MESSAGE_BYTES"
  using validate_value_ok(1) [of m]
  by (auto simp: serialize_and_validate_message_def serialize_to_bytes_def json_dumps_def res_simps)

lemma serialize_error:
  assumes "serialize_and_validate_message fr m = Inl e"
  shows "(if is_json_safe m then e = MessageTooLargeError
          else e \<in> {UnsupportedValueError, NonStringKeyError, NonFiniteFloatError})"
proof (cases "is_json_safe m")
  case True
  with assms show ?thesis
    by (auto simp: serialize_and_validate_message_def serialize_to_bytes_def json_dumps_def
        split: if_splits)
next
  case False
  then obtain e' where "validate_value m = Inl e'"
    using validate_value_ok(1) [of m] by (cases "validate_value m") auto
  with assms False validate_value_error(1) show ?thesis
    by (auto simp: serialize_and_validate_message_def)
qed

subsection \<open>Timestamps\<close>

text \<open>
  \<open>time.gmtime\<close> (epoch 1970): the civil date of a day number by the
  400-year-era computation, and the time of day.
\<close>

definition civil_from_days :: "int \<Rightarrow> int \<times> int \<times> int" where
  "civil_from_days days =
     (let z = days + 719468;
          era = z div 146097;
          doe = z mod 146097;
          yoe = (doe - doe div 1460 + doe div 36524 - doe div 146096) div 365;
          doy = doe - (365 * yoe + yoe div 4 - yoe div 100);
          mp = (5 * doy + 2) div 153;
          d = doy - (153 * mp + 2) div 5 + 1;
          m = (if mp < 10 then mp + 3 else mp - 9)
      in (yoe + era * 400 + (if m \<le> 2 then 1 else 0), m, d))"

definition format_utc_epoch_ms :: "int option \<Rightarrow> string option" where
  "format_utc_epoch_ms epoch =
     (case epoch of
        None \<Rightarrow> None
      | Some epoch_ms \<Rightarrow>
         (let secs = epoch_ms div 1000;
              (y, mo, d) = civil_from_days (secs div 86400);
              sod = secs mod 86400
          in Some (pad_str 4 (nat y) @ ''-'' @ pad_str 2 (nat mo) @ ''-'' @ pad_str 2 (nat d)
               @ ''T'' @ pad_str 2 (nat (sod div 3600)) @ '':'' @ pad_str 2 (nat (sod mod 3600 div 60))
               @ '':'' @ pad_str 2 (nat (sod mod 60)) @ ''Z'')))"

lemma civil_from_days_1970: "civil_from_days 0 = (1970, 1, 1)"
  by code_simp

lemma civil_from_days_leap: "civil_from_days 19782 = (2024, 2, 29)"
  by code_simp

subsection \<open>Hexadecimal text\<close>

text \<open>\<open>{:02x}\<close> of a byte, and \<open>{:08x}\<close> of a 32-bit number.\<close>

fun hex_digits :: "nat \<Rightarrow> nat \<Rightarrow> string" where
  "hex_digits 0 n = []"
| "hex_digits (Suc w) n = hex_digits w (n div 16) @ [digit (n mod 16)]"

definition hex_bytes :: "nat list \<Rightarrow> string" where
  "hex_bytes bs = concat (map (hex_digits 2) bs)"

lemma length_hex_digits [simp]: "length (hex_digits w n) = w"
  by (induction w n rule: hex_digits.induct) auto

lemma digit_inject: "a < 16 \<Longrightarrow> b < 16 \<Longrightarrow> digit a = digit b \<longleftrightarrow> a = b"
proof -
  have "distinct (map digit [0..<16])" by code_simp
  then have "inj_on digit (set [0..<16])" by (simp only: distinct_map)
  then show "a < 16 \<Longrightarrow> b < 16 \<Longrightarrow> digit a = digit b \<longleftrightarrow> a = b"
    by (auto simp: inj_on_def)
qed

lemma hex_digits_inject:
  "a < 16 ^ w \<Longrightarrow> b < 16 ^ w \<Longrightarrow> hex_digits w a = hex_digits w b \<Longrightarrow> a = b"
proof (induction w arbitrary: a b)
  case (Suc w)
  then have "hex_digits w (a div 16) = hex_digits w (b div 16)" "a mod 16 = b mod 16"
    by (auto simp: digit_inject)
  moreover have "a div 16 < 16 ^ w" "b div 16 < 16 ^ w" using Suc.prems by (auto simp: less_mult_imp_div_less mult.commute)
  ultimately have "a div 16 = b div 16" "a mod 16 = b mod 16" using Suc.IH by blast+
  then show ?case by (metis div_mult_mod_eq)
qed simp

lemma hex_bytes_inject:
  "list_all (\<lambda>x. x < 256) a \<Longrightarrow> list_all (\<lambda>x. x < 256) b \<Longrightarrow> hex_bytes a = hex_bytes b \<Longrightarrow> a = b"
proof (induction a arbitrary: b)
  case Nil
  then show ?case by (cases b) (auto simp: hex_bytes_def numeral_2_eq_2)
next
  case (Cons x a)
  then obtain y c where b: "b = y # c" by (cases b) (auto simp: hex_bytes_def numeral_2_eq_2)
  with Cons.prems(3) have "hex_digits 2 x = hex_digits 2 y \<and> hex_bytes a = hex_bytes c"
    by (simp add: hex_bytes_def append_eq_append_conv del: hex_digits.simps)
  with Cons.prems Cons.IH [of c] b hex_digits_inject [of x 2 y] show ?case by simp
qed

end
