(* ===== verification/Outbound.thy ===== *)
theory Outbound
  imports Messages "HOL-Library.Multiset"
begin

section \<open>The outbound queue (Core 1 to Core 0)\<close>

text \<open>
  \<open>OutboundQueue\<close> of \<open>intercore.py\<close>. The queue is shared by two cores and its
  decisions read the free heap, so the model has an environment \<open>env\<close>: the value of
  each \<open>gc.mem_free()\<close> reading, whether each serialization attempt finds memory,
  and what Core 0 does to the queue each time the producer is about to take the queue
  lock. All of it is arbitrary; the \<open>clock\<close> of the state numbers the readings.
  Python object identity (\<open>self._in_flight is entry\<close>) is the number \<open>e_id\<close>.
  Two logs exist for the statements only: \<open>displaced\<close> (each evicted entry with the
  priority of the message it made room for) and \<open>released\<close> (the entries Core 0 has
  completed), both newest first. \<open>lock_held\<close> and \<open>lock_faults\<close> record the use of the queue lock: a fault is a
  \<open>gc.collect()\<close> under the lock or a second acquisition of it. The heap-admission
  lock serializes the admissions, so one admission at a time is modelled.
\<close>

subsection \<open>Constants, entries, state\<close>

datatype kind = KIND_TELEMETRY | KIND_COMMAND_RESPONSE | KIND_HEALTH | KIND_LOG

definition kind_of :: "string \<Rightarrow> kind option" where
  "kind_of s =
     (if s = ''telemetry'' then Some KIND_TELEMETRY
      else if s = ''command_response'' then Some KIND_COMMAND_RESPONSE
      else if s = ''health'' then Some KIND_HEALTH
      else if s = ''log'' then Some KIND_LOG
      else None)"

definition RETENTION_PRIORITY_CRITICAL :: int where "RETENTION_PRIORITY_CRITICAL = 10"
definition RETENTION_PRIORITY_ERROR :: int where "RETENTION_PRIORITY_ERROR = 20"
definition RETENTION_PRIORITY_WARN :: int where "RETENTION_PRIORITY_WARN = 30"
definition RETENTION_PRIORITY_TELEMETRY :: int where "RETENTION_PRIORITY_TELEMETRY = 40"
definition RETENTION_PRIORITY_INFO :: int where "RETENTION_PRIORITY_INFO = 50"
definition RETENTION_PRIORITY_HEALTH :: int where "RETENTION_PRIORITY_HEALTH = 70"
definition RETENTION_PRIORITY_MIN :: int where
  "RETENTION_PRIORITY_MIN = RETENTION_PRIORITY_CRITICAL"
definition RETENTION_PRIORITY_MAX :: int where
  "RETENTION_PRIORITY_MAX = RETENTION_PRIORITY_HEALTH"

lemmas priority_consts =
  RETENTION_PRIORITY_CRITICAL_def RETENTION_PRIORITY_ERROR_def RETENTION_PRIORITY_WARN_def
  RETENTION_PRIORITY_TELEMETRY_def RETENTION_PRIORITY_INFO_def RETENTION_PRIORITY_HEALTH_def
  RETENTION_PRIORITY_MIN_def RETENTION_PRIORITY_MAX_def

record entry =
  e_id :: nat
  e_kind :: kind
  retention_priority :: int
  payload_bytes :: string
  wire_sequence :: "int option"

datatype core0_act = C0_idle | C0_take | C0_complete bool

record env =
  mem_free_at :: "nat \<Rightarrow> int"
  alloc_ok_at :: "nat \<Rightarrow> bool"
  core0_at :: "nat \<Rightarrow> core0_act"
  float_repr :: "rat \<Rightarrow> string"

record outq =
  minimum_free_heap_bytes :: int
  preferred_free_heap_bytes :: int
  max_messages :: "int option"
  queue :: "entry list"
  in_flight :: "entry option"
  high_watermark :: int
  high_watermark_bytes :: int
  queued_bytes :: int
  messages_evicted :: int
  telemetry_evicted :: int
  messages_rejected :: int
  serialization_rejected :: int
  oversized_rejected :: int
  oversized_discarded :: int
  next_id :: nat
  clock :: nat
  lock_held :: bool
  lock_faults :: nat
  displaced :: "(int \<times> entry) list"
  released :: "entry list"

subsection \<open>Construction\<close>

definition require_positive_integer :: "pyval \<Rightarrow> unit res" where
  "require_positive_integer v = require (is_int v \<and> the_int v > 0) ValueError"

definition outq_init :: "pyval \<Rightarrow> pyval \<Rightarrow> pyval \<Rightarrow> outq res" where
  "outq_init minimum preferred maxm =
     andthen (require_positive_integer minimum) (\<lambda>_.
     (let preferred = (if preferred = PNone then minimum else preferred) in
      andthen (require_positive_integer preferred) (\<lambda>_.
      if the_int preferred < the_int minimum then Inl ValueError
      else andthen (if maxm \<noteq> PNone then require_positive_integer maxm else Inr ()) (\<lambda>_.
      Inr \<lparr>minimum_free_heap_bytes = the_int minimum,
           preferred_free_heap_bytes = the_int preferred,
           max_messages = (if maxm = PNone then None else Some (the_int maxm)),
           queue = [], in_flight = None,
           high_watermark = 0, high_watermark_bytes = 0, queued_bytes = 0,
           messages_evicted = 0, telemetry_evicted = 0, messages_rejected = 0,
           serialization_rejected = 0, oversized_rejected = 0, oversized_discarded = 0,
           next_id = 0, clock = 0, lock_held = False, lock_faults = 0,
           displaced = [], released = []\<rparr>))))"

subsection \<open>Core 0's side: take, complete\<close>

definition take_step :: "outq \<Rightarrow> entry option \<times> outq" where
  "take_step s =
     (case in_flight s of
        Some e \<Rightarrow> (Some e, s)
      | None \<Rightarrow> (case queue s of
                  [] \<Rightarrow> (None, s)
                | e # q \<Rightarrow> (Some e, s\<lparr>in_flight := Some e, queue := q\<rparr>)))"

definition complete_step :: "nat \<Rightarrow> bool \<Rightarrow> outq \<Rightarrow> bool \<times> outq" where
  "complete_step eid discarded s =
     (case in_flight s of
        Some e \<Rightarrow>
          if e_id e = eid
          then (True, s\<lparr>in_flight := None, released := e # released s,
                        queued_bytes := queued_bytes s - int (length (payload_bytes e)),
                        oversized_discarded := oversized_discarded s + (if discarded then 1 else 0)\<rparr>)
          else (False, s)
      | None \<Rightarrow> (False, s))"

definition core0_step :: "core0_act \<Rightarrow> outq \<Rightarrow> outq" where
  "core0_step a s =
     (case a of
        C0_idle \<Rightarrow> s
      | C0_take \<Rightarrow> snd (take_step s)
      | C0_complete d \<Rightarrow>
          (case in_flight s of None \<Rightarrow> s | Some e \<Rightarrow> snd (complete_step (e_id e) d s)))"

subsection \<open>The heap, the collector and the queue lock\<close>

definition mem_free_ge :: "env \<Rightarrow> int \<Rightarrow> outq \<Rightarrow> bool \<times> outq" where
  "mem_free_ge w b s = (mem_free_at w (clock s) \<ge> b, s\<lparr>clock := Suc (clock s)\<rparr>)"

definition reserve_restored :: "env \<Rightarrow> outq \<Rightarrow> bool \<times> outq" where
  "reserve_restored w s = mem_free_ge w (minimum_free_heap_bytes s) s"

definition preferred_restored :: "env \<Rightarrow> outq \<Rightarrow> bool \<times> outq" where
  "preferred_restored w s = mem_free_ge w (preferred_free_heap_bytes s) s"

definition gc_collect :: "outq \<Rightarrow> outq" where
  "gc_collect s =
     s\<lparr>clock := Suc (clock s), lock_faults := lock_faults s + (if lock_held s then 1 else 0)\<rparr>"

text \<open>\<open>with self._lock:\<close> around a body; Core 0 may have run just before the lock is taken.\<close>

definition with_lock :: "env \<Rightarrow> (outq \<Rightarrow> 'a \<times> outq) \<Rightarrow> outq \<Rightarrow> 'a \<times> outq" where
  "with_lock w body s =
     (let s1 = core0_step (core0_at w (clock s)) s;
          s2 = s1\<lparr>clock := Suc (clock s), lock_held := True,
                  lock_faults := lock_faults s1 + (if lock_held s1 then 1 else 0)\<rparr>;
          (r, s3) = body s2
      in (r, s3\<lparr>lock_held := False\<rparr>))"

definition outq_take :: "env \<Rightarrow> outq \<Rightarrow> entry option \<times> outq" where
  "outq_take w s = with_lock w take_step s"

definition complete_in_flight :: "env \<Rightarrow> nat \<Rightarrow> bool \<Rightarrow> outq \<Rightarrow> bool \<times> outq" where
  "complete_in_flight w eid discarded s = with_lock w (complete_step eid discarded) s"

subsection \<open>Depth, count gate, eviction\<close>

definition depth_of :: "outq \<Rightarrow> int" where
  "depth_of s = int (length (queue s)) + (if in_flight s \<noteq> None then 1 else 0)"

definition below_count_limit_locked :: "outq \<Rightarrow> bool" where
  "below_count_limit_locked s =
     (case max_messages s of None \<Rightarrow> True | Some m \<Rightarrow> depth_of s < m)"

fun pop_first :: "int \<Rightarrow> entry list \<Rightarrow> (entry \<times> entry list) option" where
  "pop_first p [] = None"
| "pop_first p (e # q) =
     (if retention_priority e = p then Some (e, q)
      else map_option (\<lambda>(x, r). (x, e # r)) (pop_first p q))"

text \<open>\<open>for_p\<close> is the priority of the entry that displaces; it is only recorded.\<close>

definition evict_oldest_by_priority_locked :: "int \<Rightarrow> int \<Rightarrow> outq \<Rightarrow> bool \<times> outq" where
  "evict_oldest_by_priority_locked for_p p s =
     (case pop_first p (queue s) of
        None \<Rightarrow> (False, s)
      | Some (e, q) \<Rightarrow>
          (True, s\<lparr>queue := q, displaced := (for_p, e) # displaced s,
                   queued_bytes := queued_bytes s - int (length (payload_bytes e)),
                   messages_evicted := messages_evicted s + 1,
                   telemetry_evicted := telemetry_evicted s
                     + (if e_kind e = KIND_TELEMETRY then 1 else 0)\<rparr>))"

fun worst_priority :: "int \<Rightarrow> entry list \<Rightarrow> int" where
  "worst_priority w [] = w"
| "worst_priority w (e # q) =
     worst_priority (if retention_priority e > w then retention_priority e else w) q"

datatype evict_result =
    Evicted int
  | Memory_pressure | Lower_priority_than_queued | Critical_not_evictable

definition evict_one_eligible_locked :: "int \<Rightarrow> outq \<Rightarrow> evict_result \<times> outq" where
  "evict_one_eligible_locked p s =
     (if queue s = [] then (Memory_pressure, s)
      else (let worst = worst_priority RETENTION_PRIORITY_MIN (queue s) in
        if p > worst then (Lower_priority_than_queued, s)
        else if worst = RETENTION_PRIORITY_CRITICAL \<and> p = RETENTION_PRIORITY_CRITICAL
        then (Critical_not_evictable, s)
        else (Evicted worst, snd (evict_oldest_by_priority_locked p worst s))))"

fun is_evicted :: "evict_result \<Rightarrow> bool" where
  "is_evicted (Evicted w) = True"
| "is_evicted r = False"

subsection \<open>Append\<close>

definition append_locked :: "env \<Rightarrow> kind \<Rightarrow> string \<Rightarrow> int \<Rightarrow> outq \<Rightarrow> bool \<times> outq" where
  "append_locked w kind payload p s =
     (let entry = \<lparr>e_id = next_id s, e_kind = kind, retention_priority = p,
                   payload_bytes = payload, wire_sequence = None\<rparr>;
          s1 = s\<lparr>queue := queue s @ [entry], next_id := Suc (next_id s)\<rparr>;
          (restored, s2) = reserve_restored w s1
      in if \<not> restored then (False, s2\<lparr>queue := butlast (queue s2)\<rparr>)
         else (let qb = queued_bytes s2 + int (length payload);
                   depth = depth_of s2
               in (True, s2\<lparr>queued_bytes := qb,
                            high_watermark := max depth (high_watermark s2),
                            high_watermark_bytes := max qb (high_watermark_bytes s2)\<rparr>)))"

datatype gate_result = Appended bool | Reclaimed | Refused

definition count_gate_locked ::
  "env \<Rightarrow> kind \<Rightarrow> string \<Rightarrow> int \<Rightarrow> outq \<Rightarrow> gate_result \<times> outq" where
  "count_gate_locked w kind payload p s =
     (if below_count_limit_locked s
      then (let (a, s1) = append_locked w kind payload p s in (Appended a, s1))
      else (let (r, s1) = evict_one_eligible_locked p s
            in (if is_evicted r then Reclaimed else Refused, s1)))"

definition try_append_with_count_gate ::
  "env \<Rightarrow> kind \<Rightarrow> string \<Rightarrow> int \<Rightarrow> outq \<Rightarrow> bool \<times> outq" where
  "try_append_with_count_gate w kind payload p s =
     (let (g, s1) = with_lock w (count_gate_locked w kind payload p) s in
      case g of
        Refused \<Rightarrow> (False, s1)
      | Appended a \<Rightarrow> (a, if a then s1 else gc_collect s1)
      | Reclaimed \<Rightarrow>
          (let (a, s2) = with_lock w (append_locked w kind payload p) (gc_collect s1)
           in (a, if a then s2 else gc_collect s2)))"

subsection \<open>Admission\<close>

text \<open>One eligible entry is displaced under the lock, counting the rejection when there is none.\<close>

definition displace_or_reject :: "int \<Rightarrow> outq \<Rightarrow> bool \<times> outq" where
  "displace_or_reject p s =
     (let (r, s1) = evict_one_eligible_locked p s in
      if is_evicted r then (True, s1)
      else (False, s1\<lparr>messages_rejected := messages_rejected s1 + 1\<rparr>))"

text \<open>One pass of the hard-pressure loop up to the displacement: did the append succeed?\<close>

definition hard_attempt :: "env \<Rightarrow> kind \<Rightarrow> string \<Rightarrow> int \<Rightarrow> outq \<Rightarrow> bool \<times> outq" where
  "hard_attempt w kind payload p s =
     (let (restored, s1) = reserve_restored w s in
      if restored then try_append_with_count_gate w kind payload p s1 else (False, s1))"

subsection \<open>Facts about the eviction choice\<close>

lemma pop_first_Some:
  "pop_first p q = Some (e, r) \<Longrightarrow>
   \<exists>a b. q = a @ e # b \<and> r = a @ b \<and> retention_priority e = p
         \<and> (\<forall>x \<in> set a. retention_priority x \<noteq> p)"
proof (induction q arbitrary: r)
  case Nil
  then show ?case by simp
next
  case (Cons x q)
  show ?case
  proof (cases "retention_priority x = p")
    case True
    with Cons.prems show ?thesis by (intro exI [of _ "[]"] exI [of _ q]) auto
  next
    case False
    with Cons.prems obtain r' where r': "pop_first p q = Some (e, r')" "r = x # r'" by auto
    from Cons.IH [OF r'(1)] obtain a b where
      "q = a @ e # b" "r' = a @ b" "retention_priority e = p" "\<forall>x\<in>set a. retention_priority x \<noteq> p"
      by blast
    with False r'(2) show ?thesis by (intro exI [of _ "x # a"] exI [of _ b]) auto
  qed
qed

lemma pop_first_None: "pop_first p q = None \<longleftrightarrow> (\<forall>x \<in> set q. retention_priority x \<noteq> p)"
  by (induction q) auto

lemma worst_priority_ge: "w \<le> worst_priority w q"
  by (induction q arbitrary: w) (auto intro: order_trans [OF less_imp_le])

lemma worst_priority_upper: "e \<in> set q \<Longrightarrow> retention_priority e \<le> worst_priority w q"
proof (induction q arbitrary: w)
  case (Cons x q)
  let ?w = "if retention_priority x > w then retention_priority x else w"
  show ?case
  proof (cases "e = x")
    case True
    then have "retention_priority e \<le> ?w" by simp
    also have "\<dots> \<le> worst_priority ?w q" by (rule worst_priority_ge)
    finally show ?thesis by simp
  next
    case False
    with Cons show ?thesis by simp
  qed
qed simp

lemma worst_priority_attained:
  "worst_priority w q = w \<or> (\<exists>e \<in> set q. retention_priority e = worst_priority w q)"
  by (induction q arbitrary: w) (auto split: if_splits, metis)

subsection \<open>Invariant and effect of a producer operation\<close>

definition retained :: "outq \<Rightarrow> entry list" where
  "retained s = (case in_flight s of None \<Rightarrow> [] | Some e \<Rightarrow> [e]) @ queue s"

definition payload_sum :: "entry list \<Rightarrow> int" where
  "payload_sum es = sum_list (map (\<lambda>e. int (length (payload_bytes e))) es)"

fun within_limit :: "int option \<Rightarrow> int \<Rightarrow> bool" where
  "within_limit None d = True"
| "within_limit (Some m) d = (0 < m \<and> d \<le> m)"

lemma within_limit_less: "within_limit m d \<Longrightarrow> d' \<le> d \<Longrightarrow> within_limit m d'"
  by (cases m) auto

definition outq_inv :: "outq \<Rightarrow> bool" where
  "outq_inv s \<longleftrightarrow>
     queued_bytes s = payload_sum (retained s)
     \<and> depth_of s \<le> high_watermark s
     \<and> queued_bytes s \<le> high_watermark_bytes s
     \<and> within_limit (max_messages s) (depth_of s)
     \<and> sorted_wrt (<) (map e_id (rev (released s) @ retained s))
     \<and> (\<forall>e \<in> set (released s) \<union> set (retained s). e_id e < next_id s)
     \<and> (\<forall>e \<in> set (retained s). RETENTION_PRIORITY_MIN \<le> retention_priority e
           \<and> retention_priority e \<le> RETENTION_PRIORITY_MAX)
     \<and> (\<forall>e \<in> set (queue s). wire_sequence e = None)"

text \<open>Every entry ever admitted is retained, displaced or released.\<close>

definition accounted :: "outq \<Rightarrow> entry multiset" where
  "accounted s = mset (retained s) + mset (map snd (displaced s)) + mset (released s)"

text \<open>
  What an operation of a producer with priority \<open>p\<close> may do between two states,
  \<open>new\<close> being the entries it has admitted.
\<close>

definition legal_displacement :: "int \<Rightarrow> int \<times> entry \<Rightarrow> bool" where
  "legal_displacement p d \<longleftrightarrow>
     fst d = p \<and> p \<le> retention_priority (snd d)
     \<and> RETENTION_PRIORITY_CRITICAL < retention_priority (snd d)"

definition same_config :: "outq \<Rightarrow> outq \<Rightarrow> bool" where
  "same_config s t \<longleftrightarrow>
     minimum_free_heap_bytes t = minimum_free_heap_bytes s
     \<and> preferred_free_heap_bytes t = preferred_free_heap_bytes s
     \<and> max_messages t = max_messages s"

definition produces :: "int \<Rightarrow> entry list \<Rightarrow> outq \<Rightarrow> outq \<Rightarrow> bool" where
  "produces p new s t \<longleftrightarrow>
     (outq_inv s \<longrightarrow> outq_inv t)
     \<and> accounted t = accounted s + mset new
     \<and> (\<exists>D. displaced t = D @ displaced s \<and> (\<forall>d \<in> set D. legal_displacement p d))
     \<and> same_config s t \<and> messages_rejected t = messages_rejected s"

definition priority_ok :: "int \<Rightarrow> bool" where
  "priority_ok p \<longleftrightarrow> RETENTION_PRIORITY_MIN \<le> p \<and> p \<le> RETENTION_PRIORITY_MAX"

lemma same_config_refl [simp]: "same_config s s"
  by (simp add: same_config_def)

lemma same_config_trans: "same_config s t \<Longrightarrow> same_config t u \<Longrightarrow> same_config s u"
  by (simp add: same_config_def)

lemma produces_refl [simp]: "produces p [] s s"
  by (simp add: produces_def)

lemma produces_trans:
  assumes "produces p xs s t" and "produces p ys t u"
  shows "produces p (xs @ ys) s u"
proof -
  from assms obtain D E where
    "displaced t = D @ displaced s" "\<forall>d\<in>set D. legal_displacement p d"
    "displaced u = E @ displaced t" "\<forall>d\<in>set E. legal_displacement p d"
    unfolding produces_def by blast
  then have "\<exists>F. displaced u = F @ displaced s \<and> (\<forall>d\<in>set F. legal_displacement p d)"
    by (intro exI [of _ "E @ D"]) auto
  with assms show ?thesis
    unfolding produces_def by (auto intro: same_config_trans simp: ac_simps)
qed

lemma produces_trans_Nil:
  "produces p [] s t \<Longrightarrow> produces p ys t u \<Longrightarrow> produces p ys s u"
  using produces_trans [of p "[]" s t ys u] by simp

lemmas outq_defs = outq_inv_def accounted_def retained_def depth_of_def payload_sum_def

text \<open>Changes of the bookkeeping fields alone are harmless.\<close>

lemma produces_bookkeeping [simp]:
  "produces p [] s (s\<lparr>clock := c\<rparr>)"
  "produces p [] s (s\<lparr>lock_held := b\<rparr>)"
  "produces p [] s (s\<lparr>lock_faults := n\<rparr>)"
  "produces p [] s (s\<lparr>clock := c, lock_faults := n\<rparr>)"
  "produces p [] s (s\<lparr>clock := c, lock_held := b, lock_faults := n\<rparr>)"
  "produces p [] s (s\<lparr>oversized_rejected := m\<rparr>)"
  "produces p [] s (s\<lparr>serialization_rejected := m\<rparr>)"
  by (simp_all add: produces_def outq_defs same_config_def)

lemma produces_take: "produces p [] s (snd (take_step s))"
proof (cases "in_flight s")
  case None
  then show ?thesis
    by (cases "queue s")
      (auto simp: take_step_def produces_def outq_defs same_config_def elim: within_limit_less)
qed (simp add: take_step_def)

lemma produces_complete: "produces p [] s (snd (complete_step eid d s))"
proof (cases "in_flight s")
  case (Some e)
  then show ?thesis
    by (auto simp: complete_step_def produces_def outq_defs same_config_def elim: within_limit_less)
qed (simp add: complete_step_def)

lemma produces_core0: "produces p [] s (core0_step a s)"
  by (cases a) (auto simp: core0_step_def produces_take produces_complete split: option.splits)

lemma produces_gc [simp]: "produces p [] s (gc_collect s)"
  by (simp add: gc_collect_def)

lemma produces_reading [simp]:
  "produces p [] s (snd (mem_free_ge w b s))"
  "produces p [] s (snd (reserve_restored w s))"
  "produces p [] s (snd (preferred_restored w s))"
  by (simp_all add: mem_free_ge_def reserve_restored_def preferred_restored_def)

text \<open>There is room for one more entry under the count ceiling.\<close>

definition room :: "outq \<Rightarrow> bool" where
  "room s \<longleftrightarrow> within_limit (max_messages s) (depth_of s + 1)"

lemma length_core0: "length (queue (core0_step a s)) \<le> length (queue s)"
  by (cases a) (auto simp: core0_step_def take_step_def complete_step_def
      split: option.splits list.splits)

lemma room_core0: "room s \<Longrightarrow> room (core0_step a s)"
  by (cases a)
    (auto simp: room_def core0_step_def take_step_def complete_step_def depth_of_def
      elim!: within_limit_less split: option.splits list.splits)

lemma room_bookkeeping [simp]:
  "room (s\<lparr>clock := c\<rparr>) = room s"
  "room (s\<lparr>lock_held := b\<rparr>) = room s"
  "room (s\<lparr>clock := c, lock_faults := n\<rparr>) = room s"
  "room (s\<lparr>clock := c, lock_held := b, lock_faults := n\<rparr>) = room s"
  by (simp_all add: room_def depth_of_def)

text \<open>The body of a \<open>with self._lock:\<close> block runs from a state Core 0 may have changed.\<close>

lemma with_lock_cases:
  assumes "with_lock w body s = (r, t)"
  obtains s2 t3 where "produces p [] s s2" and "room s \<longrightarrow> room s2" and "body s2 = (r, t3)"
    and "t = t3\<lparr>lock_held := False\<rparr>" and "length (queue s2) \<le> length (queue s)"
proof -
  define s1 where "s1 = core0_step (core0_at w (clock s)) s"
  define s2 where "s2 = s1\<lparr>clock := Suc (clock s), lock_held := True,
                  lock_faults := lock_faults s1 + (if lock_held s1 then 1 else 0)\<rparr>"
  obtain r' t3 where b: "body s2 = (r', t3)" by fastforce
  have "produces p [] s s1" unfolding s1_def by (rule produces_core0)
  moreover have "produces p [] s1 s2" unfolding s2_def by (rule produces_bookkeeping)
  ultimately have "produces p [] s s2" by (rule produces_trans_Nil)
  moreover have "room s \<longrightarrow> room s2"
    unfolding s2_def s1_def by (simp add: room_core0)
  moreover have "length (queue s2) \<le> length (queue s)"
    unfolding s2_def s1_def by (simp add: length_core0)
  moreover have "r' = r" "t = t3\<lparr>lock_held := False\<rparr>"
    using assms b by (simp_all add: with_lock_def Let_def s1_def [symmetric] s2_def [symmetric])
  ultimately show thesis using b that by blast
qed

lemma evict_one_cases:
  assumes "evict_one_eligible_locked p s = (r, t)"
  obtains (none) "\<not> is_evicted r" "t = s"
        "queue s = [] \<or> (\<forall>e \<in> set (queue s). retention_priority e < p)
         \<or> (p = RETENTION_PRIORITY_CRITICAL
            \<and> (\<forall>e \<in> set (queue s). retention_priority e \<le> RETENTION_PRIORITY_CRITICAL))"
    | (evict) a e b where "r = Evicted (retention_priority e)" "queue s = a @ e # b"
        "p \<le> retention_priority e"
        "\<forall>x \<in> set (queue s). retention_priority x \<le> retention_priority e"
        "\<forall>x \<in> set a. retention_priority x \<noteq> retention_priority e"
        "RETENTION_PRIORITY_MIN \<le> retention_priority e"
        "p = RETENTION_PRIORITY_CRITICAL \<longrightarrow> retention_priority e \<noteq> RETENTION_PRIORITY_CRITICAL"
        "t = s\<lparr>queue := a @ b, displaced := (p, e) # displaced s,
               queued_bytes := queued_bytes s - int (length (payload_bytes e)),
               messages_evicted := messages_evicted s + 1,
               telemetry_evicted := telemetry_evicted s
                 + (if e_kind e = KIND_TELEMETRY then 1 else 0)\<rparr>"
    | (absent) "queue s \<noteq> []" "r = Evicted RETENTION_PRIORITY_MIN" "t = s"
        "p \<le> RETENTION_PRIORITY_MIN" "p \<noteq> RETENTION_PRIORITY_CRITICAL"
proof -
  let ?w = "worst_priority RETENTION_PRIORITY_MIN (queue s)"
  have up: "\<forall>x \<in> set (queue s). retention_priority x \<le> ?w"
    by (auto intro: worst_priority_upper)
  show thesis
  proof (cases "queue s = [] \<or> p > ?w
      \<or> (?w = RETENTION_PRIORITY_CRITICAL \<and> p = RETENTION_PRIORITY_CRITICAL)")
    case True
    then show thesis
    proof (intro none)
      show "\<not> is_evicted r" "t = s"
        using assms True by (auto simp: evict_one_eligible_locked_def Let_def split: if_splits)
      show "queue s = [] \<or> (\<forall>e \<in> set (queue s). retention_priority e < p)
         \<or> (p = RETENTION_PRIORITY_CRITICAL
            \<and> (\<forall>e \<in> set (queue s). retention_priority e \<le> RETENTION_PRIORITY_CRITICAL))"
        using True up by fastforce
    qed
  next
    case False
    then have r: "r = Evicted ?w" and t: "t = snd (evict_oldest_by_priority_locked p ?w s)"
      using assms by (auto simp: evict_one_eligible_locked_def Let_def split: if_splits)
    show thesis
    proof (cases "pop_first ?w (queue s)")
      case None
      then have "?w = RETENTION_PRIORITY_MIN"
        using worst_priority_attained [of RETENTION_PRIORITY_MIN "queue s"]
        by (auto simp: pop_first_None)
      with False None r t show thesis
        by (intro absent)
          (auto simp: evict_oldest_by_priority_locked_def RETENTION_PRIORITY_MIN_def)
    next
      case (Some eq)
      obtain e q where eq: "eq = (e, q)" by (cases eq)
      from pop_first_Some [OF Some [unfolded eq]] obtain a b where
        q: "queue s = a @ e # b" "q = a @ b" "retention_priority e = ?w"
        "\<forall>x \<in> set a. retention_priority x \<noteq> ?w" by blast
      show thesis
        by (rule evict [of e a b])
          (use False r t Some eq q up worst_priority_ge [of RETENTION_PRIORITY_MIN "queue s"]
           in \<open>auto simp: evict_oldest_by_priority_locked_def\<close>)
    qed
  qed
qed

lemma evict_one_produces:
  assumes "priority_ok p" and "evict_one_eligible_locked p s = (r, t)"
  shows "produces p [] s t"
    and "is_evicted r \<Longrightarrow> length (queue t) < length (queue s)"
    and "is_evicted r \<Longrightarrow> outq_inv s \<Longrightarrow> room t"
proof -
  have "produces p [] s t \<and> (is_evicted r \<longrightarrow> length (queue t) < length (queue s))
        \<and> (is_evicted r \<longrightarrow> outq_inv s \<longrightarrow> room t)"
    using assms(2)
  proof (cases rule: evict_one_cases)
    case none
    then show ?thesis by simp
  next
    case absent
    with assms(1) show ?thesis by (simp add: priority_ok_def RETENTION_PRIORITY_MIN_def)
  next
    case (evict a e b)
    have legal: "legal_displacement p (p, e)"
      using evict assms(1)
      by (auto simp: legal_displacement_def priority_ok_def RETENTION_PRIORITY_MIN_def)
    have "outq_inv s \<Longrightarrow> outq_inv t"
      using evict by (auto simp: outq_defs sorted_wrt_append elim: within_limit_less)
    moreover have "accounted t = accounted s"
      using evict by (auto simp: outq_defs)
    moreover have "\<exists>D. displaced t = D @ displaced s \<and> (\<forall>d \<in> set D. legal_displacement p d)"
      using evict legal by (intro exI [of _ "[(p, e)]"]) auto
    ultimately have "produces p [] s t"
      using evict by (auto simp: produces_def same_config_def)
    moreover have "length (queue t) < length (queue s)" using evict by simp
    moreover have "outq_inv s \<longrightarrow> room t"
      using evict by (auto simp: room_def outq_inv_def depth_of_def elim: within_limit_less)
    ultimately show ?thesis by blast
  qed
  then show "produces p [] s t"
    and "is_evicted r \<Longrightarrow> length (queue t) < length (queue s)"
    and "is_evicted r \<Longrightarrow> outq_inv s \<Longrightarrow> room t" by blast+
qed

text \<open>The entries an operation with boolean result \<open>r\<close> has admitted.\<close>

definition added :: "bool \<Rightarrow> outq \<Rightarrow> entry list" where
  "added r t = (if r then [last (queue t)] else [])"

lemma added_simps [simp]:
  "added False t = []"
  "added r (t\<lparr>lock_held := b\<rparr>) = added r t"
  by (simp_all add: added_def)

text \<open>
  The admitted entry is the last of the queue, carries what was put, and the hard floor
  held at the reading made with the entry in place (the one before the present clock).
\<close>

definition admitted_as :: "env \<Rightarrow> kind \<Rightarrow> string \<Rightarrow> int \<Rightarrow> outq \<Rightarrow> bool" where
  "admitted_as w kind payload p t \<longleftrightarrow>
     queue t \<noteq> [] \<and> e_kind (last (queue t)) = kind
     \<and> payload_bytes (last (queue t)) = payload
     \<and> retention_priority (last (queue t)) = p
     \<and> 0 < clock t \<and> mem_free_at w (clock t - 1) \<ge> minimum_free_heap_bytes t"

lemma admitted_as_lock_held [simp]:
  "admitted_as w kind payload p (t\<lparr>lock_held := b\<rparr>) = admitted_as w kind payload p t"
  by (simp add: admitted_as_def)

lemma append_locked_produces:
  assumes "priority_ok p" and "outq_inv s \<Longrightarrow> room s"
    and "append_locked w kind payload p s = (r, t)"
  shows "produces p (added r t) s t"
    and "r \<Longrightarrow> admitted_as w kind payload p t"
proof -
  have "produces p (added r t) s t \<and> (r \<longrightarrow> admitted_as w kind payload p t)"
  proof (cases r)
    case False
    with assms(3) have "t = s\<lparr>clock := Suc (clock s), next_id := Suc (next_id s)\<rparr>"
      by (auto simp: append_locked_def Let_def reserve_restored_def mem_free_ge_def split: if_splits)
    with False show ?thesis
      by (auto simp: produces_def outq_defs same_config_def intro: less_SucI)
  next
    case True
    let ?e = "\<lparr>e_id = next_id s, e_kind = kind, retention_priority = p,
               payload_bytes = payload, wire_sequence = None\<rparr>"
    let ?qb = "queued_bytes s + int (length payload)"
    have t: "t = s\<lparr>queue := queue s @ [?e], next_id := Suc (next_id s), clock := Suc (clock s),
                  queued_bytes := ?qb,
                  high_watermark := max (depth_of s + 1) (high_watermark s),
                  high_watermark_bytes := max ?qb (high_watermark_bytes s)\<rparr>"
      and floor: "mem_free_at w (clock s) \<ge> minimum_free_heap_bytes s"
      using assms(3) True
      by (auto simp: append_locked_def Let_def reserve_restored_def mem_free_ge_def depth_of_def
          split: if_splits)
    have "outq_inv s \<longrightarrow> outq_inv t"
    proof
      assume inv: "outq_inv s"
      then have "room s" by (rule assms(2))
      with inv assms(1) show "outq_inv t"
        by (auto simp: t outq_defs room_def priority_ok_def add.commute sorted_wrt_append
            intro!: less_SucI split: option.splits)
    qed
    with True floor show ?thesis
      by (auto simp: t produces_def added_def admitted_as_def same_config_def
          accounted_def retained_def)
  qed
  then show "produces p (added r t) s t" and "r \<Longrightarrow> admitted_as w kind payload p t" by blast+
qed

lemma count_gate_locked_produces:
  assumes "priority_ok p" and "count_gate_locked w kind payload p s = (g, t)"
  shows "produces p (added (g = Appended True) t) s t"
    and "g = Appended True \<Longrightarrow> admitted_as w kind payload p t"
    and "g = Reclaimed \<Longrightarrow> outq_inv s \<Longrightarrow> room t"
proof -
  have "produces p (added (g = Appended True) t) s t
    \<and> (g = Appended True \<longrightarrow> admitted_as w kind payload p t)
    \<and> (g = Reclaimed \<longrightarrow> outq_inv s \<longrightarrow> room t)"
  proof (cases "below_count_limit_locked s")
    case True
    then obtain a where a: "append_locked w kind payload p s = (a, t)" "g = Appended a"
      using assms(2) by (auto simp: count_gate_locked_def split: prod.splits)
    have "outq_inv s \<Longrightarrow> room s"
      using True
      by (cases "max_messages s") (auto simp: below_count_limit_locked_def room_def outq_inv_def)
    from append_locked_produces [OF assms(1) this a(1)] a(2) show ?thesis by auto
  next
    case False
    then obtain r where r: "evict_one_eligible_locked p s = (r, t)"
      "g = (if is_evicted r then Reclaimed else Refused)"
      using assms(2) by (auto simp: count_gate_locked_def split: prod.splits)
    from evict_one_produces [OF assms(1) r(1)] r(2) show ?thesis by (auto split: if_splits)
  qed
  then show "produces p (added (g = Appended True) t) s t"
    and "g = Appended True \<Longrightarrow> admitted_as w kind payload p t"
    and "g = Reclaimed \<Longrightarrow> outq_inv s \<Longrightarrow> room t" by blast+
qed

lemma room_gc [simp]: "room (gc_collect s) = room s"
  by (simp add: gc_collect_def)

lemma produces_inv: "produces p xs s t \<Longrightarrow> outq_inv s \<Longrightarrow> outq_inv t"
  by (simp add: produces_def)

lemma try_append_produces:
  assumes "priority_ok p" and inv: "outq_inv s"
    and step: "try_append_with_count_gate w kind payload p s = (r, t)"
  shows "produces p (added r t) s t"
    and "r \<Longrightarrow> admitted_as w kind payload p t"
proof -
  obtain g s1 where g: "with_lock w (count_gate_locked w kind payload p) s = (g, s1)" by fastforce
  obtain s2 t3 where s2: "produces p [] s s2" "count_gate_locked w kind payload p s2 = (g, t3)"
    "s1 = t3\<lparr>lock_held := False\<rparr>"
    by (rule with_lock_cases [OF g])
  note gate = count_gate_locked_produces [OF assms(1) s2(2)]
  have to_s1: "produces p (added (g = Appended True) t3) s s1"
    using produces_trans [OF produces_trans_Nil [OF s2(1) gate(1)]
        produces_bookkeeping(2) [of p t3 False]] s2(3) by simp
  have "produces p (added r t) s t \<and> (r \<longrightarrow> admitted_as w kind payload p t)"
  proof (cases g)
    case Refused
    with step g to_s1 show ?thesis by (auto simp: try_append_with_count_gate_def)
  next
    case (Appended a)
    show ?thesis
    proof (cases a)
      case True
      then have "r" "t = s1"
        using step g Appended by (auto simp: try_append_with_count_gate_def)
      with Appended True to_s1 gate(2) s2(3) show ?thesis by simp
    next
      case False
      then have "\<not> r" "t = gc_collect s1"
        using step g Appended by (auto simp: try_append_with_count_gate_def)
      with Appended False to_s1 produces_trans_Nil [OF _ produces_gc [of p s1]] show ?thesis
        by simp
    qed
  next
    case Reclaimed
    obtain a s4 where a: "with_lock w (append_locked w kind payload p) (gc_collect s1) = (a, s4)"
      by fastforce
    obtain s3 t4 where s3: "produces p [] (gc_collect s1) s3"
      "room (gc_collect s1) \<longrightarrow> room s3" "append_locked w kind payload p s3 = (a, t4)"
      "s4 = t4\<lparr>lock_held := False\<rparr>"
      by (rule with_lock_cases [OF a])
    have to_s3: "produces p [] s s3"
      using to_s1 s3(1) Reclaimed produces_trans_Nil [OF produces_gc [of p s1] s3(1)]
        produces_trans_Nil by fastforce
    have rt: "r = a" "t = (if a then s4 else gc_collect s4)"
      using step g a Reclaimed by (auto simp: try_append_with_count_gate_def)
    have "room s1" using gate(3) Reclaimed s2(1,3) produces_inv [OF s2(1) inv] by simp
    then have "room s3" using s3(2) by simp
    note app = append_locked_produces [OF assms(1) this s3(3)]
    have "produces p (added a t4) s s4"
      using produces_trans [OF produces_trans_Nil [OF to_s3 app(1)]
          produces_bookkeeping(2) [of p t4 False]] s3(4) by simp
    with rt app(2) s3(4) produces_trans_Nil [OF _ produces_gc [of p s4]]
    show ?thesis by (cases a) auto
  qed
  then show "produces p (added r t) s t" and "r \<Longrightarrow> admitted_as w kind payload p t" by blast+
qed

lemma length_append_locked:
  "append_locked w kind payload p s = (r, t) \<Longrightarrow>
   length (queue t) = length (queue s) + (if r then 1 else 0)"
  by (auto simp: append_locked_def Let_def reserve_restored_def mem_free_ge_def split: if_splits)

lemma length_evict_one:
  "evict_one_eligible_locked p s = (r, t) \<Longrightarrow> length (queue t) \<le> length (queue s)"
  by (erule evict_one_cases) auto

lemma length_gc [simp]: "queue (gc_collect s) = queue s"
  by (simp add: gc_collect_def)

lemma length_reserve [simp]:
  "queue (snd (reserve_restored w s)) = queue s" "queue (snd (preferred_restored w s)) = queue s"
  by (simp_all add: reserve_restored_def preferred_restored_def mem_free_ge_def)

lemma length_try_append:
  assumes "try_append_with_count_gate w kind payload p s = (r, t)"
  shows "length (queue t) \<le> length (queue s) + (if r then 1 else 0)"
proof -
  obtain g s1 where g: "with_lock w (count_gate_locked w kind payload p) s = (g, s1)" by fastforce
  obtain s2 t3 where s2: "count_gate_locked w kind payload p s2 = (g, t3)"
    "s1 = t3\<lparr>lock_held := False\<rparr>" "length (queue s2) \<le> length (queue s)"
    by (rule with_lock_cases [OF g])
  have gate: "length (queue s1) \<le> length (queue s) + (if g = Appended True then 1 else 0)"
    using s2 by (auto simp: count_gate_locked_def split: if_splits prod.splits
        dest!: length_append_locked length_evict_one)
  show ?thesis
  proof (cases g)
    case Reclaimed
    obtain a s4 where a: "with_lock w (append_locked w kind payload p) (gc_collect s1) = (a, s4)"
      by fastforce
    obtain s3 t4 where s3: "append_locked w kind payload p s3 = (a, t4)"
      "s4 = t4\<lparr>lock_held := False\<rparr>" "length (queue s3) \<le> length (queue (gc_collect s1))"
      by (rule with_lock_cases [OF a])
    have "r = a" "t = (if a then s4 else gc_collect s4)"
      using assms g a Reclaimed by (auto simp: try_append_with_count_gate_def)
    with gate Reclaimed s3(2,3) length_append_locked [OF s3(1)] show ?thesis by auto
  qed (use assms g gate in \<open>auto simp: try_append_with_count_gate_def split: if_splits\<close>)
qed

lemma reserve_restored_queue: "reserve_restored w s = (r, t) \<Longrightarrow> queue t = queue s"
  by (auto simp: reserve_restored_def mem_free_ge_def)

lemma length_hard_attempt:
  "hard_attempt w kind payload p s = (False, t) \<Longrightarrow> length (queue t) \<le> length (queue s)"
  by (auto simp: hard_attempt_def split: prod.splits if_splits
      dest!: length_try_append reserve_restored_queue)

lemma length_displace:
  assumes "displace_or_reject p s = (True, t)" and "priority_ok p"
  shows "length (queue t) < length (queue s)"
  using assms evict_one_produces(2) [of p s]
  by (auto simp: displace_or_reject_def split: prod.splits if_splits)

subsection \<open>The admission decision\<close>

text \<open>
  The hard-pressure loop. \<open>None\<close> would be a loop that never returns; the lemma below
  shows that it returns for every priority the metadata gate lets through.
\<close>

partial_function (option) hard_loop ::
  "env \<Rightarrow> kind \<Rightarrow> string \<Rightarrow> int \<Rightarrow> outq \<Rightarrow> (bool \<times> outq) option" where
  "hard_loop w kind payload p s =
     (let (appended, s1) = hard_attempt w kind payload p s in
      if appended then Some (True, s1)
      else (let (evicted, s2) = with_lock w (displace_or_reject p) s1 in
            if evicted then hard_loop w kind payload p (gc_collect s2)
            else Some (False, s2)))"

declare hard_loop.simps [code]

text \<open>The two branches before the loop: normal admission and soft memory pressure.\<close>

definition soft_evict :: "env \<Rightarrow> int \<Rightarrow> outq \<Rightarrow> outq" where
  "soft_evict w p s =
     (let (r, s1) = with_lock w (evict_one_eligible_locked p) s
      in if is_evicted r then gc_collect s1 else s1)"

definition admit_first :: "env \<Rightarrow> kind \<Rightarrow> string \<Rightarrow> int \<Rightarrow> outq \<Rightarrow> bool \<times> outq" where
  "admit_first w kind payload p s =
     (let (restored, s1) = preferred_restored w s;
          s2 = (if restored then s1 else gc_collect s1);
          (normal, s3) = preferred_restored w s2
      in if normal then try_append_with_count_gate w kind payload p s3
         else (let (soft, s4) = reserve_restored w s3
               in if soft then try_append_with_count_gate w kind payload p (soft_evict w p s4)
                  else (False, s4)))"

definition admit_heap_governed ::
  "env \<Rightarrow> kind \<Rightarrow> string \<Rightarrow> int \<Rightarrow> outq \<Rightarrow> (bool \<times> outq) option" where
  "admit_heap_governed w kind payload p s =
     (let (admitted, s1) = admit_first w kind payload p s
      in if admitted then Some (True, s1) else hard_loop w kind payload p s1)"

text \<open>What is left when nothing may be displaced for priority \<open>p\<close>.\<close>

definition nothing_eligible :: "int \<Rightarrow> outq \<Rightarrow> bool" where
  "nothing_eligible p s \<longleftrightarrow>
     queue s = [] \<or> (\<forall>e \<in> set (queue s). retention_priority e < p)
     \<or> (p = RETENTION_PRIORITY_CRITICAL
        \<and> (\<forall>e \<in> set (queue s). retention_priority e \<le> RETENTION_PRIORITY_CRITICAL))"

text \<open>The outcome of an admission: admitted, or rejected and counted.\<close>

definition admission_outcome ::
  "env \<Rightarrow> kind \<Rightarrow> string \<Rightarrow> int \<Rightarrow> outq \<Rightarrow> bool \<times> outq \<Rightarrow> bool" where
  "admission_outcome w kind payload p s rt \<longleftrightarrow>
     (if fst rt
      then produces p [last (queue (snd rt))] s (snd rt) \<and> admitted_as w kind payload p (snd rt)
      else (\<exists>u. produces p [] s u \<and> nothing_eligible p (snd rt)
                \<and> snd rt = u\<lparr>messages_rejected := messages_rejected u + 1\<rparr>))"

lemma admission_outcome_trans:
  assumes s: "produces p [] s t" and out: "admission_outcome w kind payload p t rt"
  shows "admission_outcome w kind payload p s rt"
proof (cases "fst rt")
  case True
  with out produces_trans_Nil [OF s] show ?thesis by (simp add: admission_outcome_def)
next
  case False
  with out obtain u where u: "produces p [] t u" "nothing_eligible p (snd rt)"
    "snd rt = u\<lparr>messages_rejected := messages_rejected u + 1\<rparr>"
    by (auto simp: admission_outcome_def)
  have "produces p [] s u" using produces_trans_Nil [OF s u(1)] .
  with False u(2,3) show ?thesis unfolding admission_outcome_def by auto
qed

lemma hard_attempt_produces:
  assumes "priority_ok p" and "outq_inv s" and "hard_attempt w kind payload p s = (r, t)"
  shows "produces p (added r t) s t" and "r \<Longrightarrow> admitted_as w kind payload p t"
proof -
  obtain b s1 where b: "reserve_restored w s = (b, s1)" by fastforce
  have s1: "produces p [] s s1" using produces_reading(2) [of p s w] b by simp
  have inv1: "outq_inv s1" using produces_inv [OF s1 assms(2)] .
  have "produces p (added r t) s t \<and> (r \<longrightarrow> admitted_as w kind payload p t)"
  proof (cases b)
    case True
    then have "try_append_with_count_gate w kind payload p s1 = (r, t)"
      using assms(3) b by (simp add: hard_attempt_def)
    from try_append_produces [OF assms(1) inv1 this] produces_trans_Nil [OF s1]
    show ?thesis by blast
  next
    case False
    with assms(3) b s1 show ?thesis by (auto simp: hard_attempt_def)
  qed
  then show "produces p (added r t) s t" and "r \<Longrightarrow> admitted_as w kind payload p t" by blast+
qed

lemma displace_or_reject_produces:
  assumes "priority_ok p" and "displace_or_reject p s = (r, t)"
  shows "r \<Longrightarrow> produces p [] s t"
    and "\<not> r \<Longrightarrow> nothing_eligible p s \<and> t = s\<lparr>messages_rejected := messages_rejected s + 1\<rparr>"
proof -
  obtain v u where v: "evict_one_eligible_locked p s = (v, u)" by fastforce
  then have rt: "r = is_evicted v"
    "t = (if is_evicted v then u else u\<lparr>messages_rejected := messages_rejected u + 1\<rparr>)"
    using assms(2) by (auto simp: displace_or_reject_def split: if_splits)
  show "r \<Longrightarrow> produces p [] s t" using evict_one_produces(1) [OF assms(1) v] rt by simp
  show "\<not> r \<Longrightarrow> nothing_eligible p s \<and> t = s\<lparr>messages_rejected := messages_rejected s + 1\<rparr>"
    using v rt by (cases rule: evict_one_cases) (auto simp: nothing_eligible_def)
qed

lemma displace_locked:
  assumes "priority_ok p" and "with_lock w (displace_or_reject p) s = (r, t)"
  shows "r \<Longrightarrow> produces p [] s t \<and> length (queue t) < length (queue s)"
    and "\<not> r \<Longrightarrow> admission_outcome w kind payload p s (False, t)"
proof -
  obtain s2 t3 where s2: "produces p [] s s2" "displace_or_reject p s2 = (r, t3)"
    "t = t3\<lparr>lock_held := False\<rparr>" "length (queue s2) \<le> length (queue s)"
    by (rule with_lock_cases [OF assms(2)])
  show "r \<Longrightarrow> produces p [] s t \<and> length (queue t) < length (queue s)"
    using produces_trans_Nil [OF s2(1) produces_trans_Nil [OF
        displace_or_reject_produces(1) [OF assms(1) s2(2)] produces_bookkeeping(2) [of p t3 False]]]
      length_displace [of p s2 t3] s2(2-4) assms(1) by auto
  assume "\<not> r"
  from displace_or_reject_produces(2) [OF assms(1) s2(2) this] s2(3)
  have "nothing_eligible p t"
    "t = (s2\<lparr>lock_held := False\<rparr>)\<lparr>messages_rejected := messages_rejected (s2\<lparr>lock_held := False\<rparr>) + 1\<rparr>"
    by (simp_all add: nothing_eligible_def)
  moreover have "produces p [] s (s2\<lparr>lock_held := False\<rparr>)"
    using produces_trans_Nil [OF s2(1) produces_bookkeeping(2)] .
  ultimately show "admission_outcome w kind payload p s (False, t)"
    unfolding admission_outcome_def fst_conv snd_conv if_False by blast
qed

lemma hard_loop_returns:
  assumes "priority_ok p" and "outq_inv s"
  shows "\<exists>rt. hard_loop w kind payload p s = Some rt \<and> admission_outcome w kind payload p s rt"
  using assms(2)
proof (induction "length (queue s)" arbitrary: s rule: less_induct)
  case less
  obtain a s1 where a: "hard_attempt w kind payload p s = (a, s1)" by fastforce
  note att = hard_attempt_produces [OF assms(1) less.prems a]
  show ?case
  proof (cases a)
    case True
    with a att show ?thesis
      by (subst hard_loop.simps) (auto simp: admission_outcome_def added_def)
  next
    case False
    then have s1: "produces p [] s s1" using att(1) by simp
    obtain v s2 where v: "with_lock w (displace_or_reject p) s1 = (v, s2)" by fastforce
    note disp = displace_locked [OF assms(1) v]
    show ?thesis
    proof (cases v)
      case True
      let ?s3 = "gc_collect s2"
      have s3: "produces p [] s ?s3"
        using produces_trans_Nil [OF s1 produces_trans_Nil [OF _ produces_gc [of p s2]]]
          disp(1) True by blast
      have "length (queue ?s3) < length (queue s)"
        using disp(1) True length_hard_attempt [of w kind payload p s s1] a False by simp
      from less.hyps [OF this produces_inv [OF s3 less.prems]] obtain rt where
        "hard_loop w kind payload p ?s3 = Some rt" "admission_outcome w kind payload p ?s3 rt"
        by blast
      with a False v True admission_outcome_trans [OF s3] show ?thesis
        by (subst hard_loop.simps) auto
    next
      case v_False: False
      with a False v admission_outcome_trans [OF s1 disp(2)] show ?thesis
        by (subst hard_loop.simps) auto
    qed
  qed
qed

end
