(* ===== verification/Admission.thy ===== *)
theory Admission
  imports Outbound
begin

section \<open>Admission to the outbound queue: put and put_with_kind\<close>

text \<open>
  The entry points of \<open>OutboundQueue\<close>: the metadata gate, the serialization with
  memory recovery, and the heap-governed admission of theory \<open>Outbound\<close>, with what
  they promise: they return, keep the queue's invariant, lose nothing silently, never
  collect garbage under the queue lock.
\<close>

subsection \<open>Operations\<close>

text \<open>
  The serialization loop of \<open>_serialize_with_recovery\<close>; the first argument is
  \<open>gc_attempted\<close>. An attempt raises \<open>MemoryError\<close> when the environment denies it memory.
\<close>

definition serialize_attempt :: "env \<Rightarrow> pyval \<Rightarrow> outq \<Rightarrow> string res \<times> outq" where
  "serialize_attempt w message s =
     (if alloc_ok_at w (clock s) then serialize_and_validate_message (float_repr w) message
      else Inl MemoryError, s\<lparr>clock := Suc (clock s)\<rparr>)"

partial_function (option) serialize_with_recovery ::
  "env \<Rightarrow> bool \<Rightarrow> pyval \<Rightarrow> int \<Rightarrow> outq \<Rightarrow> (string res \<times> outq) option" where
  "serialize_with_recovery w gc_attempted message p s =
     (case serialize_attempt w message s of (r, s1) \<Rightarrow>
      (case r of
         Inr payload \<Rightarrow> Some (Inr payload, s1)
       | Inl e \<Rightarrow>
          (if e = MemoryError
           then if \<not> gc_attempted
                then serialize_with_recovery w True message p (gc_collect s1)
                else (case with_lock w (evict_one_eligible_locked p) s1 of (v, s2) \<Rightarrow>
                      if \<not> is_evicted v then Some (Inl MemoryError, s2)
                      else serialize_with_recovery w True message p (gc_collect s2))
           else if e \<in> {UnsupportedValueError, NonStringKeyError, NonFiniteFloatError}
           then Some (Inl ValueError, s1)
           else if e = MessageTooLargeError
           then Some (Inl OutboundMessageTooLargeError,
                      s1\<lparr>oversized_rejected := oversized_rejected s1 + 1\<rparr>)
           else Some (Inl ValueError,
                      s1\<lparr>serialization_rejected := serialization_rejected s1 + 1\<rparr>))))"

declare serialize_with_recovery.simps [code]

definition validate_admission_metadata :: "string \<Rightarrow> pyval \<Rightarrow> unit res" where
  "validate_admission_metadata kind p =
     andthen (require (kind_of kind \<noteq> None) ValueError) (\<lambda>_.
     andthen (require (is_int p) ValueError) (\<lambda>_.
     require (RETENTION_PRIORITY_MIN \<le> the_int p \<and> the_int p \<le> RETENTION_PRIORITY_MAX) ValueError))"

definition put :: "env \<Rightarrow> string \<Rightarrow> pyval \<Rightarrow> pyval \<Rightarrow> outq \<Rightarrow> (bool res \<times> outq) option" where
  "put w kind message p s =
     (case validate_admission_metadata kind p of
        Inl e \<Rightarrow> Some (Inl e, s)
      | Inr _ \<Rightarrow>
         if \<not> is_dict message then Some (Inl ValueError, s)
         else (case serialize_with_recovery w False message (the_int p) s of
                 None \<Rightarrow> None
               | Some (Inl e, s1) \<Rightarrow> Some (Inl e, s1)
               | Some (Inr payload, s1) \<Rightarrow>
                   map_option (\<lambda>(b, s2). (Inr b, s2))
                     (admit_heap_governed w (the (kind_of kind)) payload (the_int p) s1)))"

text \<open>The payload is already bytes; \<open>None\<close> stands for a value of another type.\<close>

definition put_with_kind ::
  "env \<Rightarrow> string \<Rightarrow> string option \<Rightarrow> pyval \<Rightarrow> outq \<Rightarrow> (bool res \<times> outq) option" where
  "put_with_kind w kind payload p s =
     (case validate_admission_metadata kind p of
        Inl e \<Rightarrow> Some (Inl e, s)
      | Inr _ \<Rightarrow>
        (case payload of
           None \<Rightarrow> Some (Inl ValueError, s)
         | Some bs \<Rightarrow>
            if length bs > MAX_OUTBOUND_MESSAGE_BYTES
            then Some (Inl OutboundMessageTooLargeError,
                       s\<lparr>oversized_rejected := oversized_rejected s + 1\<rparr>)
            else map_option (\<lambda>(b, s2). (Inr b, s2))
                   (admit_heap_governed w (the (kind_of kind)) bs (the_int p) s)))"

record queue_status =
  st_pending :: int
  st_depth :: int
  st_in_flight :: bool
  st_max_messages :: "int option"
  st_queued_bytes :: int
  st_high_watermark :: int
  st_high_watermark_bytes :: int
  st_counters :: "int list"

definition status :: "outq \<Rightarrow> queue_status" where
  "status s =
     \<lparr>st_pending = int (length (queue s)), st_depth = depth_of s,
      st_in_flight = (in_flight s \<noteq> None), st_max_messages = max_messages s,
      st_queued_bytes = queued_bytes s, st_high_watermark = high_watermark s,
      st_high_watermark_bytes = high_watermark_bytes s,
      st_counters = [messages_evicted s, telemetry_evicted s, messages_rejected s,
                     serialization_rejected s, oversized_rejected s, oversized_discarded s]\<rparr>"

definition get_depth :: "env \<Rightarrow> outq \<Rightarrow> int \<times> outq" where
  "get_depth w s = with_lock w (\<lambda>s. (depth_of s, s)) s"

definition has_in_flight :: "env \<Rightarrow> outq \<Rightarrow> bool \<times> outq" where
  "has_in_flight w s = with_lock w (\<lambda>s. (in_flight s \<noteq> None, s)) s"

subsection \<open>The admission returns and keeps its promises\<close>

lemma soft_evict_produces:
  assumes "priority_ok p"
  shows "produces p [] s (soft_evict w p s)"
proof -
  obtain r t where r: "with_lock w (evict_one_eligible_locked p) s = (r, t)" by fastforce
  obtain s2 t3 where s2: "produces p [] s s2" "evict_one_eligible_locked p s2 = (r, t3)"
    "t = t3\<lparr>lock_held := False\<rparr>"
    by (rule with_lock_cases [OF r])
  have "produces p [] s t"
    using produces_trans_Nil [OF s2(1) produces_trans_Nil [OF evict_one_produces(1) [OF assms s2(2)]
          produces_bookkeeping(2) [of p t3 False]]] s2(3) by simp
  with r produces_trans_Nil [OF _ produces_gc [of p t]] show ?thesis
    by (auto simp: soft_evict_def)
qed

lemma admit_first_produces:
  assumes "priority_ok p" and inv: "outq_inv s" and step: "admit_first w kind payload p s = (r, t)"
  shows "produces p (added r t) s t" and "r \<Longrightarrow> admitted_as w kind payload p t"
proof -
  obtain b s1 where b: "preferred_restored w s = (b, s1)" by fastforce
  define s2 where "s2 = (if b then s1 else gc_collect s1)"
  obtain c s3 where c: "preferred_restored w s2 = (c, s3)" by fastforce
  obtain d s4 where d: "reserve_restored w s3 = (d, s4)" by fastforce
  have s1: "produces p [] s s1" using produces_reading(3) [of p s w] b by simp
  have "produces p [] s1 s2" by (simp add: s2_def)
  moreover have "produces p [] s2 s3" using produces_reading(3) [of p s2 w] c by simp
  ultimately have s3: "produces p [] s s3" using s1 produces_trans_Nil by blast
  have "produces p [] s3 s4" using produces_reading(2) [of p s3 w] d by simp
  then have s4: "produces p [] s s4" using s3 produces_trans_Nil by blast
  have s5: "produces p [] s (soft_evict w p s4)"
    using produces_trans_Nil [OF s4 soft_evict_produces [OF assms(1)]] .
  consider (normal) "try_append_with_count_gate w kind payload p s3 = (r, t)"
    | (soft) "try_append_with_count_gate w kind payload p (soft_evict w p s4) = (r, t)"
    | (hard) "\<not> r" "t = s4"
  proof (cases c)
    case True
    with step b c s2_def show ?thesis by (intro normal) (simp add: admit_first_def Let_def)
  next
    case c_False: False
    show ?thesis
    proof (cases d)
      case True
      with step b c d c_False s2_def show ?thesis by (intro soft) (simp add: admit_first_def Let_def)
    next
      case False
      with step b c d c_False s2_def have "(r, t) = (False, s4)"
        by (simp add: admit_first_def Let_def)
      then show ?thesis by (intro hard) simp_all
    qed
  qed
  then have "produces p (added r t) s t \<and> (r \<longrightarrow> admitted_as w kind payload p t)"
  proof cases
    case normal
    from try_append_produces [OF assms(1) produces_inv [OF s3 inv] this] produces_trans_Nil [OF s3]
    show ?thesis by blast
  next
    case soft
    from try_append_produces [OF assms(1) produces_inv [OF s5 inv] this] produces_trans_Nil [OF s5]
    show ?thesis by blast
  next
    case hard
    with s4 show ?thesis by simp
  qed
  then show "produces p (added r t) s t" and "r \<Longrightarrow> admitted_as w kind payload p t" by blast+
qed

lemma admit_returns:
  assumes "priority_ok p" and "outq_inv s"
  shows "\<exists>rt. admit_heap_governed w kind payload p s = Some rt
              \<and> admission_outcome w kind payload p s rt"
proof -
  obtain r t where r: "admit_first w kind payload p s = (r, t)" by fastforce
  note first = admit_first_produces [OF assms r]
  show ?thesis
  proof (cases r)
    case True
    with r first show ?thesis
      by (auto simp: admit_heap_governed_def admission_outcome_def added_def)
  next
    case False
    then have t: "produces p [] s t" using first(1) by simp
    from hard_loop_returns [OF assms(1) produces_inv [OF t assms(2)]] admission_outcome_trans [OF t]
    show ?thesis using r False by (fastforce simp: admit_heap_governed_def)
  qed
qed


subsection \<open>Serialization with recovery returns\<close>

definition serialize_outcome :: "env \<Rightarrow> pyval \<Rightarrow> int \<Rightarrow> string res \<Rightarrow> outq \<Rightarrow> bool" where
  "serialize_outcome w message p r t \<longleftrightarrow>
     (r = Inl MemoryError \<and> nothing_eligible p t)
     \<or> (r = Inl OutboundMessageTooLargeError
        \<and> serialize_and_validate_message (float_repr w) message = Inl MessageTooLargeError)
     \<or> (r = Inl ValueError \<and> \<not> is_json_safe message)
     \<or> (\<exists>payload. r = Inr payload
          \<and> serialize_and_validate_message (float_repr w) message = Inr payload)"

lemma serialize_attempt_produces:
  "serialize_attempt w message s = (r, t) \<Longrightarrow> produces p [] s t \<and> queue t = queue s"
  by (auto simp: serialize_attempt_def)

text \<open>An attempt that does not run out of memory ends the loop.\<close>

lemma serialize_attempt_ends:
  assumes "serialize_attempt w message s = (r, s1)" and "r \<noteq> Inl MemoryError"
  shows "\<exists>r' t. serialize_with_recovery w g message p s = Some (r', t) \<and> produces p [] s1 t
           \<and> serialize_outcome w message p r' t \<and> displaced t = displaced s1"
proof -
  have ser: "serialize_and_validate_message (float_repr w) message = r"
    using assms by (auto simp: serialize_attempt_def split: if_splits)
  show ?thesis
  proof (cases r)
    case (Inr payload)
    with assms(1) ser show ?thesis
      by (subst serialize_with_recovery.simps) (auto simp: serialize_outcome_def)
  next
    case (Inl e)
    have e: "if is_json_safe message then e = MessageTooLargeError
          else e \<in> {UnsupportedValueError, NonStringKeyError, NonFiniteFloatError}"
      using serialize_error ser Inl by blast
    show ?thesis
    proof (cases "is_json_safe message")
      case True
      with e assms(1) ser Inl show ?thesis
        by (subst serialize_with_recovery.simps) (simp add: serialize_outcome_def)
    next
      case False
      with e assms(1) ser Inl show ?thesis
        by (subst serialize_with_recovery.simps) (auto simp: serialize_outcome_def)
    qed
  qed
qed

lemma serialize_retry_returns:
  assumes "priority_ok p"
  shows "\<exists>r t. serialize_with_recovery w True message p s = Some (r, t)
           \<and> produces p [] s t \<and> serialize_outcome w message p r t"
proof (induction "length (queue s)" arbitrary: s rule: less_induct)
  case less
  obtain r s1 where a: "serialize_attempt w message s = (r, s1)" by fastforce
  have s1: "produces p [] s s1" "queue s1 = queue s"
    using serialize_attempt_produces [OF a] by blast+
  show ?case
  proof (cases "r = Inl MemoryError")
    case False
    from serialize_attempt_ends [OF a False] produces_trans_Nil [OF s1(1)] show ?thesis by blast
  next
    case mem: True
    obtain v s2 where v: "with_lock w (evict_one_eligible_locked p) s1 = (v, s2)" by fastforce
    obtain s3 t3 where s3: "produces p [] s1 s3" "evict_one_eligible_locked p s3 = (v, t3)"
      "s2 = t3\<lparr>lock_held := False\<rparr>" "length (queue s3) \<le> length (queue s1)"
      by (rule with_lock_cases [OF v])
    have s2: "produces p [] s s2"
      using produces_trans_Nil [OF s1(1) produces_trans_Nil [OF s3(1) produces_trans_Nil [OF
          evict_one_produces(1) [OF assms s3(2)] produces_bookkeeping(2) [of p t3 False]]]] s3(3)
      by simp
    show ?thesis
    proof (cases "is_evicted v")
      case True
      let ?s = "gc_collect s2"
      have "length (queue ?s) < length (queue s)"
        using evict_one_produces(2) [OF assms s3(2) True] s3(3,4) s1(2) by simp
      from less [OF this] obtain r' t where
        rt: "serialize_with_recovery w True message p ?s = Some (r', t)" "produces p [] ?s t"
        "serialize_outcome w message p r' t"
        by blast
      have "produces p [] s t"
        using produces_trans_Nil [OF s2 produces_trans_Nil [OF produces_gc rt(2)]] .
      with rt a mem v True show ?thesis by (subst serialize_with_recovery.simps) simp
    next
      case False
      have "nothing_eligible p s2"
        using s3(2) by (cases rule: evict_one_cases) (use False s3(3) in \<open>auto simp: nothing_eligible_def\<close>)
      with a mem v False s2 show ?thesis
        by (subst serialize_with_recovery.simps) (simp add: serialize_outcome_def)
    qed
  qed
qed

lemma serialize_returns:
  assumes "priority_ok p"
  shows "\<exists>r t. serialize_with_recovery w g message p s = Some (r, t)
           \<and> produces p [] s t \<and> serialize_outcome w message p r t"
proof (cases g)
  case True
  with serialize_retry_returns [OF assms] show ?thesis by simp
next
  case g: False
  obtain r s1 where a: "serialize_attempt w message s = (r, s1)" by fastforce
  have s1: "produces p [] s s1" using serialize_attempt_produces [OF a] by blast
  show ?thesis
  proof (cases "r = Inl MemoryError")
    case False
    from serialize_attempt_ends [OF a False] produces_trans_Nil [OF s1] show ?thesis by blast
  next
    case True
    from serialize_retry_returns [OF assms, of w message "gc_collect s1"]
    obtain r' t where rt: "serialize_with_recovery w True message p (gc_collect s1) = Some (r', t)"
      "produces p [] (gc_collect s1) t" "serialize_outcome w message p r' t" by blast
    have "produces p [] s t"
      using produces_trans_Nil [OF s1 produces_trans_Nil [OF produces_gc rt(2)]] .
    with rt a g True show ?thesis by (subst serialize_with_recovery.simps) simp
  qed
qed

lemma serialize_gc_first:
  assumes "alloc_ok_at w (clock s) \<or> alloc_ok_at w (clock s + 2)"
    and ser: "serialize_and_validate_message (float_repr w) message = Inr payload"
  shows "\<exists>t. serialize_with_recovery w False message p s = Some (Inr payload, t)
             \<and> displaced t = displaced s \<and> queue t = queue s"
proof (cases "alloc_ok_at w (clock s)")
  case True
  with ser show ?thesis
    by (subst serialize_with_recovery.simps) (simp add: serialize_attempt_def)
next
  case False
  with assms have "alloc_ok_at w (clock s + 2)" by blast
  with False ser show ?thesis
    by (subst serialize_with_recovery.simps, subst serialize_with_recovery.simps)
      (simp add: serialize_attempt_def gc_collect_def)
qed


subsection \<open>Lock discipline\<close>

text \<open>Core 0 leaves the lane alone while the operation runs.\<close>

definition idle :: "env \<Rightarrow> bool" where
  "idle w \<longleftrightarrow> (\<forall>n. core0_at w n = C0_idle)"

text \<open>The lock is used properly and, when \<open>k\<close>, no lease is given or taken.\<close>

definition quiet :: "bool \<Rightarrow> outq \<Rightarrow> outq \<Rightarrow> bool" where
  "quiet k s t \<longleftrightarrow>
     lock_held t = lock_held s \<and> lock_faults t = lock_faults s \<and> (k \<longrightarrow> in_flight t = in_flight s)"

lemma quiet_refl [simp]: "quiet k s s"
  by (simp add: quiet_def)

lemma quiet_trans: "quiet k s t \<Longrightarrow> quiet k t u \<Longrightarrow> quiet k s u"
  by (simp add: quiet_def)

lemma quiet_core0: "(k \<Longrightarrow> a = C0_idle) \<Longrightarrow> quiet k s (core0_step a s)"
  by (cases a) (auto simp: quiet_def core0_step_def take_step_def complete_step_def
      split: option.splits list.splits)

lemma quiet_reading [simp]:
  "reserve_restored w s = (r, t) \<Longrightarrow> quiet k s t"
  "preferred_restored w s = (r, t) \<Longrightarrow> quiet k s t"
  by (auto simp: quiet_def reserve_restored_def preferred_restored_def mem_free_ge_def)

lemma quiet_append: "append_locked w kind payload p s = (r, t) \<Longrightarrow> quiet k s t"
  by (auto simp: append_locked_def Let_def reserve_restored_def mem_free_ge_def quiet_def
      split: if_splits)

lemma quiet_evict: "evict_one_eligible_locked p s = (r, t) \<Longrightarrow> quiet k s t"
  by (erule evict_one_cases) (auto simp: quiet_def)

lemma quiet_count_gate: "count_gate_locked w kind payload p s = (r, t) \<Longrightarrow> quiet k s t"
  by (auto simp: count_gate_locked_def split: if_splits prod.splits
      dest: quiet_append quiet_evict)

lemma quiet_with_lock:
  assumes "with_lock w body s = (r, t)" and "\<not> lock_held s"
    and "\<And>s r t. body s = (r, t) \<Longrightarrow> quiet k s t" and "k \<Longrightarrow> idle w"
  shows "quiet k s t"
proof -
  define s1 where "s1 = core0_step (core0_at w (clock s)) s"
  have s1: "quiet k s s1" unfolding s1_def by (rule quiet_core0) (use assms(4) in \<open>simp add: idle_def\<close>)
  define s2 where "s2 = s1\<lparr>clock := Suc (clock s), lock_held := True,
                  lock_faults := lock_faults s1 + (if lock_held s1 then 1 else 0)\<rparr>"
  obtain r' t3 where b: "body s2 = (r', t3)" by fastforce
  have "t = t3\<lparr>lock_held := False\<rparr>"
    using assms(1) b by (simp add: with_lock_def Let_def s1_def [symmetric] s2_def [symmetric])
  with assms(3) [OF b] s1 assms(2) show ?thesis by (simp add: quiet_def s2_def)
qed

lemma quiet_gc [simp]: "\<not> lock_held s \<Longrightarrow> quiet k s (gc_collect s)"
  by (simp add: quiet_def gc_collect_def)

lemma quiet_unlocked: "quiet k s t \<Longrightarrow> \<not> lock_held s \<Longrightarrow> \<not> lock_held t"
  by (simp add: quiet_def)

lemma quiet_gc_trans: "quiet k s t \<Longrightarrow> \<not> lock_held s \<Longrightarrow> quiet k s (gc_collect t)"
  by (simp add: quiet_def gc_collect_def)

lemma quiet_try_append:
  assumes "try_append_with_count_gate w kind payload p s = (r, t)" and un: "\<not> lock_held s"
  shows "quiet (idle w) s t"
proof -
  obtain g s1 where g: "with_lock w (count_gate_locked w kind payload p) s = (g, s1)" by fastforce
  have s1: "quiet (idle w) s s1" by (rule quiet_with_lock [OF g un quiet_count_gate])
  obtain a s4 where a: "with_lock w (append_locked w kind payload p) (gc_collect s1) = (a, s4)"
    by fastforce
  have gc1: "quiet (idle w) s (gc_collect s1)" using quiet_gc_trans [OF s1 un] .
  have s4: "quiet (idle w) s s4"
    using quiet_trans [OF gc1 quiet_with_lock [OF a quiet_unlocked [OF gc1 un] quiet_append]] .
  show ?thesis
    using assms(1) g a s1 s4 quiet_gc_trans [OF s1 un] quiet_gc_trans [OF s4 un]
    by (auto simp: try_append_with_count_gate_def split: gate_result.splits if_splits)
qed

lemma quiet_hard_attempt:
  assumes "hard_attempt w kind payload p s = (r, t)" and un: "\<not> lock_held s"
  shows "quiet (idle w) s t"
proof -
  obtain b s1 where b: "reserve_restored w s = (b, s1)" by fastforce
  then have s1: "quiet (idle w) s s1" by simp
  show ?thesis
  proof (cases b)
    case True
    then have "try_append_with_count_gate w kind payload p s1 = (r, t)"
      using assms(1) b by (simp add: hard_attempt_def)
    from quiet_try_append [OF this quiet_unlocked [OF s1 un]] show ?thesis
      by (rule quiet_trans [OF s1])
  qed (use assms(1) b s1 in \<open>simp add: hard_attempt_def\<close>)
qed

lemma quiet_displace: "displace_or_reject p s = (r, t) \<Longrightarrow> quiet k s t"
  by (auto simp: displace_or_reject_def quiet_def split: prod.splits if_splits
      dest!: quiet_evict)

lemma quiet_soft_evict:
  assumes "\<not> lock_held s"
  shows "quiet (idle w) s (soft_evict w p s)"
proof -
  obtain r t where r: "with_lock w (evict_one_eligible_locked p) s = (r, t)" by fastforce
  have "quiet (idle w) s t" by (rule quiet_with_lock [OF r assms quiet_evict])
  with r quiet_gc_trans [OF this assms] show ?thesis by (simp add: soft_evict_def)
qed


lemma quiet_with_lock_displace:
  assumes "with_lock w (displace_or_reject p) s = (r, t)" and "\<not> lock_held s"
  shows "quiet (idle w) s t"
  using assms by (rule quiet_with_lock) (rule quiet_displace)

lemma quiet_hard_loop:
  assumes "hard_loop w kind payload p s = Some rt" and "\<not> lock_held s"
  shows "quiet (idle w) s (snd rt)"
  using assms
proof (induction rule: hard_loop.raw_induct [rotated 1, consumes 1, case_names step])
  case (step loop w kind payload p s rt)
  obtain a s1 where a: "hard_attempt w kind payload p s = (a, s1)" by fastforce
  have s1: "quiet (idle w) s s1" by (rule quiet_hard_attempt [OF a step.prems])
  obtain v s2 where v: "with_lock w (displace_or_reject p) s1 = (v, s2)" by fastforce
  have s2: "quiet (idle w) s s2"
    using quiet_trans [OF s1 quiet_with_lock_displace [OF v quiet_unlocked [OF s1 step.prems]]] .
  show ?case
  proof (cases "a \<or> \<not> v")
    case True
    with step.hyps a v have "snd rt = s1 \<or> snd rt = s2" by (cases a) auto
    with s1 s2 show ?thesis by metis
  next
    case False
    then have rt: "loop w kind payload p (gc_collect s2) = Some rt"
      using step a v by (simp split: if_splits)
    have g: "quiet (idle w) s (gc_collect s2)" by (rule quiet_gc_trans [OF s2 step.prems])
    from step.IH [OF rt quiet_unlocked [OF g step.prems]] show ?thesis
      by (rule quiet_trans [OF g])
  qed
qed


lemma quiet_admit:
  assumes "admit_heap_governed w kind payload p s = Some rt" and un: "\<not> lock_held s"
  shows "quiet (idle w) s (snd rt)"
proof -
  obtain b s1 where b: "preferred_restored w s = (b, s1)" by fastforce
  then have s1: "quiet (idle w) s s1" by simp
  define s2 where "s2 = (if b then s1 else gc_collect s1)"
  have s2: "quiet (idle w) s s2" using s1 quiet_gc_trans [OF s1 un] by (simp add: s2_def)
  obtain c s3 where c: "preferred_restored w s2 = (c, s3)" by fastforce
  have s3: "quiet (idle w) s s3" using quiet_trans [OF s2 quiet_reading(2) [OF c]] .
  obtain d s4 where d: "reserve_restored w s3 = (d, s4)" by fastforce
  have s4: "quiet (idle w) s s4" using quiet_trans [OF s3 quiet_reading(1) [OF d]] .
  have s5: "quiet (idle w) s (soft_evict w p s4)"
    using quiet_trans [OF s4 quiet_soft_evict [OF quiet_unlocked [OF s4 un]]] .
  obtain a t where a: "admit_first w kind payload p s = (a, t)" by fastforce
  have "quiet (idle w) s t"
  proof (cases c)
    case True
    with a b c s2_def have "try_append_with_count_gate w kind payload p s3 = (a, t)"
      by (simp add: admit_first_def Let_def)
    from quiet_trans [OF s3 quiet_try_append [OF this quiet_unlocked [OF s3 un]]] show ?thesis .
  next
    case c_False: False
    show ?thesis
    proof (cases d)
      case True
      with a b c d c_False s2_def
      have "try_append_with_count_gate w kind payload p (soft_evict w p s4) = (a, t)"
        by (simp add: admit_first_def Let_def)
      from quiet_trans [OF s5 quiet_try_append [OF this quiet_unlocked [OF s5 un]]] show ?thesis .
    next
      case False
      with a b c d c_False s2_def s4 show ?thesis by (simp add: admit_first_def Let_def)
    qed
  qed
  then have "hard_loop w kind payload p t = Some rt \<Longrightarrow> quiet (idle w) s (snd rt)"
    using quiet_hard_loop quiet_unlocked [OF _ un] quiet_trans by blast
  moreover have "hard_loop w kind payload p t = Some rt \<or> snd rt = t"
    using a assms(1) by (cases rt; cases a) (simp_all add: admit_heap_governed_def)
  ultimately show ?thesis using \<open>quiet (idle w) s t\<close> by blast
qed

lemma quiet_serialize_attempt: "serialize_attempt w message s = (r, t) \<Longrightarrow> quiet k s t"
  by (auto simp: serialize_attempt_def quiet_def)

lemma quiet_serialize:
  assumes "serialize_with_recovery w g message p s = Some rt" and "\<not> lock_held s"
  shows "quiet (idle w) s (snd rt)"
  using assms
proof (induction rule: serialize_with_recovery.raw_induct [rotated 1, consumes 1, case_names step])
  case (step loop w g message p s rt)
  obtain r s1 where a: "serialize_attempt w message s = (r, s1)" by fastforce
  have s1: "quiet (idle w) s s1" by (rule quiet_serialize_attempt [OF a])
  have g1: "quiet (idle w) s (gc_collect s1)" by (rule quiet_gc_trans [OF s1 step.prems])
  obtain v s2 where v: "with_lock w (evict_one_eligible_locked p) s1 = (v, s2)" by fastforce
  have s2: "quiet (idle w) s s2"
    using quiet_trans [OF s1 quiet_with_lock [OF v quiet_unlocked [OF s1 step.prems] quiet_evict]] .
  have g2: "quiet (idle w) s (gc_collect s2)" by (rule quiet_gc_trans [OF s2 step.prems])
  have rec: "loop w True message p u = Some rt \<Longrightarrow> quiet (idle w) s u \<Longrightarrow> quiet (idle w) s (snd rt)" for u
    using step.IH quiet_unlocked [OF _ step.prems] quiet_trans by blast
  show ?case
  proof (cases "r = Inl MemoryError")
    case True
    with step.hyps a v rec [OF _ g1] rec [OF _ g2] s2 show ?thesis
      by (cases g; cases "is_evicted v") auto
  next
    case False
    then have "quiet (idle w) s1 (snd rt)"
      using step.hyps [unfolded a prod.case] by (cases r) (auto simp: quiet_def split: if_splits)
    with s1 show ?thesis by (rule quiet_trans)
  qed
qed


subsection \<open>What put and put_with_kind promise\<close>

lemma metadata_ok:
  "validate_admission_metadata kind p = Inr u \<longleftrightarrow>
   kind_of kind \<noteq> None \<and> is_int p \<and> priority_ok (the_int p)"
  by (auto simp: validate_admission_metadata_def priority_ok_def res_simps)

lemma metadata_error: "validate_admission_metadata kind p = Inl e \<Longrightarrow> e = ValueError"
  by (auto simp: validate_admission_metadata_def res_simps)

text \<open>
  The result \<open>r\<close> of an entry point in state \<open>t\<close>, begun in \<open>s\<close> with priority \<open>p\<close>:
  \<open>sent\<close> says which bytes were admitted, \<open>perm\<close> which exceptions are due to the message.
\<close>

definition put_outcome ::
  "env \<Rightarrow> string \<Rightarrow> pyval \<Rightarrow> (string \<Rightarrow> bool) \<Rightarrow> (exc \<Rightarrow> bool) \<Rightarrow> outq \<Rightarrow> bool res \<Rightarrow> outq \<Rightarrow> bool" where
  "put_outcome w kind p sent perm s r t \<longleftrightarrow>
     quiet (idle w) s t \<and>
     (case r of
        Inr True \<Rightarrow> kind_of kind \<noteq> None \<and> priority_ok (the_int p)
          \<and> (\<exists>payload. sent payload \<and> admitted_as w (the (kind_of kind)) payload (the_int p) t)
          \<and> produces (the_int p) [last (queue t)] s t
      | Inr False \<Rightarrow> nothing_eligible (the_int p) t
          \<and> (\<exists>u. produces (the_int p) [] s u
                 \<and> t = u\<lparr>messages_rejected := messages_rejected u + 1\<rparr>)
      | Inl e \<Rightarrow> produces (the_int p) [] s t
          \<and> (e = MemoryError \<and> nothing_eligible (the_int p) t \<or> perm e))"

lemma admit_put_outcome:
  assumes u: "produces (the_int p) [] s u" "quiet (idle w) s u" and inv: "outq_inv s" and un: "\<not> lock_held s"
    and ok: "validate_admission_metadata kind p = Inr ()" and "sent payload"
  shows "\<exists>b t. admit_heap_governed w (the (kind_of kind)) payload (the_int p) u = Some (b, t)
           \<and> put_outcome w kind p sent perm s (Inr b) t"
proof -
  have p: "priority_ok (the_int p)" "kind_of kind \<noteq> None" using ok by (auto simp: metadata_ok)
  obtain rt where rt: "admit_heap_governed w (the (kind_of kind)) payload (the_int p) u = Some rt"
    and out: "admission_outcome w (the (kind_of kind)) payload (the_int p) s rt"
    using admit_returns [OF p(1) produces_inv [OF u(1) inv]] admission_outcome_trans [OF u(1)]
    by blast
  have q: "quiet (idle w) s (snd rt)"
    using quiet_trans [OF u(2) quiet_admit [OF rt quiet_unlocked [OF u(2) un]]] .
  obtain b t where bt: "rt = (b, t)" by fastforce
  have "put_outcome w kind p sent perm s (Inr b) t"
  proof (cases b)
    case True
    with out bt have o: "produces (the_int p) [last (queue t)] s t"
      "admitted_as w (the (kind_of kind)) payload (the_int p) t"
      by (simp_all add: admission_outcome_def)
    from o(2) \<open>sent payload\<close> have
      "\<exists>payload. sent payload \<and> admitted_as w (the (kind_of kind)) payload (the_int p) t" by blast
    with True bt o(1) q p show ?thesis by (simp add: put_outcome_def)
  next
    case False
    with out bt q show ?thesis
      by (simp add: put_outcome_def admission_outcome_def) blast
  qed
  with rt bt show ?thesis by blast
qed

definition message_fault :: "env \<Rightarrow> string \<Rightarrow> pyval \<Rightarrow> pyval \<Rightarrow> exc \<Rightarrow> bool" where
  "message_fault w kind p message e \<longleftrightarrow>
     (e = ValueError \<and> (kind_of kind = None \<or> \<not> is_int p \<or> \<not> priority_ok (the_int p)
                        \<or> \<not> is_dict message \<or> \<not> is_json_safe message))
     \<or> (e = OutboundMessageTooLargeError
        \<and> serialize_and_validate_message (float_repr w) message = Inl MessageTooLargeError)"

lemma put_returns:
  assumes "outq_inv s" and "\<not> lock_held s"
  shows "\<exists>r t. put w kind message p s = Some (r, t)
           \<and> put_outcome w kind p
               (\<lambda>bs. serialize_and_validate_message (float_repr w) message = Inr bs)
               (message_fault w kind p message) s r t"
proof (cases "validate_admission_metadata kind p")
  case (Inl e)
  with metadata_ok [of kind p] metadata_error [OF Inl] show ?thesis
    by (auto simp: put_def put_outcome_def message_fault_def)
next
  case (Inr u)
  then have p: "priority_ok (the_int p)" and ok: "validate_admission_metadata kind p = Inr ()"
    by (auto simp: metadata_ok)
  show ?thesis
  proof (cases "is_dict message")
    case False
    with ok show ?thesis by (simp add: put_def put_outcome_def message_fault_def)
  next
    case dict: True
    obtain r u where ser: "serialize_with_recovery w False message (the_int p) s = Some (r, u)"
      "produces (the_int p) [] s u" "serialize_outcome w message (the_int p) r u"
      using serialize_returns [OF p] by blast
    have q: "quiet (idle w) s u" using quiet_serialize [OF ser(1) assms(2)] by simp
    show ?thesis
    proof (cases r)
      case (Inl e)
      with ser(3) have "e = MemoryError \<and> nothing_eligible (the_int p) u
        \<or> message_fault w kind p message e"
        by (auto simp: serialize_outcome_def message_fault_def)
      with ok dict Inl ser(1,2) q show ?thesis by (simp add: put_def put_outcome_def)
    next
      case (Inr payload)
      with ser(3) have "serialize_and_validate_message (float_repr w) message = Inr payload"
        by (auto simp: serialize_outcome_def)
      from admit_put_outcome [where sent = "\<lambda>bs. serialize_and_validate_message (float_repr w) message = Inr bs"
            and perm = "message_fault w kind p message", OF ser(2) q assms ok this]
      show ?thesis using ok dict Inr ser(1) by (fastforce simp: put_def)
    qed
  qed
qed


lemma put_with_kind_returns:
  assumes "outq_inv s" and "\<not> lock_held s"
  shows "\<exists>r t. put_with_kind w kind payload p s = Some (r, t)
           \<and> put_outcome w kind p
               (\<lambda>bs. payload = Some bs \<and> length bs \<le> MAX_OUTBOUND_MESSAGE_BYTES)
               (\<lambda>e. e = ValueError \<or> e = OutboundMessageTooLargeError) s r t"
proof (cases "validate_admission_metadata kind p")
  case (Inl e)
  with metadata_error [OF Inl] show ?thesis
    by (simp add: put_with_kind_def put_outcome_def)
next
  case (Inr u)
  then have ok: "validate_admission_metadata kind p = Inr ()" by simp
  show ?thesis
  proof (cases "\<exists>bs. payload = Some bs \<and> length bs \<le> MAX_OUTBOUND_MESSAGE_BYTES")
    case True
    then obtain bs where bs: "payload = Some bs" "length bs \<le> MAX_OUTBOUND_MESSAGE_BYTES" by blast
    from admit_put_outcome [where sent = "\<lambda>bs. payload = Some bs \<and> length bs \<le> MAX_OUTBOUND_MESSAGE_BYTES"
          and perm = "\<lambda>e. e = ValueError \<or> e = OutboundMessageTooLargeError",
          OF produces_refl quiet_refl assms ok, of bs] bs
    show ?thesis using ok by (fastforce simp: put_with_kind_def)
  next
    case False
    with ok show ?thesis
      by (cases payload) (auto simp: put_with_kind_def put_outcome_def quiet_def)
  qed
qed

lemma put_outcome_inv:
  assumes "put_outcome w kind p sent perm s r t" and "outq_inv s"
  shows "outq_inv t" and "quiet (idle w) s t"
proof -
  have bump: "outq_inv u \<Longrightarrow> outq_inv (u\<lparr>messages_rejected := n\<rparr>)" for u n
    by (simp add: outq_defs)
  show "outq_inv t"
    using assms
    by (auto simp: put_outcome_def produces_inv [OF _ assms(2)] bump split: sum.splits bool.splits)
  show "quiet (idle w) s t" using assms(1) by (simp add: put_outcome_def)
qed

subsection \<open>Reachable queues\<close>

text \<open>Any sequence of calls of the two cores, each in an environment of its own.\<close>

inductive outq_call :: "outq \<Rightarrow> outq \<Rightarrow> bool" where
  call_put: "put w kind message p s = Some (r, t) \<Longrightarrow> outq_call s t"
| call_put_with_kind: "put_with_kind w kind payload p s = Some (r, t) \<Longrightarrow> outq_call s t"
| call_take: "outq_take w s = (e, t) \<Longrightarrow> outq_call s t"
| call_complete: "complete_in_flight w eid discarded s = (b, t) \<Longrightarrow> outq_call s t"
| call_get_depth: "get_depth w s = (n, t) \<Longrightarrow> outq_call s t"
| call_has_in_flight: "has_in_flight w s = (f, t) \<Longrightarrow> outq_call s t"

definition healthy :: "outq \<Rightarrow> bool" where
  "healthy s \<longleftrightarrow> outq_inv s \<and> \<not> lock_held s \<and> lock_faults s = 0"

lemma locked_healthy:
  assumes "with_lock w body s = (r, t)" and "healthy s"
    and "\<And>s r t. body s = (r, t) \<Longrightarrow> quiet False s t \<and> produces RETENTION_PRIORITY_MAX [] s t"
  shows "healthy t"
proof -
  obtain s2 t3 where s2: "produces RETENTION_PRIORITY_MAX [] s s2" "body s2 = (r, t3)"
    "t = t3\<lparr>lock_held := False\<rparr>"
    by (rule with_lock_cases [OF assms(1)])
  have "produces RETENTION_PRIORITY_MAX [] s t"
    using produces_trans_Nil [OF s2(1) produces_trans_Nil [OF conjunct2 [OF assms(3) [OF s2(2)]]
        produces_bookkeeping(2)]] s2(3) by simp
  moreover have "quiet False s t"
    using assms(1) by (rule quiet_with_lock) (use assms(2,3) in \<open>auto simp: healthy_def\<close>)
  ultimately show ?thesis
    using assms(2) by (auto simp: healthy_def quiet_def dest: produces_inv)
qed

lemma take_step_quiet: "take_step s = (r, t) \<Longrightarrow> quiet False s t"
  by (auto simp: take_step_def quiet_def split: option.splits list.splits)

lemma complete_step_quiet: "complete_step eid d s = (r, t) \<Longrightarrow> quiet False s t"
  by (auto simp: complete_step_def quiet_def split: option.splits if_splits)

lemma healthy_call: "outq_call s t \<Longrightarrow> healthy s \<Longrightarrow> healthy t"
proof (induction rule: outq_call.induct)
  case (call_put w kind message p s r t)
  with put_returns [of s w kind message p] show ?case
    by (auto simp: healthy_def quiet_def dest: put_outcome_inv)
next
  case (call_put_with_kind w kind payload p s r t)
  with put_with_kind_returns [of s w kind payload p] show ?case
    by (auto simp: healthy_def quiet_def dest: put_outcome_inv)
next
  case (call_take w s e t)
  then have "with_lock w take_step s = (e, t)" by (simp add: outq_take_def)
  then show ?case
    by (rule locked_healthy [OF _ call_take(2)])
      (use produces_take take_step_quiet in \<open>metis snd_conv\<close>)
next
  case (call_complete w eid discarded s b t)
  then have "with_lock w (complete_step eid discarded) s = (b, t)"
    by (simp add: complete_in_flight_def)
  then show ?case
    by (rule locked_healthy [OF _ call_complete(2)])
      (use produces_complete complete_step_quiet in \<open>metis snd_conv\<close>)
next
  case (call_get_depth w s n t)
  then show ?case by (auto simp: get_depth_def intro: locked_healthy)
next
  case (call_has_in_flight w s f t)
  then show ?case by (auto simp: has_in_flight_def intro: locked_healthy)
qed

inductive outq_reachable :: "outq \<Rightarrow> bool" where
  reach_init: "outq_init minimum preferred maxm = Inr s \<Longrightarrow> outq_reachable s"
| reach_call: "outq_reachable s \<Longrightarrow> outq_call s t \<Longrightarrow> outq_reachable t"

lemma outq_init_healthy: "outq_init minimum preferred maxm = Inr s \<Longrightarrow> healthy s"
  by (auto simp: outq_init_def healthy_def outq_defs Let_def require_positive_integer_def res_simps
      split: if_splits)

lemma outq_reachable_healthy: "outq_reachable s \<Longrightarrow> healthy s"
  by (induction rule: outq_reachable.induct) (auto intro: outq_init_healthy healthy_call)

subsection \<open>Properties\<close>

text \<open>A queue and an environment for the witnesses: floor 10, at most two messages, 100 bytes free.\<close>

definition demo_env :: env where
  "demo_env = \<lparr>mem_free_at = \<lambda>n. 100, alloc_ok_at = \<lambda>n. True,
     core0_at = \<lambda>n. C0_idle, float_repr = \<lambda>r. ''0''\<rparr>"

definition starved_env :: env where
  "starved_env = demo_env\<lparr>mem_free_at := \<lambda>n. 5\<rparr>"

definition demo_queue :: outq where
  "demo_queue = projr (outq_init (PInt 10) (PInt 20) (PInt 2))"

lemma demo_queue_reachable: "outq_reachable demo_queue"
  by (rule outq_reachable.reach_init [of "PInt 10" "PInt 20" "PInt 2"])
    (simp add: demo_queue_def outq_init_def require_positive_integer_def Let_def require_def)

lemma reachable_put:
  assumes "outq_reachable s" and "put w kind message p s = Some (r, t)"
  shows "put_outcome w kind p
               (\<lambda>bs. serialize_and_validate_message (float_repr w) message = Inr bs)
               (message_fault w kind p message) s r t"
  using put_returns [of s w kind message p] outq_reachable_healthy [OF assms(1)] assms(2)
  by (auto simp: healthy_def)

text \<open>
  C2: every \<open>put\<close> on a reachable outbound queue returns, whatever the heap readings, the
  serializer's allocations and Core 0 do: neither the pressure loop nor the
  serialization loop runs forever.
\<close>

theorem put_total:
  assumes "outq_reachable s"
  shows "\<exists>r t. put w kind message p s = Some (r, t) \<and> outq_reachable t"
  using put_returns [of s w kind message p] outq_reachable_healthy [OF assms]
    outq_reachable.reach_call [OF assms outq_call.call_put]
  by (fastforce simp: healthy_def)

theorem put_total_witness:
  "\<exists>r t. put starved_env ''log'' (PDict []) (PInt 50) demo_queue = Some (r, t) \<and> outq_reachable t"
  by (rule put_total [OF demo_queue_reachable])

text \<open>
  C3: when \<open>put\<close> answers True, exactly one entry has been added, at the back, with the
  given kind and priority and the JSON text of the message as its bytes; the bytes are at
  most 16 KiB, the count ceiling holds with the entry in place, and the hard heap floor
  held at the reading taken after the append.
\<close>

theorem put_admits:
  assumes "outq_reachable s" and "put w kind message p s = Some (Inr True, t)"
  shows "\<exists>e q. queue t = q @ [e] \<and> Some (e_kind e) = kind_of kind \<and> PInt (retention_priority e) = p
     \<and> is_json_safe message \<and> payload_bytes e = json_text (float_repr w) message
     \<and> length (payload_bytes e) \<le> MAX_OUTBOUND_MESSAGE_BYTES
     \<and> accounted t = add_mset e (accounted s)
     \<and> within_limit (max_messages s) (depth_of t)
     \<and> mem_free_at w (clock t - 1) \<ge> minimum_free_heap_bytes s"
proof -
  obtain payload where
    pay: "serialize_and_validate_message (float_repr w) message = Inr payload"
      "admitted_as w (the (kind_of kind)) payload (the_int p) t" "kind_of kind \<noteq> None"
    and new: "produces (the_int p) [last (queue t)] s t"
    using reachable_put [OF assms] by (auto simp: put_outcome_def)
  have p: "is_int p"
    using assms(2) by (auto simp: put_def metadata_ok split: sum.splits)
  let ?e = "last (queue t)"
  have "queue t = butlast (queue t) @ [?e]" using pay(2) by (simp add: admitted_as_def)
  moreover have "outq_inv t"
    using produces_inv [OF new] outq_reachable_healthy [OF assms(1)] by (simp add: healthy_def)
  moreover have "PInt (the_int p) = p" using p by (cases p) auto
  ultimately show ?thesis
    using pay new
    by (intro exI [of _ ?e] exI [of _ "butlast (queue t)"])
      (auto simp: admitted_as_def serialize_ok_iff produces_def same_config_def outq_inv_def)
qed

theorem put_admits_witness:
  "\<exists>t. put demo_env ''telemetry'' (PDict []) (PInt 40) demo_queue = Some (Inr True, t)
     \<and> (\<exists>e q. queue t = q @ [e] \<and> payload_bytes e = ''{}'')"
proof -
  have "map_option fst (put demo_env ''telemetry'' (PDict []) (PInt 40) demo_queue) = Some (Inr True)"
    by code_simp
  then obtain t where t: "put demo_env ''telemetry'' (PDict []) (PInt 40) demo_queue = Some (Inr True, t)"
    by auto
  from put_admits [OF demo_queue_reachable t] show ?thesis
    using t by (auto simp: json_text_dict json_members_def)
qed

text \<open>
  \<open>put\<close> answers False only when nothing retained may be displaced for the message: the
  queue is empty, or everything in it is more important, or the message is CRITICAL and
  so is everything queued. The rejection is counted once and loses no message.
\<close>

theorem put_rejects:
  assumes "outq_reachable s" and "put w kind message p s = Some (Inr False, t)"
  shows "(queue t = [] \<or> (\<forall>e \<in> set (queue t). retention_priority e < the_int p)
          \<or> (the_int p = RETENTION_PRIORITY_CRITICAL
             \<and> (\<forall>e \<in> set (queue t). retention_priority e = RETENTION_PRIORITY_CRITICAL)))
     \<and> messages_rejected t = messages_rejected s + 1 \<and> accounted t = accounted s"
proof -
  obtain u where u: "nothing_eligible (the_int p) t" "produces (the_int p) [] s u"
    "t = u\<lparr>messages_rejected := messages_rejected u + 1\<rparr>"
    using reachable_put [OF assms] by (auto simp: put_outcome_def)
  have "outq_inv u"
    using produces_inv [OF u(2)] outq_reachable_healthy [OF assms(1)] by (simp add: healthy_def)
  then have "\<forall>e \<in> set (queue t). RETENTION_PRIORITY_CRITICAL \<le> retention_priority e"
    using u(3) by (auto simp: outq_inv_def retained_def RETENTION_PRIORITY_MIN_def)
  with u show ?thesis
    by (auto simp: nothing_eligible_def produces_def accounted_def retained_def intro: antisym)
qed

theorem put_rejects_witness:
  "\<exists>t. put starved_env ''log'' (PDict []) (PInt 50) demo_queue = Some (Inr False, t)
     \<and> messages_rejected t = 1"
proof -
  have "map_option fst (put starved_env ''log'' (PDict []) (PInt 50) demo_queue) = Some (Inr False)"
    by code_simp
  then obtain t where t: "put starved_env ''log'' (PDict []) (PInt 50) demo_queue = Some (Inr False, t)"
    by auto
  moreover have "messages_rejected demo_queue = 0" by code_simp
  ultimately show ?thesis using put_rejects [OF demo_queue_reachable t] by simp
qed

text \<open>
  C4: retention. Whatever \<open>put\<close> answers, every entry is still accounted for (retained,
  released by Core 0, or displaced), and each entry displaced by the call was at most as
  important as the message it made room for and was not CRITICAL.
\<close>

theorem put_displaces_legally:
  assumes "outq_reachable s" and "put w kind message p s = Some (r, t)"
  shows "(\<exists>D. displaced t = D @ displaced s
            \<and> (\<forall>(q, e) \<in> set D. q = the_int p \<and> the_int p \<le> retention_priority e
                 \<and> retention_priority e \<noteq> RETENTION_PRIORITY_CRITICAL))
     \<and> accounted t = accounted s + (if r = Inr True then {#last (queue t)#} else {#})"
proof -
  have prod: "produces (the_int p) (if r = Inr True then [last (queue t)] else []) s t
    \<or> (r = Inr False \<and> (\<exists>u. produces (the_int p) [] s u
                 \<and> t = u\<lparr>messages_rejected := messages_rejected u + 1\<rparr>))"
    using reachable_put [OF assms] by (cases r) (auto simp: put_outcome_def split: bool.splits)
  have legal: "legal_displacement (the_int p) d \<Longrightarrow>
    (case d of (q, e) \<Rightarrow> q = the_int p \<and> the_int p \<le> retention_priority e
                 \<and> retention_priority e \<noteq> RETENTION_PRIORITY_CRITICAL)" for d
    by (auto simp: legal_displacement_def)
  have goal: ?thesis
    if u: "produces (the_int p) new s u" and
      t: "displaced t = displaced u" "accounted t = accounted u" and
      new: "mset new = (if r = Inr True then {#last (queue t)#} else {#})" for u new
  proof -
    from u obtain D where D: "displaced u = D @ displaced s"
      "\<forall>d \<in> set D. legal_displacement (the_int p) d"
      "accounted u = accounted s + mset new"
      unfolding produces_def by blast
    show ?thesis
      using D t new legal by (intro conjI exI [of _ D]) auto
  qed
  from prod show ?thesis
  proof
    assume "produces (the_int p) (if r = Inr True then [last (queue t)] else []) s t"
    from goal [OF this] show ?thesis by simp
  next
    assume "r = Inr False \<and> (\<exists>u. produces (the_int p) [] s u
                 \<and> t = u\<lparr>messages_rejected := messages_rejected u + 1\<rparr>)"
    then show ?thesis using goal [of "[]"] by (auto simp: accounted_def retained_def)
  qed
qed

text \<open>The queue of the witnesses with two telemetry entries, at its ceiling.\<close>

definition demo_put :: "outq \<Rightarrow> outq" where
  "demo_put s = snd (the (put demo_env ''telemetry'' (PDict []) (PInt 40) s))"

definition demo_full :: outq where
  "demo_full = demo_put (demo_put demo_queue)"

lemma demo_put_reachable:
  assumes "outq_reachable s"
  shows "outq_reachable (demo_put s)"
proof -
  obtain r t where t: "put demo_env ''telemetry'' (PDict []) (PInt 40) s = Some (r, t)"
    using put_returns [of s demo_env "''telemetry''" "PDict []" "PInt 40"]
      outq_reachable_healthy [OF assms] by (auto simp: healthy_def)
  from outq_reachable.reach_call [OF assms outq_call.call_put [OF t]] t show ?thesis
    by (simp add: demo_put_def)
qed

lemma demo_full_reachable: "outq_reachable demo_full"
  by (simp add: demo_full_def demo_put_reachable demo_queue_reachable)

theorem put_displaces_legally_witness:
  "\<exists>t e. put demo_env ''log'' (PDict []) (PInt 10) demo_full = Some (Inr True, t)
     \<and> displaced t = [(10, e)] \<and> retention_priority e \<noteq> RETENTION_PRIORITY_CRITICAL"
proof -
  let ?out = "put demo_env ''log'' (PDict []) (PInt 10) demo_full"
  have "map_option (\<lambda>(r, t). (r, length (displaced t), map fst (displaced t))) ?out
      = Some (Inr True, 1, [10])"
    by code_simp
  then obtain t where t: "?out = Some (Inr True, t)" "length (displaced t) = 1"
    "map fst (displaced t) = [10]"
    by auto
  then obtain e where e: "displaced t = [(10, e)]" by auto
  moreover have "displaced demo_full = []" by code_simp
  ultimately show ?thesis
    using put_displaces_legally [OF demo_full_reachable t(1)] t(1) by auto
qed

text \<open>
  C5: the queue between calls, for every interleaving of the two cores: the byte metric is
  the sum of the retained payloads, the depth respects the ceiling and its watermark, what
  Core 0 released and what is retained are in admission order (FIFO, no entry twice), the
  lock is free, and no collection and no second acquisition ever happened under it.
\<close>

theorem outq_invariant:
  assumes "outq_reachable s"
  shows "queued_bytes s = (\<Sum>e\<leftarrow>retained s. int (length (payload_bytes e)))
     \<and> within_limit (max_messages s) (depth_of s)
     \<and> depth_of s \<le> high_watermark s \<and> queued_bytes s \<le> high_watermark_bytes s
     \<and> sorted_wrt (<) (map e_id (rev (released s) @ retained s))
     \<and> \<not> lock_held s \<and> lock_faults s = 0"
  using outq_reachable_healthy [OF assms] by (simp add: healthy_def outq_inv_def payload_sum_def)

theorem outq_invariant_witness:
  "queued_bytes demo_full = (\<Sum>e\<leftarrow>retained demo_full. int (length (payload_bytes e)))
   \<and> depth_of demo_full = 2"
proof -
  have "depth_of demo_full = 2" by code_simp
  with outq_invariant [OF demo_full_reachable] show ?thesis by simp
qed

text \<open>
  a serializer \<open>MemoryError\<close> is answered by a collection before any queued entry is
  given up: when the first attempt or the one after the collection has memory, the
  message is serialized and nothing has been displaced or reordered.
\<close>

theorem serialize_collects_first:
  assumes "alloc_ok_at w (clock s) \<or> alloc_ok_at w (clock s + 2)"
    and "serialize_and_validate_message (float_repr w) message = Inr payload"
  shows "\<exists>t. serialize_with_recovery w False message p s = Some (Inr payload, t)
             \<and> displaced t = displaced s \<and> queue t = queue s"
  using assms by (rule serialize_gc_first)

theorem serialize_collects_first_witness:
  "\<exists>t. serialize_with_recovery (demo_env\<lparr>alloc_ok_at := \<lambda>n. n \<noteq> 0\<rparr>) False (PDict []) 10 demo_queue
     = Some (Inr ''{}'', t) \<and> displaced t = displaced demo_queue \<and> queue t = queue demo_queue"
proof (rule serialize_collects_first)
  show "alloc_ok_at (demo_env\<lparr>alloc_ok_at := \<lambda>n. n \<noteq> 0\<rparr>) (clock demo_queue)
    \<or> alloc_ok_at (demo_env\<lparr>alloc_ok_at := \<lambda>n. n \<noteq> 0\<rparr>) (clock demo_queue + 2)"
    by simp
  show "serialize_and_validate_message (float_repr (demo_env\<lparr>alloc_ok_at := \<lambda>n. n \<noteq> 0\<rparr>)) (PDict [])
    = Inr ''{}''"
    by code_simp
qed

end
