(* ===== verification/Lanes.thy ===== *)
theory Lanes
  imports Admission
begin

section \<open>The other inter-core lanes\<close>

text \<open>
  The event queue (Core 0 to Core 1), the latest-value mailboxes and the container
  \<open>InterCore\<close> of \<open>intercore.py\<close>, and the contract Core 0's publisher relies on: a lane
  whose head is leased, published, and removed only on completion.
\<close>

subsection \<open>InterCoreEventQueue\<close>

text \<open>
  As for the outbound queue, the free-heap readings and the other core (here Core 1, which
  may take an event just before the lock is acquired) are arbitrary. \<open>ev_taken\<close> is a log.
\<close>

record ev_env =
  ev_free_at :: "nat \<Rightarrow> int"
  core1_takes_at :: "nat \<Rightarrow> bool"

record evq =
  ev_minimum :: int
  ev_queue :: "pyval list"
  ev_high_watermark :: int
  ev_rejected :: int
  ev_clock :: nat
  ev_taken :: "pyval list"

definition evq_init :: "pyval \<Rightarrow> evq res" where
  "evq_init minimum =
     andthen (require_positive_integer minimum) (\<lambda>_.
     Inr \<lparr>ev_minimum = the_int minimum, ev_queue = [], ev_high_watermark = 0, ev_rejected = 0,
          ev_clock = 0, ev_taken = []\<rparr>)"

definition ev_take_step :: "evq \<Rightarrow> pyval option \<times> evq" where
  "ev_take_step s =
     (case ev_queue s of
        [] \<Rightarrow> (None, s)
      | e # q \<Rightarrow> (Some e, s\<lparr>ev_queue := q, ev_taken := ev_taken s @ [e]\<rparr>))"

definition ev_tick :: "evq \<Rightarrow> evq" where
  "ev_tick s = s\<lparr>ev_clock := Suc (ev_clock s)\<rparr>"

definition ev_with_lock :: "ev_env \<Rightarrow> (evq \<Rightarrow> 'a \<times> evq) \<Rightarrow> evq \<Rightarrow> 'a \<times> evq" where
  "ev_with_lock w body s =
     body (ev_tick (if core1_takes_at w (ev_clock s) then snd (ev_take_step s) else s))"

definition ev_floor_holds :: "ev_env \<Rightarrow> evq \<Rightarrow> bool \<times> evq" where
  "ev_floor_holds w s = (ev_free_at w (ev_clock s) \<ge> ev_minimum s, ev_tick s)"

definition count_rejection :: "ev_env \<Rightarrow> evq \<Rightarrow> evq" where
  "count_rejection w s = snd (ev_with_lock w (\<lambda>s. ((), s\<lparr>ev_rejected := ev_rejected s + 1\<rparr>)) s)"

text \<open>Append under the lock, or undo it when the reserve no longer holds.\<close>

definition ev_append_locked :: "ev_env \<Rightarrow> pyval \<Rightarrow> evq \<Rightarrow> bool \<times> evq" where
  "ev_append_locked w event s =
     (let s1 = s\<lparr>ev_queue := ev_queue s @ [event]\<rparr>;
          (holds, s2) = ev_floor_holds w s1
      in if \<not> holds then (False, s2\<lparr>ev_queue := butlast (ev_queue s2)\<rparr>)
         else (True, s2\<lparr>ev_high_watermark :=
                          max (int (length (ev_queue s2))) (ev_high_watermark s2)\<rparr>))"

definition ev_put :: "ev_env \<Rightarrow> pyval \<Rightarrow> evq \<Rightarrow> bool res \<times> evq" where
  "ev_put w event s =
     (if \<not> is_dict event then (Inl ValueError, s)
      else (let (holds, s1) = ev_floor_holds w s;
                s2 = (if \<not> holds then ev_tick s1 else s1);
                (room, s3) = ev_floor_holds w s2
            in if room
               then (let (kept, s4) = ev_with_lock w (ev_append_locked w event) s3
                     in if kept then (Inr True, s4)
                        else (Inr False, count_rejection w (ev_tick s4)))
               else (Inr False, count_rejection w s3)))"

definition ev_take :: "ev_env \<Rightarrow> evq \<Rightarrow> pyval option \<times> evq" where
  "ev_take w s = ev_take_step s"

definition ev_status :: "evq \<Rightarrow> int \<times> int \<times> int" where
  "ev_status s = (int (length (ev_queue s)), ev_high_watermark s, ev_rejected s)"

text \<open>The whole life of the lane: what was taken, then what waits.\<close>

definition ev_history :: "evq \<Rightarrow> pyval list" where
  "ev_history s = ev_taken s @ ev_queue s"

definition evq_inv :: "evq \<Rightarrow> bool" where
  "evq_inv s \<longleftrightarrow> 0 < ev_minimum s \<and> int (length (ev_queue s)) \<le> ev_high_watermark s
     \<and> (\<forall>e \<in> set (ev_queue s). is_dict e)"

lemma ev_tick_simps [simp]:
  "ev_history (ev_tick s) = ev_history s" "evq_inv (ev_tick s) = evq_inv s"
  "ev_rejected (ev_tick s) = ev_rejected s" "ev_minimum (ev_tick s) = ev_minimum s"
  "ev_queue (ev_tick s) = ev_queue s" "ev_taken (ev_tick s) = ev_taken s"
  "ev_high_watermark (ev_tick s) = ev_high_watermark s" "ev_clock (ev_tick s) = Suc (ev_clock s)"
  by (simp_all add: ev_tick_def ev_history_def evq_inv_def)

lemma ev_take_step_simps [simp]:
  "ev_history (snd (ev_take_step s)) = ev_history s"
  "ev_rejected (snd (ev_take_step s)) = ev_rejected s"
  "ev_minimum (snd (ev_take_step s)) = ev_minimum s"
  "ev_clock (snd (ev_take_step s)) = ev_clock s"
  "evq_inv s \<Longrightarrow> evq_inv (snd (ev_take_step s))"
  by (auto simp: ev_take_step_def ev_history_def evq_inv_def split: list.splits)

lemma ev_floor_holds_eq: "ev_floor_holds w s = (b, t) \<Longrightarrow> t = ev_tick s"
  by (simp add: ev_floor_holds_def)

lemma count_rejection_simps [simp]:
  "ev_history (count_rejection w s) = ev_history s"
  "ev_rejected (count_rejection w s) = ev_rejected s + 1"
  "ev_minimum (count_rejection w s) = ev_minimum s"
  "evq_inv s \<Longrightarrow> evq_inv (count_rejection w s)"
proof -
  let ?u = "if core1_takes_at w (ev_clock s) then snd (ev_take_step s) else s"
  have c: "count_rejection w s = (ev_tick ?u)\<lparr>ev_rejected := ev_rejected ?u + 1\<rparr>"
    by (simp add: count_rejection_def ev_with_lock_def)
  show "ev_history (count_rejection w s) = ev_history s"
    unfolding c by (simp add: ev_history_def [of "_\<lparr>ev_rejected := _\<rparr>"] flip: ev_history_def)
  show "ev_rejected (count_rejection w s) = ev_rejected s + 1" unfolding c by simp
  show "ev_minimum (count_rejection w s) = ev_minimum s" unfolding c by simp
  show "evq_inv s \<Longrightarrow> evq_inv (count_rejection w s)"
    using ev_take_step_simps(5) [of s]
    unfolding c by (auto simp: evq_inv_def)
qed

lemma ev_append_locked_cases:
  assumes "ev_append_locked w event s = (b, t)" and "is_dict event"
  shows "b \<Longrightarrow> ev_history t = ev_history s @ [event] \<and> ev_free_at w (ev_clock t - 1) \<ge> ev_minimum s
              \<and> ev_queue t \<noteq> [] \<and> last (ev_queue t) = event"
    and "\<not> b \<Longrightarrow> ev_history t = ev_history s"
    and "ev_rejected t = ev_rejected s" and "ev_minimum t = ev_minimum s"
    and "evq_inv s \<Longrightarrow> evq_inv t"
  using assms
  by (auto simp: ev_append_locked_def Let_def ev_floor_holds_def ev_history_def evq_inv_def ev_tick_def
      split: if_splits)

lemma ev_put_summary:
  assumes "ev_put w event s = (r, t)"
  shows "(case r of
            Inl e \<Rightarrow> e = ValueError \<and> \<not> is_dict event \<and> t = s
          | Inr True \<Rightarrow> ev_history t = ev_history s @ [event] \<and> ev_queue t \<noteq> []
              \<and> last (ev_queue t) = event \<and> ev_rejected t = ev_rejected s
              \<and> ev_free_at w (ev_clock t - 1) \<ge> ev_minimum s
          | Inr False \<Rightarrow> ev_history t = ev_history s \<and> ev_rejected t = ev_rejected s + 1)
         \<and> ev_minimum t = ev_minimum s \<and> (evq_inv s \<longrightarrow> evq_inv t)"
proof (cases "is_dict event")
  case False
  with assms show ?thesis by (auto simp: ev_put_def)
next
  case dict: True
  obtain h s1 where h: "ev_floor_holds w s = (h, s1)" by fastforce
  define s2 where "s2 = (if \<not> h then ev_tick s1 else s1)"
  obtain m s3 where m: "ev_floor_holds w s2 = (m, s3)" by fastforce
  have s3: "ev_history s3 = ev_history s" "ev_rejected s3 = ev_rejected s"
    "ev_minimum s3 = ev_minimum s" "evq_inv s3 = evq_inv s"
    using ev_floor_holds_eq [OF h] ev_floor_holds_eq [OF m] by (auto simp: s2_def)
  define u where "u = ev_tick (if core1_takes_at w (ev_clock s3) then snd (ev_take_step s3) else s3)"
  have u: "ev_history u = ev_history s" "ev_rejected u = ev_rejected s"
    "ev_minimum u = ev_minimum s" "evq_inv s \<longrightarrow> evq_inv u"
    using s3 by (auto simp: u_def)
  obtain k s4 where k: "ev_append_locked w event u = (k, s4)" by fastforce
  note app = ev_append_locked_cases [OF k dict]
  have out: "(r, t) = (if m then (if k then (Inr True, s4)
                                  else (Inr False, count_rejection w (ev_tick s4)))
                       else (Inr False, count_rejection w s3))"
    using assms dict h m k
    by (cases m; cases k) (simp_all add: ev_put_def s2_def ev_with_lock_def u_def)
  show ?thesis
  proof (cases m)
    case False
    with out s3 show ?thesis by auto
  next
    case True
    with out u app show ?thesis by (cases k) auto
  qed
qed

subsection \<open>StateMailboxes\<close>

record mailboxes =
  network_snapshot :: pyval
  utc_snapshot :: pyval
  core_1_activity_ms :: "int option"
  hardware :: pyval

definition mailboxes_init :: mailboxes where
  "mailboxes_init = \<lparr>network_snapshot = PNone, utc_snapshot = PNone,
                     core_1_activity_ms = None, hardware = PNone\<rparr>"

definition set_network_snapshot :: "pyval \<Rightarrow> mailboxes \<Rightarrow> mailboxes res" where
  "set_network_snapshot v m =
     (if \<not> is_dict v then Inl ValueError else Inr (m\<lparr>network_snapshot := v\<rparr>))"

definition set_utc_snapshot :: "pyval \<Rightarrow> mailboxes \<Rightarrow> mailboxes res" where
  "set_utc_snapshot v m = (if \<not> is_dict v then Inl ValueError else Inr (m\<lparr>utc_snapshot := v\<rparr>))"

definition set_core_1_activity_ms :: "pyval \<Rightarrow> mailboxes \<Rightarrow> mailboxes res" where
  "set_core_1_activity_ms v m =
     (if \<not> is_int v then Inl ValueError else Inr (m\<lparr>core_1_activity_ms := Some (the_int v)\<rparr>))"

definition set_hardware :: "pyval \<Rightarrow> mailboxes \<Rightarrow> mailboxes res" where
  "set_hardware v m = (if \<not> is_dict v then Inl ValueError else Inr (m\<lparr>hardware := v\<rparr>))"

definition get_network_snapshot :: "mailboxes \<Rightarrow> pyval" where
  "get_network_snapshot m = network_snapshot m"

definition get_utc_snapshot :: "mailboxes \<Rightarrow> pyval" where
  "get_utc_snapshot m = utc_snapshot m"

definition get_core_1_activity_ms :: "mailboxes \<Rightarrow> int option" where
  "get_core_1_activity_ms m = core_1_activity_ms m"

definition get_hardware :: "mailboxes \<Rightarrow> pyval" where
  "get_hardware m = hardware m"

subsection \<open>InterCore\<close>

record intercore =
  outbound_queue :: outq
  event_queue :: evq
  state_mailboxes :: mailboxes

definition intercore_init :: "pyval \<Rightarrow> pyval \<Rightarrow> pyval \<Rightarrow> intercore res" where
  "intercore_init minimum preferred maxm =
     andthen (require_positive_integer minimum) (\<lambda>_.
     (let preferred = (if preferred = PNone then minimum else preferred) in
      andthen (require_positive_integer preferred) (\<lambda>_.
      if the_int preferred < the_int minimum then Inl ValueError
      else andthen (outq_init minimum preferred maxm) (\<lambda>out.
           andthen (evq_init minimum) (\<lambda>ev.
           Inr \<lparr>outbound_queue = out, event_queue = ev, state_mailboxes = mailboxes_init\<rparr>)))))"


lemma outq_init_eq:
  assumes "outq_init minimum preferred maxm = Inr q"
  shows "minimum_free_heap_bytes q = the_int minimum" "0 < the_int minimum"
    and "preferred \<noteq> PNone \<Longrightarrow> preferred_free_heap_bytes q = the_int preferred"
    and "minimum_free_heap_bytes q \<le> preferred_free_heap_bytes q"
  using assms
  by (auto simp: outq_init_def Let_def require_positive_integer_def res_simps split: if_splits)

lemma intercore_init_ok:
  assumes "intercore_init minimum preferred maxm = Inr ic"
  shows "minimum_free_heap_bytes (outbound_queue ic) = ev_minimum (event_queue ic)"
    and "0 < ev_minimum (event_queue ic)"
    and "minimum_free_heap_bytes (outbound_queue ic) \<le> preferred_free_heap_bytes (outbound_queue ic)"
    and "outq_reachable (outbound_queue ic)" and "evq_inv (event_queue ic)"
  using assms outq_init_eq
  by (auto simp: intercore_init_def evq_init_def evq_inv_def Let_def res_simps split: if_splits
      intro: outq_reachable.reach_init)

subsection \<open>A leased lane\<close>

text \<open>
  What a publisher needs of a lane: the head is handed out and stays in the lane until it
  is completed; completing anything else changes nothing.
\<close>

locale leased_lane =
  fixes held :: "'s \<Rightarrow> 'e list"
    and leased :: "'s \<Rightarrow> 'e option"
    and take_op :: "'s \<Rightarrow> 'e option \<times> 's"
    and complete_op :: "nat \<Rightarrow> 's \<Rightarrow> bool \<times> 's"
    and ident :: "'e \<Rightarrow> nat"
  assumes leased_head: "leased s = Some e \<Longrightarrow> \<exists>r. held s = e # r"
    and take_leases: "take_op s = (Some e, t) \<Longrightarrow> leased t = Some e \<and> held t = held s"
    and take_empty: "take_op s = (None, t) \<Longrightarrow> held s = [] \<and> t = s"
    and complete_removes:
      "leased s = Some e \<Longrightarrow> complete_op (ident e) s = (b, t)
       \<Longrightarrow> b \<and> leased t = None \<and> held s = e # held t"
begin

text \<open>One service pass: the head is published, and completed when the publish was acknowledged.\<close>

definition serve_once :: "bool \<Rightarrow> 's \<Rightarrow> 'e list \<times> 'e list \<times> 's" where
  "serve_once acked s =
     (case take_op s of
        (None, t) \<Rightarrow> ([], [], t)
      | (Some e, t) \<Rightarrow> if acked then ([e], [e], snd (complete_op (ident e) t)) else ([e], [], t))"

fun serve :: "bool list \<Rightarrow> 's \<Rightarrow> 'e list \<times> 'e list \<times> 's" where
  "serve [] s = ([], [], s)"
| "serve (a # acks) s =
     (let (pub, don, t) = serve_once a s; (pub', don', u) = serve acks t
      in (pub @ pub', don @ don', u))"

lemma serve_once_conserves:
  assumes "serve_once a s = (pub, don, t)"
  shows "held s = don @ held t" and "set don \<subseteq> set pub" and "set pub \<subseteq> set (held s)"
    and "a \<Longrightarrow> don = pub" and "a \<Longrightarrow> length don = min 1 (length (held s))"
proof -
  have "held s = don @ held t \<and> set don \<subseteq> set pub \<and> set pub \<subseteq> set (held s)
    \<and> (a \<longrightarrow> don = pub \<and> length don = min 1 (length (held s)))"
  proof (cases "take_op s")
    case (Pair r u)
    show ?thesis
    proof (cases r)
      case None
      with Pair take_empty [of s u] assms show ?thesis by (auto simp: serve_once_def)
    next
      case (Some e)
      with Pair have u: "leased u = Some e" "held u = held s" using take_leases by blast+
      obtain b v where v: "complete_op (ident e) u = (b, v)" by fastforce
      have "held u = e # held v" using complete_removes [OF u(1) v] by blast
      with Pair Some u v assms leased_head [OF u(1)] show ?thesis
        by (auto simp: serve_once_def split: if_splits)
    qed
  qed
  then show "held s = don @ held t" and "set don \<subseteq> set pub" and "set pub \<subseteq> set (held s)"
    and "a \<Longrightarrow> don = pub" and "a \<Longrightarrow> length don = min 1 (length (held s))" by auto
qed

text \<open>Nothing leaves the lane unpublished or out of order, whatever the acknowledgements.\<close>

lemma serve_conserves:
  "serve acks s = (pub, don, t) \<Longrightarrow> held s = don @ held t \<and> set don \<subseteq> set pub"
proof (induction acks arbitrary: s pub don t)
  case (Cons a acks)
  obtain p d u where once: "serve_once a s = (p, d, u)" by (cases "serve_once a s")
  obtain p' d' v where rest: "serve acks u = (p', d', v)" by (cases "serve acks u")
  from Cons.IH [OF rest] serve_once_conserves(1,2) [OF once] Cons.prems once rest
  show ?case by auto
qed simp

text \<open>As many acknowledged passes as entries empty the lane.\<close>

lemma serve_drains:
  "length (held s) \<le> length (filter (\<lambda>a. a) acks) \<Longrightarrow> serve acks s = (pub, don, t) \<Longrightarrow> held t = []"
proof (induction acks arbitrary: s pub don t)
  case (Cons a acks)
  obtain p d u where once: "serve_once a s = (p, d, u)" by (cases "serve_once a s")
  obtain p' d' v where rest: "serve acks u = (p', d', v)" by (cases "serve acks u")
  note c = serve_once_conserves [OF once]
  have "length (held u) \<le> length (filter (\<lambda>a. a) acks)"
    using c(1,5) Cons.prems(1) by (cases a) (auto dest: arg_cong [of _ _ length])
  from Cons.IH [OF this rest] Cons.prems(2) once rest show ?case by auto
qed simp

end

text \<open>The outbound queue is one: what Core 0 holds is the in-flight entry and the queue.\<close>

definition outq_complete :: "nat \<Rightarrow> outq \<Rightarrow> bool \<times> outq" where
  "outq_complete eid s = complete_step eid False s"

interpretation outbound_lane: leased_lane retained in_flight take_step outq_complete e_id
proof
  fix s :: outq and e assume "in_flight s = Some e"
  then show "\<exists>r. retained s = e # r" by (simp add: retained_def)
next
  fix s :: outq and e t assume "take_step s = (Some e, t)"
  then show "in_flight t = Some e \<and> retained t = retained s"
    by (auto simp: take_step_def retained_def split: option.splits list.splits)
next
  fix s :: outq and t assume "take_step s = (None, t)"
  then show "retained s = [] \<and> t = s"
    by (auto simp: take_step_def retained_def split: option.splits list.splits)
next
  fix s :: outq and e b t assume "in_flight s = Some e" "outq_complete (e_id e) s = (b, t)"
  then show "b \<and> in_flight t = None \<and> retained s = e # retained t"
    by (auto simp: outq_complete_def complete_step_def retained_def)
qed

subsection \<open>Properties\<close>

text \<open>
  the event lane. A rejected event leaves every earlier event where it was and is
  counted; an admitted one goes to the back, with the heap floor holding at the reading
  taken with it in place; nothing Core 1 has not taken ever disappears.
\<close>

theorem event_put_outcome:
  assumes "ev_put w event s = (r, t)"
  shows "(case r of
            Inl e \<Rightarrow> e = ValueError \<and> \<not> is_dict event \<and> t = s
          | Inr True \<Rightarrow> ev_taken t @ ev_queue t = ev_taken s @ ev_queue s @ [event]
              \<and> ev_queue t \<noteq> [] \<and> ev_free_at w (ev_clock t - 1) \<ge> ev_minimum s
          | Inr False \<Rightarrow> ev_taken t @ ev_queue t = ev_taken s @ ev_queue s
              \<and> ev_rejected t = ev_rejected s + 1)"
  using ev_put_summary [OF assms]
  by (auto simp: ev_history_def split: sum.splits bool.splits)

definition demo_ev_env :: ev_env where
  "demo_ev_env = \<lparr>ev_free_at = \<lambda>n. 50, core1_takes_at = \<lambda>n. False\<rparr>"

theorem event_put_outcome_witness:
  "\<exists>s t. evq_init (PInt 10) = Inr s \<and> ev_put demo_ev_env (PDict []) s = (Inr True, t)
     \<and> ev_queue t = [PDict []]"
proof -
  let ?s = "projr (evq_init (PInt 10))"
  have "evq_init (PInt 10) = Inr ?s" "ev_taken ?s @ ev_queue ?s = []"
    by (simp_all add: evq_init_def require_positive_integer_def require_def)
  moreover obtain t where t: "ev_put demo_ev_env (PDict []) ?s = (Inr True, t)"
  proof -
    have "fst (ev_put demo_ev_env (PDict []) ?s) = Inr True" by code_simp
    then show thesis using that by (metis prod.collapse)
  qed
  moreover have "ev_taken t = []"
  proof -
    have "ev_taken (snd (ev_put demo_ev_env (PDict []) ?s)) = []" by code_simp
    then show ?thesis using t by simp
  qed
  ultimately show ?thesis using event_put_outcome [OF t] by auto
qed

text \<open>
  the two FIFO lanes of a constructed \<open>InterCore\<close> gate on the same positive hard
  floor, the preferred reserve is not below it, and both start in their invariants.
\<close>

theorem intercore_floors_agree:
  assumes "intercore_init minimum preferred maxm = Inr ic"
  shows "minimum_free_heap_bytes (outbound_queue ic) = ev_minimum (event_queue ic)
     \<and> 0 < ev_minimum (event_queue ic)
     \<and> minimum_free_heap_bytes (outbound_queue ic) \<le> preferred_free_heap_bytes (outbound_queue ic)
     \<and> outq_reachable (outbound_queue ic) \<and> evq_inv (event_queue ic)"
  using intercore_init_ok [OF assms] by blast

theorem intercore_floors_agree_witness:
  "\<exists>ic. intercore_init (PInt 10) (PInt 20) (PInt 50) = Inr ic \<and> ev_minimum (event_queue ic) > 0"
proof -
  let ?ic = "projr (intercore_init (PInt 10) (PInt 20) (PInt 50))"
  have "intercore_init (PInt 10) (PInt 20) (PInt 50) = Inr ?ic"
    by (simp add: intercore_init_def outq_init_def evq_init_def require_positive_integer_def
        require_def Let_def)
  with intercore_floors_agree [OF this] show ?thesis by auto
qed



end
