(* ===== verification/DeviceValidation.thy ===== *)
theory DeviceValidation
  imports Prelude
begin

section \<open>Device definitions and their validation\<close>

text \<open>
  The pure validators of the device configurations (\<open>devices/*/validation.py\<close>), the
  board pin rules they share (\<open>rp2_pins.py\<close>, \<open>rp2_i2c.py\<close>) and the registry that
  dispatches to them (\<open>device_factory.py\<close>). A configuration is a JSON document, so the
  keys of its objects are strings.
\<close>

abbreviation invalid_value :: exc where
  "invalid_value \<equiv> DeviceValidationError Code_invalid_value"

abbreviation missing_key :: exc where
  "missing_key \<equiv> DeviceValidationError Code_missing_key"

abbreviation unknown_fields :: exc where
  "unknown_fields \<equiv> DeviceValidationError Code_unknown_config_fields"

subsection \<open>Board pins\<close>

definition USER_GPIO_PINS :: "int list" where
  "USER_GPIO_PINS =
     [0, 1, 2, 3, 4, 5, 6, 7, 8, 9, 10, 11, 12, 13, 14, 15,
      16, 17, 18, 19, 20, 21, 22, 26, 27, 28]"

definition WIRELESS_RESERVED_PINS :: "int list" where
  "WIRELESS_RESERVED_PINS = [23, 24, 25, 29]"

definition validate_user_gpio_pin :: "pyval \<Rightarrow> unit res" where
  "validate_user_gpio_pin pin =
     andthen (require (is_int pin) invalid_value) (\<lambda>_.
     andthen (require (the_int pin \<notin> set WIRELESS_RESERVED_PINS) invalid_value) (\<lambda>_.
     require (the_int pin \<in> set USER_GPIO_PINS) invalid_value))"

definition i2c_sda_mux :: "int \<Rightarrow> int list res" where
  "i2c_sda_mux bus =
     (if bus = 0 then Inr [0, 4, 8, 12, 16, 20, 24, 28]
      else if bus = 1 then Inr [2, 6, 10, 14, 18, 22, 26]
      else Inl KeyError)"

definition i2c_scl_mux :: "int \<Rightarrow> int list res" where
  "i2c_scl_mux bus =
     (if bus = 0 then Inr [1, 5, 9, 13, 17, 21, 25, 29]
      else if bus = 1 then Inr [3, 7, 11, 15, 19, 23, 27]
      else Inl KeyError)"

definition exposed :: "int list \<Rightarrow> int list" where
  "exposed mux = filter (\<lambda>pin. pin \<in> set USER_GPIO_PINS) mux"

definition i2c_sda_pins :: "int \<Rightarrow> int list res" where
  "i2c_sda_pins bus = andthen (i2c_sda_mux bus) (\<lambda>mux. Inr (exposed mux))"

definition i2c_scl_pins :: "int \<Rightarrow> int list res" where
  "i2c_scl_pins bus = andthen (i2c_scl_mux bus) (\<lambda>mux. Inr (exposed mux))"

definition i2c_default_pins :: "int \<Rightarrow> (int \<times> int) res" where
  "i2c_default_pins bus =
     (if bus = 0 then Inr (4, 5) else if bus = 1 then Inr (6, 7) else Inl KeyError)"

definition effective_rp2_i2c_pins :: "int \<Rightarrow> pyval \<Rightarrow> pyval \<Rightarrow> (pyval \<times> pyval) res" where
  "effective_rp2_i2c_pins bus sda scl =
     andthen (i2c_default_pins bus) (\<lambda>(default_sda, default_scl).
     Inr (if sda \<noteq> PNone then sda else PInt default_sda,
          if scl \<noteq> PNone then scl else PInt default_scl))"

definition validate_rp2_i2c_pins :: "int \<Rightarrow> pyval \<Rightarrow> pyval \<Rightarrow> unit res" where
  "validate_rp2_i2c_pins bus sda scl =
     andthen (for_each validate_user_gpio_pin (filter (\<lambda>v. v \<noteq> PNone) [sda, scl])) (\<lambda>_.
     andthen (require (\<not> (sda \<noteq> PNone \<and> py_eq sda scl)) invalid_value) (\<lambda>_.
     andthen (if sda \<noteq> PNone
              then andthen (i2c_sda_pins bus) (\<lambda>pins. require (the_int sda \<in> set pins) invalid_value)
              else Inr ()) (\<lambda>_.
     if scl \<noteq> PNone
     then andthen (i2c_scl_pins bus) (\<lambda>pins. require (the_int scl \<in> set pins) invalid_value)
     else Inr ())))"

subsection \<open>Checks the validators share\<close>

text \<open>\<open>_is_finite_number\<close>, and the number's value.\<close>

fun is_finite_number :: "pyval \<Rightarrow> bool" where
  "is_finite_number (PInt i) = True"
| "is_finite_number (PFloat (Finite r)) = True"
| "is_finite_number v = False"

fun number_of :: "pyval \<Rightarrow> rat" where
  "number_of (PInt i) = of_int i"
| "number_of (PFloat (Finite r)) = r"
| "number_of v = 0"

definition int_in_range :: "int \<Rightarrow> int \<Rightarrow> pyval \<Rightarrow> bool" where
  "int_in_range lo hi v \<longleftrightarrow> is_int v \<and> lo \<le> the_int v \<and> the_int v \<le> hi"

definition int_among :: "int list \<Rightarrow> pyval \<Rightarrow> bool" where
  "int_among xs v \<longleftrightarrow> is_int v \<and> the_int v \<in> set xs"

lemma is_int_iff: "is_int v \<longleftrightarrow> (\<exists>i. v = PInt i)"
  by (cases v) auto

lemma int_in_range_iff:
  "int_in_range lo hi v \<longleftrightarrow> (\<exists>i. v = PInt i \<and> lo \<le> i \<and> i \<le> hi)"
  by (auto simp: int_in_range_def is_int_iff)

lemma int_among_iff: "int_among xs v \<longleftrightarrow> (\<exists>i. v = PInt i \<and> i \<in> set xs)"
  by (auto simp: int_among_def is_int_iff)

definition number_in_range :: "rat \<Rightarrow> rat \<Rightarrow> pyval \<Rightarrow> bool" where
  "number_in_range lo hi v \<longleftrightarrow> is_finite_number v \<and> lo \<le> number_of v \<and> number_of v \<le> hi"

text \<open>\<open>set(config) - allowed\<close> is empty.\<close>

definition only_keys :: "string list \<Rightarrow> pydict \<Rightarrow> bool" where
  "only_keys allowed config = list_all (\<lambda>(k, v). is_str k \<and> the_str k \<in> set allowed) config"

definition reject_unknown :: "string list \<Rightarrow> pydict \<Rightarrow> unit res" where
  "reject_unknown allowed config = require (only_keys allowed config) unknown_fields"

lemma only_keys_dhas: "only_keys allowed d \<Longrightarrow> dhas d k \<Longrightarrow> k \<in> set allowed"
  by (induction d) (auto simp: only_keys_def dhas_def dget_def split: if_splits)

definition MAX_I2C_BUS :: int where "MAX_I2C_BUS = 1"
definition DEFAULT_I2C_FREQ_HZ :: int where "DEFAULT_I2C_FREQ_HZ = 400000"
definition MIN_FREQ_HZ :: int where "MIN_FREQ_HZ = 100000"

text \<open>The bus, pin and clock block of the three I2C validators; only the clock ceiling differs.\<close>

definition validate_i2c_keys :: "int \<Rightarrow> pydict \<Rightarrow> unit res" where
  "validate_i2c_keys max_freq config =
     andthen (require (dhas config ''i2c_bus'') missing_key) (\<lambda>_.
     (let bus = dget_none config ''i2c_bus'' in
      andthen (require (int_in_range 0 MAX_I2C_BUS bus) invalid_value) (\<lambda>_.
      andthen (validate_rp2_i2c_pins (the_int bus)
                (dget_none config ''i2c_sda_pin'') (dget_none config ''i2c_scl_pin'')) (\<lambda>_.
      require (int_in_range MIN_FREQ_HZ max_freq
                (dget_or config ''i2c_freq_hz'' (PInt DEFAULT_I2C_FREQ_HZ))) invalid_value))))"

text \<open>The optional probe list of the two-address sensors: \<open>seen\<close> is threaded as in the code.\<close>

definition check_candidate :: "int list \<Rightarrow> pyval \<Rightarrow> int list \<Rightarrow> int list res" where
  "check_candidate valid entry seen =
     andthen (require (int_among valid entry) invalid_value) (\<lambda>_.
     andthen (require (the_int entry \<notin> set seen) invalid_value) (\<lambda>_.
     Inr (the_int entry # seen)))"

definition validate_candidates :: "int list \<Rightarrow> pydict \<Rightarrow> unit res" where
  "validate_candidates valid config =
     (let candidates = dget_none config ''i2c_address_candidates'' in
      if candidates = PNone then Inr ()
      else andthen (require (is_list candidates \<and> the_list candidates \<noteq> []) invalid_value) (\<lambda>_.
           andthen (fold_res (check_candidate valid) (the_list candidates) []) (\<lambda>_. Inr ())))"

text \<open>The \<open>offsets\<close> object: known sub-keys, finite numbers, within their bounds.\<close>

definition validate_offset :: "(string \<times> rat) list \<Rightarrow> pyval \<times> pyval \<Rightarrow> unit res" where
  "validate_offset bounds kv =
     andthen (require (is_finite_number (snd kv)) invalid_value) (\<lambda>_.
     (case map_of bounds (the_str (fst kv)) of
        None \<Rightarrow> Inl KeyError
      | Some bound \<Rightarrow> require (\<bar>number_of (snd kv)\<bar> \<le> bound) invalid_value))"

definition validate_offsets :: "(string \<times> rat) list \<Rightarrow> pydict \<Rightarrow> unit res" where
  "validate_offsets bounds config =
     (let offsets = dget_none config ''offsets'' in
      if offsets = PNone then Inr ()
      else andthen (require (is_dict offsets) invalid_value) (\<lambda>_.
           andthen (reject_unknown (map fst bounds) (the_dict offsets)) (\<lambda>_.
           for_each (validate_offset bounds) (the_dict offsets))))"

subsection \<open>bme280\<close>

definition bme280_allowed_keys :: "string list" where
  "bme280_allowed_keys =
     [''i2c_bus'', ''i2c_sda_pin'', ''i2c_scl_pin'', ''i2c_freq_hz'', ''i2c_address_candidates'',
      ''temperature_oversampling'', ''pressure_oversampling'', ''humidity_oversampling'',
      ''iir_filter'', ''sea_level_pressure_pa'', ''offsets'']"

definition bme280_offset_bounds :: "(string \<times> rat) list" where
  "bme280_offset_bounds =
     [(''temperature_c'', 100), (''humidity_percent'', 100), (''pressure_pascal'', 200000)]"

definition BME280_I2C_ADDRESSES :: "int list" where
  "BME280_I2C_ADDRESSES = [118, 119]"

definition bme280_profile :: "pydict \<Rightarrow> unit res" where
  "bme280_profile config =
     (let t = dget_or config ''temperature_oversampling'' (PInt 1);
          p = dget_or config ''pressure_oversampling'' (PInt 1);
          h = dget_or config ''humidity_oversampling'' (PInt 1)
      in andthen (for_each (\<lambda>v. require (int_in_range 0 5 v) invalid_value) [t, p, h]) (\<lambda>_.
         andthen (require (int_in_range 0 4 (dget_or config ''iir_filter'' (PInt 0))) invalid_value) (\<lambda>_.
         andthen (require (\<not> (the_int t = 0 \<and> (the_int p \<noteq> 0 \<or> the_int h \<noteq> 0))) invalid_value) (\<lambda>_.
         require (\<not> (the_int t = 0 \<and> the_int p = 0 \<and> the_int h = 0)) invalid_value))))"

definition bme280_sea_level :: "pydict \<Rightarrow> unit res" where
  "bme280_sea_level config =
     andthen (require (dhas config ''sea_level_pressure_pa'') missing_key) (\<lambda>_.
     require (number_in_range 30000 115000 (dget_none config ''sea_level_pressure_pa'')) invalid_value)"

definition bme280_validate_config :: "pyval \<Rightarrow> unit res" where
  "bme280_validate_config v =
     andthen (require (is_dict v) invalid_value) (\<lambda>_.
     (let config = the_dict v in
      andthen (reject_unknown bme280_allowed_keys config) (\<lambda>_.
      andthen (validate_i2c_keys 1000000 config) (\<lambda>_.
      andthen (validate_candidates BME280_I2C_ADDRESSES config) (\<lambda>_.
      andthen (bme280_profile config) (\<lambda>_.
      andthen (bme280_sea_level config) (\<lambda>_.
      validate_offsets bme280_offset_bounds config)))))))"

subsection \<open>ltr390\<close>

definition ltr390_allowed_keys :: "string list" where
  "ltr390_allowed_keys =
     [''i2c_bus'', ''i2c_sda_pin'', ''i2c_scl_pin'', ''i2c_freq_hz'', ''gain'',
      ''resolution_bits'', ''measurement_rate_ms'', ''window_factor'', ''offsets'']"

definition ltr390_offset_bounds :: "(string \<times> rat) list" where
  "ltr390_offset_bounds = [(''lux'', 50000), (''uv_index'', 12)]"

definition LTR390_VALID_GAINS :: "int list" where
  "LTR390_VALID_GAINS = [1, 3, 6, 9, 18]"

definition LTR390_VALID_RESOLUTIONS :: "int list" where
  "LTR390_VALID_RESOLUTIONS = [13, 16, 17, 18, 19, 20]"

definition LTR390_VALID_MEASUREMENT_RATES :: "int list" where
  "LTR390_VALID_MEASUREMENT_RATES = [25, 50, 100, 200, 500, 1000, 2000]"

definition ltr390_conversion_time_ms :: "int \<Rightarrow> rat option" where
  "ltr390_conversion_time_ms =
     map_of [(20, 400), (19, 200), (18, 100), (17, 50), (16, 25), (13, 25 / 2)]"

definition ltr390_timing :: "pydict \<Rightarrow> unit res" where
  "ltr390_timing config =
     (let gain = dget_or config ''gain'' (PInt 3);
          resolution = dget_or config ''resolution_bits'' (PInt 18);
          rate = dget_or config ''measurement_rate_ms'' (PInt 200)
      in andthen (require (int_among LTR390_VALID_GAINS gain) invalid_value) (\<lambda>_.
         andthen (require (int_among LTR390_VALID_RESOLUTIONS resolution) invalid_value) (\<lambda>_.
         andthen (require (int_among LTR390_VALID_MEASUREMENT_RATES rate) invalid_value) (\<lambda>_.
         (case ltr390_conversion_time_ms (the_int resolution) of
            None \<Rightarrow> Inl KeyError
          | Some c \<Rightarrow> require (\<not> of_int (the_int rate) < c) invalid_value)))))"

definition ltr390_validate_config :: "pyval \<Rightarrow> unit res" where
  "ltr390_validate_config v =
     andthen (require (is_dict v) invalid_value) (\<lambda>_.
     (let config = the_dict v in
      andthen (reject_unknown ltr390_allowed_keys config) (\<lambda>_.
      andthen (validate_i2c_keys 400000 config) (\<lambda>_.
      andthen (ltr390_timing config) (\<lambda>_.
      andthen (require (number_in_range 1 100 (dget_or config ''window_factor'' (PFloat (Finite 1))))
                 invalid_value) (\<lambda>_.
      validate_offsets ltr390_offset_bounds config))))))"

subsection \<open>sht35\<close>

definition sht35_allowed_keys :: "string list" where
  "sht35_allowed_keys =
     [''i2c_bus'', ''i2c_sda_pin'', ''i2c_scl_pin'', ''i2c_freq_hz'', ''i2c_address_candidates'',
      ''repeatability'', ''offsets'']"

definition sht35_offset_bounds :: "(string \<times> rat) list" where
  "sht35_offset_bounds = [(''temperature_c'', 100), (''humidity_percent'', 100)]"

definition SHT35_I2C_ADDRESSES :: "int list" where
  "SHT35_I2C_ADDRESSES = [68, 69]"

definition SHT35_VALID_REPEATABILITIES :: "string list" where
  "SHT35_VALID_REPEATABILITIES = [''high'', ''medium'', ''low'']"

definition sht35_validate_config :: "pyval \<Rightarrow> unit res" where
  "sht35_validate_config v =
     andthen (require (is_dict v) invalid_value) (\<lambda>_.
     (let config = the_dict v;
          repeatability = dget_or config ''repeatability'' (PStr ''high'') in
      andthen (reject_unknown sht35_allowed_keys config) (\<lambda>_.
      andthen (validate_i2c_keys 1000000 config) (\<lambda>_.
      andthen (validate_candidates SHT35_I2C_ADDRESSES config) (\<lambda>_.
      andthen (require (is_str repeatability
                 \<and> the_str repeatability \<in> set SHT35_VALID_REPEATABILITIES) invalid_value) (\<lambda>_.
      validate_offsets sht35_offset_bounds config))))))"

subsection \<open>ds18b20\<close>

definition ds18b20_allowed_keys :: "string list" where
  "ds18b20_allowed_keys = [''pin'', ''rom'', ''conversion_ms'', ''offsets'']"

definition ds18b20_offset_bounds :: "(string \<times> rat) list" where
  "ds18b20_offset_bounds = [(''temperature_c'', 100)]"

definition is_hex_char :: "char \<Rightarrow> bool" where
  "is_hex_char c \<longleftrightarrow> c \<in> set ''0123456789abcdefABCDEF''"

definition ds18b20_rom :: "pydict \<Rightarrow> unit res" where
  "ds18b20_rom config =
     andthen (require (dhas config ''rom'') missing_key) (\<lambda>_.
     (let rom = dget_none config ''rom'' in
      andthen (require (is_str rom \<and> py_len (the_str rom) = 16) invalid_value) (\<lambda>_.
      andthen (require (list_all is_hex_char (the_str rom)) invalid_value) (\<lambda>_.
      require (take 2 (py_lower (the_str rom)) = ''28'') invalid_value))))"

definition ds18b20_validate_config :: "pyval \<Rightarrow> unit res" where
  "ds18b20_validate_config v =
     andthen (require (is_dict v) invalid_value) (\<lambda>_.
     (let config = the_dict v in
      andthen (reject_unknown ds18b20_allowed_keys config) (\<lambda>_.
      andthen (require (dhas config ''pin'') missing_key) (\<lambda>_.
      andthen (validate_user_gpio_pin (dget_none config ''pin'')) (\<lambda>_.
      andthen (ds18b20_rom config) (\<lambda>_.
      andthen (require (int_in_range 750 1000 (dget_or config ''conversion_ms'' (PInt 750)))
                 invalid_value) (\<lambda>_.
      validate_offsets ds18b20_offset_bounds config)))))))"

subsection \<open>yl69_fc28\<close>

definition yl69_allowed_keys :: "string list" where
  "yl69_allowed_keys =
     [''adc_pin'', ''digital_pin'', ''power_pin'', ''power_active_low'', ''settle_ms'',
      ''sample_count'', ''sample_delay_ms'', ''dry_raw'', ''wet_raw'']"

definition ADC_CAPABLE_PINS :: "int list" where
  "ADC_CAPABLE_PINS = [26, 27, 28]"

definition validate_raw_calibration :: "string \<Rightarrow> pydict \<Rightarrow> unit res" where
  "validate_raw_calibration key config =
     andthen (require (dhas config key) missing_key) (\<lambda>_.
     require (int_in_range 0 65535 (dget_none config key)) invalid_value)"

definition reject_pin_overlap :: "pydict \<Rightarrow> string \<Rightarrow> string \<Rightarrow> unit res" where
  "reject_pin_overlap config first_key second_key =
     require (\<not> py_eq (dget_none config first_key) (dget_none config second_key)) invalid_value"

definition optional_pin :: "pydict \<Rightarrow> string \<Rightarrow> unit res" where
  "optional_pin config key =
     (if dhas config key then validate_user_gpio_pin (dget_none config key) else Inr ())"

definition yl69_pins :: "pydict \<Rightarrow> unit res" where
  "yl69_pins config =
     andthen (require (dhas config ''adc_pin'') missing_key) (\<lambda>_.
     andthen (require (int_among ADC_CAPABLE_PINS (dget_none config ''adc_pin'')) invalid_value) (\<lambda>_.
     andthen (optional_pin config ''digital_pin'') (\<lambda>_.
     andthen (optional_pin config ''power_pin'') (\<lambda>_.
     andthen (if dhas config ''digital_pin''
              then reject_pin_overlap config ''adc_pin'' ''digital_pin'' else Inr ()) (\<lambda>_.
     if dhas config ''power_pin''
     then andthen (reject_pin_overlap config ''adc_pin'' ''power_pin'') (\<lambda>_.
          if dhas config ''digital_pin''
          then reject_pin_overlap config ''digital_pin'' ''power_pin'' else Inr ())
     else Inr ())))))"

fun is_bool :: "pyval \<Rightarrow> bool" where
  "is_bool (PBool b) = True"
| "is_bool v = False"

definition yl69_sampling :: "pydict \<Rightarrow> unit res" where
  "yl69_sampling config =
     andthen (require (is_bool (dget_or config ''power_active_low'' (PBool True))) invalid_value) (\<lambda>_.
     andthen (require (int_in_range 0 2000 (dget_or config ''settle_ms'' (PInt 200))) invalid_value) (\<lambda>_.
     (let sample_count = dget_or config ''sample_count'' (PInt 9) in
      andthen (require (int_in_range 1 101 sample_count \<and> the_int sample_count mod 2 \<noteq> 0)
                 invalid_value) (\<lambda>_.
      require (int_in_range 0 50 (dget_or config ''sample_delay_ms'' (PInt 2))) invalid_value))))"

definition yl69_validate_config :: "pyval \<Rightarrow> unit res" where
  "yl69_validate_config v =
     andthen (require (is_dict v) invalid_value) (\<lambda>_.
     (let config = the_dict v in
      andthen (reject_unknown yl69_allowed_keys config) (\<lambda>_.
      andthen (yl69_pins config) (\<lambda>_.
      andthen (yl69_sampling config) (\<lambda>_.
      andthen (validate_raw_calibration ''dry_raw'' config) (\<lambda>_.
      andthen (validate_raw_calibration ''wet_raw'' config) (\<lambda>_.
      require (\<not> py_eq (dget_none config ''dry_raw'') (dget_none config ''wet_raw'')) invalid_value)))))))"

end
