(* ===== verification/DeviceFactory.thy ===== *)
theory DeviceFactory
  imports DeviceValidation
begin

section \<open>The device registry\<close>

text \<open>
  \<open>device_factory.py\<close>: the supported types, the validation of a complete device
  definition, the I2C bus identity of a definition and the construction of a driver on a
  bus made by Core 1's factories (parameters here). A lookup with an unhashable key raises
  \<open>TypeError\<close>.
\<close>

datatype device_type = BME280 | LTR390 | DS18B20 | SHT35 | YL69_FC28

definition device_registry :: "string \<Rightarrow> device_type option" where
  "device_registry =
     map_of [(''bme280'', BME280), (''ltr390'', LTR390), (''ds18b20'', DS18B20),
             (''sht35'', SHT35), (''yl69_fc28'', YL69_FC28)]"

definition registry_get :: "pyval \<Rightarrow> device_type option res" where
  "registry_get v =
     (if \<not> hashable v then Inl TypeError
      else Inr (case v of PStr s \<Rightarrow> device_registry s | _ \<Rightarrow> None))"

definition DEVICE_DEFINITION_KEYS :: "string list" where
  "DEVICE_DEFINITION_KEYS = [''id'', ''device_type'', ''config'', ''name'']"

definition MAX_DEVICE_ID_LENGTH :: nat where "MAX_DEVICE_ID_LENGTH = 64"
definition MAX_DEVICE_NAME_LENGTH :: nat where "MAX_DEVICE_NAME_LENGTH = 64"

fun type_allowed_keys :: "device_type \<Rightarrow> string list" where
  "type_allowed_keys BME280 = bme280_allowed_keys"
| "type_allowed_keys LTR390 = ltr390_allowed_keys"
| "type_allowed_keys DS18B20 = ds18b20_allowed_keys"
| "type_allowed_keys SHT35 = sht35_allowed_keys"
| "type_allowed_keys YL69_FC28 = yl69_allowed_keys"

definition allowed_config_keys :: "pyval \<Rightarrow> string list option res" where
  "allowed_config_keys device_type =
     andthen (registry_get device_type) (\<lambda>entry. Inr (map_option type_allowed_keys entry))"

fun type_validator :: "device_type \<Rightarrow> pyval \<Rightarrow> unit res" where
  "type_validator BME280 = bme280_validate_config"
| "type_validator LTR390 = ltr390_validate_config"
| "type_validator DS18B20 = ds18b20_validate_config"
| "type_validator SHT35 = sht35_validate_config"
| "type_validator YL69_FC28 = yl69_validate_config"

definition validate_device_config :: "pyval \<Rightarrow> pyval \<Rightarrow> unit res" where
  "validate_device_config device_type config =
     andthen (registry_get device_type) (\<lambda>entry.
     case entry of
       None \<Rightarrow> Inl (DeviceValidationError Code_unsupported_device_type)
     | Some t \<Rightarrow> type_validator t config)"

definition nonempty_str :: "pyval \<Rightarrow> bool" where
  "nonempty_str v \<longleftrightarrow> is_str v \<and> the_str v \<noteq> []"

definition validate_device_definition :: "pyval \<Rightarrow> unit res" where
  "validate_device_definition v =
     andthen (require (is_dict v) invalid_value) (\<lambda>_.
     (let d = the_dict v;
          device_id = dget_none d ''id'';
          device_type = dget_none d ''device_type'';
          name = dget_none d ''name'' in
      andthen (for_each (\<lambda>key. require (dhas d key) missing_key)
                 [''id'', ''device_type'', ''config'']) (\<lambda>_.
      andthen (reject_unknown DEVICE_DEFINITION_KEYS d) (\<lambda>_.
      andthen (require (nonempty_str device_id) invalid_value) (\<lambda>_.
      andthen (require (length (the_str device_id) \<le> MAX_DEVICE_ID_LENGTH) invalid_value) (\<lambda>_.
      andthen (require (nonempty_str device_type) invalid_value) (\<lambda>_.
      andthen (require (is_dict (dget_none d ''config'')) invalid_value) (\<lambda>_.
      andthen (if name \<noteq> PNone
               then andthen (require (is_str name) invalid_value) (\<lambda>_.
                    require (length (the_str name) \<le> MAX_DEVICE_NAME_LENGTH) invalid_value)
               else Inr ()) (\<lambda>_.
      validate_device_config device_type (dget_none d ''config''))))))))))"

text \<open>\<open>i2c_bus_identity\<close>: (bus, sda, scl, freq), absent for a device without I2C.\<close>

type_synonym bus_identity = "pyval \<times> pyval \<times> pyval \<times> pyval"

definition i2c_bus_identity :: "pydict \<Rightarrow> bus_identity option" where
  "i2c_bus_identity d =
     (let config = dget_none d ''config'' in
      if \<not> is_dict config \<or> \<not> dhas (the_dict config) ''i2c_bus'' then None
      else (let c = the_dict config in
            Some (dget_none c ''i2c_bus'', dget_none c ''i2c_sda_pin'', dget_none c ''i2c_scl_pin'',
                  dget_or c ''i2c_freq_hz'' (PInt DEFAULT_I2C_FREQ_HZ))))"

text \<open>
  \<open>create_device\<close> for a validated definition: the driver class and the bus object it is
  given. A factory may be absent (\<open>None\<close>) and may itself raise.
\<close>

record 'b bus_factories =
  i2c_bus_factory :: "(pyval \<Rightarrow> pyval \<Rightarrow> pyval \<Rightarrow> pyval \<Rightarrow> 'b res) option"
  onewire_bus_factory :: "(pyval \<Rightarrow> 'b res) option"
  adc_bus_factory :: "(pyval \<Rightarrow> 'b res) option"

definition create_i2c_device ::
  "device_type \<Rightarrow> pydict \<Rightarrow> 'b bus_factories \<Rightarrow> (device_type \<times> 'b) res" where
  "create_i2c_device t cfg fs =
     (case i2c_bus_factory fs of
        None \<Rightarrow> Inl ValueError
      | Some f \<Rightarrow>
         andthen (dindex cfg ''i2c_bus'') (\<lambda>bus.
         andthen (f bus (dget_none cfg ''i2c_sda_pin'') (dget_none cfg ''i2c_scl_pin'')
                    (dget_or cfg ''i2c_freq_hz'' (PInt DEFAULT_I2C_FREQ_HZ))) (\<lambda>i2c.
         Inr (t, i2c))))"

definition create_pin_device ::
  "device_type \<Rightarrow> string \<Rightarrow> pydict \<Rightarrow> (pyval \<Rightarrow> 'b res) option \<Rightarrow> (device_type \<times> 'b) res" where
  "create_pin_device t key cfg factory =
     (case factory of
        None \<Rightarrow> Inl ValueError
      | Some f \<Rightarrow>
         andthen (dindex cfg key) (\<lambda>pin. andthen (f pin) (\<lambda>bus. Inr (t, bus))))"

definition create_device :: "pydict \<Rightarrow> 'b bus_factories \<Rightarrow> (device_type \<times> 'b) res" where
  "create_device d fs =
     andthen (dindex d ''device_type'') (\<lambda>ty.
     (let cfg = the_dict (dget_none d ''config'') in
      case (case ty of PStr s \<Rightarrow> device_registry s | _ \<Rightarrow> None) of
        Some BME280 \<Rightarrow> create_i2c_device BME280 cfg fs
      | Some LTR390 \<Rightarrow> create_i2c_device LTR390 cfg fs
      | Some SHT35 \<Rightarrow> create_i2c_device SHT35 cfg fs
      | Some DS18B20 \<Rightarrow> create_pin_device DS18B20 ''pin'' cfg (onewire_bus_factory fs)
      | Some YL69_FC28 \<Rightarrow> create_pin_device YL69_FC28 ''adc_pin'' cfg (adc_bus_factory fs)
      | None \<Rightarrow> Inl ValueError))"

subsection \<open>The validators raise only their own exception\<close>

text \<open>A check \<open>c\<close> either passes or raises \<open>DeviceValidationError\<close>.\<close>

fun is_device_error :: "exc \<Rightarrow> bool" where
  "is_device_error (DeviceValidationError code) = True"
| "is_device_error e = False"

abbreviation validates :: "'a res \<Rightarrow> bool" where
  "validates c \<equiv> raises_only is_device_error c"

lemma validates_require [simp]: "validates (require c (DeviceValidationError code))"
  by (simp add: raises_only_require)

lemma validates_pin [simp]: "validates (validate_user_gpio_pin v)"
  by (simp add: validate_user_gpio_pin_def raises_only_andthen)

lemma validates_i2c_pins:
  "bus \<in> {0, 1} \<Longrightarrow> validates (validate_rp2_i2c_pins bus sda scl)"
  unfolding validate_rp2_i2c_pins_def i2c_sda_pins_def i2c_scl_pins_def i2c_sda_mux_def i2c_scl_mux_def
  by (intro raises_only_andthen raises_only_for_each) auto

lemma validates_i2c_keys [simp]: "validates (validate_i2c_keys m config)"
  unfolding validate_i2c_keys_def Let_def
  by (intro raises_only_andthen validates_i2c_pins) (auto simp: int_in_range_def MAX_I2C_BUS_def)

lemma validates_candidates [simp]: "validates (validate_candidates valid config)"
  by (auto simp: validate_candidates_def check_candidate_def Let_def intro!: raise_rules)

lemma validates_offsets [simp]: "validates (validate_offsets bounds config)"
proof -
  have "validates (validate_offset bounds kv)"
    if "only_keys (map fst bounds) d" and "kv \<in> set d" for d kv
  proof -
    obtain k v where kv: "kv = (k, v)" by (cases kv)
    have "is_str k" "the_str k \<in> fst ` set bounds"
      using that kv by (auto simp: only_keys_def list_all_iff)
    then obtain s where s: "k = PStr s" "s \<in> fst ` set bounds"
      by (cases k) auto
    then obtain b where "map_of bounds s = Some b"
      by (metis map_of_eq_None_iff not_Some_eq)
    then show ?thesis by (simp add: validate_offset_def kv s(1) raises_only_andthen)
  qed
  then show ?thesis
    unfolding validate_offsets_def Let_def
    by (auto simp: reject_unknown_def intro!: raises_only_andthen raises_only_for_each)
qed

lemma validates_type [simp]: "validates (type_validator t v)"
proof (cases t)
  case LTR390
  have known: "int_among LTR390_VALID_RESOLUTIONS r \<Longrightarrow> ltr390_conversion_time_ms (the_int r) \<noteq> None" for r
    by (auto simp: int_among_def LTR390_VALID_RESOLUTIONS_def ltr390_conversion_time_ms_def
        map_of_eq_None_iff simp del: not_None_eq)
  then have "validates (ltr390_timing config)" for config
    unfolding ltr390_timing_def Let_def
    by (intro raises_only_andthen)
      (auto split: option.splits dest: known [of "dget_or config ''resolution_bits'' (PInt 18)"])
  with LTR390 show ?thesis
    by (auto simp: ltr390_validate_config_def Let_def reject_unknown_def intro!: raises_only_andthen)
qed (auto simp: bme280_validate_config_def bme280_profile_def bme280_sea_level_def
    sht35_validate_config_def ds18b20_validate_config_def ds18b20_rom_def
    yl69_validate_config_def yl69_pins_def yl69_sampling_def optional_pin_def reject_pin_overlap_def
    validate_raw_calibration_def Let_def reject_unknown_def
    intro!: raises_only_andthen raises_only_for_each)

lemma hashable_PStr: "nonempty_str v \<Longrightarrow> hashable v"
  by (cases v) (auto simp: nonempty_str_def)

lemma validates_device_definition: "validates (validate_device_definition v)"
  unfolding validate_device_definition_def Let_def validate_device_config_def
  by (intro raises_only_andthen raises_only_for_each)
    (auto simp: registry_get_def hashable_PStr reject_unknown_def split: option.splits
      intro!: raises_only_andthen)


subsection \<open>What an accepted pin and an accepted I2C routing are\<close>

lemma user_gpio_pin_ok:
  "validate_user_gpio_pin v = Inr () \<longleftrightarrow> (\<exists>p. v = PInt p \<and> p \<in> set USER_GPIO_PINS)"
  by (cases v)
    (auto simp: validate_user_gpio_pin_def res_simps USER_GPIO_PINS_def WIRELESS_RESERVED_PINS_def)

lemma i2c_sda_pins_cases:
  "i2c_sda_pins bus = Inr pins \<Longrightarrow>
   bus = 0 \<and> pins = [0, 4, 8, 12, 16, 20, 28] \<or> bus = 1 \<and> pins = [2, 6, 10, 14, 18, 22, 26]"
  by (simp add: i2c_sda_pins_def i2c_sda_mux_def exposed_def USER_GPIO_PINS_def split: if_splits)

lemma i2c_scl_pins_cases:
  "i2c_scl_pins bus = Inr pins \<Longrightarrow>
   bus = 0 \<and> pins = [1, 5, 9, 13, 17, 21] \<or> bus = 1 \<and> pins = [3, 7, 11, 15, 19, 27]"
  by (simp add: i2c_scl_pins_def i2c_scl_mux_def exposed_def USER_GPIO_PINS_def split: if_splits)

lemma sda_pins_ok:
  "i2c_sda_pins bus = Inr pins \<Longrightarrow> p \<in> set pins \<Longrightarrow> p mod 2 = 0 \<and> (p div 2) mod 2 = bus"
  by (drule i2c_sda_pins_cases) (elim disjE conjE; simp; elim disjE; simp)

lemma scl_pins_ok:
  "i2c_scl_pins bus = Inr pins \<Longrightarrow> p \<in> set pins \<Longrightarrow> p mod 2 = 1 \<and> (p div 2) mod 2 = bus"
  by (drule i2c_scl_pins_cases) (elim disjE conjE; simp; elim disjE; simp)

text \<open>
  The line a device drives on a bus: exposed, of the right parity, and in the group the
  port's own check \<open>((pin & 2) >> 1) == bus\<close> asks for.
\<close>

definition drives :: "int \<Rightarrow> int \<Rightarrow> int \<Rightarrow> bool" where
  "drives bus parity p \<longleftrightarrow>
     p \<in> set USER_GPIO_PINS \<and> p mod 2 = parity \<and> (p div 2) mod 2 = bus"

lemma default_pins_drive:
  "i2c_default_pins bus = Inr (a, b) \<Longrightarrow> drives bus 0 a \<and> drives bus 1 b"
  by (auto simp: i2c_default_pins_def drives_def USER_GPIO_PINS_def split: if_splits)

lemma rp2_i2c_pins_ok:
  assumes "validate_rp2_i2c_pins bus sda scl = Inr ()"
    and "effective_rp2_i2c_pins bus sda scl = Inr (a, b)"
  shows "\<exists>p q. a = PInt p \<and> b = PInt q \<and> drives bus 0 p \<and> drives bus 1 q \<and> p \<noteq> q"
proof -
  obtain dp dq where d: "i2c_default_pins bus = Inr (dp, dq)"
    using assms(2) by (auto simp: effective_rp2_i2c_pins_def res_simps)
  have sda: "\<exists>p. (if sda \<noteq> PNone then sda else PInt dp) = PInt p \<and> drives bus 0 p"
  proof (cases "sda = PNone")
    case True
    with default_pins_drive [OF d] show ?thesis by simp
  next
    case False
    then have "validate_user_gpio_pin sda = Inr ()"
      "\<exists>pins. i2c_sda_pins bus = Inr pins \<and> the_int sda \<in> set pins"
      using assms(1) by (auto simp: validate_rp2_i2c_pins_def res_simps)
    with False sda_pins_ok show ?thesis by (auto simp: user_gpio_pin_ok drives_def)
  qed
  have scl: "\<exists>q. (if scl \<noteq> PNone then scl else PInt dq) = PInt q \<and> drives bus 1 q"
  proof (cases "scl = PNone")
    case True
    with default_pins_drive [OF d] show ?thesis by simp
  next
    case False
    then have "validate_user_gpio_pin scl = Inr ()"
      "\<exists>pins. i2c_scl_pins bus = Inr pins \<and> the_int scl \<in> set pins"
      using assms(1) by (auto simp: validate_rp2_i2c_pins_def res_simps split: if_splits)
    with False scl_pins_ok show ?thesis by (auto simp: user_gpio_pin_ok drives_def)
  qed
  from sda scl obtain p q where
    "(if sda \<noteq> PNone then sda else PInt dp) = PInt p" "drives bus 0 p"
    "(if scl \<noteq> PNone then scl else PInt dq) = PInt q" "drives bus 1 q" by blast
  moreover have "a = (if sda \<noteq> PNone then sda else PInt dp)"
    "b = (if scl \<noteq> PNone then scl else PInt dq)"
    using assms(2) d by (auto simp: effective_rp2_i2c_pins_def)
  ultimately show ?thesis by (intro exI [of _ p] exI [of _ q]) (auto simp: drives_def)
qed

text \<open>An accepted definition, unfolded.\<close>

lemma device_definition_ok:
  assumes "validate_device_definition v = Inr ()"
  obtains d t where "v = PDict d" and "dhas d ''id''" and "dhas d ''device_type''"
    and "nonempty_str (dget_none d ''id'')"
    and "length (the_str (dget_none d ''id'')) \<le> MAX_DEVICE_ID_LENGTH"
    and "device_registry (the_str (dget_none d ''device_type'')) = Some t"
    and "is_str (dget_none d ''device_type'')"
    and "is_dict (dget_none d ''config'')"
    and "type_validator t (dget_none d ''config'') = Inr ()"
    and "dget_none d ''name'' = PNone \<or>
         (is_str (dget_none d ''name'')
          \<and> length (the_str (dget_none d ''name'')) \<le> MAX_DEVICE_NAME_LENGTH)"
proof -
  let ?d = "the_dict v"
  have v: "is_dict v" using assms by (auto simp: validate_device_definition_def res_simps)
  have ty: "nonempty_str (dget_none ?d ''device_type'')"
    and cfg: "validate_device_config (dget_none ?d ''device_type'') (dget_none ?d ''config'') = Inr ()"
    and name: "dget_none ?d ''name'' = PNone \<or>
         (is_str (dget_none ?d ''name'')
          \<and> length (the_str (dget_none ?d ''name'')) \<le> MAX_DEVICE_NAME_LENGTH)"
    and rest: "dhas ?d ''id''" "dhas ?d ''device_type''" "nonempty_str (dget_none ?d ''id'')"
       "length (the_str (dget_none ?d ''id'')) \<le> MAX_DEVICE_ID_LENGTH" "is_dict (dget_none ?d ''config'')"
    using assms by (auto simp: validate_device_definition_def Let_def res_simps split: if_splits)
  obtain s where s: "dget_none ?d ''device_type'' = PStr s"
    using ty by (cases "dget_none ?d ''device_type''") (auto simp: nonempty_str_def)
  obtain t where "device_registry s = Some t" "type_validator t (dget_none ?d ''config'') = Inr ()"
    using cfg s by (auto simp: validate_device_config_def registry_get_def split: option.splits)
  with that [of ?d t] v rest name s show thesis by (cases v) auto
qed


lemma i2c_keys_ok:
  assumes "validate_i2c_keys m c = Inr ()" and "m \<le> 1000000"
  obtains b p q where "dget_none c ''i2c_bus'' = PInt b" and "dhas c ''i2c_bus''" and "b \<in> {0, 1}"
    and "effective_rp2_i2c_pins b (dget_none c ''i2c_sda_pin'') (dget_none c ''i2c_scl_pin'')
         = Inr (PInt p, PInt q)"
    and "drives b 0 p" and "drives b 1 q" and "p \<noteq> q"
    and "int_in_range 100000 1000000 (dget_or c ''i2c_freq_hz'' (PInt DEFAULT_I2C_FREQ_HZ))"
proof -
  have has: "dhas c ''i2c_bus''" and bus: "int_in_range 0 1 (dget_none c ''i2c_bus'')"
    and pins: "validate_rp2_i2c_pins (the_int (dget_none c ''i2c_bus''))
           (dget_none c ''i2c_sda_pin'') (dget_none c ''i2c_scl_pin'') = Inr ()"
    and freq: "int_in_range 100000 m (dget_or c ''i2c_freq_hz'' (PInt DEFAULT_I2C_FREQ_HZ))"
    using assms(1) by (auto simp: validate_i2c_keys_def Let_def res_simps MAX_I2C_BUS_def MIN_FREQ_HZ_def)
  obtain b where b: "dget_none c ''i2c_bus'' = PInt b" "b \<in> {0, 1}"
    using bus zle_add1_eq_le [of _ 0] by (fastforce simp: int_in_range_iff)
  obtain x y where xy: "effective_rp2_i2c_pins b (dget_none c ''i2c_sda_pin'')
      (dget_none c ''i2c_scl_pin'') = Inr (x, y)"
    using b(2) by (auto simp: effective_rp2_i2c_pins_def i2c_default_pins_def)
  from rp2_i2c_pins_ok [OF _ xy] pins b(1) obtain p q where
    "x = PInt p" "y = PInt q" "drives b 0 p" "drives b 1 q" "p \<noteq> q" by auto
  with that [of b p q] b has xy freq assms(2) show thesis
    by (auto simp: int_in_range_iff)
qed

lemma type_validator_i2c:
  "type_validator t (PDict c) = Inr () \<Longrightarrow> t \<in> {BME280, LTR390, SHT35} \<Longrightarrow>
   \<exists>m \<le> 1000000. validate_i2c_keys m c = Inr ()"
  by (cases t, rule_tac [1] exI [of _ 1000000], rule_tac [2] exI [of _ 400000],
      rule_tac [4] exI [of _ 1000000])
    (auto simp: bme280_validate_config_def ltr390_validate_config_def sht35_validate_config_def
      Let_def res_simps)

lemma type_validator_pin:
  "type_validator DS18B20 (PDict c) = Inr () \<Longrightarrow>
     \<exists>p. dget c ''pin'' = Some (PInt p) \<and> p \<in> set USER_GPIO_PINS"
  "type_validator YL69_FC28 (PDict c) = Inr () \<Longrightarrow>
     \<exists>p. dget c ''adc_pin'' = Some (PInt p) \<and> p \<in> {26, 27, 28}"
proof -
  show "\<exists>p. dget c ''pin'' = Some (PInt p) \<and> p \<in> set USER_GPIO_PINS"
    if "type_validator DS18B20 (PDict c) = Inr ()"
  proof -
    have "dhas c ''pin''" "validate_user_gpio_pin (dget_none c ''pin'') = Inr ()"
      using that by (auto simp: ds18b20_validate_config_def Let_def res_simps)
    then show ?thesis
      by (auto simp: user_gpio_pin_ok dhas_def dget_none_def)
  qed
  show "\<exists>p. dget c ''adc_pin'' = Some (PInt p) \<and> p \<in> {26, 27, 28}"
    if "type_validator YL69_FC28 (PDict c) = Inr ()"
  proof -
    have "dhas c ''adc_pin''" "int_among ADC_CAPABLE_PINS (dget_none c ''adc_pin'')"
      using that by (auto simp: yl69_validate_config_def yl69_pins_def Let_def res_simps)
    then show ?thesis
      by (auto simp: int_among_iff ADC_CAPABLE_PINS_def dhas_def dget_none_def)
  qed
qed

lemma only_keys_no_bus:
  "type_validator t (PDict c) = Inr () \<Longrightarrow> t \<in> {DS18B20, YL69_FC28} \<Longrightarrow> \<not> dhas c ''i2c_bus''"
  using only_keys_dhas [of ds18b20_allowed_keys c "''i2c_bus''"]
    only_keys_dhas [of yl69_allowed_keys c "''i2c_bus''"]
  by (auto simp: ds18b20_validate_config_def yl69_validate_config_def Let_def res_simps
      reject_unknown_def ds18b20_allowed_keys_def yl69_allowed_keys_def)

lemma device_registry_cases:
  "device_registry s = Some t \<Longrightarrow>
   (s, t) \<in> {(''bme280'', BME280), (''ltr390'', LTR390), (''ds18b20'', DS18B20),
             (''sht35'', SHT35), (''yl69_fc28'', YL69_FC28)}"
  by (auto simp: device_registry_def split: if_splits)

subsection \<open>Properties\<close>

text \<open>
  whatever document it is given, the validation of a device definition either accepts
  it or raises \<open>DeviceValidationError\<close>; no other exception escapes it.
\<close>

theorem definition_error_contract:
  "validate_device_definition v = Inr ()
   \<or> (\<exists>code. validate_device_definition v = Inl (DeviceValidationError code))"
  using validates_device_definition [of v]
  by (cases "validate_device_definition v") (auto elim: is_device_error.elims)

text \<open>
  an accepted I2C device is routable. Its bus is 0 or 1, the two lines it will drive
  (the port's defaults where a pin is omitted) are exposed, distinct, of SDA and SCL parity
  and in the controller's mux group, and its clock is between 100 kHz and 1 MHz.
\<close>

theorem accepted_i2c_routable:
  assumes "validate_device_definition (PDict d) = Inr ()"
    and "i2c_bus_identity d = Some (bus, sda, scl, freq)"
  shows "\<exists>b p q. bus = PInt b \<and> b \<in> {0, 1}
     \<and> effective_rp2_i2c_pins b sda scl = Inr (PInt p, PInt q)
     \<and> {p, q} \<subseteq> set USER_GPIO_PINS \<and> {p, q} \<inter> set WIRELESS_RESERVED_PINS = {} \<and> p \<noteq> q
     \<and> p mod 2 = 0 \<and> q mod 2 = 1 \<and> (p div 2) mod 2 = b \<and> (q div 2) mod 2 = b
     \<and> (\<exists>f. freq = PInt f \<and> 100000 \<le> f \<and> f \<le> 1000000)"
proof -
  from assms(1) obtain t where t: "type_validator t (dget_none d ''config'') = Inr ()"
    by (rule device_definition_ok) auto
  obtain c where c: "dget_none d ''config'' = PDict c" "dhas c ''i2c_bus''"
    "bus = dget_none c ''i2c_bus''" "sda = dget_none c ''i2c_sda_pin''"
    "scl = dget_none c ''i2c_scl_pin''" "freq = dget_or c ''i2c_freq_hz'' (PInt DEFAULT_I2C_FREQ_HZ)"
    using assms(2)
    by (cases "dget_none d ''config''") (auto simp: i2c_bus_identity_def Let_def split: if_splits)
  have "t \<in> {BME280, LTR390, SHT35}"
    using only_keys_no_bus [of t c] t c by (cases t) auto
  then obtain m where m: "m \<le> 1000000" "validate_i2c_keys m c = Inr ()"
    using type_validator_i2c t c by auto
  obtain b p q where b: "dget_none c ''i2c_bus'' = PInt b" "b \<in> {0, 1}"
    "effective_rp2_i2c_pins b (dget_none c ''i2c_sda_pin'') (dget_none c ''i2c_scl_pin'')
       = Inr (PInt p, PInt q)"
    "drives b 0 p" "drives b 1 q" "p \<noteq> q"
    "int_in_range 100000 1000000 (dget_or c ''i2c_freq_hz'' (PInt DEFAULT_I2C_FREQ_HZ))"
    by (rule i2c_keys_ok [OF m(2,1)])
  have f: "\<exists>f. freq = PInt f \<and> 100000 \<le> f \<and> f \<le> 1000000"
    using b(7) c(6) by (simp add: int_in_range_iff)
  have "set USER_GPIO_PINS \<inter> set WIRELESS_RESERVED_PINS = {}" by code_simp
  then have "{p, q} \<inter> set WIRELESS_RESERVED_PINS = {}" "{p, q} \<subseteq> set USER_GPIO_PINS"
    using b(4,5) unfolding drives_def by blast+
  moreover have "p mod 2 = 0" "q mod 2 = 1" "(p div 2) mod 2 = b" "(q div 2) mod 2 = b"
    using b(4,5) by (simp_all only: drives_def)
  ultimately show ?thesis
    unfolding c(3-5) b(1)
    by (intro exI [of _ b] exI [of _ p] exI [of _ q] conjI refl b(2,3,6) f)
qed

definition demo_bme280 :: pydict where
  "demo_bme280 =
     [(PStr ''id'', PStr ''s1''), (PStr ''device_type'', PStr ''bme280''),
      (PStr ''config'', PDict [(PStr ''i2c_bus'', PInt 0), (PStr ''i2c_sda_pin'', PInt 8),
                               (PStr ''sea_level_pressure_pa'', PInt 101325)])]"

theorem accepted_i2c_routable_witness:
  "\<exists>p q. effective_rp2_i2c_pins 0 (PInt 8) PNone = Inr (PInt p, PInt q) \<and> p \<noteq> q"
proof -
  have "validate_device_definition (PDict demo_bme280) = Inr ()" by code_simp
  moreover have "i2c_bus_identity demo_bme280 = Some (PInt 0, PInt 8, PNone, PInt 400000)"
    by code_simp
  ultimately show ?thesis using accepted_i2c_routable by fastforce
qed

text \<open>
  an accepted definition can always be constructed: with the three bus factories in
  place and not raising, \<open>create_device\<close> returns the driver of the declared type.
\<close>

theorem accepted_device_constructed:
  assumes "validate_device_definition (PDict d) = Inr ()"
    and "i2c_bus_factory fs = Some fi" and "\<And>b x y f. \<exists>u. fi b x y f = Inr u"
    and "onewire_bus_factory fs = Some fo" and "\<And>p. \<exists>u. fo p = Inr u"
    and "adc_bus_factory fs = Some fa" and "\<And>p. \<exists>u. fa p = Inr u"
  shows "\<exists>t u. device_registry (the_str (dget_none d ''device_type'')) = Some t
     \<and> create_device d fs = Inr (t, u)"
proof -
  from assms(1) obtain t where t: "device_registry (the_str (dget_none d ''device_type'')) = Some t"
    "is_str (dget_none d ''device_type'')" "dhas d ''device_type''"
    "type_validator t (dget_none d ''config'') = Inr ()" "is_dict (dget_none d ''config'')"
    by (rule device_definition_ok) auto
  obtain c where c: "dget_none d ''config'' = PDict c" using t(5) by (cases "dget_none d ''config''") auto
  obtain s where s: "dget d ''device_type'' = Some (PStr s)" "device_registry s = Some t"
    using t(1-3) by (cases "dget_none d ''device_type''") (auto simp: dget_none_def dhas_def)
  show ?thesis
  proof (cases "t \<in> {BME280, LTR390, SHT35}")
    case True
    then obtain m where "m \<le> 1000000" "validate_i2c_keys m c = Inr ()"
      using type_validator_i2c [of t c] t(4) c by auto
    then have "dhas c ''i2c_bus''" using i2c_keys_ok by blast
    then obtain b where b: "dget c ''i2c_bus'' = Some b" by (auto simp: dhas_def)
    obtain u where "fi b (dget_none c ''i2c_sda_pin'') (dget_none c ''i2c_scl_pin'')
        (dget_or c ''i2c_freq_hz'' (PInt DEFAULT_I2C_FREQ_HZ)) = Inr u"
      using assms(3) by blast
    with True t(1) s c b assms(2) show ?thesis
      by (intro exI [of _ t] exI [of _ u])
        (auto simp: create_device_def create_i2c_device_def dindex_def)
  next
    case False
    then have "t = DS18B20 \<or> t = YL69_FC28" by (cases t) auto
    then show ?thesis
    proof
      assume ds: "t = DS18B20"
      then obtain p where p: "dget c ''pin'' = Some (PInt p)"
        using type_validator_pin(1) t(4) c by auto
      obtain u where "fo (PInt p) = Inr u" using assms(5) by blast
      with ds t(1) s c p assms(4) show ?thesis
        by (intro exI [of _ t] exI [of _ u])
          (simp add: create_device_def create_pin_device_def dindex_def)
    next
      assume yl: "t = YL69_FC28"
      then obtain p where p: "dget c ''adc_pin'' = Some (PInt p)"
        using type_validator_pin(2) t(4) c by auto
      obtain u where "fa (PInt p) = Inr u" using assms(7) by blast
      with yl t(1) s c p assms(6) show ?thesis
        by (intro exI [of _ t] exI [of _ u])
          (simp add: create_device_def create_pin_device_def dindex_def)
    qed
  qed
qed

definition demo_factories :: "nat bus_factories" where
  "demo_factories =
     \<lparr>i2c_bus_factory = Some (\<lambda>b x y f. Inr 1), onewire_bus_factory = Some (\<lambda>p. Inr 2),
      adc_bus_factory = Some (\<lambda>p. Inr 3)\<rparr>"

theorem accepted_device_constructed_witness:
  "\<exists>t u. device_registry ''bme280'' = Some t \<and> create_device demo_bme280 demo_factories = Inr (t, u)"
proof -
  have "validate_device_definition (PDict demo_bme280) = Inr ()" by code_simp
  from accepted_device_constructed [OF this, of demo_factories "\<lambda>b x y f. Inr 1" "\<lambda>p. Inr 2" "\<lambda>p. Inr 3"]
  have "\<exists>t u. device_registry (the_str (dget_none demo_bme280 ''device_type'')) = Some t
     \<and> create_device demo_bme280 demo_factories = Inr (t, u)"
    by (simp add: demo_factories_def)
  moreover have "the_str (dget_none demo_bme280 ''device_type'') = ''bme280''" by code_simp
  ultimately show ?thesis by simp
qed

end
