(* ===== verification/Config.thy ===== *)
theory Config
  imports DeviceFactory Messages Ticks
begin

section \<open>Configuration: loading and validation\<close>

text \<open>
  \<open>config.py\<close>. A configuration is the value \<open>json.load\<close> returned, so the keys of its
  objects are strings. Error messages are not modelled; the stable code, the sorted
  unknown fields and the received schema version of a \<open>ConfigError\<close> are.
\<close>

subsection \<open>Constants\<close>

definition CONFIG_SCHEMA_VERSION :: int where "CONFIG_SCHEMA_VERSION = 10"
definition MAX_SOURCE_LENGTH :: nat where "MAX_SOURCE_LENGTH = 64"
definition MAX_MQTT_KEEPALIVE_SEC :: int where "MAX_MQTT_KEEPALIVE_SEC = 65535"
definition MIN_MQTT_KEEPALIVE_SEC :: int where "MIN_MQTT_KEEPALIVE_SEC = 5"
definition MAX_MQTT_TOPIC_BYTES :: nat where "MAX_MQTT_TOPIC_BYTES = 122"
definition MAX_WIFI_SSID_BYTES :: nat where "MAX_WIFI_SSID_BYTES = 32"
definition MAX_WIFI_PASSWORD_BYTES :: nat where "MAX_WIFI_PASSWORD_BYTES = 64"
definition MAX_TICKS_SAFE_INTERVAL_MS :: int where
  "MAX_TICKS_SAFE_INTERVAL_MS = push_bit 29 1 - 1"
definition MAX_DEVICE_INITIALIZATION_ATTEMPTS :: int where "MAX_DEVICE_INITIALIZATION_ATTEMPTS = 10"
definition MAX_RECONNECT_DELAY_SEC :: int where "MAX_RECONNECT_DELAY_SEC = 600"
definition MAX_RECONNECT_ATTEMPTS :: nat where "MAX_RECONNECT_ATTEMPTS = 32"
definition MAX_MQTT_BROKER_RESPONSE_TIMEOUT_SEC :: int where
  "MAX_MQTT_BROKER_RESPONSE_TIMEOUT_SEC = 5"
definition MAX_NETWORK_PROBE_TIMEOUT_SEC :: int where "MAX_NETWORK_PROBE_TIMEOUT_SEC = 30"
definition MAX_MQTT_OUTBOUND_PUBLISH_DELAY_MS :: int where
  "MAX_MQTT_OUTBOUND_PUBLISH_DELAY_MS = 60 * 1000"
definition MAX_MQTT_COMMAND_POLL_MS :: int where "MAX_MQTT_COMMAND_POLL_MS = 10 * 1000"
definition MAX_DEVICE_INITIALIZATION_RETRY_DELAY_MS :: int where
  "MAX_DEVICE_INITIALIZATION_RETRY_DELAY_MS = 60 * 1000"
definition MAX_DEVICE_READ_FAILURE_THRESHOLD :: int where "MAX_DEVICE_READ_FAILURE_THRESHOLD = 1000"
definition MAX_DEVICES :: nat where "MAX_DEVICES = 16"
definition MAX_OUTBOUND_QUEUE_MAX_MESSAGES :: int where "MAX_OUTBOUND_QUEUE_MAX_MESSAGES = 256"

lemmas config_bounds =
  MAX_MQTT_KEEPALIVE_SEC_def MIN_MQTT_KEEPALIVE_SEC_def MAX_TICKS_SAFE_INTERVAL_MS_def
  MAX_DEVICE_INITIALIZATION_ATTEMPTS_def MAX_MQTT_BROKER_RESPONSE_TIMEOUT_SEC_def
  MAX_NETWORK_PROBE_TIMEOUT_SEC_def MAX_MQTT_OUTBOUND_PUBLISH_DELAY_MS_def
  MAX_MQTT_COMMAND_POLL_MS_def MAX_DEVICE_INITIALIZATION_RETRY_DELAY_MS_def
  MAX_DEVICE_READ_FAILURE_THRESHOLD_def MAX_OUTBOUND_QUEUE_MAX_MESSAGES_def

abbreviation bad_value :: exc where
  "bad_value \<equiv> ConfigError Code_invalid_value [] None"

definition MQTT_TOPIC_KEYS :: "string list" where
  "MQTT_TOPIC_KEYS =
     [''mqtt_topic_telemetry'', ''mqtt_topic_log'', ''mqtt_topic_command'',
      ''mqtt_topic_command_response'', ''mqtt_topic_info_request'', ''mqtt_topic_info_response'',
      ''mqtt_topic_network_probe'', ''mqtt_topic_health'']"

definition REQUIRED_KEYS :: "string list" where
  "REQUIRED_KEYS =
     [''config_schema_version'', ''source'', ''read_loop_sec'', ''device_initialization_attempts'',
      ''device_initialization_retry_delay_ms'', ''device_read_failure_threshold'', ''devices'',
      ''mqtt_broker_ip_address'', ''mqtt_keepalive_sec'', ''mqtt_command_poll_ms'',
      ''mqtt_outbound_publish_delay_ms'', ''mqtt_broker_response_timeout_sec'',
      ''datetime_sync_interval_min'', ''network_snapshot_interval_sec'',
      ''network_probe_timeout_sec'', ''mqtt_topic_telemetry'', ''mqtt_topic_log'',
      ''mqtt_topic_command'', ''mqtt_topic_command_response'', ''mqtt_topic_info_request'',
      ''mqtt_topic_info_response'', ''mqtt_topic_network_probe'', ''mqtt_topic_health'',
      ''health_interval_sec'', ''wifi_reconnect_delays_sec'', ''mqtt_reconnect_delays_sec'',
      ''outbound_queue_max_messages'']"

subsection \<open>Unknown fields\<close>

definition device_qualifier :: "nat \<Rightarrow> pydict \<Rightarrow> string" where
  "device_qualifier index device =
     (if nonempty_str (dget_none device ''id'') then the_str (dget_none device ''id'')
      else nat_str index)"

definition device_unknown_paths :: "nat \<Rightarrow> pyval \<Rightarrow> string list res" where
  "device_unknown_paths index v =
     (if \<not> is_dict v then Inr []
      else (let device = the_dict v;
                prefix = ''devices['' @ device_qualifier index device @ '']'';
                own = map (\<lambda>k. prefix @ ''.'' @ k) (unknown_keys device DEVICE_DEFINITION_KEYS);
                cfg = dget_none device ''config''
            in if \<not> is_dict cfg then Inr own
               else andthen (allowed_config_keys (dget_none device ''device_type'')) (\<lambda>allowed.
                    Inr (own @ (case allowed of
                                  None \<Rightarrow> []
                                | Some keys \<Rightarrow> map (\<lambda>k. prefix @ ''.config.'' @ k)
                                                 (unknown_keys (the_dict cfg) keys))))))"

fun devices_unknown_paths :: "nat \<Rightarrow> pyval list \<Rightarrow> string list res" where
  "devices_unknown_paths index [] = Inr []"
| "devices_unknown_paths index (d # ds) =
     andthen (device_unknown_paths index d) (\<lambda>xs.
     andthen (devices_unknown_paths (Suc index) ds) (\<lambda>ys. Inr (xs @ ys)))"

definition unknown_config_paths :: "pydict \<Rightarrow> string list res" where
  "unknown_config_paths config =
     (let top = unknown_keys config REQUIRED_KEYS;
          devices = dget_none config ''devices''
      in if is_list devices
         then andthen (devices_unknown_paths 0 (the_list devices)) (\<lambda>ps.
              Inr (sort (remdups (top @ ps))))
         else Inr (sort (remdups top)))"

subsection \<open>Field checks\<close>

definition require_non_empty_string :: "pydict \<Rightarrow> string \<Rightarrow> unit res" where
  "require_non_empty_string config key = require (nonempty_str (dget_none config key)) bad_value"

definition bad_topic_char :: "char \<Rightarrow> bool" where
  "bad_topic_char c \<longleftrightarrow>
     (of_char c :: nat) < 1 \<or> (of_char c :: nat) > 127 \<or> c \<in> set ''+#''"

definition require_mqtt_topic :: "pydict \<Rightarrow> string \<Rightarrow> unit res" where
  "require_mqtt_topic config key =
     (let value = dget_none config key in
      andthen (require (nonempty_str value) bad_value) (\<lambda>_.
      require (\<not> (py_len (the_str value) > MAX_MQTT_TOPIC_BYTES
                  \<or> list_ex bad_topic_char (the_str value))) bad_value))"

text \<open>\<open>s.split(".")\<close>.\<close>

fun split_on :: "char \<Rightarrow> string \<Rightarrow> string list" where
  "split_on c [] = [[]]"
| "split_on c (x # xs) =
     (if x = c then [] # split_on c xs
      else (case split_on c xs of [] \<Rightarrow> [[x]] | p # ps \<Rightarrow> (x # p) # ps))"

definition is_digit :: "char \<Rightarrow> bool" where
  "is_digit c \<longleftrightarrow> 48 \<le> (of_char c :: nat) \<and> (of_char c :: nat) \<le> 57"

definition decimal_value :: "string \<Rightarrow> nat" where
  "decimal_value s = foldl (\<lambda>n c. 10 * n + ((of_char c :: nat) - 48)) 0 s"

definition ipv4_part :: "string \<Rightarrow> bool" where
  "ipv4_part part \<longleftrightarrow>
     1 \<le> py_len part \<and> py_len part \<le> 3 \<and> list_all is_digit part
     \<and> \<not> (length part > 1 \<and> hd part = CHR ''0'') \<and> decimal_value part \<le> 255"

definition require_ipv4_address :: "pydict \<Rightarrow> string \<Rightarrow> unit res" where
  "require_ipv4_address config key =
     (let parts = split_on (CHR ''.'') (the_str (dget_none config key)) in
      require (length parts = 4 \<and> list_all ipv4_part parts) bad_value)"

definition claim_topic :: "pydict \<Rightarrow> string \<Rightarrow> string list \<Rightarrow> string list res" where
  "claim_topic config key seen =
     (let value = the_str (dget_none config key) in
      if value \<in> set seen then Inl bad_value else Inr (value # seen))"

definition require_distinct_mqtt_topics :: "pydict \<Rightarrow> unit res" where
  "require_distinct_mqtt_topics config =
     andthen (fold_res (claim_topic config) MQTT_TOPIC_KEYS []) (\<lambda>_. Inr ())"

definition config_require_positive_integer :: "pydict \<Rightarrow> string \<Rightarrow> unit res" where
  "config_require_positive_integer config key =
     (let value = dget_none config key in require (is_int value \<and> \<not> the_int value \<le> 0) bad_value)"

definition require_nonnegative_integer :: "pydict \<Rightarrow> string \<Rightarrow> unit res" where
  "require_nonnegative_integer config key =
     (let value = dget_none config key in require (is_int value \<and> \<not> the_int value < 0) bad_value)"

definition require_ticks_safe_interval :: "pydict \<Rightarrow> string \<Rightarrow> int \<Rightarrow> unit res" where
  "require_ticks_safe_interval config key ms_per_unit =
     require (\<not> the_int (dget_none config key) * ms_per_unit > MAX_TICKS_SAFE_INTERVAL_MS) bad_value"

definition require_at_most :: "pydict \<Rightarrow> string \<times> int \<Rightarrow> unit res" where
  "require_at_most config kv =
     require (\<not> the_int (dget_none config (fst kv)) > snd kv) bad_value"

definition validate_delay :: "pyval \<Rightarrow> unit res" where
  "validate_delay delay =
     andthen (require (is_int delay \<and> \<not> the_int delay < 0) bad_value) (\<lambda>_.
     require (\<not> the_int delay > MAX_RECONNECT_DELAY_SEC) bad_value)"

definition validate_delays :: "pydict \<Rightarrow> string \<Rightarrow> unit res" where
  "validate_delays config key =
     (let delays = dget_none config key in
      andthen (require (is_list delays \<and> the_list delays \<noteq> []) bad_value) (\<lambda>_.
      andthen (require (\<not> length (the_list delays) > MAX_RECONNECT_ATTEMPTS) bad_value) (\<lambda>_.
      for_each validate_delay (the_list delays))))"

subsection \<open>Devices\<close>

text \<open>\<open>raise ConfigError(str(err), code=err.code)\<close>.\<close>

fun as_config_error :: "exc \<Rightarrow> exc" where
  "as_config_error (DeviceValidationError code) = ConfigError code [] None"
| "as_config_error e = e"

definition check_device :: "pyval \<Rightarrow> string list \<Rightarrow> string list res" where
  "check_device v seen_ids =
     andthen (require (is_dict v) bad_value) (\<lambda>_.
     (let device_id = dget_none (the_dict v) ''id'' in
      andthen (require (\<not> (nonempty_str device_id \<and> the_str device_id \<in> set seen_ids)) bad_value) (\<lambda>_.
      case validate_device_definition v of
        Inl e \<Rightarrow> Inl (as_config_error e)
      | Inr _ \<Rightarrow> Inr (if nonempty_str device_id then the_str device_id # seen_ids else seen_ids))))"

text \<open>One bus, one setting: \<open>bus_owners\<close> maps a bus to the setting of its first device.\<close>

type_synonym bus_setting = "pyval \<times> pyval \<times> pyval"

definition check_bus ::
  "pyval \<Rightarrow> (pyval \<times> bus_setting) list \<Rightarrow> (pyval \<times> bus_setting) list res" where
  "check_bus v bus_owners =
     (case i2c_bus_identity (the_dict v) of
        None \<Rightarrow> Inr bus_owners
      | Some (bus, setting) \<Rightarrow>
         (case map_of bus_owners bus of
            None \<Rightarrow> Inr ((bus, setting) # bus_owners)
          | Some owner \<Rightarrow> if owner \<noteq> setting then Inl bad_value else Inr bus_owners))"

definition device_config :: "pyval \<Rightarrow> pydict" where
  "device_config v = the_dict (dget_none (the_dict v) ''config'')"

definition has_type :: "string \<Rightarrow> pyval \<Rightarrow> bool" where
  "has_type t v \<longleftrightarrow> dget_none (the_dict v) ''device_type'' = PStr t"

definition onewire_pins :: "pyval list \<Rightarrow> pyval list" where
  "onewire_pins devices = map (\<lambda>v. dget_none (device_config v) ''pin'') (filter (has_type ''ds18b20'') devices)"

definition claim_soil_pin :: "pyval list \<Rightarrow> pyval \<Rightarrow> pyval list \<Rightarrow> pyval list res" where
  "claim_soil_pin onewire pin soil =
     (if pin \<in> set soil then Inl bad_value
      else if pin \<in> set onewire then Inl bad_value
      else Inr (pin # soil))"

definition soil_pins :: "pyval \<Rightarrow> pyval list" where
  "soil_pins v =
     map (dget_none (device_config v))
       (filter (dhas (device_config v)) [''adc_pin'', ''digital_pin'', ''power_pin''])"

definition claim_soil_pins :: "pyval list \<Rightarrow> pyval list \<Rightarrow> pyval list res" where
  "claim_soil_pins onewire devices =
     fold_res (\<lambda>v. fold_res (claim_soil_pin onewire) (soil_pins v))
       (filter (has_type ''yl69_fc28'') devices) []"

definition on_i2c :: "pyval \<Rightarrow> bool" where
  "on_i2c v \<longleftrightarrow> is_dict (dget_none (the_dict v) ''config'') \<and> dhas (device_config v) ''i2c_bus''"

definition check_i2c_lines :: "pyval list \<Rightarrow> pyval list \<Rightarrow> pyval \<Rightarrow> unit res" where
  "check_i2c_lines onewire soil v =
     (if \<not> on_i2c v then Inr ()
      else (let cfg = device_config v in
            andthen (effective_rp2_i2c_pins (the_int (dget_none cfg ''i2c_bus''))
                      (dget_none cfg ''i2c_sda_pin'') (dget_none cfg ''i2c_scl_pin'')) (\<lambda>(sda, scl).
            for_each (\<lambda>pin. andthen (require (pin \<notin> set onewire) bad_value) (\<lambda>_.
                            require (pin \<notin> set soil) bad_value)) [sda, scl])))"

definition check_ltr390 :: "pyval \<Rightarrow> pyval list \<Rightarrow> pyval list res" where
  "check_ltr390 v ltr390_owners =
     (if \<not> on_i2c v \<or> \<not> has_type ''ltr390'' v then Inr ltr390_owners
      else (let bus = dget_none (device_config v) ''i2c_bus'' in
            if bus \<in> set ltr390_owners then Inl bad_value else Inr (bus # ltr390_owners)))"

text \<open>
  The candidate-list types: the addresses of every device of one type on one bus, in
  configuration order; with two or more of them each must name one distinct address.
\<close>

definition candidate_sensors :: "string \<Rightarrow> pyval \<Rightarrow> pyval list \<Rightarrow> pyval list" where
  "candidate_sensors t bus devices =
     map (\<lambda>v. dget_none (device_config v) ''i2c_address_candidates'')
       (filter (\<lambda>v. on_i2c v \<and> has_type t v \<and> dget_none (device_config v) ''i2c_bus'' = bus) devices)"

definition claim_address :: "int list \<Rightarrow> pyval \<Rightarrow> pyval list \<Rightarrow> pyval list res" where
  "claim_address default_candidates candidates addresses =
     (let effective = (if candidates \<noteq> PNone then the_list candidates else map PInt default_candidates)
      in if length effective \<noteq> 1 \<or> hd effective \<in> set addresses then Inl bad_value
         else Inr (hd effective # addresses))"

definition check_candidates :: "string \<Rightarrow> int list \<Rightarrow> pyval list \<Rightarrow> pyval \<Rightarrow> unit res" where
  "check_candidates t default_candidates devices bus =
     (let entries = candidate_sensors t bus devices in
      if length entries < 2 then Inr ()
      else andthen (fold_res (claim_address default_candidates) entries []) (\<lambda>_. Inr ()))"

definition validate_devices :: "pyval \<Rightarrow> unit res" where
  "validate_devices devices_value =
     (let devices = the_list devices_value in
      andthen (require (is_list devices_value \<and> devices \<noteq> []) bad_value) (\<lambda>_.
      andthen (require (\<not> length devices > MAX_DEVICES) bad_value) (\<lambda>_.
      andthen (fold_res check_device devices []) (\<lambda>_.
      andthen (fold_res check_bus devices []) (\<lambda>_.
      (let onewire = onewire_pins devices in
       andthen (claim_soil_pins onewire devices) (\<lambda>soil.
       andthen (for_each (check_i2c_lines onewire soil) devices) (\<lambda>_.
       andthen (fold_res check_ltr390 devices []) (\<lambda>_.
       andthen (for_each (check_candidates ''bme280'' BME280_I2C_ADDRESSES devices) [PInt 0, PInt 1]) (\<lambda>_.
       for_each (check_candidates ''sht35'' SHT35_I2C_ADDRESSES devices) [PInt 0, PInt 1]))))))))))"

subsection \<open>The whole configuration\<close>

definition POSITIVE_KEYS :: "string list" where
  "POSITIVE_KEYS =
     [''read_loop_sec'', ''device_initialization_attempts'', ''device_read_failure_threshold'',
      ''mqtt_keepalive_sec'', ''mqtt_command_poll_ms'', ''mqtt_broker_response_timeout_sec'',
      ''datetime_sync_interval_min'', ''network_snapshot_interval_sec'',
      ''network_probe_timeout_sec'', ''health_interval_sec'', ''outbound_queue_max_messages'']"

definition validate_schema_version :: "pydict \<Rightarrow> unit res" where
  "validate_schema_version config =
     (let version = dget_none config ''config_schema_version'' in
      andthen (require (is_int version) bad_value) (\<lambda>_.
      require (the_int version = CONFIG_SCHEMA_VERSION)
        (ConfigError Code_invalid_config_schema_version [] (Some (the_int version)))))"

definition validate_strings :: "pydict \<Rightarrow> unit res" where
  "validate_strings config =
     andthen (for_each (require_non_empty_string config) [''source'', ''mqtt_broker_ip_address'']) (\<lambda>_.
     andthen (for_each (require_mqtt_topic config) MQTT_TOPIC_KEYS) (\<lambda>_.
     andthen (require_distinct_mqtt_topics config) (\<lambda>_.
     andthen (require (\<not> length (the_str (dget_none config ''source'')) > MAX_SOURCE_LENGTH) bad_value) (\<lambda>_.
     require_ipv4_address config ''mqtt_broker_ip_address''))))"

definition EARLY_LIMITS :: "(string \<times> int) list" where
  "EARLY_LIMITS =
     [(''mqtt_keepalive_sec'', MAX_MQTT_KEEPALIVE_SEC),
      (''device_initialization_attempts'', MAX_DEVICE_INITIALIZATION_ATTEMPTS)]"

definition LATE_LIMITS :: "(string \<times> int) list" where
  "LATE_LIMITS =
     [(''mqtt_broker_response_timeout_sec'', MAX_MQTT_BROKER_RESPONSE_TIMEOUT_SEC),
      (''network_probe_timeout_sec'', MAX_NETWORK_PROBE_TIMEOUT_SEC),
      (''mqtt_outbound_publish_delay_ms'', MAX_MQTT_OUTBOUND_PUBLISH_DELAY_MS),
      (''mqtt_command_poll_ms'', MAX_MQTT_COMMAND_POLL_MS),
      (''device_initialization_retry_delay_ms'', MAX_DEVICE_INITIALIZATION_RETRY_DELAY_MS),
      (''device_read_failure_threshold'', MAX_DEVICE_READ_FAILURE_THRESHOLD),
      (''outbound_queue_max_messages'', MAX_OUTBOUND_QUEUE_MAX_MESSAGES)]"

definition NONNEGATIVE_KEYS :: "string list" where
  "NONNEGATIVE_KEYS = [''device_initialization_retry_delay_ms'', ''mqtt_outbound_publish_delay_ms'']"

definition validate_numbers :: "pydict \<Rightarrow> unit res" where
  "validate_numbers config =
     andthen (for_each (config_require_positive_integer config) POSITIVE_KEYS) (\<lambda>_.
     andthen (require (\<not> the_int (dget_none config ''mqtt_keepalive_sec'') < MIN_MQTT_KEEPALIVE_SEC)
                bad_value) (\<lambda>_.
     andthen (for_each (require_at_most config) EARLY_LIMITS) (\<lambda>_.
     andthen (for_each (require_nonnegative_integer config) NONNEGATIVE_KEYS) (\<lambda>_.
     for_each (require_at_most config) LATE_LIMITS))))"

definition TICKS_SAFE_KEYS :: "(string \<times> int) list" where
  "TICKS_SAFE_KEYS =
     [(''read_loop_sec'', 1000), (''health_interval_sec'', 1000),
      (''network_snapshot_interval_sec'', 1000), (''mqtt_broker_response_timeout_sec'', 1000),
      (''datetime_sync_interval_min'', 60 * 1000), (''mqtt_command_poll_ms'', 1),
      (''mqtt_outbound_publish_delay_ms'', 1)]"

definition validate_config :: "pyval \<Rightarrow> pyval res" where
  "validate_config v =
     andthen (require (is_dict v) bad_value) (\<lambda>_.
     (let config = the_dict v in
      andthen (unknown_config_paths config) (\<lambda>unknown.
      andthen (require (unknown = []) (ConfigError Code_unknown_config_fields unknown None)) (\<lambda>_.
      andthen (for_each (\<lambda>key. require (dhas config key) (ConfigError Code_missing_key [] None))
                 REQUIRED_KEYS) (\<lambda>_.
      andthen (validate_schema_version config) (\<lambda>_.
      andthen (validate_strings config) (\<lambda>_.
      andthen (validate_numbers config) (\<lambda>_.
      andthen (for_each (\<lambda>(key, ms). require_ticks_safe_interval config key ms) TICKS_SAFE_KEYS) (\<lambda>_.
      andthen (for_each (validate_delays config)
                 [''wifi_reconnect_delays_sec'', ''mqtt_reconnect_delays_sec'']) (\<lambda>_.
      andthen (validate_devices (dget_none config ''devices'')) (\<lambda>_.
      Inr v)))))))))))"

subsection \<open>Loading\<close>

text \<open>\<open>_read_json\<close>: the argument is what \<open>open\<close> and \<open>json.load\<close> produced for the path.\<close>

definition read_json :: "exc \<Rightarrow> pyval res \<Rightarrow> pyval res" where
  "read_json error_type content =
     (case content of
        Inl e \<Rightarrow> if e = OSError \<or> e = ValueError then Inl error_type else Inl e
      | Inr v \<Rightarrow> if \<not> is_dict v then Inl error_type else Inr v)"

definition load_config :: "pyval res \<Rightarrow> pyval res" where
  "load_config content =
     andthen (read_json (ConfigError Code_unreadable_file [] None) content) validate_config"

definition load_wifi_config :: "pyval res \<Rightarrow> (string \<times> string) res" where
  "load_wifi_config content =
     andthen (read_json WifiConfigError content) (\<lambda>v.
     (let config = the_dict v;
          ssid = dget_none config ''wifi_ssid'';
          password = dget_none config ''wifi_password'' in
      andthen (require (only_keys [''wifi_ssid'', ''wifi_password''] config) WifiConfigError) (\<lambda>_.
      andthen (require (nonempty_str ssid) WifiConfigError) (\<lambda>_.
      andthen (require (is_str password) WifiConfigError) (\<lambda>_.
      andthen (require (CHR 0x00 \<notin> set (the_str ssid)) WifiConfigError) (\<lambda>_.
      andthen (require (CHR 0x00 \<notin> set (the_str password)) WifiConfigError) (\<lambda>_.
      andthen (require (\<not> length (the_str ssid) > MAX_WIFI_SSID_BYTES) WifiConfigError) (\<lambda>_.
      andthen (require (\<not> length (the_str password) > MAX_WIFI_PASSWORD_BYTES) WifiConfigError) (\<lambda>_.
      Inr (the_str ssid, the_str password))))))))))"

text \<open>\<open>split_config\<close>: \<open>config[k]\<close> for each key of a core.\<close>

fun pick :: "pydict \<Rightarrow> string list \<Rightarrow> pydict res" where
  "pick config [] = Inr []"
| "pick config (k # ks) =
     andthen (dindex config k) (\<lambda>v. andthen (pick config ks) (\<lambda>d. Inr ((PStr k, v) # d)))"

definition CORE0_KEYS :: "string list" where
  "CORE0_KEYS =
     [''source'', ''mqtt_broker_ip_address'', ''mqtt_topic_telemetry'', ''mqtt_topic_log'',
      ''mqtt_topic_command'', ''mqtt_topic_command_response'', ''mqtt_topic_info_request'',
      ''mqtt_topic_info_response'', ''wifi_reconnect_delays_sec'', ''mqtt_reconnect_delays_sec'',
      ''mqtt_keepalive_sec'', ''mqtt_command_poll_ms'', ''mqtt_outbound_publish_delay_ms'',
      ''mqtt_broker_response_timeout_sec'', ''datetime_sync_interval_min'',
      ''network_snapshot_interval_sec'', ''network_probe_timeout_sec'',
      ''mqtt_topic_network_probe'', ''mqtt_topic_health'']"

definition CORE1_KEYS :: "string list" where
  "CORE1_KEYS =
     [''read_loop_sec'', ''device_initialization_attempts'',
      ''device_initialization_retry_delay_ms'', ''device_read_failure_threshold'',
      ''health_interval_sec'', ''devices'']"

definition split_config :: "pydict \<Rightarrow> (pydict \<times> pydict) res" where
  "split_config config =
     andthen (pick config CORE0_KEYS) (\<lambda>core0. andthen (pick config CORE1_KEYS) (\<lambda>core1.
     Inr (core0, core1)))"


subsection \<open>What the validation of the devices ensures\<close>

lemma check_devices_ok:
  assumes "fold_res check_device ds seen = Inr s"
  shows "(\<forall>v \<in> set ds. validate_device_definition v = Inr ())
    \<and> distinct (map (\<lambda>v. the_str (dget_none (the_dict v) ''id'')) ds)
    \<and> set (map (\<lambda>v. the_str (dget_none (the_dict v) ''id'')) ds) \<inter> set seen = {}"
  using assms
proof (induction ds arbitrary: seen)
  case (Cons v ds)
  then obtain u where u: "check_device v seen = Inr u" "fold_res check_device ds u = Inr s"
    by (auto simp: res_simps)
  have valid: "validate_device_definition v = Inr ()"
    using u(1) by (auto simp: check_device_def Let_def res_simps split: sum.splits)
  then have "nonempty_str (dget_none (the_dict v) ''id'')"
    by (rule device_definition_ok) simp
  with u(1) valid have "u = the_str (dget_none (the_dict v) ''id'') # seen"
    "the_str (dget_none (the_dict v) ''id'') \<notin> set seen"
    by (auto simp: check_device_def Let_def res_simps)
  with Cons.IH [OF u(2)] valid show ?case by auto
qed simp

lemma check_buses_ok:
  assumes "fold_res check_bus ds owners = Inr final"
  shows "(\<forall>b. map_of owners b \<noteq> None \<longrightarrow> map_of final b = map_of owners b)
    \<and> (\<forall>v \<in> set ds. \<forall>b setting. i2c_bus_identity (the_dict v) = Some (b, setting)
          \<longrightarrow> map_of final b = Some setting)"
  using assms
proof (induction ds arbitrary: owners)
  case (Cons v ds)
  then obtain u where u: "check_bus v owners = Inr u" "fold_res check_bus ds u = Inr final"
    by (auto simp: res_simps)
  note IH = Cons.IH [OF u(2)]
  have keep: "\<forall>b. map_of owners b \<noteq> None \<longrightarrow> map_of u b = map_of owners b"
    using u(1) by (auto simp: check_bus_def split: option.splits if_splits)
  have own: "\<forall>b setting. i2c_bus_identity (the_dict v) = Some (b, setting) \<longrightarrow> map_of u b = Some setting"
    using u(1) by (auto simp: check_bus_def split: option.splits if_splits)
  from IH keep own show ?case by (simp del: not_None_eq)
qed simp

lemma claim_soil_ok:
  "fold_res (claim_soil_pin onewire) pins soil = Inr soil' \<Longrightarrow>
   soil' = rev pins @ soil \<and> set pins \<inter> set onewire = {} \<and> (distinct soil \<longrightarrow> distinct soil')"
proof (induction pins arbitrary: soil)
  case (Cons p pins)
  then obtain u where u: "claim_soil_pin onewire p soil = Inr u"
    "fold_res (claim_soil_pin onewire) pins u = Inr soil'"
    by (auto simp: res_simps)
  then have "u = p # soil" "p \<notin> set soil" "p \<notin> set onewire"
    by (auto simp: claim_soil_pin_def split: if_splits)
  with Cons.IH [OF u(2)] show ?case by auto
qed simp

lemma claim_soil_pins_fold:
  "fold_res (\<lambda>v. fold_res (claim_soil_pin onewire) (soil_pins v)) ds soil = Inr soil' \<Longrightarrow>
   soil' = rev (concat (map soil_pins ds)) @ soil
   \<and> set (concat (map soil_pins ds)) \<inter> set onewire = {} \<and> (distinct soil \<longrightarrow> distinct soil')"
proof (induction ds arbitrary: soil)
  case (Cons v ds)
  then obtain u where u: "fold_res (claim_soil_pin onewire) (soil_pins v) soil = Inr u"
    "fold_res (\<lambda>v. fold_res (claim_soil_pin onewire) (soil_pins v)) ds u = Inr soil'"
    by (auto simp: res_simps)
  note one = claim_soil_ok [OF u(1)] and rest = Cons.IH [OF u(2)]
  then have "distinct soil \<longrightarrow> distinct soil'" by blast
  moreover have "soil' = rev (concat (map soil_pins (v # ds))) @ soil"
    "set (concat (map soil_pins (v # ds))) \<inter> set onewire = {}"
    using one rest by (simp_all add: Int_Un_distrib2)
  ultimately show ?case by blast
qed simp

lemma claim_soil_pins_ok:
  assumes "claim_soil_pins onewire devices = Inr soil"
  shows "set soil = set (concat (map soil_pins (filter (has_type ''yl69_fc28'') devices)))"
    and "distinct (concat (map soil_pins (filter (has_type ''yl69_fc28'') devices)))"
    and "set soil \<inter> set onewire = {}"
  using claim_soil_pins_fold [OF assms [unfolded claim_soil_pins_def]] by auto

text \<open>The lines a device drives or reads, and in which signal.\<close>

datatype gpio_signal = I2C_SDA int | I2C_SCL int | OneWire_DQ | Soil_signal

definition device_lines :: "pyval \<Rightarrow> (pyval \<times> gpio_signal) list" where
  "device_lines v =
     (if on_i2c v
      then (let b = the_int (dget_none (device_config v) ''i2c_bus'') in
            case effective_rp2_i2c_pins b (dget_none (device_config v) ''i2c_sda_pin'')
                   (dget_none (device_config v) ''i2c_scl_pin'') of
              Inl e \<Rightarrow> []
            | Inr (sda, scl) \<Rightarrow> [(sda, I2C_SDA b), (scl, I2C_SCL b)])
      else [])
     @ (if has_type ''ds18b20'' v then [(dget_none (device_config v) ''pin'', OneWire_DQ)] else [])
     @ (if has_type ''yl69_fc28'' v then map (\<lambda>p. (p, Soil_signal)) (soil_pins v) else [])"

text \<open>A validated device is of exactly one of three kinds.\<close>

lemma validated_device_kinds:
  assumes "validate_device_definition v = Inr ()"
  obtains (i2c) b p q where "on_i2c v" "\<not> has_type ''ds18b20'' v" "\<not> has_type ''yl69_fc28'' v"
      "dget_none (device_config v) ''i2c_bus'' = PInt b" "b \<in> {0, 1}"
      "effective_rp2_i2c_pins b (dget_none (device_config v) ''i2c_sda_pin'')
         (dget_none (device_config v) ''i2c_scl_pin'') = Inr (PInt p, PInt q)"
      "drives b 0 p" "drives b 1 q"
  | (onewire) "\<not> on_i2c v" "has_type ''ds18b20'' v" "\<not> has_type ''yl69_fc28'' v"
  | (soil) "\<not> on_i2c v" "\<not> has_type ''ds18b20'' v" "has_type ''yl69_fc28'' v"
proof -
  from assms obtain d t where d: "v = PDict d"
    "device_registry (the_str (dget_none d ''device_type'')) = Some t"
    "is_str (dget_none d ''device_type'')" "is_dict (dget_none d ''config'')"
    "type_validator t (dget_none d ''config'') = Inr ()"
    by (rule device_definition_ok) blast
  obtain s where s: "dget_none d ''device_type'' = PStr s"
    using d(3) by (cases "dget_none d ''device_type''") auto
  obtain c where c: "dget_none d ''config'' = PDict c" using d(4) by (cases "dget_none d ''config''") auto
  have cfg: "device_config v = c" using d(1) c by (simp add: device_config_def)
  have reg: "device_registry s = Some t" using d(2) s by simp
  note cases = device_registry_cases [OF reg]
  show thesis
  proof (cases "t \<in> {BME280, LTR390, SHT35}")
    case True
    then obtain m where m: "m \<le> 1000000" "validate_i2c_keys m c = Inr ()"
      using type_validator_i2c [of t c] d(5) c by auto
    obtain b p q where "dget_none c ''i2c_bus'' = PInt b" "dhas c ''i2c_bus''" "b \<in> {0, 1}"
      "effective_rp2_i2c_pins b (dget_none c ''i2c_sda_pin'') (dget_none c ''i2c_scl_pin'')
         = Inr (PInt p, PInt q)" "drives b 0 p" "drives b 1 q"
      by (rule i2c_keys_ok [OF m(2,1)])
    then show thesis
      using True cases d(1) c s cfg
      by (intro i2c [of b p q]) (auto simp: on_i2c_def has_type_def)
  next
    case False
    then have "t \<in> {DS18B20, YL69_FC28}" by (cases t) auto
    then have "\<not> on_i2c v"
      using only_keys_no_bus [of t c] d(5) c cfg by (simp add: on_i2c_def)
    with cases \<open>t \<in> {DS18B20, YL69_FC28}\<close> d(1) s show thesis
      by (auto simp: has_type_def intro: onewire soil)
  qed
qed

lemma validate_devices_ok:
  assumes "validate_devices (PList ds) = Inr ()"
  obtains final soil where "\<forall>v \<in> set ds. validate_device_definition v = Inr ()"
    and "distinct (map (\<lambda>v. the_str (dget_none (the_dict v) ''id'')) ds)"
    and "ds \<noteq> []" and "length ds \<le> MAX_DEVICES"
    and "fold_res check_bus ds [] = Inr final"
    and "claim_soil_pins (onewire_pins ds) ds = Inr soil"
    and "\<forall>v \<in> set ds. check_i2c_lines (onewire_pins ds) soil v = Inr ()"
    and "\<exists>x. fold_res check_ltr390 ds [] = Inr x"
    and "\<forall>b \<in> {PInt 0, PInt 1}. check_candidates ''bme280'' BME280_I2C_ADDRESSES ds b = Inr ()
           \<and> check_candidates ''sht35'' SHT35_I2C_ADDRESSES ds b = Inr ()"
proof -
  from assms obtain ids final soil where *:
    "ds \<noteq> []" "length ds \<le> MAX_DEVICES" "fold_res check_device ds [] = Inr ids"
    "fold_res check_bus ds [] = Inr final" "claim_soil_pins (onewire_pins ds) ds = Inr soil"
    "for_each (check_i2c_lines (onewire_pins ds) soil) ds = Inr ()"
    "\<exists>x. fold_res check_ltr390 ds [] = Inr x"
    "for_each (check_candidates ''bme280'' BME280_I2C_ADDRESSES ds) [PInt 0, PInt 1] = Inr ()"
    "for_each (check_candidates ''sht35'' SHT35_I2C_ADDRESSES ds) [PInt 0, PInt 1] = Inr ()"
    by (auto simp: validate_devices_def Let_def andthen_eq_Inr)
  from check_devices_ok [OF *(3)] * that [of final soil] show thesis by (simp add: andthen_eq_Inr)
qed

lemma onewire_line: "v \<in> set ds \<Longrightarrow> has_type ''ds18b20'' v \<Longrightarrow>
    dget_none (device_config v) ''pin'' \<in> set (onewire_pins ds)"
  by (auto simp: onewire_pins_def)

text \<open>The lines of an I2C device avoid every 1-Wire and soil pin.\<close>

lemma i2c_lines_free:
  assumes "check_i2c_lines onewire soil v = Inr ()" and "on_i2c v"
    and "(p, s) \<in> set (device_lines v)" and "\<not> has_type ''ds18b20'' v" and "\<not> has_type ''yl69_fc28'' v"
  shows "p \<notin> set onewire" and "p \<notin> set soil"
  using assms by (auto simp: check_i2c_lines_def device_lines_def Let_def andthen_eq_Inr)

lemma gpio_lines_compatible:
  assumes "validate_devices (PList (xs @ v # ys @ w # zs)) = Inr ()"
    and p: "(p, s) \<in> set (device_lines v)" and q: "(p, s') \<in> set (device_lines w)"
  shows "s = s' \<and> s \<noteq> Soil_signal"
proof -
  let ?ds = "xs @ v # ys @ w # zs"
  obtain final soil where valid: "\<forall>v \<in> set ?ds. validate_device_definition v = Inr ()"
    and claim: "claim_soil_pins (onewire_pins ?ds) ?ds = Inr soil"
    and lines: "\<forall>v \<in> set ?ds. check_i2c_lines (onewire_pins ?ds) soil v = Inr ()"
    using validate_devices_ok [OF assms(1)] by metis
  note soil = claim_soil_pins_ok [OF claim]
  have v: "validate_device_definition v = Inr ()" "v \<in> set ?ds"
    and w: "validate_device_definition w = Inr ()" "w \<in> set ?ds" using valid by simp_all
  have i2c_other: False
    if "u \<in> set ?ds" "on_i2c u" "\<not> has_type ''ds18b20'' u" "\<not> has_type ''yl69_fc28'' u"
      "(r, t) \<in> set (device_lines u)" "u' \<in> set ?ds" "\<not> on_i2c u'" "(r, t') \<in> set (device_lines u')"
    for u u' r t t'
  proof -
    have free: "r \<notin> set (onewire_pins ?ds)" "r \<notin> set soil"
      using i2c_lines_free [of "onewire_pins ?ds" soil u r t] lines that by blast+
    have "r \<in> set (onewire_pins ?ds) \<or> r \<in> set soil"
      using that(6-8) onewire_line [OF that(6)] soil(1)
      by (auto simp: device_lines_def split: if_splits)
    with free show False by blast
  qed
  have onewire_soil: False
    if "u \<in> set ?ds" "has_type ''ds18b20'' u" "\<not> on_i2c u" "\<not> has_type ''yl69_fc28'' u"
      "(r, t) \<in> set (device_lines u)" "u' \<in> set ?ds" "\<not> on_i2c u'" "has_type ''yl69_fc28'' u'"
      "\<not> has_type ''ds18b20'' u'" "(r, t') \<in> set (device_lines u')" for u u' r t t'
  proof -
    have "r \<in> set (onewire_pins ?ds)"
      using that(1-5) onewire_line [OF that(1)] by (auto simp: device_lines_def)
    moreover have "r \<in> set soil"
      using that(6-10) soil(1) by (auto simp: device_lines_def)
    ultimately show False using soil(3) by blast
  qed
  from v(1) show ?thesis
  proof (cases rule: validated_device_kinds)
    case v_i2c: (i2c b a a')
    from w(1) show ?thesis
    proof (cases rule: validated_device_kinds)
      case (i2c b' c c')
      have "(p, s) \<in> {(PInt a, I2C_SDA b), (PInt a', I2C_SCL b)}"
        using p v_i2c by (simp add: device_lines_def Let_def)
      moreover have "(p, s') \<in> {(PInt c, I2C_SDA b'), (PInt c', I2C_SCL b')}"
        using q i2c by (simp add: device_lines_def Let_def)
      ultimately show ?thesis
        using v_i2c(7,8) i2c(7,8) by (auto simp: drives_def)
    next
      case onewire
      with i2c_other [OF v(2) v_i2c(1,2,3) p w(2) _ q] show ?thesis by blast
    next
      case soil
      with i2c_other [OF v(2) v_i2c(1,2,3) p w(2) _ q] show ?thesis by blast
    qed
  next
    case v_ow: onewire
    from w(1) show ?thesis
    proof (cases rule: validated_device_kinds)
      case (i2c b' c c')
      with i2c_other [OF w(2) i2c(1,2,3) q v(2) v_ow(1) p] show ?thesis by blast
    next
      case onewire
      with v_ow p q show ?thesis by (auto simp: device_lines_def)
    next
      case soil
      with onewire_soil [OF v(2) v_ow(2,1,3) p w(2) soil(1,3,2) q] show ?thesis by blast
    qed
  next
    case v_soil: soil
    from w(1) show ?thesis
    proof (cases rule: validated_device_kinds)
      case (i2c b' c c')
      with i2c_other [OF w(2) i2c(1,2,3) q v(2) v_soil(1) p] show ?thesis by blast
    next
      case onewire
      with onewire_soil [OF w(2) onewire(2,1,3) q v(2) v_soil(1,3,2) p] show ?thesis by blast
    next
      case w_soil: soil
      have "p \<in> set (soil_pins v)" "p \<in> set (soil_pins w)"
        using p q v_soil w_soil by (auto simp: device_lines_def)
      with soil(2) v_soil(3) w_soil(3) show ?thesis by auto
    qed
  qed
qed

lemma bus_settings_agree:
  assumes "validate_devices (PList ds) = Inr ()" and "v \<in> set ds" and "w \<in> set ds"
    and "i2c_bus_identity (the_dict v) = Some (b, s)" and "i2c_bus_identity (the_dict w) = Some (b, t)"
  shows "s = t"
proof -
  obtain final where "fold_res check_bus ds [] = Inr final"
    using validate_devices_ok [OF assms(1)] by metis
  from check_buses_ok [OF this] assms(2-5) show ?thesis by (metis option.inject)
qed


lemma check_ltr390_fold:
  "fold_res check_ltr390 ds owners = Inr final \<Longrightarrow>
   final = rev (map (\<lambda>v. dget_none (device_config v) ''i2c_bus'')
                 (filter (\<lambda>v. on_i2c v \<and> has_type ''ltr390'' v) ds)) @ owners
   \<and> (distinct owners \<longrightarrow> distinct final)"
proof (induction ds arbitrary: owners)
  case (Cons v ds)
  then obtain u where u: "check_ltr390 v owners = Inr u" "fold_res check_ltr390 ds u = Inr final"
    by (auto simp: andthen_eq_Inr)
  note rest = Cons.IH [OF u(2)]
  have "distinct owners \<longrightarrow> distinct u"
    using u(1) by (auto simp: check_ltr390_def Let_def split: if_splits)
  moreover have "u = rev (map (\<lambda>v. dget_none (device_config v) ''i2c_bus'')
                 (filter (\<lambda>v. on_i2c v \<and> has_type ''ltr390'' v) [v])) @ owners"
    using u(1) by (auto simp: check_ltr390_def Let_def split: if_splits)
  ultimately show ?case using rest by (auto split: if_splits)
qed simp

definition chosen_address :: "int list \<Rightarrow> pyval \<Rightarrow> pyval" where
  "chosen_address dflt e = hd (if e \<noteq> PNone then the_list e else map PInt dflt)"

definition one_address :: "int list \<Rightarrow> pyval \<Rightarrow> bool" where
  "one_address dflt e \<longleftrightarrow> length (if e \<noteq> PNone then the_list e else map PInt dflt) = 1"

lemma claim_address_ok:
  "claim_address dflt e addresses = Inr u \<longleftrightarrow>
   one_address dflt e \<and> chosen_address dflt e \<notin> set addresses \<and> u = chosen_address dflt e # addresses"
  by (auto simp: claim_address_def Let_def one_address_def chosen_address_def)

lemma claim_address_fold:
  "fold_res (claim_address dflt) entries addresses = Inr final \<Longrightarrow>
   list_all (one_address dflt) entries
   \<and> final = rev (map (chosen_address dflt) entries) @ addresses
   \<and> (distinct addresses \<longrightarrow> distinct final)"
proof (induction entries arbitrary: addresses)
  case (Cons e entries)
  then obtain u where "claim_address dflt e addresses = Inr u"
    "fold_res (claim_address dflt) entries u = Inr final"
    by (auto simp: andthen_eq_Inr)
  note u = this(1) [unfolded claim_address_ok] and rest = Cons.IH [OF this(2)]
  have "distinct addresses \<longrightarrow> distinct u" using u by simp
  with rest have "distinct addresses \<longrightarrow> distinct final" by blast
  moreover have "list_all (one_address dflt) (e # entries)"
    "final = rev (map (chosen_address dflt) (e # entries)) @ addresses"
    using u rest by simp_all
  ultimately show ?case by blast
qed simp

text \<open>Two sensors of one candidate-list type on one bus name one address each, and distinct ones.\<close>

lemma candidate_addresses_distinct:
  assumes "check_candidates t dflt (xs @ v # ys @ w # zs) b = Inr ()" and "length dflt \<noteq> 1"
    and "on_i2c v" "has_type t v" "dget_none (device_config v) ''i2c_bus'' = b"
    and "on_i2c w" "has_type t w" "dget_none (device_config w) ''i2c_bus'' = b"
  shows "\<exists>x y. dget_none (device_config v) ''i2c_address_candidates'' = PList [x]
             \<and> dget_none (device_config w) ''i2c_address_candidates'' = PList [y] \<and> x \<noteq> y"
proof -
  let ?c = "\<lambda>v. dget_none (device_config v) ''i2c_address_candidates''"
  obtain A B C where e: "candidate_sensors t b (xs @ v # ys @ w # zs) = A @ ?c v # B @ ?c w # C"
    using assms(3-8) by (simp add: candidate_sensors_def)
  then have "\<exists>final. fold_res (claim_address dflt) (A @ ?c v # B @ ?c w # C) [] = Inr final"
    using assms(1) by (auto simp: check_candidates_def Let_def andthen_eq_Inr split: if_splits)
  then obtain final where "fold_res (claim_address dflt) (A @ ?c v # B @ ?c w # C) [] = Inr final"
    by blast
  from claim_address_fold [OF this] have
    one: "one_address dflt (?c v)" "one_address dflt (?c w)"
    and neq: "chosen_address dflt (?c v) \<noteq> chosen_address dflt (?c w)"
    by auto
  from one assms(2) have v: "?c v \<noteq> PNone" "length (the_list (?c v)) = 1"
    and w: "?c w \<noteq> PNone" "length (the_list (?c w)) = 1"
    by (auto simp: one_address_def split: if_splits)
  from v obtain x where x: "?c v = PList [x]"
    by (cases "?c v") (auto simp: length_Suc_conv)
  from w obtain y where y: "?c w = PList [y]"
    by (cases "?c w") (auto simp: length_Suc_conv)
  from x y neq show ?thesis by (simp add: chosen_address_def)
qed

subsection \<open>Which exceptions the validation raises\<close>

fun is_config_error :: "exc \<Rightarrow> bool" where
  "is_config_error (ConfigError code unknown received) = True"
| "is_config_error e = False"

lemma config_require [simp]: "raises_only is_config_error (require c (ConfigError code u r))"
  by (simp add: raises_only_require)

lemma check_device_raises: "raises_only is_config_error (check_device v seen)"
proof -
  have "is_device_error e \<Longrightarrow> is_config_error (as_config_error e)" for e
    by (cases e) auto
  then have "raises_only is_config_error
      (case validate_device_definition v of Inl e \<Rightarrow> Inl (as_config_error e) | Inr _ \<Rightarrow> Inr x)" for x :: "string list"
    using validates_device_definition [of v] by (auto simp: raises_only_def split: sum.splits)
  then show ?thesis
    unfolding check_device_def Let_def by (intro raise_rules) auto
qed

lemma i2c_lines_raises:
  assumes "validate_device_definition v = Inr ()"
  shows "raises_only is_config_error (check_i2c_lines onewire soil v)"
  using assms
proof (cases rule: validated_device_kinds)
  case (i2c b p q)
  then show ?thesis
    by (auto simp: check_i2c_lines_def Let_def intro!: raise_rules)
qed (simp_all add: check_i2c_lines_def)

lemma validate_devices_raises: "raises_only is_config_error (validate_devices v)"
proof -
  have bus: "raises_only is_config_error (check_bus v owners)" for v owners
    by (auto simp: check_bus_def split: option.splits)
  have soil: "raises_only is_config_error (claim_soil_pin ow p s)" for ow p s
    by (simp add: claim_soil_pin_def)
  have ltr: "raises_only is_config_error (check_ltr390 v owners)" for v owners
    by (simp add: check_ltr390_def Let_def)
  have addr: "raises_only is_config_error (claim_address d e a)" for d e a
    by (simp add: claim_address_def Let_def)
  have lines: "raises_only is_config_error (check_i2c_lines ow so w)"
    if "fold_res check_device (the_list v) [] = Inr ids" and "w \<in> set (the_list v)" for ow so w ids
    using check_devices_ok [OF that(1)] that(2) by (simp add: i2c_lines_raises)
  show ?thesis
    unfolding validate_devices_def Let_def claim_soil_pins_def check_candidates_def
    by (intro raise_rules check_device_raises bus soil ltr addr lines; (assumption)?)
      (auto intro!: raise_rules addr)
qed


lemma device_unknown_paths_raises:
  "raises_only (\<lambda>e. e = TypeError) (device_unknown_paths index v)"
  by (auto simp: device_unknown_paths_def Let_def allowed_config_keys_def registry_get_def
      intro!: raise_rules)

lemma devices_unknown_paths_raises:
  "raises_only (\<lambda>e. e = TypeError) (devices_unknown_paths index ds)"
  by (induction ds arbitrary: index) (auto intro!: raise_rules device_unknown_paths_raises)

lemma unknown_config_paths_raises:
  "raises_only (\<lambda>e. e = TypeError) (unknown_config_paths config)"
  by (auto simp: unknown_config_paths_def Let_def intro!: raise_rules devices_unknown_paths_raises)

lemma validate_strings_raises: "raises_only is_config_error (validate_strings config)"
  unfolding validate_strings_def require_non_empty_string_def require_mqtt_topic_def Let_def
    require_distinct_mqtt_topics_def require_ipv4_address_def claim_topic_def
  by (intro raise_rules) auto

lemma validate_numbers_raises: "raises_only is_config_error (validate_numbers config)"
  unfolding validate_numbers_def config_require_positive_integer_def require_at_most_def Let_def
    require_nonnegative_integer_def
  by (intro raise_rules) auto

lemma validate_config_raises:
  "raises_only (\<lambda>e. is_config_error e
      \<or> (e = TypeError \<and> unknown_config_paths (the_dict v) = Inl TypeError)) (validate_config v)"
proof -
  let ?Q = "\<lambda>e. is_config_error e \<or> (e = TypeError \<and> unknown_config_paths (the_dict v) = Inl TypeError)"
  have unknown: "raises_only ?Q (unknown_config_paths (the_dict v))"
    using unknown_config_paths_raises [of "the_dict v"] by (auto simp: raises_only_def)
  have delays: "raises_only is_config_error (validate_delays c k)" for c k
    unfolding validate_delays_def validate_delay_def Let_def by (intro raise_rules) auto
  have ticks: "raises_only is_config_error (case x of (k, ms) \<Rightarrow> require_ticks_safe_interval c k ms)" for c x
    by (cases x) (simp add: require_ticks_safe_interval_def)
  have schema: "raises_only is_config_error (validate_schema_version c)" for c
    unfolding validate_schema_version_def Let_def by (intro raise_rules) auto
  note lift = raises_only_mono [where Q = ?Q]
  show ?thesis
    unfolding validate_config_def Let_def
    by (intro raises_only_andthen raises_only_Inr raises_only_for_each unknown
        lift [OF delays] lift [OF ticks] lift [OF schema]
        lift [OF validate_strings_raises] lift [OF validate_numbers_raises]
        lift [OF validate_devices_raises] lift [OF config_require])
      (auto intro: lift [OF config_require])
qed

lemma validate_config_TypeError:
  assumes "validate_config v = Inl TypeError"
  shows "\<exists>d \<in> set (the_list (dget_none (the_dict v) ''devices'')).
           is_dict d \<and> is_dict (dget_none (the_dict d) ''config'')
           \<and> \<not> hashable (dget_none (the_dict d) ''device_type'')"
proof -
  have one: "device_unknown_paths index d = Inl TypeError \<Longrightarrow>
      is_dict d \<and> is_dict (dget_none (the_dict d) ''config'')
      \<and> \<not> hashable (dget_none (the_dict d) ''device_type'')" for index d
    by (auto simp: device_unknown_paths_def Let_def allowed_config_keys_def registry_get_def
        andthen_eq_Inl split: if_splits)
  have many: "devices_unknown_paths index ds = Inl TypeError \<Longrightarrow>
      \<exists>d \<in> set ds. \<exists>i. device_unknown_paths i d = Inl TypeError" for index ds
    by (induction ds arbitrary: index) (auto simp: andthen_eq_Inl)
  have "unknown_config_paths (the_dict v) = Inl TypeError"
    using validate_config_raises [of v] assms by (simp add: raises_only_def)
  then have "devices_unknown_paths 0 (the_list (dget_none (the_dict v) ''devices'')) = Inl TypeError"
    by (auto simp: unknown_config_paths_def Let_def andthen_eq_Inl split: if_splits)
  from many [OF this] one show ?thesis by blast
qed

subsection \<open>What an accepted configuration satisfies\<close>

lemma validate_config_ok:
  assumes "validate_config v = Inr r"
  obtains config where "v = PDict config" and "r = v" and "unknown_config_paths config = Inr []"
    and "\<forall>k \<in> set REQUIRED_KEYS. dhas config k"
    and "validate_schema_version config = Inr ()" and "validate_strings config = Inr ()"
    and "validate_numbers config = Inr ()"
    and "\<forall>(k, ms) \<in> set TICKS_SAFE_KEYS. require_ticks_safe_interval config k ms = Inr ()"
    and "validate_delays config ''wifi_reconnect_delays_sec'' = Inr ()"
    and "validate_delays config ''mqtt_reconnect_delays_sec'' = Inr ()"
    and "validate_devices (dget_none config ''devices'') = Inr ()"
proof -
  from assms have d: "is_dict v" by (auto simp: validate_config_def andthen_eq_Inr)
  then obtain config where c: "v = PDict config" by (cases v) auto
  have "for_each (validate_delays config)
                 [''wifi_reconnect_delays_sec'', ''mqtt_reconnect_delays_sec''] = Inr ()"
    using assms c by (auto simp: validate_config_def Let_def andthen_eq_Inr)
  then have del: "validate_delays config ''wifi_reconnect_delays_sec'' = Inr ()"
    "validate_delays config ''mqtt_reconnect_delays_sec'' = Inr ()"
    by (simp_all add: andthen_eq_Inr)
  show thesis
    by (rule that [OF c _ _ _ _ _ _ _ del])
      (use assms c in \<open>auto simp: validate_config_def Let_def andthen_eq_Inr\<close>)
qed

lemma claim_topic_ok:
  "claim_topic config k seen = Inr u \<longleftrightarrow>
   the_str (dget_none config k) \<notin> set seen \<and> u = the_str (dget_none config k) # seen"
  by (auto simp: claim_topic_def Let_def)

lemma topic_char_ascii: "\<not> bad_topic_char c \<Longrightarrow> \<not> is_continuation c"
  unfolding bad_topic_char_def is_continuation_def by linarith

lemma validate_config_parts:
  assumes "validate_config (PDict config) = Inr r"
  shows "validate_strings config = Inr ()" and "validate_numbers config = Inr ()"
    and "\<forall>(k, ms) \<in> set TICKS_SAFE_KEYS. require_ticks_safe_interval config k ms = Inr ()"
    and "validate_delays config ''wifi_reconnect_delays_sec'' = Inr ()"
    and "validate_delays config ''mqtt_reconnect_delays_sec'' = Inr ()"
  by (rule validate_config_ok [OF assms], simp only: pyval.inject)+

lemma nonempty_str_iff: "nonempty_str v \<longleftrightarrow> (\<exists>t. v = PStr t \<and> t \<noteq> [])"
  by (cases v) (auto simp: nonempty_str_def)

text \<open>A required integer key within bounds.\<close>

definition int_field :: "pydict \<Rightarrow> string \<Rightarrow> int \<Rightarrow> int \<Rightarrow> bool" where
  "int_field config key lo hi \<longleftrightarrow> int_in_range lo hi (dget_none config key)"

lemma validate_numbers_ok:
  assumes "validate_numbers config = Inr ()"
  shows "k \<in> set POSITIVE_KEYS \<Longrightarrow> config_require_positive_integer config k = Inr ()"
    and "\<not> the_int (dget_none config ''mqtt_keepalive_sec'') < MIN_MQTT_KEEPALIVE_SEC"
    and "kv \<in> set EARLY_LIMITS \<union> set LATE_LIMITS \<Longrightarrow> require_at_most config kv = Inr ()"
    and "k \<in> set NONNEGATIVE_KEYS \<Longrightarrow> require_nonnegative_integer config k = Inr ()"
  using assms
  unfolding validate_numbers_def andthen_eq_Inr for_each_eq_Inr require_eq_Inr by blast+

lemma positive_at_most:
  assumes "validate_numbers config = Inr ()" and "k \<in> set POSITIVE_KEYS"
    and "(k, m) \<in> set EARLY_LIMITS \<union> set LATE_LIMITS"
  shows "int_field config k 1 m"
  using validate_numbers_ok(1) [OF assms(1,2)] validate_numbers_ok(3) [OF assms(1,3)]
  by (auto simp: config_require_positive_integer_def require_at_most_def int_field_def
      int_in_range_def Let_def)

lemma nonnegative_at_most:
  assumes "validate_numbers config = Inr ()" and "k \<in> set NONNEGATIVE_KEYS"
    and "(k, m) \<in> set EARLY_LIMITS \<union> set LATE_LIMITS"
  shows "int_field config k 0 m"
  using validate_numbers_ok(4) [OF assms(1,2)] validate_numbers_ok(3) [OF assms(1,3)]
  by (auto simp: require_nonnegative_integer_def require_at_most_def int_field_def
      int_in_range_def Let_def)

lemma positive_field:
  assumes "validate_numbers config = Inr ()" and "k \<in> set POSITIVE_KEYS"
  shows "\<exists>i. dget_none config k = PInt i \<and> 0 < i"
  using validate_numbers_ok(1) [OF assms]
  by (auto simp: config_require_positive_integer_def is_int_iff Let_def)

lemma ticks_safe_add:
  assumes "require_ticks_safe_interval config k ms = Inr ()" and "dget_none config k = PInt i"
    and "0 \<le> i" and "0 < ms"
  shows "\<exists>u. ticks_add t (i * ms) = Inr u"
proof -
  have "i * ms < ticks_half"
    using assms(1,2) by (simp add: require_ticks_safe_interval_def MAX_TICKS_SAFE_INTERVAL_MS_def ticks_half_def)
  moreover have "0 \<le> i * ms" using assms(3,4) by simp
  ultimately show ?thesis by (simp add: ticks_add_def ticks_half_def)
qed

lemma validate_delays_ok:
  assumes "validate_delays config k = Inr ()"
  shows "\<exists>ds. dget_none config k = PList ds \<and> ds \<noteq> [] \<and> (\<forall>d \<in> set ds. int_in_range 0 600 d)"
  using assms
  by (cases "dget_none config k")
    (auto simp: validate_delays_def validate_delay_def Let_def andthen_eq_Inr int_in_range_def
      MAX_RECONNECT_DELAY_SEC_def)

subsection \<open>Properties\<close>

text \<open>A small accepted configuration: three devices on three kinds of lines.\<close>

definition demo_devices :: "pyval list" where
  "demo_devices =
     [PDict demo_bme280,
      PDict [(PStr ''id'', PStr ''t1''), (PStr ''device_type'', PStr ''ds18b20''),
             (PStr ''config'', PDict [(PStr ''pin'', PInt 2), (PStr ''rom'', PStr ''28ff0102030405aa'')])],
      PDict [(PStr ''id'', PStr ''m1''), (PStr ''device_type'', PStr ''yl69_fc28''),
             (PStr ''config'', PDict [(PStr ''adc_pin'', PInt 26), (PStr ''power_pin'', PInt 15),
                (PStr ''dry_raw'', PInt 50000), (PStr ''wet_raw'', PInt 20000)])]]"

definition demo_config_with :: "pyval list \<Rightarrow> pydict" where
  "demo_config_with devices =
     [(PStr ''config_schema_version'', PInt 10), (PStr ''source'', PStr ''node''),
      (PStr ''read_loop_sec'', PInt 60), (PStr ''device_initialization_attempts'', PInt 3),
      (PStr ''device_initialization_retry_delay_ms'', PInt 500),
      (PStr ''device_read_failure_threshold'', PInt 5), (PStr ''devices'', PList devices),
      (PStr ''mqtt_broker_ip_address'', PStr ''10.0.0.1''), (PStr ''mqtt_keepalive_sec'', PInt 60),
      (PStr ''mqtt_command_poll_ms'', PInt 100), (PStr ''mqtt_outbound_publish_delay_ms'', PInt 50),
      (PStr ''mqtt_broker_response_timeout_sec'', PInt 5), (PStr ''datetime_sync_interval_min'', PInt 60),
      (PStr ''network_snapshot_interval_sec'', PInt 30), (PStr ''network_probe_timeout_sec'', PInt 10),
      (PStr ''mqtt_topic_telemetry'', PStr ''a''), (PStr ''mqtt_topic_log'', PStr ''b''),
      (PStr ''mqtt_topic_command'', PStr ''c''), (PStr ''mqtt_topic_command_response'', PStr ''d''),
      (PStr ''mqtt_topic_info_request'', PStr ''e''), (PStr ''mqtt_topic_info_response'', PStr ''f''),
      (PStr ''mqtt_topic_network_probe'', PStr ''g''), (PStr ''mqtt_topic_health'', PStr ''h''),
      (PStr ''health_interval_sec'', PInt 60),
      (PStr ''wifi_reconnect_delays_sec'', PList [PInt 1, PInt 5]),
      (PStr ''mqtt_reconnect_delays_sec'', PList [PInt 1, PInt 5]),
      (PStr ''outbound_queue_max_messages'', PInt 64)]"

definition demo_config :: pydict where
  "demo_config = demo_config_with demo_devices"

lemma demo_config_ok: "validate_config (PDict demo_config) = Inr (PDict demo_config)"
  by code_simp

text \<open>
  C9: \<open>validate_config\<close> returns the very document it was given, or raises a \<open>ConfigError\<close>.
  The one other exception is \<open>TypeError\<close>, and then some device with an object \<open>config\<close>
  has an unhashable (list or object) \<open>device_type\<close>.
\<close>

theorem config_error_contract:
  "validate_config v = Inr v
   \<or> (\<exists>code unknown received. validate_config v = Inl (ConfigError code unknown received))
   \<or> (validate_config v = Inl TypeError
      \<and> (\<exists>d \<in> set (the_list (dget_none (the_dict v) ''devices'')).
           \<not> hashable (dget_none (the_dict d) ''device_type'')))"
proof (cases "validate_config v")
  case (Inl e)
  then have "is_config_error e \<or> e = TypeError"
    using validate_config_raises [of v] by (auto simp: raises_only_def)
  with Inl validate_config_TypeError [of v] show ?thesis
    by (auto elim: is_config_error.elims)
next
  case (Inr r)
  then show ?thesis using validate_config_ok [OF Inr] by metis
qed

text \<open>The \<open>TypeError\<close> does occur.\<close>

lemma unhashable_device_type_escapes:
  "validate_config (PDict [(PStr ''devices'', PList [PDict [(PStr ''device_type'', PList []),
     (PStr ''config'', PDict [])]])]) = Inl TypeError"
  by code_simp


definition demo_pair :: "pyval list" where
  "demo_pair =
     [PDict demo_bme280,
      PDict [(PStr ''id'', PStr ''s2''), (PStr ''device_type'', PStr ''ltr390''),
             (PStr ''config'', PDict [(PStr ''i2c_bus'', PInt 0), (PStr ''i2c_sda_pin'', PInt 8)])]]"

lemma demo_pair_ok:
  "validate_config (PDict (demo_config_with demo_pair)) = Inr (PDict (demo_config_with demo_pair))"
  "dget_none (demo_config_with demo_pair) ''devices'' = PList ([] @ demo_pair ! 0 # [] @ demo_pair ! 1 # [])"
  by code_simp+


text \<open>
  one chip, one device. In an accepted configuration two I2C devices on one bus have
  the same pin and clock setting; they are never both LTR390, and two BME280 (or two
  SHT35) each name one address and the addresses differ.
\<close>

theorem sensors_distinct:
  assumes "validate_config (PDict config) = Inr r"
    and "dget_none config ''devices'' = PList (xs @ v # ys @ w # zs)"
    and "on_i2c v" and "on_i2c w"
    and "dget_none (device_config v) ''i2c_bus'' = dget_none (device_config w) ''i2c_bus''"
  shows "i2c_bus_identity (the_dict v) = i2c_bus_identity (the_dict w)
    \<and> \<not> (has_type ''ltr390'' v \<and> has_type ''ltr390'' w)
    \<and> (\<forall>t \<in> {''bme280'', ''sht35''}. has_type t v \<and> has_type t w \<longrightarrow>
         (\<exists>x y. dget_none (device_config v) ''i2c_address_candidates'' = PList [x]
             \<and> dget_none (device_config w) ''i2c_address_candidates'' = PList [y] \<and> x \<noteq> y))"
proof -
  let ?ds = "xs @ v # ys @ w # zs" and ?bus = "\<lambda>v. dget_none (device_config v) ''i2c_bus''"
  from assms(1) have "validate_devices (dget_none config ''devices'') = Inr ()"
    by (rule validate_config_ok) simp
  then have ok: "validate_devices (PList ?ds) = Inr ()" by (simp add: assms(2))
  obtain x where valid: "\<forall>v \<in> set ?ds. validate_device_definition v = Inr ()"
    and ltr: "fold_res check_ltr390 ?ds [] = Inr x"
    and cand: "\<forall>b \<in> {PInt 0, PInt 1}. check_candidates ''bme280'' BME280_I2C_ADDRESSES ?ds b = Inr ()
           \<and> check_candidates ''sht35'' SHT35_I2C_ADDRESSES ?ds b = Inr ()"
    using validate_devices_ok [OF ok] by metis
  have ident: "\<exists>s. i2c_bus_identity (the_dict u) = Some (?bus u, s)" if "on_i2c u" for u
    using that by (auto simp: i2c_bus_identity_def on_i2c_def device_config_def Let_def)
  from ident [OF assms(3)] ident [OF assms(4)] assms(5) obtain s s' where
    s: "i2c_bus_identity (the_dict v) = Some (?bus v, s)" "i2c_bus_identity (the_dict w) = Some (?bus v, s')"
    by auto
  have "s = s'" by (rule bus_settings_agree [OF ok _ _ s]) simp_all
  moreover have "\<not> (has_type ''ltr390'' v \<and> has_type ''ltr390'' w)"
    using check_ltr390_fold [OF ltr] assms(3-5) by auto
  moreover have "?bus v \<in> {PInt 0, PInt 1}"
  proof -
    have "validate_device_definition v = Inr ()" using valid by simp
    then show ?thesis by (cases rule: validated_device_kinds) (use assms(3) in auto)
  qed
  then have c: "check_candidates ''bme280'' BME280_I2C_ADDRESSES ?ds (?bus v) = Inr ()"
    "check_candidates ''sht35'' SHT35_I2C_ADDRESSES ?ds (?bus v) = Inr ()" using cand by blast+
  have len: "length BME280_I2C_ADDRESSES \<noteq> 1" "length SHT35_I2C_ADDRESSES \<noteq> 1" by code_simp+
  note candidate_addresses_distinct [OF c(1) len(1) assms(3) _ refl assms(4) _ assms(5) [symmetric]]
    candidate_addresses_distinct [OF c(2) len(2) assms(3) _ refl assms(4) _ assms(5) [symmetric]]
  ultimately show ?thesis using s by auto
qed

theorem sensors_distinct_witness:
  "i2c_bus_identity (the_dict (demo_pair ! 0)) = i2c_bus_identity (the_dict (demo_pair ! 1))"
proof -
  have "on_i2c (demo_pair ! 0)" "on_i2c (demo_pair ! 1)"
    "dget_none (device_config (demo_pair ! 0)) ''i2c_bus'' = dget_none (device_config (demo_pair ! 1)) ''i2c_bus''"
    by code_simp+
  from sensors_distinct [OF demo_pair_ok this] show ?thesis by blast
qed



text \<open>
  the topics of an accepted configuration can be published and subscribed: each is
  1 to 122 ASCII bytes without NUL or wildcard, so that the SUBSCRIBE Remaining Length
  (topic + 5) fits one byte, and no two of the eight are equal.
\<close>

theorem config_topics_usable:
  assumes "validate_config (PDict config) = Inr r"
  shows "(\<forall>k \<in> set MQTT_TOPIC_KEYS. \<exists>t. dget_none config k = PStr t \<and> t \<noteq> []
            \<and> length t + 5 \<le> 127 \<and> (\<forall>c \<in> set t. \<not> bad_topic_char c))
    \<and> distinct (map (dget_none config) MQTT_TOPIC_KEYS)"
proof -
  note str = validate_config_parts(1) [OF assms]
  have topic: "\<exists>t. dget_none config k = PStr t \<and> t \<noteq> [] \<and> length t + 5 \<le> 127
      \<and> (\<forall>c \<in> set t. \<not> bad_topic_char c)" if "k \<in> set MQTT_TOPIC_KEYS" for k
  proof -
    have t: "require_mqtt_topic config k = Inr ()"
      using str that by (simp add: validate_strings_def andthen_eq_Inr)
    then have "nonempty_str (dget_none config k)"
      by (simp add: require_mqtt_topic_def Let_def andthen_eq_Inr)
    then obtain t where t': "dget_none config k = PStr t" "t \<noteq> []"
      unfolding nonempty_str_iff by blast
    with t have s: "py_len t \<le> 122" "\<forall>c \<in> set t. \<not> bad_topic_char c"
      by (simp_all add: require_mqtt_topic_def Let_def andthen_eq_Inr
          MAX_MQTT_TOPIC_BYTES_def list_ex_iff)
    have "filter (\<lambda>c. \<not> is_continuation c) t = t"
      using s(2) topic_char_ascii by (intro filter_True) blast
    with s t' show ?thesis by (simp add: py_len_def)
  qed
  have fold: "distinct (map (\<lambda>k. the_str (dget_none config k)) ks)
     \<and> set (map (\<lambda>k. the_str (dget_none config k)) ks) \<inter> set seen = {}"
    if "fold_res (claim_topic config) ks seen = Inr final" for ks seen final
    using that
  proof (induction ks arbitrary: seen)
    case (Cons k ks)
    then have "the_str (dget_none config k) \<notin> set seen"
      and rec: "fold_res (claim_topic config) ks (the_str (dget_none config k) # seen) = Inr final"
      by (auto simp: andthen_eq_Inr claim_topic_ok)
    with Cons.IH [OF rec] show ?case by auto
  qed simp
  have "distinct (map (\<lambda>k. the_str (dget_none config k)) MQTT_TOPIC_KEYS)"
    using str fold [of MQTT_TOPIC_KEYS "[]"]
    by (auto simp: validate_strings_def require_distinct_mqtt_topics_def andthen_eq_Inr)
  then have "distinct (map the_str (map (dget_none config) MQTT_TOPIC_KEYS))"
    unfolding map_map comp_def .
  then have "distinct (map (dget_none config) MQTT_TOPIC_KEYS)"
    using distinct_map by blast
  with topic show ?thesis by blast
qed

theorem config_topics_usable_witness:
  "distinct (map (dget_none demo_config) MQTT_TOPIC_KEYS)"
  using config_topics_usable [OF demo_config_ok] by blast

end
