(* ===== verification/ConfigStore.thy ===== *)
theory ConfigStore
  imports Config
begin

section \<open>Configuration persistence and boot recovery\<close>

text \<open>
  \<open>ConfigManager\<close> of \<open>config_manager.py\<close> over a file system of four files. Each file
  operation is one step; the environment decides its fate: it succeeds, raises
  \<open>OSError\<close> or \<open>MemoryError\<close> without effect, or the power is cut before it. A write of
  the candidate is not atomic (the file is truncated first) and may also land garbled
  without an error. Renames are atomic and steps are durable in order (LittleFS), so
  \<open>os.sync\<close> only can fail. A file holds the document \<open>json.load\<close> would return, or bytes
  that do not parse. \<open>Cut\<close> is not an exception: no handler sees it.
\<close>

subsection \<open>Files, fates and programs\<close>

datatype cfile = Config_json | Old | Cleanup | Tmp

text \<open>The four files are all there is, so a statement about every file is a finite check.\<close>

instantiation cfile :: enum
begin

definition enum_cfile :: "cfile list" where "enum_cfile = [Config_json, Old, Cleanup, Tmp]"
definition enum_all_cfile :: "(cfile \<Rightarrow> bool) \<Rightarrow> bool" where "enum_all_cfile P \<longleftrightarrow> P Config_json \<and> P Old \<and> P Cleanup \<and> P Tmp"
definition enum_ex_cfile :: "(cfile \<Rightarrow> bool) \<Rightarrow> bool" where "enum_ex_cfile P \<longleftrightarrow> P Config_json \<or> P Old \<or> P Cleanup \<or> P Tmp"

instance proof
  show univ: "(UNIV :: cfile set) = set enum_class.enum"
    using cfile.exhaust by (auto simp: enum_cfile_def)
  show "distinct (enum_class.enum :: cfile list)" by (simp add: enum_cfile_def)
  show "enum_class.enum_all P \<longleftrightarrow> Ball (UNIV :: cfile set) P" for P
    by (simp add: enum_all_cfile_def) (metis cfile.exhaust)
  show "enum_class.enum_ex P \<longleftrightarrow> Bex (UNIV :: cfile set) P" for P
    by (simp add: enum_ex_cfile_def) (metis cfile.exhaust)
qed

end

datatype content = Doc pyval | Corrupt

type_synonym files = "cfile \<Rightarrow> content option"

datatype fate = Ok | Os_error | Mem_error | Garbled | Power_cut

record store =
  files :: files
  op_count :: nat
  reboot_flag :: bool

type_synonym 'a io = "(nat \<Rightarrow> fate, store, 'a) prog"

text \<open>One step; \<open>act\<close> is told whether the write lands garbled and may itself raise.\<close>

definition fs_step :: "(bool \<Rightarrow> files \<Rightarrow> ('a \<times> files) res) \<Rightarrow> 'a io" where
  "fs_step act fates s =
     (let t = s\<lparr>op_count := Suc (op_count s)\<rparr>;
          run = (\<lambda>garbled. case act garbled (files s) of
                            Inl e \<Rightarrow> (Raise e, t)
                          | Inr (x, fs) \<Rightarrow> (Return x, t\<lparr>files := fs\<rparr>))
      in case fates (op_count s) of
           Ok \<Rightarrow> run False
         | Garbled \<Rightarrow> run True
         | Os_error \<Rightarrow> (Raise OSError, t)
         | Mem_error \<Rightarrow> (Raise MemoryError, t)
         | Power_cut \<Rightarrow> (Cut, s))"

definition os_rename :: "cfile \<Rightarrow> cfile \<Rightarrow> unit io" where
  "os_rename a b =
     fs_step (\<lambda>g fs. case fs a of None \<Rightarrow> Inl OSError
                     | Some c \<Rightarrow> Inr ((), fs(a := None, b := Some c)))"

definition os_remove :: "cfile \<Rightarrow> unit io" where
  "os_remove a =
     fs_step (\<lambda>g fs. case fs a of None \<Rightarrow> Inl OSError | Some c \<Rightarrow> Inr ((), fs(a := None)))"

definition os_sync :: "unit io" where
  "os_sync = fs_step (\<lambda>g fs. Inr ((), fs))"

definition path_exists :: "cfile \<Rightarrow> bool io" where
  "path_exists a = fs_step (\<lambda>g fs. Inr (fs a \<noteq> None, fs))"

definition remove_if_exists :: "cfile \<Rightarrow> unit io" where
  "remove_if_exists a =
     io_bind (path_exists a) (\<lambda>e. if e then os_remove a else io_return ())"

text \<open>What \<open>open\<close> and \<open>json.load\<close> give for a file.\<close>

fun file_value :: "content option \<Rightarrow> pyval res" where
  "file_value None = Inl OSError"
| "file_value (Some Corrupt) = Inl ValueError"
| "file_value (Some (Doc v)) = Inr v"

text \<open>\<open>load_config(path)\<close>: a read fault is an \<open>OSError\<close> that \<open>_read_json\<close> turns into \<open>ConfigError\<close>.\<close>

definition load_path :: "cfile \<Rightarrow> pyval io" where
  "load_path a =
     io_bind (io_try (fs_step (\<lambda>g fs. Inr (file_value (fs a), fs)))
                (\<lambda>e. if e = OSError then io_return (Inl OSError) else io_raise e))
       (\<lambda>content. io_res (load_config content))"

subsection \<open>Boot recovery\<close>

definition try_load :: "cfile \<Rightarrow> cfile list \<Rightarrow> (pyval option \<times> cfile list) io" where
  "try_load path invalid =
     io_try (io_bind (load_path path) (\<lambda>v. io_return (Some v, invalid)))
       (\<lambda>e. if is_config_error e then io_return (None, invalid @ [path]) else io_raise e)"

text \<open>
  The branches of \<open>recover\<close>. Each gives the configuration, or the paths found invalid
  so far when it does not apply.
\<close>

type_synonym branch = "(pyval option \<times> cfile list) io"

definition or_else :: "branch \<Rightarrow> (cfile list \<Rightarrow> branch) \<Rightarrow> branch" where
  "or_else b next_branch =
     io_bind b (\<lambda>(config, invalid). case config of
                  Some v \<Rightarrow> io_return (Some v, invalid)
                | None \<Rightarrow> next_branch invalid)"

definition if_exists :: "cfile \<Rightarrow> cfile list \<Rightarrow> branch \<Rightarrow> branch" where
  "if_exists path invalid b =
     io_bind (path_exists path) (\<lambda>e. if e then b else io_return (None, invalid))"

text \<open>Load \<open>path\<close>; when valid, settle the files and keep it.\<close>

definition load_and_settle :: "cfile \<Rightarrow> unit io \<Rightarrow> cfile list \<Rightarrow> branch" where
  "load_and_settle path settle invalid =
     io_bind (try_load path invalid) (\<lambda>(config, seen).
       case config of
         Some v \<Rightarrow> io_bind settle (\<lambda>_. io_bind os_sync (\<lambda>_. io_return (Some v, seen)))
       | None \<Rightarrow> io_return (None, seen))"

definition remove_all :: "cfile list \<Rightarrow> unit io" where
  "remove_all paths = fold (\<lambda>p m. io_bind m (\<lambda>_. remove_if_exists p)) paths (io_return ())"

definition settle_rename :: "cfile \<Rightarrow> cfile list \<Rightarrow> unit io" where
  "settle_rename path rest =
     io_bind (remove_if_exists Config_json) (\<lambda>_.
     io_bind (os_rename path Config_json) (\<lambda>_. remove_all rest))"

definition recover_cleanup :: "cfile list \<Rightarrow> branch" where
  "recover_cleanup invalid =
     if_exists Cleanup invalid
       (or_else (load_and_settle Config_json (remove_all [Cleanup, Old, Tmp]) invalid)
          (load_and_settle Cleanup (settle_rename Cleanup [Old, Tmp])))"

definition recover_old :: "cfile list \<Rightarrow> branch" where
  "recover_old invalid =
     if_exists Old invalid (load_and_settle Old (settle_rename Old [Tmp]) invalid)"

definition recover_config :: "cfile list \<Rightarrow> branch" where
  "recover_config invalid =
     if_exists Config_json invalid (load_and_settle Config_json (remove_all [Old, Tmp]) invalid)"

definition recover_tmp :: "cfile list \<Rightarrow> branch" where
  "recover_tmp invalid =
     if_exists Tmp invalid
       (load_and_settle Tmp
          (io_bind (os_rename Tmp Config_json) (\<lambda>_. remove_all [Old, Cleanup])) invalid)"

definition recover :: "pyval io" where
  "recover =
     io_bind (or_else (or_else (or_else (recover_cleanup []) recover_old) recover_config) recover_tmp)
       (\<lambda>(config, invalid). case config of
          Some v \<Rightarrow> io_return v
        | None \<Rightarrow> io_raise (ConfigError Code_unreadable_file [] None))"

definition read_persisted :: "pyval io" where
  "read_persisted = load_path Config_json"

subsection \<open>The change summary\<close>

definition device_by_id :: "pyval list \<Rightarrow> string \<Rightarrow> pyval option" where
  "device_by_id devices i =
     find (\<lambda>d. dget_none (the_dict d) ''id'' = PStr i) (rev devices)"

definition device_ids :: "pyval list \<Rightarrow> string list" where
  "device_ids devices = map (\<lambda>d. the_str (dget_none (the_dict d) ''id'')) devices"

definition device_change :: "string \<Rightarrow> string \<Rightarrow> pyval \<Rightarrow> pyval" where
  "device_change change_type i device =
     PDict [(PStr ''setting'', PStr ''devices''), (PStr ''change_type'', PStr change_type),
            (PStr ''device_id'', PStr i),
            (PStr ''device_type'', dget_none (the_dict device) ''device_type'')]"

definition change_of_id :: "pyval list \<Rightarrow> pyval list \<Rightarrow> string \<Rightarrow> pyval list" where
  "change_of_id old_devices new_devices i =
     (case (device_by_id old_devices i, device_by_id new_devices i) of
        (None, None) \<Rightarrow> []
      | (None, Some n) \<Rightarrow> [device_change ''ADDED'' i n]
      | (Some d, None) \<Rightarrow> [device_change ''REMOVED'' i d]
      | (Some d, Some n) \<Rightarrow> if \<not> py_eq d n then [device_change ''MODIFIED'' i n] else [])"

definition device_changes :: "pyval list \<Rightarrow> pyval list \<Rightarrow> pyval list" where
  "device_changes old_devices new_devices =
     (let ids = sort (remdups (device_ids old_devices @ device_ids new_devices));
          changes = concat (map (change_of_id old_devices new_devices) ids)
      in if changes = [] \<and> \<not> py_eq_list old_devices new_devices
         then [PDict [(PStr ''setting'', PStr ''devices''), (PStr ''change_type'', PStr ''MODIFIED'')]]
         else changes)"

definition setting_change :: "pydict \<Rightarrow> pydict \<Rightarrow> string \<Rightarrow> pyval list" where
  "setting_change persisted candidate key =
     (if key = ''config_schema_version'' then []
      else if key = ''devices''
      then device_changes (the_list (dget_none persisted key)) (the_list (dget_none candidate key))
      else if \<not> py_eq (dget_none persisted key) (dget_none candidate key)
      then [PDict [(PStr ''setting'', PStr key), (PStr ''original_value'', dget_none persisted key),
                   (PStr ''new_value'', dget_none candidate key)]]
      else [])"

definition changes_summary :: "pydict \<Rightarrow> pydict \<Rightarrow> pyval list" where
  "changes_summary persisted candidate =
     concat (map (setting_change persisted candidate) (sort (str_keys persisted)))"

subsection \<open>Writing a candidate\<close>

datatype classification = UNCHANGED | REBOOT_REQUIRED

record write_result =
  wr_classification :: classification
  wr_changes :: "pyval list"
  wr_reboot_required :: bool

definition get_reboot_required :: "bool io" where
  "get_reboot_required fates s = (Return (reboot_flag s), s)"

definition set_reboot_required :: "unit io" where
  "set_reboot_required fates s = (Return (), s\<lparr>reboot_flag := True\<rparr>)"

definition write_candidate_tmp :: "pyval \<Rightarrow> unit io" where
  "write_candidate_tmp candidate =
     io_bind (fs_step (\<lambda>g fs. Inr ((), fs(Tmp := Some Corrupt)))) (\<lambda>_.
     fs_step (\<lambda>g fs. Inr ((), fs(Tmp := Some (if g then Corrupt else Doc candidate)))))"

definition restore_committed :: "unit io" where
  "restore_committed =
     io_bind (io_bind (path_exists Old) (\<lambda>old. if old then io_return (Some Old)
                 else io_bind (path_exists Cleanup) (\<lambda>cl. io_return (if cl then Some Cleanup else None))))
       (\<lambda>backup_path.
     io_bind (case backup_path of
                None \<Rightarrow> io_return ()
              | Some b \<Rightarrow> io_bind (remove_if_exists Config_json) (\<lambda>_. os_rename b Config_json)) (\<lambda>_.
     io_bind (remove_if_exists Tmp) (\<lambda>_. os_sync)))"

definition try_restore :: "unit io" where
  "try_restore = io_try restore_committed (\<lambda>e. if e = OSError then io_return () else io_raise e)"

definition promote :: "pyval \<Rightarrow> unit io" where
  "promote candidate =
     io_bind (write_candidate_tmp candidate) (\<lambda>_.
     io_bind (load_path Tmp) (\<lambda>_.
     io_bind (os_rename Config_json Old) (\<lambda>_.
     io_bind (os_rename Tmp Config_json) (\<lambda>_.
     io_bind os_sync (\<lambda>_.
     io_bind (os_rename Old Cleanup) (\<lambda>_. os_sync))))))"

definition promote_or_restore :: "pyval \<Rightarrow> unit io" where
  "promote_or_restore candidate =
     io_try (promote candidate)
       (\<lambda>e. if e = OSError
            then io_bind try_restore (\<lambda>_. io_raise (ConfigError Code_storage_error [] None))
            else if is_config_error e then io_bind try_restore (\<lambda>_. io_raise e)
            else io_raise e)"

definition release_cleanup :: "unit io" where
  "release_cleanup =
     io_try (io_bind (remove_if_exists Cleanup) (\<lambda>_. os_sync))
       (\<lambda>e. if e = OSError then io_return () else io_raise e)"

definition begin_write :: "pyval \<Rightarrow> write_result io" where
  "begin_write candidate =
     io_bind (io_res (validate_config candidate)) (\<lambda>_.
     io_bind (load_path Config_json) (\<lambda>persisted.
     (let changes = changes_summary (the_dict persisted) (the_dict candidate) in
      if py_eq candidate persisted
      then io_bind get_reboot_required (\<lambda>r.
           io_return \<lparr>wr_classification = UNCHANGED, wr_changes = changes, wr_reboot_required = r\<rparr>)
      else io_bind (promote_or_restore candidate) (\<lambda>_.
           io_bind set_reboot_required (\<lambda>_.
           io_bind release_cleanup (\<lambda>_.
           io_return \<lparr>wr_classification = REBOOT_REQUIRED, wr_changes = changes,
                      wr_reboot_required = True\<rparr>))))))"


subsection \<open>A logic for interrupted programs\<close>

text \<open>
  \<open>triple F S A m Q E\<close>: run from files \<open>A\<close> in any environment whose fates satisfy \<open>F\<close>,
  \<open>m\<close> ends in \<open>Q\<close> when it returns, in \<open>E\<close> when it raises, in \<open>S\<close> when the power is cut.
\<close>

fun ends ::
  "(files \<Rightarrow> bool) \<Rightarrow> ('a \<Rightarrow> files \<Rightarrow> bool) \<Rightarrow> (exc \<Rightarrow> files \<Rightarrow> bool) \<Rightarrow> 'a outcome \<times> store \<Rightarrow> bool" where
  "ends S Q E (Return x, t) = Q x (files t)"
| "ends S Q E (Raise e, t) = E e (files t)"
| "ends S Q E (Cut, t) = S (files t)"

definition triple ::
  "(fate \<Rightarrow> bool) \<Rightarrow> (files \<Rightarrow> bool) \<Rightarrow> files \<Rightarrow> 'a io \<Rightarrow> ('a \<Rightarrow> files \<Rightarrow> bool)
   \<Rightarrow> (exc \<Rightarrow> files \<Rightarrow> bool) \<Rightarrow> bool" where
  "triple F S A m Q E \<longleftrightarrow>
     (\<forall>fates s. (\<forall>n. F (fates n)) \<longrightarrow> files s = A \<longrightarrow> ends S Q E (m fates s))"

named_theorems triple_rules \<open>rules for \<open>triple\<close>\<close>

lemma tripleD:
  "triple F S A m Q E \<Longrightarrow> \<forall>n. F (fates n) \<Longrightarrow> files s = A \<Longrightarrow> ends S Q E (m fates s)"
  by (simp add: triple_def)

lemma triple_return [triple_rules]: "Q x A \<Longrightarrow> triple F S A (io_return x) Q E"
  by (simp add: triple_def io_return_def)

lemma triple_raise [triple_rules]: "E e A \<Longrightarrow> triple F S A (io_raise e) Q E"
  by (simp add: triple_def io_raise_def)

lemma triple_res [triple_rules]:
  "(\<And>x. r = Inr x \<Longrightarrow> Q x A) \<Longrightarrow> (\<And>e. r = Inl e \<Longrightarrow> E e A) \<Longrightarrow> triple F S A (io_res r) Q E"
  by (cases r) (auto simp: io_res_def intro: triple_return triple_raise)

lemma triple_bind:
  assumes "triple F S A m R E" and "\<And>x B. R x B \<Longrightarrow> triple F S B (f x) Q E"
  shows "triple F S A (io_bind m f) Q E"
  unfolding triple_def
proof (intro allI impI)
  fix fates :: "nat \<Rightarrow> fate" and s :: store
  assume *: "\<forall>n. F (fates n)" "files s = A"
  obtain r t where rt: "m fates s = (r, t)" by fastforce
  note m = tripleD [OF assms(1) *, unfolded rt]
  show "ends S Q E (io_bind m f fates s)"
  proof (cases r)
    case (Return x)
    with m have "triple F S (files t) (f x) Q E" using assms(2) by simp
    from tripleD [OF this *(1) refl] Return rt show ?thesis by (simp add: io_bind_def)
  qed (use rt m in \<open>simp_all add: io_bind_def\<close>)
qed

lemma triple_try:
  assumes "triple F S A m Q E'" and "\<And>e B. E' e B \<Longrightarrow> triple F S B (h e) Q E"
  shows "triple F S A (io_try m h) Q E"
  unfolding triple_def
proof (intro allI impI)
  fix fates :: "nat \<Rightarrow> fate" and s :: store
  assume *: "\<forall>n. F (fates n)" "files s = A"
  obtain r t where rt: "m fates s = (r, t)" by fastforce
  note m = tripleD [OF assms(1) *, unfolded rt]
  show "ends S Q E (io_try m h fates s)"
  proof (cases r)
    case (Raise e)
    with m have "triple F S (files t) (h e) Q E" using assms(2) by simp
    from tripleD [OF this *(1) refl] Raise rt show ?thesis by (simp add: io_try_def)
  qed (use rt m in \<open>simp_all add: io_try_def\<close>)
qed

definition step_ends ::
  "('a \<Rightarrow> files \<Rightarrow> bool) \<Rightarrow> (exc \<Rightarrow> files \<Rightarrow> bool) \<Rightarrow> files \<Rightarrow> ('a \<times> files) res \<Rightarrow> bool" where
  "step_ends Q E A r = (case r of Inl e \<Rightarrow> E e A | Inr (x, B) \<Rightarrow> Q x B)"

lemma triple_step:
  assumes "F Ok \<Longrightarrow> step_ends Q E A (act False A)" and "F Garbled \<Longrightarrow> step_ends Q E A (act True A)"
    and "F Os_error \<Longrightarrow> E OSError A" and "F Mem_error \<Longrightarrow> E MemoryError A" and "F Power_cut \<Longrightarrow> S A"
  shows "triple F S A (fs_step act) Q E"
  unfolding triple_def
proof (intro allI impI)
  fix fates :: "nat \<Rightarrow> fate" and s :: store
  assume *: "\<forall>n. F (fates n)" "files s = A"
  have run: "ends S Q E (case act g (files s) of
                 Inl e \<Rightarrow> (Raise e, s\<lparr>op_count := n\<rparr>)
               | Inr (x, fs) \<Rightarrow> (Return x, s\<lparr>op_count := n, files := fs\<rparr>))"
    if "step_ends Q E A (act g A)" for g n
    using that *(2) by (auto simp: step_ends_def split: sum.splits prod.splits)
  have "F (fates (op_count s))" using *(1) by blast
  with assms run *(2) show "ends S Q E (fs_step act fates s)"
    by (cases "fates (op_count s)") (simp_all add: fs_step_def Let_def)
qed

lemma triple_conseq:
  assumes "triple F S A m Q E" and "\<And>x B. Q x B \<Longrightarrow> Q' x B" and "\<And>e B. E e B \<Longrightarrow> E' e B"
    and "\<And>B. S B \<Longrightarrow> S' B"
  shows "triple F S' A m Q' E'"
proof -
  have "ends S Q E rt \<Longrightarrow> ends S' Q' E' rt" for rt
    using assms(2-4) by (cases "(S, Q, E, rt)" rule: ends.cases) auto
  with assms(1) show ?thesis by (simp add: triple_def)
qed

text \<open>The single operations; \<open>E\<close> must allow for the faults \<open>F\<close> does.\<close>

definition faults :: "(fate \<Rightarrow> bool) \<Rightarrow> (files \<Rightarrow> bool) \<Rightarrow> (exc \<Rightarrow> files \<Rightarrow> bool) \<Rightarrow> files \<Rightarrow> bool" where
  "faults F S E A \<longleftrightarrow> (F Os_error \<longrightarrow> E OSError A) \<and> (F Mem_error \<longrightarrow> E MemoryError A)
                      \<and> (F Power_cut \<longrightarrow> S A)"

lemma triple_sync [triple_rules]: "faults F S E A \<Longrightarrow> Q () A \<Longrightarrow> triple F S A os_sync Q E"
  unfolding os_sync_def by (rule triple_step) (auto simp: faults_def step_ends_def)

lemma triple_exists [triple_rules]:
  "faults F S E A \<Longrightarrow> Q (A a \<noteq> None) A \<Longrightarrow> triple F S A (path_exists a) Q E"
  unfolding path_exists_def by (rule triple_step) (auto simp: faults_def step_ends_def)

lemma triple_remove [triple_rules]:
  "faults F S E A \<Longrightarrow> A a \<noteq> None \<Longrightarrow> Q () (A(a := None)) \<Longrightarrow> triple F S A (os_remove a) Q E"
  unfolding os_remove_def by (rule triple_step) (auto simp: faults_def step_ends_def)

lemma triple_rename:
  "faults F S E A \<Longrightarrow> A a = Some c \<Longrightarrow> Q () (A(a := None, b := Some c))
   \<Longrightarrow> triple F S A (os_rename a b) Q E"
  unfolding os_rename_def by (rule triple_step) (auto simp: faults_def step_ends_def)

lemma triple_remove_if_exists [triple_rules]:
  assumes "faults F S E A" and "Q () (A(a := None))"
  shows "triple F S A (remove_if_exists a) Q E"
proof (cases "A a = None")
  case True
  then have "A(a := None) = A" by auto
  with True assms show ?thesis
    unfolding remove_if_exists_def
    by (intro triple_bind [where R = "\<lambda>e B. \<not> e \<and> B = A"] triple_rules)
      (auto intro: triple_return)
next
  case False
  with assms show ?thesis
    unfolding remove_if_exists_def
    by (intro triple_bind [where R = "\<lambda>e B. e \<and> B = A"] triple_rules)
      (auto intro: triple_remove)
qed

text \<open>A load leaves the files alone; a read fault is reported as an unreadable file.\<close>

lemma triple_load [triple_rules]:
  assumes "\<And>e. F Os_error \<Longrightarrow> e = ConfigError Code_unreadable_file [] None \<Longrightarrow> E e A"
    and "F Mem_error \<Longrightarrow> E MemoryError A" and "F Power_cut \<Longrightarrow> S A"
    and "\<And>v. load_config (file_value (A a)) = Inr v \<Longrightarrow> Q v A"
    and "\<And>e. load_config (file_value (A a)) = Inl e \<Longrightarrow> E e A"
  shows "triple F S A (load_path a) Q E"
  unfolding load_path_def
proof (rule triple_bind [where R = "\<lambda>content B. B = A \<and> (content = file_value (A a)
      \<or> (F Os_error \<and> content = Inl OSError))"])
  show "triple F S A (io_try (fs_step (\<lambda>g fs. Inr (file_value (fs a), fs)))
       (\<lambda>e. if e = OSError then io_return (Inl OSError) else io_raise e))
     (\<lambda>content B. B = A \<and> (content = file_value (A a) \<or> (F Os_error \<and> content = Inl OSError))) E"
    by (rule triple_try [where E' = "\<lambda>e B. B = A \<and> (e = OSError \<and> F Os_error \<or> e = MemoryError \<and> F Mem_error)"],
        rule triple_step) (use assms(2,3) in \<open>auto simp: step_ends_def intro!: triple_rules\<close>)
next
  fix content B
  assume *: "B = A \<and> (content = file_value (A a) \<or> (F Os_error \<and> content = Inl OSError))"
  have "load_config (Inl OSError) = Inl (ConfigError Code_unreadable_file [] None)"
    by (simp add: load_config_def read_json_def)
  with * assms(1,4,5) show "triple F S B (io_res (load_config content)) Q E"
    by (auto intro!: triple_res)
qed


subsection \<open>What a boot settles on\<close>

text \<open>The configuration in a file, when it loads and validates.\<close>

definition valid_at :: "files \<Rightarrow> cfile \<Rightarrow> pyval option" where
  "valid_at A p = (case load_config (file_value (A p)) of Inl e \<Rightarrow> None | Inr v \<Rightarrow> Some v)"

text \<open>The priority order of \<open>recover\<close>.\<close>

definition recover_choice :: "files \<Rightarrow> pyval option" where
  "recover_choice A =
     (if A Cleanup \<noteq> None \<and> valid_at A Config_json \<noteq> None then valid_at A Config_json
      else if valid_at A Cleanup \<noteq> None then valid_at A Cleanup
      else if valid_at A Old \<noteq> None then valid_at A Old
      else if valid_at A Config_json \<noteq> None then valid_at A Config_json
      else valid_at A Tmp)"

definition only :: "pyval \<Rightarrow> files" where
  "only v = (\<lambda>p. None)(Config_json := Some (Doc v))"

definition clear :: "cfile list \<Rightarrow> files \<Rightarrow> files" where
  "clear ps A = (\<lambda>p. if p \<in> set ps then None else A p)"

text \<open>No file raises anything but \<open>ConfigError\<close>, and a journal is not next to a released copy.\<close>

definition readable :: "files \<Rightarrow> bool" where
  "readable A \<longleftrightarrow> (\<forall>p e. load_config (file_value (A p)) = Inl e \<longrightarrow> is_config_error e)"

definition settles_on :: "pyval \<Rightarrow> files \<Rightarrow> bool" where
  "settles_on v A \<longleftrightarrow> readable A \<and> (A Old = None \<or> A Cleanup = None) \<and> recover_choice A = Some v"

lemma load_config_same: "load_config (Inr v) = Inr w \<Longrightarrow> w = v"
  using validate_config_ok by (auto simp: load_config_def read_json_def res_simps split: if_splits)

lemma load_missing: "load_config (Inl OSError) = Inl (ConfigError Code_unreadable_file [] None)"
  "load_config (Inl ValueError) = Inl (ConfigError Code_unreadable_file [] None)"
  by (simp_all add: load_config_def read_json_def)

lemma valid_at_Some: "valid_at A p = Some v \<longleftrightarrow> A p = Some (Doc v) \<and> load_config (Inr v) = Inr v"
proof
  assume "valid_at A p = Some v"
  then have l: "load_config (file_value (A p)) = Inr v" by (simp add: valid_at_def split: sum.splits)
  show "A p = Some (Doc v) \<and> load_config (Inr v) = Inr v"
  proof (cases "A p" rule: file_value.cases)
    case (3 w)
    with l load_config_same [of w v] show ?thesis by simp
  qed (use l in \<open>simp_all add: load_missing\<close>)
qed (simp add: valid_at_def)

lemma valid_at_None [simp]: "A p = None \<Longrightarrow> valid_at A p = None"
  by (simp add: valid_at_def load_missing)

lemma valid_at_eq: "A p = B p \<Longrightarrow> valid_at A p = valid_at B p"
  by (simp add: valid_at_def)

lemma valid_at_upd [simp]:
  "valid_at (A(q := c)) p = (if p = q then valid_at (\<lambda>_. c) q else valid_at A p)"
  by (auto simp: valid_at_def)

lemma readable_clear: "readable A \<Longrightarrow> readable (clear ps A)"
  by (auto simp: readable_def clear_def load_missing)

lemma readable_upd: "readable A \<Longrightarrow> readable (A(p := None))"
  by (auto simp: readable_def load_missing)

lemma readable_move: "readable A \<Longrightarrow> readable (A(a := None, b := A a))"
  by (auto simp: readable_def load_missing)

lemma clear_Nil [simp]: "clear [] A = A"
  by (auto simp: clear_def)

lemma clear_snoc: "clear (ps @ [p]) A = (clear ps A)(p := None)"
  by (auto simp: clear_def)

lemma triple_remove_all:
  assumes "\<And>n. n < length ps \<Longrightarrow> faults F S E (clear (take n ps) A)"
    and "Q () (clear ps A)"
  shows "triple F S A (remove_all ps) Q E"
  using assms
proof (induction ps arbitrary: Q rule: rev_induct)
  case Nil
  then show ?case by (simp add: remove_all_def triple_return)
next
  case (snoc p ps)
  have eq: "remove_all (ps @ [p]) = io_bind (remove_all ps) (\<lambda>_. remove_if_exists p)"
    by (simp add: remove_all_def)
  have ih: "triple F S A (remove_all ps) (\<lambda>_ B. B = clear ps A) E"
  proof (rule snoc.IH)
    fix n assume "n < length ps"
    with snoc.prems(1) [of n] show "faults F S E (clear (take n ps) A)" by simp
  qed simp
  have last: "faults F S E (clear ps A)" using snoc.prems(1) [of "length ps"] by simp
  have after: "Q () ((clear ps A)(p := None))" using snoc.prems(2) by (simp only: clear_snoc)
  show ?case
    unfolding eq
  proof (rule triple_bind [OF ih])
    fix x :: unit and B assume "B = clear ps A"
    then show "triple F S B (remove_if_exists p) Q E"
      using triple_remove_if_exists [of F S E "clear ps A" Q p, OF last after] by (simp only:)
  qed
qed

abbreviation powered :: "fate \<Rightarrow> bool" where
  "powered f \<equiv> f = Ok \<or> f = Power_cut"

lemma faults_powered [simp]: "faults powered S E A \<longleftrightarrow> S A"
  by (auto simp: faults_def)

lemma triple_try_load:
  assumes "S A" and "readable A"
  shows "triple powered S A (try_load p seen) (\<lambda>r B. fst r = valid_at A p \<and> B = A) E"
  unfolding try_load_def
proof (rule triple_try [where E' = "\<lambda>e B. B = A \<and> is_config_error e \<and> valid_at A p = None"])
  show "triple powered S A (io_bind (load_path p) (\<lambda>v. io_return (Some v, seen)))
     (\<lambda>r B. fst r = valid_at A p \<and> B = A) (\<lambda>e B. B = A \<and> is_config_error e \<and> valid_at A p = None)"
    by (rule triple_bind [where R = "\<lambda>v B. B = A \<and> valid_at A p = Some v"], rule triple_load)
      (use assms in \<open>auto simp: valid_at_def readable_def intro!: triple_return\<close>)
qed (auto intro!: triple_return)

text \<open>A branch that applies settles on \<open>v\<close>; one that does not leaves the files alone.\<close>

definition branch_ok :: "pyval \<Rightarrow> files \<Rightarrow> branch \<Rightarrow> bool \<Rightarrow> bool" where
  "branch_ok v A b applies \<longleftrightarrow>
     triple powered (settles_on v) A b
       (\<lambda>r B. if applies then fst r = Some v \<and> B = only v else fst r = None \<and> B = A) (\<lambda>e B. False)"

lemma branch_load_and_settle:
  assumes "settles_on v A"
    and "valid_at A p \<noteq> None \<Longrightarrow> valid_at A p = Some v \<and>
           triple powered (settles_on v) A settle (\<lambda>_ B. B = only v) (\<lambda>e B. False)"
    and "settles_on v (only v)"
  shows "branch_ok v A (load_and_settle p settle seen) (valid_at A p \<noteq> None)"
  unfolding branch_ok_def load_and_settle_def
proof (rule triple_bind [OF triple_try_load [of "settles_on v" A]])
  show "settles_on v A" "readable A" using assms(1) by (simp_all add: settles_on_def)
  fix r B assume r: "fst r = valid_at A p \<and> B = A"
  show "triple powered (settles_on v) B
      (case r of (config, seen) \<Rightarrow>
         case config of Some v \<Rightarrow> io_bind settle (\<lambda>_. io_bind os_sync (\<lambda>_. io_return (Some v, seen)))
         | None \<Rightarrow> io_return (None, seen))
      (\<lambda>r B. if valid_at A p \<noteq> None then fst r = Some v \<and> B = only v else fst r = None \<and> B = A)
      (\<lambda>e B. False)"
  proof (cases "valid_at A p")
    case None
    with r show ?thesis by (cases r) (auto intro: triple_return)
  next
    case (Some w)
    with assms(2) r have w: "w = v" "fst r = Some v" "B = A"
      "triple powered (settles_on v) A settle (\<lambda>_ B. B = only v) (\<lambda>e B. False)" by auto
    have "triple powered (settles_on v) B (io_bind settle (\<lambda>_. io_bind os_sync (\<lambda>_. io_return (Some v, snd r))))
        (\<lambda>r B. fst r = Some v \<and> B = only v) (\<lambda>e B. False)"
      using w assms(3)
      by (auto intro!: triple_bind [OF w(4)] triple_bind [where R = "\<lambda>_ B. B = only v"]
          triple_sync triple_return)
    with Some w show ?thesis by (cases r) simp
  qed
qed


lemma stable_config:
  assumes "readable B" and "B Old = None \<or> B Cleanup = None" and "valid_at B Config_json = Some v"
    and "B Cleanup \<noteq> None \<or> valid_at B Old = None"
  shows "settles_on v B"
  using assms by (auto simp: settles_on_def recover_choice_def)

lemma stable_only: "load_config (Inr v) = Inr v \<Longrightarrow> settles_on v (only v)"
  by (rule stable_config) (auto simp: only_def readable_def load_missing valid_at_def)

lemma stable_valid: "settles_on v A \<Longrightarrow> load_config (Inr v) = Inr v"
  by (auto simp: settles_on_def recover_choice_def valid_at_Some split: if_splits)

lemma only_eq:
  assumes "A Config_json = Some (Doc v)" and "\<And>p. p \<noteq> Config_json \<Longrightarrow> A p = None"
  shows "A = only v"
  using assms by (auto simp: only_def)

lemma clear_all: "A Config_json = Some (Doc v) \<Longrightarrow>
    \<forall>p. p \<noteq> Config_json \<longrightarrow> p \<in> set ps \<or> A p = None \<Longrightarrow> Config_json \<notin> set ps \<Longrightarrow> clear ps A = only v"
  by (rule only_eq) (auto simp: clear_def)

lemma clear_apply: "clear ps A p = (if p \<in> set ps then None else A p)"
  by (simp add: clear_def)

lemma valid_at_clear: "valid_at (clear ps A) p = (if p \<in> set ps then None else valid_at A p)"
  by (simp add: valid_at_def clear_def load_missing)

text \<open>Releasing the other files of a valid \<open>config.json\<close>.\<close>

lemma triple_release:
  assumes A: "readable A" "A Old = None \<or> A Cleanup = None" "valid_at A Config_json = Some v"
    and old: "valid_at A Old = None" and rest: "Config_json \<notin> set ps"
    "\<forall>p. p \<noteq> Config_json \<longrightarrow> p \<in> set ps \<or> A p = None"
  shows "triple powered (settles_on v) A (remove_all ps) (\<lambda>_ B. B = only v) E"
proof (rule triple_remove_all)
  fix n
  have "Config_json \<notin> set (take n ps)" using rest(1) by (meson in_set_takeD)
  then show "faults powered (settles_on v) E (clear (take n ps) A)"
    using A old
    by (auto simp: valid_at_clear readable_clear clear_apply intro!: stable_config split: if_splits)
next
  show "clear ps A = only v" using A(3) rest by (intro clear_all) (auto simp: valid_at_Some)
qed

lemma triple_settle_rename:
  assumes st: "settles_on v A" and p: "p = Cleanup \<and> valid_at A Config_json = None \<or> p = Old"
    and v: "valid_at A p = Some v"
    and rest: "Config_json \<notin> set ps" "\<forall>q. q \<noteq> Config_json \<and> q \<noteq> p \<longrightarrow> q \<in> set ps \<or> A q = None"
  shows "triple powered (settles_on v) A (settle_rename p ps) (\<lambda>_ B. B = only v) (\<lambda>e B. False)"
proof -
  let ?A1 = "A(Config_json := None)"
  let ?A2 = "?A1(p := None, Config_json := Some (Doc v))"
  have np: "p \<noteq> Config_json" using p by auto
  have at_p: "A p = Some (Doc v)" and lv: "load_config (Inr v) = Inr v" using v by (auto simp: valid_at_Some)
  have no_both: "A Old = None \<or> A Cleanup = None" and rd: "readable A" using st by (auto simp: settles_on_def)
  have s1: "settles_on v ?A1"
    using p v no_both rd at_p by (auto simp: settles_on_def recover_choice_def readable_upd)
  have r2: "readable ?A2"
    using readable_move [OF readable_upd [OF rd], of Config_json p Config_json] at_p np by simp
  have c2: "valid_at ?A2 Config_json = Some v" using lv by (simp add: valid_at_def)
  have o2: "valid_at ?A2 Old = None" "?A2 Old = None \<or> ?A2 Cleanup = None"
    using p no_both at_p by auto
  show ?thesis
    unfolding settle_rename_def
  proof (rule triple_bind [where R = "\<lambda>_ B. B = ?A1"], rule triple_remove_if_exists, goal_cases)
    case (3 x B)
    then have B: "B = ?A1" by simp
    show ?case
      unfolding B
    proof (rule triple_bind [where R = "\<lambda>_ B. B = ?A2"], rule triple_rename [where c = "Doc v"], goal_cases)
      case (4 y C)
      then have C: "C = ?A2" by simp
      show ?case
        unfolding C by (rule triple_release [OF r2 o2(2) c2 o2(1) rest(1)]) (use rest(2) np in auto)
    qed (use s1 at_p np in auto)
  qed (use st in simp_all)
qed

lemma branch_if_exists:
  assumes "settles_on v A" and "A p \<noteq> None \<Longrightarrow> branch_ok v A b applies" and "A p = None \<Longrightarrow> \<not> applies"
  shows "branch_ok v A (if_exists p seen b) applies"
  unfolding branch_ok_def if_exists_def
  by (rule triple_bind [where R = "\<lambda>e B. B = A \<and> e = (A p \<noteq> None)"])
    (use assms in \<open>auto simp: branch_ok_def intro!: triple_exists triple_return\<close>)

lemma branch_or_else:
  assumes "branch_ok v A b first" and "\<And>seen. \<not> first \<Longrightarrow> branch_ok v A (next_branch seen) second"
  shows "branch_ok v A (or_else b next_branch) (first \<or> second)"
  unfolding branch_ok_def or_else_def
proof (rule triple_bind [OF assms(1) [unfolded branch_ok_def]])
  fix r :: "pyval option \<times> cfile list" and B
  assume r: "if first then fst r = Some v \<and> B = only v else fst r = None \<and> B = A"
  obtain c seen where cs: "r = (c, seen)" by fastforce
  show "triple powered (settles_on v) B
      (case r of (config, seen) \<Rightarrow>
         (case config of Some v \<Rightarrow> io_return (Some v, seen) | None \<Rightarrow> next_branch seen))
      (\<lambda>r B. if first \<or> second then fst r = Some v \<and> B = only v else fst r = None \<and> B = A)
      (\<lambda>e B. False)"
  proof (cases first)
    case True
    with r cs show ?thesis by (auto intro: triple_return)
  next
    case False
    with r cs assms(2) show ?thesis by (simp add: branch_ok_def)
  qed
qed


lemma all_files: "(\<forall>p. P p) \<longleftrightarrow> P Config_json \<and> P Old \<and> P Cleanup \<and> P Tmp"
  by (simp only: enum_all [symmetric] enum_all_cfile_def)

lemma triple_recover:
  assumes st: "settles_on v A"
  shows "triple powered (settles_on v) A recover (\<lambda>w B. w = v \<and> B = only v) (\<lambda>e B. False)"
proof -
  have no_both: "A Old = None \<or> A Cleanup = None" and rd: "readable A" and ch: "recover_choice A = Some v"
    using st by (simp_all add: settles_on_def)
  have lv: "load_config (Inr v) = Inr v" by (rule stable_valid [OF st])
  have ov: "settles_on v (only v)" by (rule stable_only [OF lv])
  let ?main = "valid_at A Config_json \<noteq> None" and ?cl = "A Cleanup \<noteq> None"
  have b1: "branch_ok v A (recover_cleanup []) (?cl \<and> (?main \<or> valid_at A Cleanup \<noteq> None))"
    unfolding recover_cleanup_def
  proof (rule branch_if_exists [OF st])
    assume cl: "A Cleanup \<noteq> None"
    then have old: "A Old = None" using no_both by auto
    have first: "branch_ok v A (load_and_settle Config_json (remove_all [Cleanup, Old, Tmp]) []) ?main"
    proof (rule branch_load_and_settle [OF st _ ov])
      assume m: "valid_at A Config_json \<noteq> None"
      then have "valid_at A Config_json = Some v" using cl ch by (auto simp: recover_choice_def)
      moreover have "\<forall>p. p \<noteq> Config_json \<longrightarrow> p \<in> set [Cleanup, Old, Tmp] \<or> A p = None"
        by (simp add: all_files)
      ultimately show "valid_at A Config_json = Some v \<and> triple powered (settles_on v) A
          (remove_all [Cleanup, Old, Tmp]) (\<lambda>_ B. B = only v) (\<lambda>e B. False)"
        by (intro conjI triple_release rd no_both) (simp_all add: old)
    qed
    have second: "branch_ok v A (load_and_settle Cleanup (settle_rename Cleanup [Old, Tmp]) seen)
        (valid_at A Cleanup \<noteq> None)" if "\<not> ?main" for seen
    proof (rule branch_load_and_settle [OF st _ ov])
      assume "valid_at A Cleanup \<noteq> None"
      then have "valid_at A Cleanup = Some v" using that ch by (auto simp: recover_choice_def)
      moreover have "\<forall>q. q \<noteq> Config_json \<and> q \<noteq> Cleanup \<longrightarrow> q \<in> set [Old, Tmp] \<or> A q = None"
        by (simp add: all_files)
      ultimately show "valid_at A Cleanup = Some v \<and> triple powered (settles_on v) A
          (settle_rename Cleanup [Old, Tmp]) (\<lambda>_ B. B = only v) (\<lambda>e B. False)"
        by (intro conjI triple_settle_rename st) (use that in simp_all)
    qed
    from branch_or_else [OF first second] cl
    show "branch_ok v A (or_else (load_and_settle Config_json (remove_all [Cleanup, Old, Tmp]) [])
            (load_and_settle Cleanup (settle_rename Cleanup [Old, Tmp])))
          (?cl \<and> (?main \<or> valid_at A Cleanup \<noteq> None))" by simp
  qed simp
  have b2: "branch_ok v A (recover_old seen) (valid_at A Old \<noteq> None)"
    if "\<not> (?cl \<and> (?main \<or> valid_at A Cleanup \<noteq> None))" for seen
    unfolding recover_old_def
  proof (rule branch_if_exists [OF st branch_load_and_settle [OF st _ ov]])
    assume o: "valid_at A Old \<noteq> None"
    then have cl: "A Cleanup = None" using no_both by auto
    with o ch have "valid_at A Old = Some v" by (auto simp: recover_choice_def)
    moreover have "\<forall>q. q \<noteq> Config_json \<and> q \<noteq> Old \<longrightarrow> q \<in> set [Tmp] \<or> A q = None"
      using cl by (simp add: all_files)
    ultimately show "valid_at A Old = Some v \<and> triple powered (settles_on v) A
        (settle_rename Old [Tmp]) (\<lambda>_ B. B = only v) (\<lambda>e B. False)"
      by (intro conjI triple_settle_rename st) simp_all
  qed simp
  have b3: "branch_ok v A (recover_config seen) ?main"
    if "\<not> (?cl \<and> (?main \<or> valid_at A Cleanup \<noteq> None) \<or> valid_at A Old \<noteq> None)" for seen
    unfolding recover_config_def
  proof (rule branch_if_exists [OF st branch_load_and_settle [OF st _ ov]])
    assume m: "valid_at A Config_json \<noteq> None"
    then have cl: "A Cleanup = None" using that by blast
    with m ch that have "valid_at A Config_json = Some v" by (auto simp: recover_choice_def)
    moreover have "\<forall>p. p \<noteq> Config_json \<longrightarrow> p \<in> set [Old, Tmp] \<or> A p = None"
      using cl by (simp add: all_files)
    ultimately show "valid_at A Config_json = Some v \<and> triple powered (settles_on v) A
        (remove_all [Old, Tmp]) (\<lambda>_ B. B = only v) (\<lambda>e B. False)"
      by (intro conjI triple_release rd no_both) (use that in simp_all)
  qed auto
  have b4: "branch_ok v A (recover_tmp seen) (valid_at A Tmp \<noteq> None)"
    if no: "\<not> ((?cl \<and> (?main \<or> valid_at A Cleanup \<noteq> None) \<or> valid_at A Old \<noteq> None) \<or> ?main)" for seen
    unfolding recover_tmp_def
  proof (rule branch_if_exists [OF st branch_load_and_settle [OF st _ ov]])
    assume "valid_at A Tmp \<noteq> None"
    then have t: "valid_at A Tmp = Some v"
      using ch no by (cases "A Cleanup") (auto simp: recover_choice_def)
    let ?A2 = "A(Tmp := None, Config_json := Some (Doc v))"
    have at: "A Tmp = Some (Doc v)" using t by (simp add: valid_at_Some)
    have "readable ?A2" using readable_move [OF rd, of Tmp Config_json] at by simp
    moreover have "valid_at ?A2 Config_json = Some v" using lv by (simp add: valid_at_def)
    moreover have "valid_at ?A2 Old = None" using no by simp
    moreover have "?A2 Old = None \<or> ?A2 Cleanup = None" using no_both by simp
    moreover have "\<forall>p. p \<noteq> Config_json \<longrightarrow> p \<in> set [Old, Cleanup] \<or> ?A2 p = None"
      by (simp add: all_files)
    ultimately have rel: "triple powered (settles_on v) ?A2 (remove_all [Old, Cleanup])
        (\<lambda>_ B. B = only v) (\<lambda>e B. False)"
      by (intro triple_release) simp_all
    have "triple powered (settles_on v) A (io_bind (os_rename Tmp Config_json) (\<lambda>_. remove_all [Old, Cleanup]))
        (\<lambda>_ B. B = only v) (\<lambda>e B. False)"
    proof (rule triple_bind [where R = "\<lambda>_ B. B = ?A2"], rule triple_rename [where c = "Doc v"], goal_cases)
      case (4 x B)
      then have B: "B = ?A2" by simp
      show ?case unfolding B by (rule rel)
    qed (use st at in simp_all)
    with t show "valid_at A Tmp = Some v \<and> triple powered (settles_on v) A
        (io_bind (os_rename Tmp Config_json) (\<lambda>_. remove_all [Old, Cleanup])) (\<lambda>_ B. B = only v) (\<lambda>e B. False)"
      by blast
  qed auto
  have applies: "((?cl \<and> (?main \<or> valid_at A Cleanup \<noteq> None) \<or> valid_at A Old \<noteq> None) \<or> ?main)
      \<or> valid_at A Tmp \<noteq> None"
    using ch by (auto simp: recover_choice_def split: if_splits)
  have "branch_ok v A (or_else (or_else (or_else (recover_cleanup []) recover_old) recover_config) recover_tmp)
      (((?cl \<and> (?main \<or> valid_at A Cleanup \<noteq> None) \<or> valid_at A Old \<noteq> None) \<or> ?main)
        \<or> valid_at A Tmp \<noteq> None)"
    by (intro branch_or_else b1 b2 b3 b4)
  with applies have "branch_ok v A
      (or_else (or_else (or_else (recover_cleanup []) recover_old) recover_config) recover_tmp) True"
    by (simp only: simp_thms)
  then show ?thesis
    unfolding recover_def branch_ok_def if_True
    by (elim triple_bind) (auto simp del: split_paired_All intro!: triple_return)
qed


subsection \<open>Writing under faults\<close>

text \<open>Rules that compute the precondition of a whole operation backwards.\<close>

lemma triple_bind_back [triple_rules]:
  "triple F S A m (\<lambda>x B. triple F S B (f x) Q E) E \<Longrightarrow> triple F S A (io_bind m f) Q E"
  by (erule triple_bind)

lemma triple_try_back [triple_rules]:
  "triple F S A m Q (\<lambda>e B. triple F S B (h e) Q E) \<Longrightarrow> triple F S A (io_try m h) Q E"
  by (erule triple_try)

definition layout :: "content option \<Rightarrow> content option \<Rightarrow> content option \<Rightarrow> content option \<Rightarrow> files" where
  "layout m old cl t = (\<lambda>p. case p of Config_json \<Rightarrow> m | Old \<Rightarrow> old | Cleanup \<Rightarrow> cl | Tmp \<Rightarrow> t)"

lemma layout_apply [simp]:
  "layout m old cl t Config_json = m" "layout m old cl t Old = old"
  "layout m old cl t Cleanup = cl" "layout m old cl t Tmp = t"
  by (simp_all add: layout_def)

lemma layout_upd [simp]:
  "(layout m old cl t)(Config_json := x) = layout x old cl t"
  "(layout m old cl t)(Old := x) = layout m x cl t"
  "(layout m old cl t)(Cleanup := x) = layout m old x t"
  "(layout m old cl t)(Tmp := x) = layout m old cl x"
  by (auto simp: layout_def split: cfile.splits)

lemma layout_of: "A = layout (A Config_json) (A Old) (A Cleanup) (A Tmp)"
  by (auto simp: layout_def split: cfile.splits)

definition clean :: "content option \<Rightarrow> bool" where
  "clean f \<longleftrightarrow> (\<forall>e. load_config (file_value f) = Inl e \<longrightarrow> is_config_error e)"

lemma clean_simps [simp]: "clean None" "clean (Some Corrupt)"
  "load_config (Inr v) = Inr w \<Longrightarrow> clean (Some (Doc v))"
  by (simp_all add: clean_def load_missing)

lemma readable_layout [simp]:
  "readable (layout m old cl t) \<longleftrightarrow> clean m \<and> clean old \<and> clean cl \<and> clean t"
  by (auto simp: readable_def clean_def all_files)

lemma valid_at_layout [simp]:
  "valid_at (layout m old cl t) Config_json = valid_at (\<lambda>_. m) Config_json"
  "valid_at (layout m old cl t) Old = valid_at (\<lambda>_. old) Config_json"
  "valid_at (layout m old cl t) Cleanup = valid_at (\<lambda>_. cl) Config_json"
  "valid_at (layout m old cl t) Tmp = valid_at (\<lambda>_. t) Config_json"
  by (simp_all add: valid_at_def)

text \<open>A committed configuration with no write in progress.\<close>

definition committed :: "pyval \<Rightarrow> files \<Rightarrow> bool" where
  "committed c A \<longleftrightarrow> load_config (Inr c) = Inr c
     \<and> A Config_json = Some (Doc c) \<and> A Old = None \<and> A Cleanup = None \<and> clean (A Tmp)"

lemma committed_settles: "committed c A \<Longrightarrow> settles_on c A"
  by (subst (asm) layout_of, subst layout_of)
    (auto simp: committed_def settles_on_def recover_choice_def valid_at_Some)

text \<open>The stages of a promotion of \<open>d\<close> over \<open>c\<close>; \<open>promoted\<close> is the only one that keeps \<open>d\<close>.\<close>

definition promoted :: "pyval \<Rightarrow> pyval \<Rightarrow> files" where
  "promoted c d = layout (Some (Doc d)) None (Some (Doc c)) None"

definition stage :: "pyval \<Rightarrow> pyval \<Rightarrow> files \<Rightarrow> bool" where
  "stage c d A \<longleftrightarrow>
     (\<exists>t. clean t \<and> A = layout (Some (Doc c)) None None t)
   \<or> A = layout None (Some (Doc c)) None (Some (Doc d))
   \<or> A = layout (Some (Doc d)) (Some (Doc c)) None None
   \<or> A = layout None (Some (Doc c)) None None
   \<or> A = layout None None (Some (Doc c)) None"

lemma stage_settles:
  assumes "load_config (Inr c) = Inr c" and "load_config (Inr d) = Inr d" and "stage c d A"
  shows "settles_on c A"
  using assms by (auto simp: stage_def settles_on_def recover_choice_def valid_at_def load_missing)

lemma promoted_settles:
  assumes "load_config (Inr c) = Inr c" and "load_config (Inr d) = Inr d"
  shows "settles_on d (promoted c d)"
  using assms by (auto simp: promoted_def settles_on_def recover_choice_def valid_at_def load_missing)

definition rolled :: "pyval \<Rightarrow> pyval \<Rightarrow> files \<Rightarrow> bool" where
  "rolled c d A \<longleftrightarrow> stage c d A \<or> A = promoted c d"

lemma stages:
  "clean t \<Longrightarrow> rolled c d (layout (Some (Doc c)) None None t)"
  "rolled c d (layout None (Some (Doc c)) None (Some (Doc d)))"
  "rolled c d (layout (Some (Doc d)) (Some (Doc c)) None None)"
  "rolled c d (layout None (Some (Doc c)) None None)"
  "rolled c d (layout None None (Some (Doc c)) None)"
  "rolled c d (layout (Some (Doc d)) None (Some (Doc c)) None)"
  by (auto simp: rolled_def stage_def promoted_def)


abbreviation any_fate :: "fate \<Rightarrow> bool" where
  "any_fate \<equiv> \<lambda>f. True"

lemma faults_any [simp]: "faults any_fate S E A \<longleftrightarrow> E OSError A \<and> E MemoryError A \<and> S A"
  by (simp add: faults_def)

lemma triple_remove_any [triple_rules]:
  assumes "faults any_fate S E A" and "Q () (A(a := None))"
  shows "triple any_fate S A (remove_if_exists a) Q E"
  using assms by (rule triple_remove_if_exists)

lemma triple_rename_any [triple_rules]:
  assumes "A a \<noteq> None" and "faults any_fate S E A" and "Q () (A(a := None, b := A a))"
  shows "triple any_fate S A (os_rename a b) Q E"
  using assms triple_rename [of any_fate S E A a "the (A a)" Q b] by auto

lemma rolled_cases:
  assumes "rolled c d A"
  obtains t where "clean t" "A = layout (Some (Doc c)) None None t"
  | "A = layout None (Some (Doc c)) None (Some (Doc d))"
  | "A = layout (Some (Doc d)) (Some (Doc c)) None None"
  | "A = layout None (Some (Doc c)) None None"
  | "A = layout None None (Some (Doc c)) None"
  | "A = layout (Some (Doc d)) None (Some (Doc c)) None"
  using assms by (auto simp: rolled_def stage_def promoted_def)

lemma triple_try_restore [triple_rules]:
  assumes "rolled c d A" and d: "load_config (Inr d) = Inr d"
    and S: "\<And>B. rolled c d B \<Longrightarrow> S B" and Q: "\<And>B. rolled c d B \<Longrightarrow> Q () B"
    and E: "\<And>B. rolled c d B \<Longrightarrow> E MemoryError B"
  shows "triple any_fate S A try_restore Q E"
proof -
  have "triple any_fate (rolled c d) A try_restore (\<lambda>_. rolled c d)
          (\<lambda>e B. e = MemoryError \<and> rolled c d B)"
    using assms(1) unfolding try_restore_def restore_committed_def
    by (cases rule: rolled_cases) (use d in \<open>auto simp: stages intro!: triple_rules\<close>)
  then show ?thesis by (rule triple_conseq) (use S Q E in auto)
qed

text \<open>A write that fails leaves a stage, a write that succeeds the promotion.\<close>

definition write_fault :: "exc \<Rightarrow> bool" where
  "write_fault e \<longleftrightarrow> e = OSError \<or> e = MemoryError \<or> is_config_error e"

lemma triple_promote:
  assumes c: "committed c A" and d: "load_config (Inr d) = Inr d"
  shows "triple any_fate (rolled c d) A (promote d) (\<lambda>_ B. B = promoted c d)
           (\<lambda>e B. write_fault e \<and> rolled c d B)"
proof -
  obtain t where A: "A = layout (Some (Doc c)) None None t" and t: "clean t"
    and lc: "load_config (Inr c) = Inr c"
    using layout_of [of A] c by (metis committed_def)
  show ?thesis
    unfolding A promote_def write_candidate_tmp_def
    using t lc d
    by (auto simp: stages write_fault_def step_ends_def load_missing promoted_def
        intro!: triple_rules triple_step)
qed

text \<open>What a write of \<open>d\<close> over \<open>c\<close> may leave when it returns, raises or loses power.\<close>

definition write_done :: "pyval \<Rightarrow> pyval \<Rightarrow> files \<Rightarrow> write_result \<Rightarrow> files \<Rightarrow> bool" where
  "write_done c d A r B \<longleftrightarrow>
     (case wr_classification r of
        UNCHANGED \<Rightarrow> py_eq d c \<and> B = A
      | REBOOT_REQUIRED \<Rightarrow> \<not> py_eq d c \<and> wr_reboot_required r \<and> settles_on d B)"

definition write_failed :: "pyval \<Rightarrow> pyval \<Rightarrow> files \<Rightarrow> exc \<Rightarrow> files \<Rightarrow> bool" where
  "write_failed c d A e B \<longleftrightarrow>
     (if is_config_error e then settles_on c B \<or> B = promoted c d
      else settles_on c B \<or> e = MemoryError \<and> settles_on d B)"

definition write_cut :: "pyval \<Rightarrow> pyval \<Rightarrow> files \<Rightarrow> bool" where
  "write_cut c d B \<longleftrightarrow> settles_on c B \<or> settles_on d B"

lemma rolled_settles:
  "load_config (Inr c) = Inr c \<Longrightarrow> load_config (Inr d) = Inr d \<Longrightarrow> rolled c d B
   \<Longrightarrow> settles_on c B \<or> B = promoted c d"
  using stage_settles unfolding rolled_def by blast

lemma triple_promote_or_restore:
  assumes c: "committed c A" and d: "load_config (Inr d) = Inr d"
  shows "triple any_fate (rolled c d) A (promote_or_restore d) (\<lambda>_ B. B = promoted c d)
           (\<lambda>e B. (is_config_error e \<or> e = MemoryError) \<and> rolled c d B)"
  unfolding promote_or_restore_def
  by (rule triple_try [OF triple_promote [OF c d]])
    (use d in \<open>auto simp: write_fault_def intro!: triple_rules\<close>)

lemma triple_release_cleanup:
  assumes lc: "load_config (Inr c) = Inr c" and d: "load_config (Inr d) = Inr d"
  shows "triple any_fate (settles_on d) (promoted c d) release_cleanup (\<lambda>_. settles_on d)
           (\<lambda>e B. e = MemoryError \<and> settles_on d B)"
proof -
  have "settles_on d (layout (Some (Doc d)) None None None)"
    using d by (auto simp: settles_on_def recover_choice_def valid_at_def load_missing)
  with promoted_settles [OF lc d] show ?thesis
    unfolding release_cleanup_def promoted_def by (auto intro!: triple_rules)
qed

lemma triple_get_reboot [triple_rules]: "(\<And>r. Q r A) \<Longrightarrow> triple F S A get_reboot_required Q E"
  by (simp add: triple_def get_reboot_required_def)

lemma triple_set_reboot [triple_rules]: "Q () A \<Longrightarrow> triple F S A set_reboot_required Q E"
  by (simp add: triple_def set_reboot_required_def)

lemma load_valid:
  assumes "validate_config d = Inr x"
  shows "load_config (Inr d) = Inr d"
proof -
  obtain config where "d = PDict config" "x = PDict config"
    using assms by (rule validate_config_ok) metis
  with assms show ?thesis by (simp add: load_config_def read_json_def res_simps)
qed

lemma triple_write:
  assumes c: "committed c A"
  shows "triple any_fate (write_cut c d) A (begin_write d) (write_done c d A) (write_failed c d A)"
proof -
  have st: "settles_on c A" by (rule committed_settles [OF c])
  have lc: "load_config (Inr c) = Inr c" and at: "file_value (A Config_json) = Inr c"
    using c by (simp_all add: committed_def)
  have store: "triple any_fate (write_cut c d) A
      (io_bind (promote_or_restore d) (\<lambda>_. io_bind set_reboot_required (\<lambda>_. io_bind release_cleanup (\<lambda>_.
         io_return \<lparr>wr_classification = REBOOT_REQUIRED, wr_changes = ch, wr_reboot_required = True\<rparr>))))
      (write_done c d A) (write_failed c d A)"
    if d: "load_config (Inr d) = Inr d" and ne: "\<not> py_eq d c" for ch
  proof (rule triple_bind)
    show "triple any_fate (write_cut c d) A (promote_or_restore d) (\<lambda>_ B. B = promoted c d) (write_failed c d A)"
      by (rule triple_conseq [OF triple_promote_or_restore [OF c d]])
        (use rolled_settles [OF lc d] promoted_settles [OF lc d] in \<open>auto simp: write_failed_def write_cut_def\<close>)
    have release: "triple any_fate (write_cut c d) (promoted c d) release_cleanup (\<lambda>_. settles_on d)
        (write_failed c d A)"
      by (rule triple_conseq [OF triple_release_cleanup [OF lc d]]) (auto simp: write_failed_def write_cut_def)
    fix x :: unit and B assume "B = promoted c d"
    then show "triple any_fate (write_cut c d) B
        (io_bind set_reboot_required (\<lambda>_. io_bind release_cleanup (\<lambda>_.
           io_return \<lparr>wr_classification = REBOOT_REQUIRED, wr_changes = ch, wr_reboot_required = True\<rparr>)))
        (write_done c d A) (write_failed c d A)"
      using ne by (auto simp: write_done_def intro!: triple_rules triple_conseq [OF release])
  qed
  show ?thesis
    unfolding begin_write_def Let_def
  proof (rule triple_bind_back, rule triple_res, goal_cases)
    case (1 x)
    note d = load_valid [OF this]
    show ?case
      by (rule triple_bind_back, rule triple_load)
        (use st at lc store [OF d] in \<open>auto simp: write_failed_def write_cut_def write_done_def
           intro!: triple_rules\<close>)
  next
    case (2 e)
    show ?case using st by (simp add: write_failed_def)
  qed
qed


subsection \<open>A boot that is not cut returns\<close>

definition uncut :: "'a io \<Rightarrow> bool" where
  "uncut m \<longleftrightarrow> (\<forall>fates s t. (\<forall>n. fates n \<noteq> Power_cut) \<longrightarrow> m fates s \<noteq> (Cut, t))"

named_theorems uncut_rules \<open>rules for \<open>uncut\<close>\<close>

lemma uncut_basic [uncut_rules]:
  "uncut (io_return x)" "uncut (io_raise e)" "uncut (fs_step act)"
  by (auto simp: uncut_def io_return_def io_raise_def fs_step_def Let_def
      split: fate.splits sum.splits prod.splits)

lemma uncut_res [uncut_rules]: "uncut (io_res r)"
  by (auto simp: io_res_def uncut_rules split: sum.splits)

lemma uncut_bind [uncut_rules]: "uncut m \<Longrightarrow> (\<And>x. uncut (f x)) \<Longrightarrow> uncut (io_bind m f)"
  by (auto simp: uncut_def io_bind_def split: outcome.splits prod.splits)

lemma uncut_try [uncut_rules]: "uncut m \<Longrightarrow> (\<And>e. uncut (h e)) \<Longrightarrow> uncut (io_try m h)"
  by (auto simp: uncut_def io_try_def split: outcome.splits prod.splits)

lemma uncut_cases [uncut_rules]:
  "(b \<Longrightarrow> uncut m) \<Longrightarrow> (\<not> b \<Longrightarrow> uncut n) \<Longrightarrow> uncut (if b then m else n)"
  "uncut g \<Longrightarrow> (\<And>x. uncut (h x)) \<Longrightarrow> uncut (case opt of None \<Rightarrow> g | Some x \<Rightarrow> h x)"
  "(\<And>x y. uncut (k x y)) \<Longrightarrow> uncut (case p of (x, y) \<Rightarrow> k x y)"
  by (auto split: option.splits prod.splits)

lemma uncut_remove_if_exists [uncut_rules]: "uncut (remove_if_exists p)"
  unfolding remove_if_exists_def path_exists_def os_remove_def by (intro uncut_rules)

lemma uncut_remove_all [uncut_rules]: "uncut (remove_all ps)"
proof -
  have "uncut m \<Longrightarrow> uncut (fold (\<lambda>p m. io_bind m (\<lambda>_. remove_if_exists p)) ps m)" for m
    by (induction ps arbitrary: m) (simp_all add: uncut_bind uncut_remove_if_exists)
  then show ?thesis by (simp add: remove_all_def uncut_basic)
qed

lemma uncut_load_and_settle [uncut_rules]: "uncut settle \<Longrightarrow> uncut (load_and_settle p settle seen)"
  unfolding load_and_settle_def try_load_def load_path_def os_sync_def by (intro uncut_rules)

lemma uncut_settle_rename [uncut_rules]: "uncut (settle_rename p ps)"
  unfolding settle_rename_def os_rename_def by (intro uncut_rules)

lemma uncut_recover: "uncut recover"
  unfolding recover_def recover_cleanup_def recover_old_def recover_config_def recover_tmp_def
    or_else_def if_exists_def path_exists_def os_rename_def
  by (intro uncut_rules)

subsection \<open>The contract of the store\<close>

text \<open>A boot is retried after every power cut; one fate sequence per attempt.\<close>

fun boots :: "'a io \<Rightarrow> (nat \<Rightarrow> fate) list \<Rightarrow> store \<Rightarrow> 'a outcome \<times> store" where
  "boots boot [] s = (Cut, s)"
| "boots boot (f # fs) s = (case boot f s of (Cut, t) \<Rightarrow> boots boot fs t | r \<Rightarrow> r)"

text \<open>
  What the clients of the store rely on: \<open>settled v\<close> files boot into \<open>v\<close>, whatever
  power cuts interrupt the boot, and a write settles on its candidate or on what was
  committed before.
\<close>

locale durable_store =
  fixes boot :: "'v io" and write_to :: "'v \<Rightarrow> 'r io" and kept :: "'r \<Rightarrow> bool"
    and settled :: "'v \<Rightarrow> files \<Rightarrow> bool" and base :: "'v \<Rightarrow> files \<Rightarrow> bool"
  assumes boot_law: "settled v A \<Longrightarrow> triple powered (settled v) A boot (\<lambda>w B. w = v \<and> base v B) (\<lambda>e B. False)"
    and boot_uncut: "uncut boot"
    and write_law: "base c A \<Longrightarrow> triple any_fate (\<lambda>B. settled c B \<or> settled d B) A (write_to d)
        (\<lambda>r B. if kept r then settled d B else settled c B) (\<lambda>e B. settled c B \<or> settled d B)"
begin

lemma boots_settle:
  assumes "settled v (files s)" and "\<forall>f \<in> set fs. \<forall>n. powered (f n)"
  shows "case boots boot fs s of (Return w, t) \<Rightarrow> w = v \<and> base v (files t)
           | (Raise e, t) \<Rightarrow> False | (Cut, t) \<Rightarrow> settled v (files t)"
  using assms
proof (induction fs arbitrary: s)
  case (Cons f fs)
  have "ends (settled v) (\<lambda>w B. w = v \<and> base v B) (\<lambda>e B. False) (boot f s)"
    using Cons.prems by (intro tripleD [OF boot_law]) auto
  then show ?case
    using Cons.IH Cons.prems(2)
    by (cases "boot f s" rule: prod.exhaust; cases "fst (boot f s)") (auto split: outcome.splits prod.splits)
qed simp

lemma boots_return:
  assumes "f \<in> set fs" and "\<forall>n. f n = Ok"
  shows "boots boot fs s \<noteq> (Cut, t)"
  using assms
proof (induction fs arbitrary: s)
  case (Cons g fs)
  have "boot g s \<noteq> (Cut, u)" if "f = g" for u
    using boot_uncut Cons.prems that by (simp add: uncut_def)
  then show ?case
    using Cons by (cases "boot g s") (auto split: outcome.splits)
qed simp

lemma boots_into:
  assumes "settled v (files s)" and "\<forall>f \<in> set fs. \<forall>n. powered (f n)"
    and "f \<in> set fs" and "\<forall>n. f n = Ok"
  shows "fst (boots boot fs s) = Return v \<and> base v (files (snd (boots boot fs s)))"
  using boots_settle [OF assms(1,2)] boots_return [OF assms(3,4)]
  by (cases "boots boot fs s") (auto split: outcome.splits)

lemma write_then_boots:
  assumes "base c (files s)" and "\<forall>f \<in> set fs. \<forall>n. powered (f n)"
    and "f \<in> set fs" and "\<forall>n. f n = Ok"
  shows "\<exists>v \<in> {c, d}. fst (boots boot fs (snd (write_to d fates s))) = Return v
           \<and> base v (files (snd (boots boot fs (snd (write_to d fates s)))))
           \<and> (\<forall>r. fst (write_to d fates s) = Return r \<longrightarrow> v = (if kept r then d else c))"
proof -
  obtain r t where w: "write_to d fates s = (r, t)" by fastforce
  have "ends (\<lambda>B. settled c B \<or> settled d B) (\<lambda>r B. if kept r then settled d B else settled c B)
      (\<lambda>e B. settled c B \<or> settled d B) (r, t)"
    using tripleD [OF write_law [OF assms(1), of d], where fates = fates and s = s] unfolding w by simp
  then obtain v where "v \<in> {c, d}" "settled v (files t)"
    "\<forall>x. r = Return x \<longrightarrow> v = (if kept x then d else c)"
    by (cases r) (auto split: if_splits)
  with boots_into [OF _ assms(2-4)] show ?thesis by (intro bexI [of _ v]) (auto simp: w)
qed

end

lemma committed_only: "load_config (Inr v) = Inr v \<Longrightarrow> committed v (only v)"
  by (simp add: committed_def only_def)

lemma recover_law:
  assumes "settles_on v A"
  shows "triple powered (settles_on v) A recover (\<lambda>w B. w = v \<and> committed v B) (\<lambda>e B. False)"
  by (rule triple_conseq [OF triple_recover [OF assms]])
    (auto intro: committed_only stable_valid [OF assms])

lemma write_settles:
  assumes "committed c A"
  shows "triple any_fate (\<lambda>B. settles_on c B \<or> settles_on d B) A (begin_write d)
           (\<lambda>r B. if wr_classification r = REBOOT_REQUIRED then settles_on d B else settles_on c B)
           (\<lambda>e B. settles_on c B \<or> settles_on d B)"
proof -
  have failed: "settles_on c B \<or> settles_on d B" if "write_failed c d A e B" and "load_config (Inr d) = Inr d" for e B
    using that assms promoted_settles [of c d] by (auto simp: write_failed_def committed_def split: if_splits)
  show ?thesis
  proof (cases "validate_config d")
    case (Inl e)
    then have "begin_write d = io_raise e" 
      by (simp add: begin_write_def io_res_def io_bind_def io_raise_def fun_eq_iff)
    then show ?thesis using committed_settles [OF assms] by (auto intro!: triple_raise)
  next
    case (Inr x)
    show ?thesis
      by (rule triple_conseq [OF triple_write [OF assms]])
        (use failed load_valid [OF Inr] committed_settles [OF assms] in
          \<open>auto simp: write_done_def write_cut_def split: classification.splits\<close>)
  qed
qed

interpretation config_store: durable_store recover begin_write
    "\<lambda>r. wr_classification r = REBOOT_REQUIRED" settles_on committed
  by unfold_locales (rule recover_law, assumption, rule uncut_recover, rule write_settles)


subsection \<open>The properties\<close>




definition demo_doc :: pyval where
  "demo_doc = PDict demo_config"

definition demo_edit :: pyval where
  "demo_edit = PDict (demo_config_with demo_pair)"

definition demo_store :: store where
  "demo_store = \<lparr>files = only demo_doc, op_count = 0, reboot_flag = False\<rparr>"

lemma demo_loads: "load_config (Inr demo_doc) = Inr demo_doc" "load_config (Inr demo_edit) = Inr demo_edit"
  using load_valid [OF demo_config_ok] load_valid [OF demo_pair_ok(1)]
  by (simp_all add: demo_doc_def demo_edit_def)

lemma demo_committed: "committed demo_doc (files demo_store)"
  by (simp add: demo_store_def committed_only demo_loads)




lemma demo_differ: "\<not> py_eq demo_edit demo_doc"
  by code_simp

text \<open>
  Without faults a valid candidate is committed: one that differs from the
  committed configuration becomes the only file, with the reboot flag set and the
  change summary against the old configuration reported; an equal one changes nothing and
  reports the reboot flag as it is.
\<close>

theorem write_commits:
  assumes "committed c (files s)" and "validate_config d = Inr x"
  shows "begin_write d (\<lambda>n. Ok) s =
     (if py_eq d c
      then (Return \<lparr>wr_classification = UNCHANGED,
                    wr_changes = changes_summary (the_dict c) (the_dict d),
                    wr_reboot_required = reboot_flag s\<rparr>, s\<lparr>op_count := op_count s + 1\<rparr>)
      else (Return \<lparr>wr_classification = REBOOT_REQUIRED,
                    wr_changes = changes_summary (the_dict c) (the_dict d),
                    wr_reboot_required = True\<rparr>,
            s\<lparr>files := only d, op_count := op_count s + 12, reboot_flag := True\<rparr>))"
proof -
  have d: "load_config (Inr d) = Inr d" by (rule load_valid [OF assms(2)])
  obtain t where A: "files s = layout (Some (Doc c)) None None t"
    and c: "load_config (Inr c) = Inr c"
    using layout_of [of "files s"] assms(1) by (metis committed_def)
  have only: "only d = layout (Some (Doc d)) None None None"
    by (rule only_eq [symmetric]) (simp_all add: layout_def split: cfile.splits)
  show ?thesis
    using c d assms(2)
    by (simp add: begin_write_def io_bind_def io_res_def io_return_def io_raise_def io_try_def
        promote_or_restore_def promote_def write_candidate_tmp_def load_path_def fs_step_def Let_def
        release_cleanup_def get_reboot_required_def set_reboot_required_def
        path_exists_def remove_if_exists_def os_remove_def os_rename_def os_sync_def A only)
qed

lemma write_commits_witness:
  "files (snd (begin_write demo_edit (\<lambda>n. Ok) demo_store)) = only demo_edit"
  using write_commits [OF demo_committed demo_pair_ok(1) [folded demo_edit_def]] demo_differ by simp

subsection \<open>A stale released copy\<close>

text \<open>
  A commit whose final cleanup failed leaves \<open>.cleanup\<close> with the configuration before
  it. A later write that fails before its own promotion then takes that copy for its
  rollback journal: the committed configuration is replaced by the older one.
\<close>

theorem stale_cleanup_reverts_commit:
  assumes c: "load_config (Inr c) = Inr c" and d: "load_config (Inr d) = Inr d"
    and e: "validate_config e = Inr x" and ne: "\<not> py_eq e d"
    and s: "files s = promoted c d" "op_count s = 0"
  shows "settles_on d (files s)"
    and "fst (begin_write e (\<lambda>n. if n = 1 then Os_error else Ok) s)
           = Raise (ConfigError Code_storage_error [] None)"
    and "files (snd (begin_write e (\<lambda>n. if n = 1 then Os_error else Ok) s)) = only c"
proof -
  show "settles_on d (files s)" using promoted_settles [OF c d] by (simp add: s)
  have only: "only c = layout (Some (Doc c)) None None None"
    by (rule only_eq [symmetric]) (simp_all add: layout_def split: cfile.splits)
  have "begin_write e (\<lambda>n. if n = 1 then Os_error else Ok) s
      = (Raise (ConfigError Code_storage_error [] None), s\<lparr>op_count := 9, files := only c\<rparr>)"
    using d e ne
    by (simp add: begin_write_def io_bind_def io_res_def io_return_def io_raise_def io_try_def
        promote_or_restore_def promote_def write_candidate_tmp_def load_path_def fs_step_def Let_def
        try_restore_def restore_committed_def path_exists_def remove_if_exists_def os_remove_def
        os_rename_def os_sync_def s promoted_def only)
  then show "fst (begin_write e (\<lambda>n. if n = 1 then Os_error else Ok) s)
           = Raise (ConfigError Code_storage_error [] None)"
    and "files (snd (begin_write e (\<lambda>n. if n = 1 then Os_error else Ok) s)) = only c"
    by simp_all
qed



end
