(* ===== verification/Commands.thy ===== *)
theory Commands
  imports Lanes ConfigStore
begin

section \<open>Core 0: inbound messages and commands\<close>

text \<open>
  \<open>command_protocol.py\<close> and the inbound half of \<open>core0.py\<close>: the staged validation of a
  message, the debounce cache, the response queue, the four commands, and the UTC answers.
  The whole state of Core 0 is declared here; the outbound half is in the theory
  \<open>Publish\<close>.
\<close>

subsection \<open>The command protocol\<close>

definition COMMAND_REBOOT :: string where "COMMAND_REBOOT = ''reboot''"
definition COMMAND_GET_DETAILS :: string where "COMMAND_GET_DETAILS = ''get-details''"
definition COMMAND_READ_CONFIG :: string where "COMMAND_READ_CONFIG = ''read-config''"
definition COMMAND_WRITE_CONFIG :: string where "COMMAND_WRITE_CONFIG = ''write-config''"

lemmas command_names =
  COMMAND_REBOOT_def COMMAND_GET_DETAILS_def COMMAND_READ_CONFIG_def COMMAND_WRITE_CONFIG_def

definition MAX_COMMAND_ID_LENGTH :: nat where "MAX_COMMAND_ID_LENGTH = 128"
definition MAX_COMMAND_LENGTH :: nat where "MAX_COMMAND_LENGTH = 32"
definition MAX_TARGET_LENGTH :: nat where "MAX_TARGET_LENGTH = 128"
definition BROADCAST_TARGET :: string where "BROADCAST_TARGET = ''*''"

definition COMMAND_ENVELOPE_KEYS :: "string list" where
  "COMMAND_ENVELOPE_KEYS =
     [''message_type'', ''message_schema_version'', ''target'', ''command_id'', ''command'', ''payload'']"

definition SUPPORTED_COMMANDS :: "string list" where
  "SUPPORTED_COMMANDS =
     [COMMAND_REBOOT, COMMAND_READ_CONFIG, COMMAND_WRITE_CONFIG] @ [COMMAND_GET_DETAILS]"

definition is_supported_command :: "string \<Rightarrow> bool" where
  "is_supported_command c \<longleftrightarrow> c \<in> set SUPPORTED_COMMANDS"

definition bounded_string :: "nat \<Rightarrow> pyval \<Rightarrow> bool" where
  "bounded_string n v \<longleftrightarrow> is_str v \<and> 0 < py_len (the_str v) \<and> py_len (the_str v) \<le> n"

definition is_bounded_command_id :: "pyval \<Rightarrow> bool" where
  "is_bounded_command_id = bounded_string MAX_COMMAND_ID_LENGTH"

definition is_bounded_command :: "pyval \<Rightarrow> bool" where
  "is_bounded_command = bounded_string MAX_COMMAND_LENGTH"

definition is_bounded_target :: "pyval \<Rightarrow> bool" where
  "is_bounded_target = bounded_string MAX_TARGET_LENGTH"

definition MESSAGE_SCHEMA_VERSION :: int where "MESSAGE_SCHEMA_VERSION = 3"
definition FIRMWARE_VERSION :: string where "FIRMWARE_VERSION = ''0.4.158''"

subsection \<open>The state of Core 0\<close>

text \<open>
  A response is built as a dictionary and carries its publication state with it: the
  claimed wire sequence, the frozen bytes, the recorded permanent failure. The pending
  reboot carries the same three.
\<close>

datatype failure = Response_too_large | Response_invalid

record tracked =
  claimed_sequence :: "int option"
  frozen_bytes :: "string option"
  permanent_failure :: "failure option"

definition untracked :: tracked where
  "untracked = \<lparr>claimed_sequence = None, frozen_bytes = None, permanent_failure = None\<rparr>"

record response =
  r_command_id :: string
  r_command :: "string option"
  r_targeted :: bool
  r_success :: bool
  r_data :: pyval
  r_error :: pydict
  r_track :: tracked
  r_clears_pending_reboot :: bool

record reboot_request =
  rb_command_id :: string
  rb_targeted :: bool
  rb_track :: tracked
  rb_answer_queued :: bool

record utc_snap =
  us_timestamp :: string
  us_epoch_ms :: int
  us_sync_uptime_ms :: int
  us_runtime_start_ms :: int

record c0_config =
  c_source :: string
  c_topic_command :: string
  c_topic_info_response :: string
  c_topic_info_request :: string
  c_topic_command_response :: string
  c_topic_telemetry :: string
  c_topic_health :: string
  c_topic_log :: string
  c_publish_delay_ms :: int
  c_command_poll_ms :: int
  c_broker_timeout_sec :: int
  c_sync_interval_min :: int

text \<open>
  The world of Core 0: its configuration and runtime id, and what the environment answers
  at each instant of a global clock: the tick counter, the WLAN driver (\<open>None\<close> is an
  \<open>OSError\<close>), the transport exchanges (each delivers some inbound messages to the callback
  before it ends, acknowledged or with an exception), the storage faults, the memory and
  the other core; the texts of exceptions and floats, and the seconds \<open>time.gmtime\<close>
  accepts.
\<close>

type_synonym inbound = "string res \<times> pyval res"

record c0_world =
  config :: c0_config
  runtime_id :: string
  wifi_ssid :: string
  wifi_delays_sec :: "int list"
  mqtt_delays_sec :: "int list"
  snapshot_interval_sec :: int
  keepalive_sec :: int
  probe_timeout_sec :: int
  has_watchdog :: bool
  ticks_at :: "nat \<Rightarrow> int"
  wlan_connected_at :: "nat \<Rightarrow> bool option"
  wlan_status_at :: "nat \<Rightarrow> pyval option"
  wlan_connect_at :: "nat \<Rightarrow> bool"
  ifconfig_at :: "nat \<Rightarrow> pyval list option"
  rssi_at :: "nat \<Rightarrow> pyval option"
  handshake_at :: "nat \<Rightarrow> inbound list \<times> exc option"
  exchange_at :: "nat \<Rightarrow> inbound list \<times> exc option"
  poll_at :: "nat \<Rightarrow> inbound list \<times> exc option"
  ping_at :: "nat \<Rightarrow> inbound list \<times> exc option"
  core1_activity_at :: "nat \<Rightarrow> int option"
  core1_puts_at :: "nat \<Rightarrow> (string \<times> pyval \<times> pyval) list"
  storage :: "nat \<Rightarrow> fate"
  event_env :: ev_env
  out_env :: env
  exc_text :: "exc \<Rightarrow> string"
  gmtime_accepts :: "int \<Rightarrow> bool"

text \<open>
  The state. \<open>claimed\<close> logs every claimed command id, \<open>sent\<close> every enveloped frame with its
  sequence when its exchange begins, \<open>acked\<close> the same when it is acknowledged, \<open>resets\<close>
  the causes of \<open>machine.reset\<close>; \<open>feeds\<close> counts the watchdog feeds.
\<close>

datatype reset_cause = Reboot_commanded | Core_1_stale

record core0 =
  c0_clock :: nat
  recent_command_ids :: "string list"
  pending_core0_responses :: "response list"
  pending_reboot :: "reboot_request option"
  c0_events :: evq
  c0_outbound :: outq
  c0_mailboxes :: mailboxes
  c0_store :: store
  c0_uptime :: uptime_state
  utc_request_counter :: nat
  pending_utc_request_id :: "string option"
  utc_request_deadline_ms :: "int option"
  utc_last_attempt_ms :: "int option"
  c0_utc_snapshot :: "utc_snap option"
  last_publish_completed_ms :: "int option"
  last_command_poll_ms :: int
  last_network_snapshot_ms :: "int option"
  next_sequence :: int
  network_stack_ready :: bool
  mqtt_connected :: bool
  mqtt_connect_count :: nat
  mqtt_disconnect_count :: nat
  mqtt_last_reason :: "string option"
  mqtt_last_activity_ms :: int
  wlan_active :: bool
  wifi_was_connected :: bool
  wifi_connect_count :: nat
  wifi_disconnect_count :: nat
  led_connecting :: bool
  wdt_armed :: bool
  claimed :: "string list"
  sent :: "(int \<times> string \<times> string) list"
  acked :: "(int \<times> string \<times> string) list"
  resets :: "reset_cause list"
  feeds :: nat

type_synonym 'a c0 = "(c0_world, core0, 'a) prog"

definition read_ticks :: "int c0" where
  "read_ticks w s = (Return (ticks_at w (c0_clock s)), s\<lparr>c0_clock := Suc (c0_clock s)\<rparr>)"

definition uptime_ms :: "int c0" where
  "uptime_ms =
     io_bind read_ticks (\<lambda>now w s.
       (let (u, st) = current_uptime_ms now (c0_uptime s) in (Return u, s\<lparr>c0_uptime := st\<rparr>)))"

definition utc_text :: "c0_world \<Rightarrow> int \<Rightarrow> string res" where
  "utc_text w epoch_ms =
     (if gmtime_accepts w (epoch_ms div 1000)
      then Inr (case format_utc_epoch_ms (Some epoch_ms) of None \<Rightarrow> [] | Some t \<Rightarrow> t)
      else Inl OverflowError)"

definition current_utc_timestamp :: "pyval c0" where
  "current_utc_timestamp w s =
     (case c0_utc_snapshot s of
        None \<Rightarrow> (Return PNone, s)
      | Some snap \<Rightarrow>
          io_bind uptime_ms (\<lambda>u. io_ask (\<lambda>w.
            io_bind (io_res (utc_text w (us_runtime_start_ms snap + u))) (\<lambda>t. io_return (PStr t)))) w s)"

subsection \<open>Responses\<close>

definition MAX_PENDING_CORE0_RESPONSES :: nat where "MAX_PENDING_CORE0_RESPONSES = 4"

definition queue_core0_response :: "response \<Rightarrow> bool c0" where
  "queue_core0_response r w s =
     (if length (pending_core0_responses s) \<ge> MAX_PENDING_CORE0_RESPONSES then (Return False, s)
      else (Return True, s\<lparr>pending_core0_responses := pending_core0_responses s @ [r]\<rparr>))"

definition error_dict :: "string \<Rightarrow> string \<Rightarrow> pydict" where
  "error_dict code message = [(PStr ''code'', PStr code), (PStr ''message'', PStr message)]"

definition unknown_fields_entry :: "string list \<Rightarrow> pydict" where
  "unknown_fields_entry ks = [(PStr ''unknown_fields'', PList (map PStr ks))]"

definition command_error :: "string \<Rightarrow> bool \<Rightarrow> pyval \<Rightarrow> pydict \<Rightarrow> response" where
  "command_error command_id targeted command error =
     \<lparr>r_command_id = command_id,
      r_command = (if is_bounded_command command then Some (the_str command) else None),
      r_targeted = targeted, r_success = False, r_data = PNone, r_error = error,
      r_track = untracked, r_clears_pending_reboot = False\<rparr>"

definition command_failure :: "string \<Rightarrow> string \<Rightarrow> bool \<Rightarrow> pydict \<Rightarrow> response" where
  "command_failure command command_id targeted error =
     \<lparr>r_command_id = command_id, r_command = Some command, r_targeted = targeted,
      r_success = False, r_data = PNone, r_error = error,
      r_track = untracked, r_clears_pending_reboot = False\<rparr>"

definition command_success :: "string \<Rightarrow> string \<Rightarrow> bool \<Rightarrow> pyval \<Rightarrow> response" where
  "command_success command command_id targeted data =
     \<lparr>r_command_id = command_id, r_command = Some command, r_targeted = targeted,
      r_success = True, r_data = data, r_error = [],
      r_track = untracked, r_clears_pending_reboot = False\<rparr>"

definition answer :: "response \<Rightarrow> unit c0" where
  "answer r = io_bind (queue_core0_response r) (\<lambda>_. io_return ())"

definition unknown_fields_error :: "string \<Rightarrow> string \<Rightarrow> bool \<Rightarrow> pydict \<Rightarrow> response" where
  "unknown_fields_error command command_id targeted payload =
     command_failure command command_id targeted
       (error_dict ''unknown_fields'' (command @ '' payload contains unknown fields'')
        @ unknown_fields_entry (sort (str_keys payload)))"

subsection \<open>The debounce cache\<close>

definition RECENT_COMMAND_ID_CAPACITY :: nat where "RECENT_COMMAND_ID_CAPACITY = 16"

definition is_recent_command_id :: "string \<Rightarrow> core0 \<Rightarrow> bool" where
  "is_recent_command_id i s \<longleftrightarrow> i \<in> set (recent_command_ids s)"

definition remember_command_id :: "string \<Rightarrow> unit c0" where
  "remember_command_id i w s =
     (let ids = recent_command_ids s @ [i] in
      (Return (), s\<lparr>recent_command_ids := (if length ids > RECENT_COMMAND_ID_CAPACITY then tl ids else ids),
                    claimed := claimed s @ [i]\<rparr>))"

subsection \<open>The commands\<close>

definition handle_reboot_command :: "string \<Rightarrow> bool \<Rightarrow> pydict \<Rightarrow> unit c0" where
  "handle_reboot_command command_id targeted payload w s =
     (if payload \<noteq> [] then answer (unknown_fields_error COMMAND_REBOOT command_id targeted payload) w s
      else if pending_reboot s \<noteq> None
      then answer (command_failure COMMAND_REBOOT command_id targeted
             (error_dict ''reboot_already_pending'' ''A reboot is already pending'')) w s
      else (Return (), s\<lparr>pending_reboot := Some \<lparr>rb_command_id = command_id, rb_targeted = targeted,
                                              rb_track = untracked, rb_answer_queued = False\<rparr>\<rparr>))"

definition details_event :: "string \<Rightarrow> bool \<Rightarrow> pyval" where
  "details_event command_id targeted =
     PDict [(PStr ''command_id'', PStr command_id), (PStr ''command'', PStr COMMAND_GET_DETAILS),
            (PStr ''payload'', PDict []), (PStr ''targeted'', PBool targeted)]"

definition put_event :: "pyval \<Rightarrow> bool c0" where
  "put_event event w s =
     (case ev_put (event_env w) event (c0_events s) of
        (Inl e, q) \<Rightarrow> (Raise e, s\<lparr>c0_events := q\<rparr>)
      | (Inr b, q) \<Rightarrow> (Return b, s\<lparr>c0_events := q\<rparr>))"

definition handle_get_details_command :: "string \<Rightarrow> bool \<Rightarrow> pydict \<Rightarrow> unit c0" where
  "handle_get_details_command command_id targeted payload =
     (if payload \<noteq> [] then answer (unknown_fields_error COMMAND_GET_DETAILS command_id targeted payload)
      else io_bind (put_event (details_event command_id targeted)) (\<lambda>accepted.
           if accepted then io_return ()
           else answer (command_failure COMMAND_GET_DETAILS command_id targeted
                  (error_dict ''intercore_event_queue_memory_pressure''
                              ''Insufficient free heap to queue the Core 1 event''))))"

definition on_store :: "'a io \<Rightarrow> 'a c0" where
  "on_store m w s = (case m (storage w) (c0_store s) of (r, t) \<Rightarrow> (r, s\<lparr>c0_store := t\<rparr>))"

text \<open>\<open>except ConfigError as err: <answer>\<close>; every other exception passes.\<close>

definition catch_config_error :: "('a \<Rightarrow> unit c0) \<Rightarrow> (exc \<Rightarrow> unit c0) \<Rightarrow> 'a c0 \<Rightarrow> unit c0" where
  "catch_config_error continue handler m =
     io_bind (io_try (io_bind m (\<lambda>x. io_return (Inr x)))
                (\<lambda>e. if is_config_error e then io_return (Inl e) else io_raise e))
       (\<lambda>r. case r of Inl e \<Rightarrow> handler e | Inr x \<Rightarrow> continue x)"

definition handle_read_config_command :: "string \<Rightarrow> bool \<Rightarrow> pydict \<Rightarrow> unit c0" where
  "handle_read_config_command command_id targeted payload =
     (if payload \<noteq> [] then answer (unknown_fields_error COMMAND_READ_CONFIG command_id targeted payload)
      else catch_config_error
        (\<lambda>persisted. io_bind (io_get (reboot_flag \<circ> c0_store)) (\<lambda>r.
           answer (command_success COMMAND_READ_CONFIG command_id targeted
             (PDict [(PStr ''config'', persisted), (PStr ''reboot_required'', PBool r)]))))
        (\<lambda>e. io_ask (\<lambda>w. answer (command_error command_id targeted (PStr COMMAND_READ_CONFIG)
                 (error_dict ''config_unavailable'' (exc_text w e)))))
        (on_store read_persisted))"

fun err_code_text :: "err_code \<Rightarrow> string" where
  "err_code_text Code_invalid_value = ''invalid_value''"
| "err_code_text Code_missing_key = ''missing_key''"
| "err_code_text Code_unknown_config_fields = ''unknown_config_fields''"
| "err_code_text Code_unsupported_device_type = ''unsupported_device_type''"
| "err_code_text Code_invalid_config_schema_version = ''invalid_config_schema_version''"
| "err_code_text Code_unreadable_file = ''unreadable_file''"
| "err_code_text Code_storage_error = ''storage_error''"

fun config_error_dict :: "(exc \<Rightarrow> string) \<Rightarrow> exc \<Rightarrow> pydict" where
  "config_error_dict txt (ConfigError code unknown received) =
     error_dict (err_code_text code) (txt (ConfigError code unknown received))
     @ (if unknown \<noteq> [] then unknown_fields_entry unknown else [])
     @ (case received of
          None \<Rightarrow> []
        | Some v \<Rightarrow> [(PStr ''expected'', PInt CONFIG_SCHEMA_VERSION), (PStr ''received'', PInt v)])"
| "config_error_dict txt e = []"

definition write_config_success :: "string \<Rightarrow> bool \<Rightarrow> write_result \<Rightarrow> bool \<Rightarrow> response" where
  "write_config_success command_id targeted result reboot_required =
     command_success COMMAND_WRITE_CONFIG command_id targeted
       (PDict [(PStr ''configuration_changed'', PBool (wr_classification result \<noteq> UNCHANGED)),
               (PStr ''classification'', PStr (case wr_classification result of
                   UNCHANGED \<Rightarrow> ''UNCHANGED'' | REBOOT_REQUIRED \<Rightarrow> ''REBOOT_REQUIRED'')),
               (PStr ''reboot_required'', PBool reboot_required),
               (PStr ''changes'', PList (wr_changes result))])"

definition handle_write_config_command :: "string \<Rightarrow> bool \<Rightarrow> pydict \<Rightarrow> unit c0" where
  "handle_write_config_command command_id targeted payload =
     (let unknown = sort (filter (\<lambda>k. k \<noteq> ''config'') (str_keys payload));
          fail = (\<lambda>error. answer (command_error command_id targeted (PStr COMMAND_WRITE_CONFIG) error))
      in if unknown \<noteq> []
         then fail (error_dict ''unknown_fields'' ''write-config payload contains unknown fields''
                    @ unknown_fields_entry unknown)
         else if \<not> dhas payload ''config''
         then fail (error_dict ''missing_key'' ''write-config payload is missing the required config key'')
         else if \<not> is_dict (dget_none payload ''config'')
         then fail (error_dict ''invalid_value'' ''write-config payload config must be an object'')
         else catch_config_error
           (\<lambda>result. io_bind (io_get (reboot_flag \<circ> c0_store)) (\<lambda>r.
              answer (write_config_success command_id targeted result r)))
           (\<lambda>e. io_ask (\<lambda>w. fail (config_error_dict (exc_text w) e)))
           (on_store (begin_write (dget_none payload ''config''))))"

subsection \<open>UTC answers\<close>

definition UTC_RETRY_INTERVAL_MS :: int where "UTC_RETRY_INTERVAL_MS = 30000"
definition UTC_PROMPT_RETRY_DELAY_MS :: int where "UTC_PROMPT_RETRY_DELAY_MS = 500"

definition utc_clear_pending :: "unit c0" where
  "utc_clear_pending =
     io_set (\<lambda>s. s\<lparr>pending_utc_request_id := None, utc_request_deadline_ms := None\<rparr>)"

definition utc_note_reachable_failure :: "unit c0" where
  "utc_note_reachable_failure =
     io_bind utc_clear_pending (\<lambda>_. io_bind read_ticks (\<lambda>now.
     io_bind (io_res (ticks_add now (UTC_PROMPT_RETRY_DELAY_MS - UTC_RETRY_INTERVAL_MS))) (\<lambda>t.
       io_set (\<lambda>s. s\<lparr>utc_last_attempt_ms := Some t\<rparr>))))"

definition utc_snapshot_dict :: "utc_snap \<Rightarrow> pyval" where
  "utc_snapshot_dict snap =
     PDict [(PStr ''timestamp'', PStr (us_timestamp snap)), (PStr ''utc_epoch_ms'', PInt (us_epoch_ms snap)),
            (PStr ''sync_uptime_ms'', PInt (us_sync_uptime_ms snap)),
            (PStr ''runtime_start_epoch_ms'', PInt (us_runtime_start_ms snap))]"

definition accept_utc :: "int \<Rightarrow> string \<Rightarrow> unit c0" where
  "accept_utc epoch_ms normalized =
     io_bind uptime_ms (\<lambda>sync w s.
       (let snap = \<lparr>us_timestamp = normalized, us_epoch_ms = epoch_ms, us_sync_uptime_ms = sync,
                    us_runtime_start_ms = epoch_ms - sync\<rparr>;
            s1 = s\<lparr>c0_utc_snapshot := Some snap\<rparr>
        in io_bind (io_res (set_utc_snapshot (utc_snapshot_dict snap) (c0_mailboxes s1))) (\<lambda>m.
           io_bind (io_set (\<lambda>s. s\<lparr>c0_mailboxes := m\<rparr>)) (\<lambda>_. utc_clear_pending)) w s1))"

definition utc_answer_wanted :: "pydict \<Rightarrow> string \<Rightarrow> core0 \<Rightarrow> bool" where
  "utc_answer_wanted doc source s \<longleftrightarrow>
     dget_none doc ''source'' \<in> {PStr ''server'', PStr source}
   \<and> dget_none doc ''target'' = PStr source
   \<and> dget_none doc ''request_type'' = PStr ''utc_time''
   \<and> (\<exists>i \<in> set_option (pending_utc_request_id s). dget_none doc ''request_id'' = PStr i)"

definition utc_payload_ok :: "pyval \<Rightarrow> bool" where
  "utc_payload_ok payload \<longleftrightarrow>
     is_dict payload
   \<and> is_str (dget_none (the_dict payload) ''timestamp'') \<and> the_str (dget_none (the_dict payload) ''timestamp'') \<noteq> []
   \<and> is_int (dget_none (the_dict payload) ''utc_epoch_ms'') \<and> the_int (dget_none (the_dict payload) ''utc_epoch_ms'') > 0"

definition handle_info_response :: "pydict \<Rightarrow> unit c0" where
  "handle_info_response doc w s =
     (if \<not> utc_answer_wanted doc (c_source (config w)) s then (Return (), s)
      else (let payload = dget_none doc ''payload'' in
        if \<not> utc_payload_ok payload then utc_note_reachable_failure w s
        else (let epoch_ms = the_int (dget_none (the_dict payload) ''utc_epoch_ms'') in
          case utc_text w epoch_ms of
            Inl e \<Rightarrow> utc_note_reachable_failure w s
          | Inr normalized \<Rightarrow> accept_utc epoch_ms normalized w s)))"

subsection \<open>The message callback\<close>

definition wifi_is_connected :: "c0_world \<Rightarrow> core0 \<Rightarrow> bool" where
  "wifi_is_connected w s \<longleftrightarrow> wlan_active s \<and> wlan_connected_at w (c0_clock s) = Some True"

definition ip_address :: "c0_world \<Rightarrow> core0 \<Rightarrow> pyval" where
  "ip_address w s =
     (if wifi_is_connected w s
      then (case ifconfig_at w (c0_clock s) of Some (ip # rest) \<Rightarrow> ip | _ \<Rightarrow> PNone) else PNone)"

definition target_matches :: "pyval \<Rightarrow> c0_world \<Rightarrow> core0 \<Rightarrow> bool" where
  "target_matches target w s \<longleftrightarrow>
     is_bounded_target target
   \<and> (target = PStr BROADCAST_TARGET
      \<or> py_lower (the_str target) = py_lower (c_source (config w))
      \<or> (is_str (ip_address w s) \<and> py_lower (the_str target) = py_lower (the_str (ip_address w s))))"

text \<open>The handler of a claimed command: every stage after the id is remembered.\<close>

definition dispatch_command :: "string \<Rightarrow> bool \<Rightarrow> string \<Rightarrow> pydict \<Rightarrow> unit c0" where
  "dispatch_command command_id targeted command payload =
     (if \<not> is_supported_command command
      then answer (command_error command_id targeted (PStr command)
             (error_dict ''unsupported_command'' ''Unsupported command''))
      else if command = COMMAND_WRITE_CONFIG \<and> \<not> targeted then io_return ()
      else if command = COMMAND_REBOOT then handle_reboot_command command_id targeted payload
      else if command = COMMAND_GET_DETAILS then handle_get_details_command command_id targeted payload
      else if command = COMMAND_READ_CONFIG then handle_read_config_command command_id targeted payload
      else if command = COMMAND_WRITE_CONFIG then handle_write_config_command command_id targeted payload
      else io_return ())"

definition validate_and_dispatch :: "string \<Rightarrow> bool \<Rightarrow> pydict \<Rightarrow> unit c0" where
  "validate_and_dispatch command_id targeted doc =
     (let unknown = unknown_keys doc COMMAND_ENVELOPE_KEYS;
          command = dget_none doc ''command'';
          payload = dget_none doc ''payload'';
          fail = (\<lambda>error. answer (command_error command_id targeted command error))
      in if unknown \<noteq> []
         then fail (error_dict ''unknown_fields'' ''Message contains unknown fields''
                    @ unknown_fields_entry unknown)
         else if \<not> is_str command \<or> the_str command = []
         then fail (error_dict ''invalid_command'' ''Command must be a non-empty string'')
         else if \<not> dhas doc ''payload''
         then fail (error_dict ''invalid_payload'' ''command payload is required'')
         else if py_len (the_str command) > MAX_COMMAND_LENGTH
         then fail (error_dict ''invalid_command'' ''Command name exceeds the 32 character bound'')
         else if \<not> is_dict payload
         then fail (error_dict ''invalid_payload'' ''command payload must be an object'')
         else dispatch_command command_id targeted (the_str command) (the_dict payload))"

text \<open>A command message, up to the claim of its id.\<close>

definition handle_command_message :: "pydict \<Rightarrow> unit c0" where
  "handle_command_message doc w s =
     (let target = dget_none doc ''target''; i = dget_none doc ''command_id'' in
      if dget_none doc ''message_type'' \<noteq> PStr ''command'' then (Return (), s)
      else if \<not> target_matches target w s then (Return (), s)
      else if \<not> is_bounded_command_id i then (Return (), s)
      else if is_recent_command_id (the_str i) s then (Return (), s)
      else if length (pending_core0_responses s) \<ge> MAX_PENDING_CORE0_RESPONSES then (Return (), s)
      else io_bind (remember_command_id (the_str i)) (\<lambda>_.
           validate_and_dispatch (the_str i) (target \<noteq> PStr BROADCAST_TARGET) doc) w s)"

text \<open>The topic decodes and the payload parses, or the message is ignored; only \<open>MemoryError\<close> escapes.\<close>

definition parse_message :: "string res \<Rightarrow> pyval res \<Rightarrow> (string \<times> pyval) option res" where
  "parse_message topic payload =
     (case andthen topic (\<lambda>t. andthen payload (\<lambda>v. Inr (t, v))) of
        Inr tv \<Rightarrow> Inr (Some tv)
      | Inl e \<Rightarrow> if e = MemoryError then Inl MemoryError else Inr None)"

definition on_mqtt_message :: "string res \<Rightarrow> pyval res \<Rightarrow> unit c0" where
  "on_mqtt_message topic payload w s =
     (case parse_message topic payload of
        Inl e \<Rightarrow> (Raise e, s)
      | Inr None \<Rightarrow> (Return (), s)
      | Inr (Some (t, v)) \<Rightarrow>
         (let doc = the_dict v in
          if \<not> is_dict v then (Return (), s)
          else if dget_none doc ''message_schema_version'' \<noteq> PInt MESSAGE_SCHEMA_VERSION then (Return (), s)
          else if t = c_topic_info_response (config w)
          then (if dget_none doc ''message_type'' = PStr ''info_response''
                then handle_info_response doc w s else (Return (), s))
          else if t \<noteq> c_topic_command (config w) then (Return (), s)
          else handle_command_message doc w s))"

subsection \<open>Sequences of messages\<close>

text \<open>The messages delivered by one pump, in order; an exception stops the pump.\<close>

fun deliver :: "inbound list \<Rightarrow> unit c0" where
  "deliver [] = io_return ()"
| "deliver ((t, p) # rest) = io_bind (on_mqtt_message t p) (\<lambda>_. deliver rest)"

subsection \<open>What a handler may do\<close>

text \<open>
  The effects of one claimed command. It raises nothing but what the storage raises, and
  it leaves exactly one trace of its id: an answer in the reserved slot, the pending
  reboot, or the event for Core 1; a broadcast write-config leaves none.
\<close>

datatype trace = Answered response | Reboot_held | Forwarded | Dropped

definition left_trace :: "string \<Rightarrow> bool \<Rightarrow> core0 \<Rightarrow> core0 \<Rightarrow> trace \<Rightarrow> bool" where
  "left_trace i targeted s t tr \<longleftrightarrow>
     (case tr of
        Answered r \<Rightarrow> r_command_id r = i \<and> r_targeted r = targeted \<and> r_track r = untracked
          \<and> pending_core0_responses t = pending_core0_responses s @ [r]
          \<and> pending_reboot t = pending_reboot s \<and> ev_history (c0_events t) = ev_history (c0_events s)
      | Reboot_held \<Rightarrow> pending_core0_responses t = pending_core0_responses s \<and> pending_reboot s = None
          \<and> pending_reboot t = Some \<lparr>rb_command_id = i, rb_targeted = targeted,
                                    rb_track = untracked, rb_answer_queued = False\<rparr>
          \<and> c0_events t = c0_events s
      | Forwarded \<Rightarrow> pending_core0_responses t = pending_core0_responses s
          \<and> pending_reboot t = pending_reboot s
          \<and> ev_history (c0_events t) = ev_history (c0_events s) @ [details_event i targeted]
      | Dropped \<Rightarrow> \<not> targeted \<and> pending_core0_responses t = pending_core0_responses s
          \<and> pending_reboot t = pending_reboot s \<and> c0_events t = c0_events s \<and> c0_store t = c0_store s)"

text \<open>Everything a command handler leaves alone.\<close>

definition same_outside :: "core0 \<Rightarrow> core0 \<Rightarrow> bool" where
  "same_outside s t \<longleftrightarrow>
     t\<lparr>pending_core0_responses := pending_core0_responses s, pending_reboot := pending_reboot s,
       c0_events := c0_events s, c0_store := c0_store s\<rparr> = s"

lemma same_outside_refl [simp]: "same_outside s s"
  by (simp add: same_outside_def)

lemma same_outside_upd [simp]:
  "same_outside s (t\<lparr>pending_core0_responses := x\<rparr>) = same_outside s t"
  "same_outside s (t\<lparr>pending_reboot := y\<rparr>) = same_outside s t"
  "same_outside s (t\<lparr>c0_events := q\<rparr>) = same_outside s t"
  "same_outside s (t\<lparr>c0_store := st\<rparr>) = same_outside s t"
  by (simp_all add: same_outside_def)

definition handled :: "string \<Rightarrow> bool \<Rightarrow> core0 \<Rightarrow> unit outcome \<Rightarrow> core0 \<Rightarrow> bool" where
  "handled i targeted s r t \<longleftrightarrow> same_outside s t
     \<and> (case r of
          Return u \<Rightarrow> \<exists>tr. left_trace i targeted s t tr
        | _ \<Rightarrow> pending_core0_responses t = pending_core0_responses s \<and> pending_reboot t = pending_reboot s
               \<and> c0_events t = c0_events s)"

lemma run_to_answer [simp]:
  "run_to (answer r) w s Q =
     (if length (pending_core0_responses s) \<ge> MAX_PENDING_CORE0_RESPONSES then Q (Return ()) s
      else Q (Return ()) (s\<lparr>pending_core0_responses := pending_core0_responses s @ [r]\<rparr>))"
  by (simp add: answer_def queue_core0_response_def run_to_def io_bind_def io_return_def)

abbreviation slot_free :: "core0 \<Rightarrow> bool" where
  "slot_free s \<equiv> length (pending_core0_responses s) < MAX_PENDING_CORE0_RESPONSES"

lemma handled_queued:
  assumes "r_command_id r = i" "r_targeted r = targeted" "r_track r = untracked"
    and "same_outside s t" "pending_reboot t = pending_reboot s"
    "ev_history (c0_events t) = ev_history (c0_events s)" "rs = pending_core0_responses s"
  shows "handled i targeted s (Return u) (t\<lparr>pending_core0_responses := rs @ [r]\<rparr>)"
  using assms by (auto simp: handled_def left_trace_def intro!: exI [of _ "Answered r"])

lemma run_to_on_store [simp]:
  "run_to (on_store m) w s Q = run_to m (storage w) (c0_store s) (\<lambda>r t. Q r (s\<lparr>c0_store := t\<rparr>))"
  by (auto simp: run_to_def on_store_def split: prod.splits)

lemma run_to_catch_config_error [simp]:
  "run_to (catch_config_error continue handler m) w s Q =
     run_to m w s (\<lambda>r t. case r of
         Return x \<Rightarrow> run_to (continue x) w t Q
       | Raise e \<Rightarrow> if is_config_error e then run_to (handler e) w t Q else Q (Raise e) t
       | Cut \<Rightarrow> Q Cut t)"
  unfolding catch_config_error_def
  by (auto simp: run_to_def io_bind_def io_try_def io_return_def io_raise_def
      split: outcome.splits prod.splits)

lemma run_to_put_event:
  assumes "is_dict event"
    and "\<And>q. ev_history q = ev_history (c0_events s) @ [event] \<Longrightarrow> Q (Return True) (s\<lparr>c0_events := q\<rparr>)"
    and "\<And>q. ev_history q = ev_history (c0_events s) \<Longrightarrow> Q (Return False) (s\<lparr>c0_events := q\<rparr>)"
  shows "run_to (put_event event) w s Q"
proof -
  obtain r q where p: "ev_put (event_env w) event (c0_events s) = (r, q)" by fastforce
  have ok: "case r of Inl e \<Rightarrow> e = ValueError \<and> \<not> is_dict event \<and> q = c0_events s
      | Inr True \<Rightarrow> ev_history q = ev_history (c0_events s) @ [event]
      | Inr False \<Rightarrow> ev_history q = ev_history (c0_events s)"
    using ev_put_summary [OF p] by (auto split: sum.splits bool.splits)
  show ?thesis
  proof (cases r)
    case (Inl e)
    with ok assms(1) show ?thesis by simp
  next
    case (Inr b)
    with ok p assms(2,3) show ?thesis by (cases b) (simp_all add: run_to_def put_event_def)
  qed
qed

lemma handled_stopped:
  assumes "same_outside s t" "pending_core0_responses t = pending_core0_responses s"
    "pending_reboot t = pending_reboot s" "c0_events t = c0_events s"
  shows "handled i targeted s (Raise e) t" and "handled i targeted s Cut t"
  using assms by (simp_all add: handled_def)

lemma handled_forwarded:
  "ev_history q = ev_history (c0_events s) @ [details_event i targeted]
   \<Longrightarrow> handled i targeted s (Return u) (s\<lparr>c0_events := q\<rparr>)"
  by (auto simp: handled_def left_trace_def intro!: exI [of _ Forwarded])

lemma response_fields [simp]:
  "r_command_id (command_error i targeted c e) = i"
  "r_targeted (command_error i targeted c e) = targeted"
  "r_track (command_error i targeted c e) = untracked"
  "r_command_id (command_failure k i targeted e) = i"
  "r_targeted (command_failure k i targeted e) = targeted"
  "r_track (command_failure k i targeted e) = untracked"
  "r_command_id (command_success k i targeted v) = i"
  "r_targeted (command_success k i targeted v) = targeted"
  "r_track (command_success k i targeted v) = untracked"
  "r_command_id (unknown_fields_error k i targeted d) = i"
  "r_targeted (unknown_fields_error k i targeted d) = targeted"
  "r_track (unknown_fields_error k i targeted d) = untracked"
  "r_command_id (write_config_success i targeted res b) = i"
  "r_targeted (write_config_success i targeted res b) = targeted"
  "r_track (write_config_success i targeted res b) = untracked"
  by (simp_all add: command_error_def command_failure_def command_success_def
      unknown_fields_error_def write_config_success_def)

lemma run_to_answer_handled:
  assumes "slot_free s" and "r_command_id r = i" "r_targeted r = targeted" "r_track r = untracked"
    and "same_outside s t" "pending_reboot t = pending_reboot s"
    "ev_history (c0_events t) = ev_history (c0_events s)"
    "pending_core0_responses t = pending_core0_responses s"
  shows "run_to (answer r) w t (handled i targeted s)"
  using assms by (auto intro!: handled_queued)

lemma handle_reboot:
  assumes "slot_free s"
  shows "run_to (handle_reboot_command i targeted payload) w s (handled i targeted s)"
proof (cases "payload = [] \<and> pending_reboot s = None")
  case True
  then show ?thesis
    by (auto simp: run_to_def handle_reboot_command_def handled_def left_trace_def
        intro!: exI [of _ Reboot_held])
next
  case False
  with run_to_answer_handled [OF assms, where t = s and i = i and targeted = targeted] show ?thesis
    by (auto simp: run_to_def handle_reboot_command_def)
qed

lemma handle_get_details:
  "slot_free s \<Longrightarrow> run_to (handle_get_details_command i targeted payload) w s (handled i targeted s)"
  unfolding handle_get_details_command_def
  by (auto simp del: run_to_answer simp: details_event_def [of i targeted]
      intro!: run_to_put_event run_to_answer_handled handled_forwarded)

lemma handle_read_config:
  "slot_free s \<Longrightarrow> run_to (handle_read_config_command i targeted payload) w s (handled i targeted s)"
  unfolding handle_read_config_command_def
  by (auto simp del: run_to_answer simp: run_to_def [of read_persisted] 
      intro!: run_to_answer_handled handled_stopped split: outcome.splits prod.splits)

lemma handle_write_config:
  "slot_free s \<Longrightarrow> run_to (handle_write_config_command i targeted payload) w s (handled i targeted s)"
  unfolding handle_write_config_command_def Let_def
  by (auto simp del: run_to_answer simp: run_to_def [of "begin_write _"]
      intro!: run_to_answer_handled handled_stopped split: outcome.splits prod.splits)

lemma handle_dispatch:
  assumes "slot_free s"
  shows "run_to (dispatch_command i targeted command payload) w s (handled i targeted s)"
proof -
  have dropped: "handled i targeted s (Return ()) s" if "\<not> targeted"
    using that by (auto simp: handled_def left_trace_def intro!: exI [of _ Dropped])
  show ?thesis
    using assms dropped handle_reboot handle_get_details handle_read_config handle_write_config
    by (auto simp del: run_to_answer simp: dispatch_command_def is_supported_command_def
        SUPPORTED_COMMANDS_def intro!: run_to_answer_handled)
qed

lemma handle_claimed:
  "slot_free s \<Longrightarrow> run_to (validate_and_dispatch i targeted doc) w s (handled i targeted s)"
  unfolding validate_and_dispatch_def Let_def
  by (auto simp del: run_to_answer intro!: run_to_answer_handled handle_dispatch)


subsection \<open>A message, start to end\<close>

text \<open>The state in which the handler of a claimed command starts.\<close>

definition claim :: "string \<Rightarrow> core0 \<Rightarrow> core0" where
  "claim i s = snd (remember_command_id i undefined s)"

lemma claim_simps [simp]:
  "remember_command_id i w s = (Return (), claim i s)"
  "claimed (claim i s) = claimed s @ [i]"
  "pending_core0_responses (claim i s) = pending_core0_responses s"
  "pending_reboot (claim i s) = pending_reboot s"
  "c0_events (claim i s) = c0_events s" "c0_store (claim i s) = c0_store s"
  by (simp_all add: claim_def remember_command_id_def Let_def)

definition is_claimable :: "pydict \<Rightarrow> c0_world \<Rightarrow> core0 \<Rightarrow> bool" where
  "is_claimable doc w s \<longleftrightarrow>
     dget_none doc ''message_schema_version'' = PInt MESSAGE_SCHEMA_VERSION
   \<and> dget_none doc ''message_type'' = PStr ''command''
   \<and> target_matches (dget_none doc ''target'') w s
   \<and> is_bounded_command_id (dget_none doc ''command_id'')
   \<and> the_str (dget_none doc ''command_id'') \<notin> set (recent_command_ids s)
   \<and> slot_free s"

text \<open>What a message that claims no id may change: the UTC exchange only.\<close>

definition utc_only :: "core0 \<Rightarrow> core0 \<Rightarrow> bool" where
  "utc_only s t \<longleftrightarrow> c0_clock s \<le> c0_clock t
   \<and> t\<lparr>c0_clock := c0_clock s, c0_uptime := c0_uptime s, c0_mailboxes := c0_mailboxes s,
       pending_utc_request_id := pending_utc_request_id s,
       utc_request_deadline_ms := utc_request_deadline_ms s,
       utc_last_attempt_ms := utc_last_attempt_ms s, c0_utc_snapshot := c0_utc_snapshot s\<rparr> = s"

lemma utc_only_refl [simp]: "utc_only s s"
  by (simp add: utc_only_def)

lemma run_to_ticks [simp]:
  "run_to read_ticks w s Q = Q (Return (ticks_at w (c0_clock s))) (s\<lparr>c0_clock := Suc (c0_clock s)\<rparr>)"
  by (simp add: run_to_def read_ticks_def)

lemma run_to_uptime:
  "run_to uptime_ms w s Q =
     (let now = ticks_at w (c0_clock s); u = accumulated_ms (c0_uptime s) + ticks_diff now (last_ticks_ms (c0_uptime s))
      in Q (Return u) (s\<lparr>c0_clock := Suc (c0_clock s),
                        c0_uptime := c0_uptime s\<lparr>accumulated_ms := u, last_ticks_ms := now\<rparr>\<rparr>))"
  by (simp add: run_to_def uptime_ms_def io_bind_def read_ticks_def current_uptime_ms_def Let_def)

lemma run_to_note_failure:
  "run_to utc_note_reachable_failure w s (\<lambda>r t. r = Return () \<and> utc_only s t)"
  by (simp add: utc_note_reachable_failure_def utc_clear_pending_def utc_only_def ticks_add_def
      ticks_half_def UTC_PROMPT_RETRY_DELAY_MS_def UTC_RETRY_INTERVAL_MS_def)

lemma run_to_accept_utc:
  "run_to (accept_utc epoch_ms normalized) w s (\<lambda>r t. r = Return () \<and> utc_only s t)"
  by (simp add: accept_utc_def run_to_uptime run_to_def [of "\<lambda>w s. _ w s"] Let_def io_bind_def io_res_def
      io_set_def io_return_def utc_clear_pending_def set_utc_snapshot_def utc_snapshot_dict_def utc_only_def
      read_ticks_def uptime_ms_def current_uptime_ms_def)

lemma run_to_info_response:
  "run_to (handle_info_response doc) w s (\<lambda>r t. r = Return () \<and> utc_only s t)"
proof (cases "utc_answer_wanted doc (c_source (config w)) s \<and> utc_payload_ok (dget_none doc ''payload'')")
  case True
  let ?e = "the_int (dget_none (the_dict (dget_none doc ''payload'')) ''utc_epoch_ms'')"
  show ?thesis
  proof (cases "utc_text w ?e")
    case (Inl e)
    with True run_to_note_failure [of w s] show ?thesis
      by (simp add: run_to_def handle_info_response_def Let_def)
  next
    case (Inr n)
    with True run_to_accept_utc [of ?e n w s] show ?thesis
      by (simp add: run_to_def handle_info_response_def Let_def)
  qed
next
  case False
  with run_to_note_failure [of w s] show ?thesis
    by (auto simp: run_to_def handle_info_response_def Let_def)
qed

lemma claimable_message:
  assumes "is_claimable doc w s"
  shows "handle_command_message doc w s =
    validate_and_dispatch (the_str (dget_none doc ''command_id''))
      (dget_none doc ''target'' \<noteq> PStr BROADCAST_TARGET) doc w (claim (the_str (dget_none doc ''command_id'')) s)"
  using assms
  by (simp add: handle_command_message_def is_claimable_def is_recent_command_id_def Let_def io_bind_def)

text \<open>A message either claims its id and runs the handler, or changes the UTC exchange at most.\<close>

lemma message_cases:
  assumes "on_mqtt_message topic payload w s = (r, t)"
  obtains (claimed) doc i where "payload = Inr (PDict doc)" and "topic = Inr (c_topic_command (config w))"
      and "is_claimable doc w s" and "dget_none doc ''command_id'' = PStr i"
      and "validate_and_dispatch i (dget_none doc ''target'' \<noteq> PStr BROADCAST_TARGET) doc w (claim i s) = (r, t)"
  | (other) "utc_only s t" and "r = Return () \<or> r = Raise MemoryError"
proof -
  show thesis
  proof (cases "\<exists>doc. payload = Inr (PDict doc) \<and> topic = Inr (c_topic_command (config w)) \<and> is_claimable doc w s
      \<and> c_topic_command (config w) \<noteq> c_topic_info_response (config w)")
    case True
    then obtain doc where d: "payload = Inr (PDict doc)" "topic = Inr (c_topic_command (config w))"
      "is_claimable doc w s" "c_topic_command (config w) \<noteq> c_topic_info_response (config w)" by blast
    obtain i where i: "dget_none doc ''command_id'' = PStr i"
      using d(3) by (cases "dget_none doc ''command_id''")
        (auto simp: is_claimable_def is_bounded_command_id_def bounded_string_def)
    have "on_mqtt_message topic payload w s = handle_command_message doc w s"
      using d by (simp add: on_mqtt_message_def parse_message_def is_claimable_def)
    with claimed [OF d(1-3) i] claimable_message [OF d(3)] i assms show thesis by simp
  next
    case False
    have quiet: "handle_command_message doc w s = (Return (), s)"
      if "dget_none doc ''message_schema_version'' = PInt MESSAGE_SCHEMA_VERSION" "\<not> is_claimable doc w s" for doc
      using that
      by (auto simp: handle_command_message_def is_claimable_def is_recent_command_id_def Let_def)
    have "utc_only s t \<and> (r = Return () \<or> r = Raise MemoryError)"
    proof (cases "parse_message topic payload")
      case (Inl e)
      with assms show ?thesis
        by (auto simp: on_mqtt_message_def parse_message_def split: sum.splits if_splits)
    next
      case (Inr tv)
      show ?thesis
      proof (cases tv)
        case None
        with Inr assms show ?thesis by (simp add: on_mqtt_message_def)
      next
        case (Some tv')
        obtain tp v where tv': "tv' = (tp, v)" by fastforce
        have in_out: "topic = Inr tp" "payload = Inr v"
          using Inr Some tv' by (auto simp: parse_message_def res_simps split: sum.splits if_splits)
        show ?thesis
          using assms Inr Some tv' in_out False quiet run_toD [OF run_to_info_response]
          by (cases v) (auto simp: on_mqtt_message_def Let_def split: if_splits)
      qed
    qed
    with other show thesis by blast
  qed
qed

subsection \<open>The invariant of the command boundary\<close>

lemma same_outside_eq:
  "same_outside s t \<Longrightarrow>
   t = s\<lparr>pending_core0_responses := pending_core0_responses t, pending_reboot := pending_reboot t,
         c0_events := c0_events t, c0_store := c0_store t\<rparr>"
  by (cases s; cases t) (simp add: same_outside_def)

lemma same_outside_fields:
  assumes "same_outside s t"
  shows "claimed t = claimed s" "recent_command_ids t = recent_command_ids s"
    "c0_outbound t = c0_outbound s" "sent t = sent s" "acked t = acked s" "next_sequence t = next_sequence s"
    "mqtt_connected t = mqtt_connected s" "resets t = resets s" "c0_utc_snapshot t = c0_utc_snapshot s"
    "c0_clock t = c0_clock s" "wlan_active t = wlan_active s"
  by (subst same_outside_eq [OF assms], simp)+

lemma utc_only_fields:
  assumes "utc_only s t"
  shows "claimed t = claimed s" "recent_command_ids t = recent_command_ids s"
    "pending_core0_responses t = pending_core0_responses s" "pending_reboot t = pending_reboot s"
    "c0_events t = c0_events s" "c0_store t = c0_store s" "c0_outbound t = c0_outbound s"
    "sent t = sent s" "acked t = acked s" "next_sequence t = next_sequence s" "mqtt_connected t = mqtt_connected s"
    "resets t = resets s" "c0_clock s \<le> c0_clock t" "wlan_active t = wlan_active s"
  using assms by (cases s; cases t; simp add: utc_only_def)+

definition debounced :: "core0 \<Rightarrow> bool" where
  "debounced s \<longleftrightarrow>
     recent_command_ids s = drop (length (claimed s) - RECENT_COMMAND_ID_CAPACITY) (claimed s)
   \<and> (\<forall>k. distinct (take (Suc RECENT_COMMAND_ID_CAPACITY) (drop k (claimed s))))
   \<and> length (pending_core0_responses s) \<le> MAX_PENDING_CORE0_RESPONSES"

lemma window_snoc:
  assumes "\<forall>k. distinct (take (Suc n) (drop k xs))" and "x \<notin> set (drop (length xs - n) xs)"
  shows "distinct (take (Suc n) (drop k (xs @ [x])))"
proof (cases "k + Suc n \<le> length xs")
  case True
  have "drop k (xs @ [x]) = drop k xs @ [x]" using True by simp
  moreover have "Suc n - length (drop k xs) = 0" using True by simp
  ultimately have "take (Suc n) (drop k (xs @ [x])) = take (Suc n) (drop k xs)"
    by (simp only: take_append take_0 append_Nil2)
  then show ?thesis using assms(1) by metis
next
  case False
  have d: "distinct (drop k xs)"
  proof -
    have "take (Suc n) (drop k xs) = drop k xs" using False by simp
    then show ?thesis using assms(1) by metis
  qed
  have "set (drop k xs) \<subseteq> set (drop (length xs - n) xs)"
    using False by (intro set_drop_subset_set_drop) simp
  then have "x \<notin> set (drop k xs)" using assms(2) by blast
  with d show ?thesis using False by (cases "k \<le> length xs") (auto intro: distinct_take)
qed

lemma cache_snoc:
  "(if length (drop (length c - n) c @ [i]) > n then tl (drop (length c - n) c @ [i])
    else drop (length c - n) c @ [i]) = drop (Suc (length c) - n) (c @ [i])"
proof (cases "n \<le> length c")
  case True
  have "drop (length c - n) c @ [i] = drop (length c - n) (c @ [i])" by simp
  then have "tl (drop (length c - n) c @ [i]) = drop (Suc (length c - n)) (c @ [i])"
    by (simp only: drop_Suc tl_drop)
  with True show ?thesis by (simp add: Suc_diff_le)
qed simp

lemma debounced_claim:
  assumes "debounced s" and "i \<notin> set (recent_command_ids s)"
  shows "debounced (claim i s)"
proof -
  let ?c = "claimed s" and ?n = RECENT_COMMAND_ID_CAPACITY
  have r: "recent_command_ids s = drop (length ?c - ?n) ?c"
    and w: "\<forall>k. distinct (take (Suc ?n) (drop k ?c))" and p: "length (pending_core0_responses s) \<le> MAX_PENDING_CORE0_RESPONSES"
    using assms(1) by (simp_all add: debounced_def)
  have "recent_command_ids (claim i s) = drop (Suc (length ?c) - ?n) (?c @ [i])"
    unfolding claim_def remember_command_id_def Let_def r
    by (simp only: snd_conv cache_snoc) simp
  moreover have "distinct (take (Suc ?n) (drop k (?c @ [i])))" for k
    by (rule window_snoc [OF w]) (use assms(2) r in simp)
  ultimately show ?thesis using p by (simp add: debounced_def)
qed

lemma handled_pending:
  assumes "handled i targeted s r t" and "slot_free s"
  shows "length (pending_core0_responses t) \<le> MAX_PENDING_CORE0_RESPONSES"
  using assms by (auto simp: handled_def left_trace_def split: outcome.splits trace.splits)

lemma claimableD:
  assumes "is_claimable doc w s"
  shows "slot_free s" and "the_str (dget_none doc ''command_id'') \<notin> set (recent_command_ids s)"
  using assms unfolding is_claimable_def by blast+

lemma claimed_handled:
  assumes "is_claimable doc w s" and "dget_none doc ''command_id'' = PStr i"
    and "validate_and_dispatch i targeted doc w (claim i s) = (r, t)"
  shows "slot_free s" and "i \<notin> set (recent_command_ids s)" and "handled i targeted (claim i s) r t"
    and "claimed t = claimed s @ [i]"
proof -
  show sl: "slot_free s" by (rule claimableD(1) [OF assms(1)])
  show "i \<notin> set (recent_command_ids s)"
    using claimableD(2) [OF assms(1)] by (simp only: assms(2) the_str.simps not_False_eq_True)
  have "slot_free (claim i s)" using sl by (simp only: claim_simps)
  from handle_claimed [OF this, of i targeted doc w]
  show h: "handled i targeted (claim i s) r t"
    unfolding run_to_def assms(3) by (simp only: prod.case)
  then show "claimed t = claimed s @ [i]"
    using same_outside_fields(1) [of "claim i s" t] by (simp add: handled_def)
qed

lemma debounced_message:
  assumes "on_mqtt_message topic payload w s = (r, t)" and "debounced s"
  shows "debounced t"
  using assms(1)
proof (cases rule: message_cases)
  case (claimed doc i)
  note c = claimed_handled [OF claimed(3-5)]
  have sl: "slot_free (claim i s)" using c(1) by (simp only: claim_simps)
  have "same_outside (claim i s) t" using c(3) by (simp add: handled_def)
  note same = same_outside_fields(1,2) [OF this]
  from handled_pending [OF c(3) sl] debounced_claim [OF assms(2) c(2)] show ?thesis
    unfolding debounced_def same by blast
next
  case other
  from assms(2) show ?thesis
    unfolding debounced_def utc_only_fields(1-3) [OF other(1)] .
qed

lemma debounced_deliver: "debounced s \<Longrightarrow> run_to (deliver msgs) w s (\<lambda>r t. debounced t)"
proof (induction msgs arbitrary: s)
  case (Cons m msgs)
  obtain tp p where m: "m = (tp, p)" by fastforce
  show ?case
    unfolding m deliver.simps run_to_bind
    by (rule run_toI) (use Cons debounced_message in \<open>auto split: outcome.splits\<close>)
qed simp

subsection \<open>Which exceptions an inbound message can raise\<close>

definition prog_raises :: "(exc \<Rightarrow> bool) \<Rightarrow> ('w, 's, 'a) prog \<Rightarrow> bool" where
  "prog_raises P m \<longleftrightarrow> (\<forall>w s. run_to m w s (\<lambda>r t. \<forall>e. r = Raise e \<longrightarrow> P e))"

named_theorems prog_raise_rules \<open>exceptions of programs\<close>

lemma prog_raises_basic [prog_raise_rules]:
  "prog_raises P (io_return x)" "P e \<Longrightarrow> prog_raises P (io_raise e)"
  "prog_raises P (io_get f)" "prog_raises P (io_set g)"
  "raises_only P r \<Longrightarrow> prog_raises P (io_res r)"
  by (auto simp: prog_raises_def raises_only_def split: sum.splits)

lemma prog_raises_bind [prog_raise_rules]:
  assumes "prog_raises P m" and "\<And>x. prog_raises P (f x)"
  shows "prog_raises P (io_bind m f)"
proof -
  have "run_to (io_bind m f) w s (\<lambda>r t. \<forall>e. r = Raise e \<longrightarrow> P e)" for w s
    unfolding run_to_bind
    by (rule run_to_mono [of m w s "\<lambda>r t. \<forall>e. r = Raise e \<longrightarrow> P e"])
      (use assms in \<open>auto simp: prog_raises_def split: outcome.splits\<close>)
  then show ?thesis by (simp add: prog_raises_def)
qed

lemma prog_raises_try [prog_raise_rules]:
  assumes "prog_raises R m" and "\<And>e. R e \<Longrightarrow> prog_raises P (h e)"
  shows "prog_raises P (io_try m h)"
proof -
  have "run_to (io_try m h) w s (\<lambda>r t. \<forall>e. r = Raise e \<longrightarrow> P e)" for w s
    unfolding run_to_try
    by (rule run_to_mono [of m w s "\<lambda>r t. \<forall>e. r = Raise e \<longrightarrow> R e"])
      (use assms in \<open>auto simp: prog_raises_def split: outcome.splits\<close>)
  then show ?thesis by (simp add: prog_raises_def)
qed

lemma prog_raises_if [prog_raise_rules]:
  "(b \<Longrightarrow> prog_raises P m) \<Longrightarrow> (\<not> b \<Longrightarrow> prog_raises P n) \<Longrightarrow> prog_raises P (if b then m else n)"
  "prog_raises P g \<Longrightarrow> (\<And>x. prog_raises P (h x)) \<Longrightarrow>
     prog_raises P (case opt of None \<Rightarrow> g | Some x \<Rightarrow> h x)"
  by (auto split: option.splits)

lemma prog_raises_step [prog_raise_rules]:
  assumes "P OSError" "P MemoryError" and "\<And>g fs. raises_only P (act g fs)"
  shows "prog_raises P (fs_step act)"
  using assms
  by (auto simp: prog_raises_def run_to_def fs_step_def Let_def raises_only_def
      split: fate.splits sum.splits prod.splits)

text \<open>The faults a file operation or a validation may raise; \<open>OSError\<close> is always converted.\<close>

definition storage_exc :: "exc \<Rightarrow> bool" where
  "storage_exc e \<longleftrightarrow> is_config_error e \<or> e = TypeError \<or> e = MemoryError"

definition disk_exc :: "exc \<Rightarrow> bool" where
  "disk_exc e \<longleftrightarrow> storage_exc e \<or> e = OSError"

lemma raises_validate_config: "raises_only storage_exc (validate_config v)"
  by (rule raises_only_mono [OF validate_config_raises]) (auto simp: storage_exc_def)

lemma raises_load_config: "raises_only storage_exc (load_config (file_value f))"
proof (cases f rule: file_value.cases)
  case (3 v)
  then show ?thesis
    by (auto simp: load_config_def read_json_def raises_validate_config storage_exc_def)
qed (simp_all add: load_missing storage_exc_def)

lemma prog_raises_mono: "prog_raises P m \<Longrightarrow> (\<And>e. P e \<Longrightarrow> Q e) \<Longrightarrow> prog_raises Q m"
  unfolding prog_raises_def by (blast intro: run_to_mono)

lemma raises_disk_steps:
  "prog_raises disk_exc (path_exists p)" "prog_raises disk_exc (os_remove p)"
  "prog_raises disk_exc (os_rename p q)" "prog_raises disk_exc os_sync"
  unfolding path_exists_def os_remove_def os_rename_def os_sync_def
  by (rule prog_raises_step; auto simp: disk_exc_def storage_exc_def split: option.splits)+

lemma raises_remove_if_exists: "prog_raises disk_exc (remove_if_exists p)"
  unfolding remove_if_exists_def by (intro prog_raise_rules raises_disk_steps)

lemma raises_load_path: "prog_raises storage_exc (load_path p)"
proof -
  have "prog_raises (\<lambda>e. e = OSError \<or> e = MemoryError) (fs_step (\<lambda>g fs. Inr (file_value (fs p), fs)))"
    by (rule prog_raises_step) auto
  then have "prog_raises storage_exc (io_try (fs_step (\<lambda>g fs. Inr (file_value (fs p), fs)))
      (\<lambda>e. if e = OSError then io_return (Inl OSError) else io_raise e))"
    by (rule prog_raises_try) (auto simp: storage_exc_def intro!: prog_raise_rules)
  then show ?thesis
    unfolding load_path_def prog_raises_def run_to_bind run_to_res
    using raises_load_config
    by (auto simp: run_to_def load_path_def fs_step_def Let_def io_try_def io_return_def io_raise_def
        storage_exc_def raises_only_def load_missing
        split: outcome.splits prod.splits sum.splits fate.splits if_splits)
qed

lemma raises_try_restore: "prog_raises storage_exc try_restore"
proof -
  have "prog_raises disk_exc restore_committed"
    unfolding restore_committed_def by (intro prog_raise_rules raises_disk_steps raises_remove_if_exists)
  then show ?thesis
    unfolding try_restore_def
    by (rule prog_raises_try) (auto simp: disk_exc_def intro!: prog_raise_rules)
qed

lemma raises_promote_or_restore: "prog_raises storage_exc (promote_or_restore d)"
proof -
  have wr: "prog_raises disk_exc (fs_step (\<lambda>g fs. Inr ((), f g fs)))" for f
    by (rule prog_raises_step) (auto simp: disk_exc_def storage_exc_def)
  have load: "prog_raises disk_exc (load_path Tmp)"
    by (rule prog_raises_mono [OF raises_load_path]) (simp add: disk_exc_def)
  have "prog_raises disk_exc (promote d)"
    unfolding promote_def write_candidate_tmp_def
    by (intro prog_raise_rules(6) wr load raises_disk_steps)
  then show ?thesis
    unfolding promote_or_restore_def
    by (rule prog_raises_try)
      (auto simp: disk_exc_def storage_exc_def intro!: prog_raise_rules raises_try_restore)
qed

lemma raises_begin_write: "prog_raises storage_exc (begin_write d)"
proof -
  have flag: "prog_raises storage_exc get_reboot_required" "prog_raises storage_exc set_reboot_required"
    by (simp_all add: prog_raises_def run_to_def get_reboot_required_def set_reboot_required_def)
  have "prog_raises disk_exc (io_bind (remove_if_exists Cleanup) (\<lambda>_. os_sync))"
    by (intro prog_raise_rules raises_disk_steps raises_remove_if_exists)
  then have "prog_raises storage_exc release_cleanup"
    unfolding release_cleanup_def
    by (rule prog_raises_try) (auto simp: disk_exc_def intro!: prog_raise_rules)
  then show ?thesis
    unfolding begin_write_def Let_def
    by (intro prog_raise_rules raises_validate_config raises_load_path raises_promote_or_restore flag)
qed

text \<open>What escapes the callback: a full heap, or a type error of the validation.\<close>

definition callback_exc :: "exc \<Rightarrow> bool" where
  "callback_exc e \<longleftrightarrow> e = MemoryError \<or> e = TypeError"

lemma prog_raises_run: "prog_raises P m \<Longrightarrow> (\<And>r t. (\<forall>e. r = Raise e \<longrightarrow> P e) \<Longrightarrow> Q r t) \<Longrightarrow> run_to m w s Q"
  by (rule run_to_mono [of m w s "\<lambda>r t. \<forall>e. r = Raise e \<longrightarrow> P e"]) (simp_all add: prog_raises_def)

lemma raises_answer: "prog_raises P (answer r)"
  by (simp add: prog_raises_def)

lemma raises_catch:
  assumes "prog_raises storage_exc m" and "\<And>x. prog_raises callback_exc (continue x)"
    and "\<And>e. prog_raises callback_exc (handler e)"
  shows "prog_raises callback_exc (catch_config_error continue handler (on_store m))"
  unfolding prog_raises_def run_to_catch_config_error run_to_on_store
  by (intro allI prog_raises_run [OF assms(1)])
    (use assms(2,3) in \<open>auto simp: prog_raises_def storage_exc_def callback_exc_def split: outcome.splits\<close>)

lemma raises_ask: "(\<And>w. prog_raises P (f w)) \<Longrightarrow> prog_raises P (io_ask f)"
  by (simp add: prog_raises_def)

lemma raises_put_event: "is_dict v \<Longrightarrow> prog_raises P (put_event v)"
  unfolding prog_raises_def
proof (intro allI)
  fix w s assume "is_dict v"
  then show "run_to (put_event v) w s (\<lambda>r t. \<forall>e. r = Raise e \<longrightarrow> P e)"
    by (rule run_to_put_event) (simp_all only: outcome.distinct simp_thms)
qed

lemma raises_dispatch: "prog_raises callback_exc (validate_and_dispatch i targeted doc)"
proof -
  have reboot: "prog_raises callback_exc (handle_reboot_command i targeted p)" for p
    using raises_answer by (auto simp: prog_raises_def run_to_def handle_reboot_command_def)
  have details: "prog_raises callback_exc (handle_get_details_command i targeted p)" for p
    unfolding handle_get_details_command_def
    by (intro prog_raise_rules raises_answer raises_put_event) (simp add: details_event_def)
  have read: "prog_raises callback_exc (handle_read_config_command i targeted p)" for p
    unfolding handle_read_config_command_def read_persisted_def
    by (intro prog_raise_rules raises_answer raises_catch raises_load_path raises_ask)
  have "prog_raises callback_exc (handle_write_config_command i targeted p)" for p
    unfolding handle_write_config_command_def Let_def
    by (intro prog_raise_rules raises_answer raises_catch raises_begin_write raises_ask)
  with reboot details read show ?thesis
    unfolding validate_and_dispatch_def dispatch_command_def Let_def
    by (intro prog_raise_rules raises_answer)
qed

subsection \<open>The properties\<close>


text \<open>
  A message that claims no id is inert. A foreign, malformed, repeated or surplus
  message, on any topic, returns (or lets only \<open>MemoryError\<close> through) and touches at most
  the UTC exchange: no answer, no event, no reboot, no file, no cache entry.
\<close>

theorem unclaimed_message_inert:
  assumes "on_mqtt_message topic payload w s = (r, t)" and "claimed t = claimed s"
  shows "utc_only s t \<and> (r = Return () \<or> r = Raise MemoryError)"
  using assms(1)
proof (cases rule: message_cases)
  case (claimed doc i)
  from claimed_handled(4) [OF claimed(3-5)]
  show ?thesis using assms(2) by simp
next
  case other
  then show ?thesis by blast
qed

text \<open>
  C15: Debounce and bounds over any sequence of messages. Starting from an empty cache,
  no command id is claimed twice among any 17 consecutive claims, the cache never holds
  more than 16 ids and the response queue never more than 4 responses.
\<close>

theorem debounce_window:
  assumes "deliver msgs w s = (r, t)"
    and "recent_command_ids s = []" and "claimed s = []" and "slot_free s"
  shows "distinct (take 17 (drop k (claimed t))) \<and> length (recent_command_ids t) \<le> 16
         \<and> length (pending_core0_responses t) \<le> 4"
proof -
  have "debounced s" using assms(2-4) by (simp add: debounced_def)
  from run_toD [OF debounced_deliver [OF this] assms(1)] have d: "debounced t" .
  then have "distinct (take (Suc 16) (drop k (claimed t)))"
    unfolding debounced_def RECENT_COMMAND_ID_CAPACITY_def by blast
  moreover have "length (recent_command_ids t) \<le> 16"
    using d by (simp add: debounced_def RECENT_COMMAND_ID_CAPACITY_def)
  ultimately show ?thesis using d by (simp add: debounced_def MAX_PENDING_CORE0_RESPONSES_def)
qed

lemma raises_message: "prog_raises callback_exc (on_mqtt_message topic payload)"
  unfolding prog_raises_def
proof (intro allI run_toI impI)
  fix w s r t e assume rt: "on_mqtt_message topic payload w s = (r, t)" and raised: "r = Raise e"
  from rt show "callback_exc e"
  proof (cases rule: message_cases)
    case (claimed doc i)
    have "run_to (validate_and_dispatch i (dget_none doc ''target'' \<noteq> PStr BROADCAST_TARGET) doc) w (claim i s)
        (\<lambda>r t. \<forall>e. r = Raise e \<longrightarrow> callback_exc e)"
      using raises_dispatch by (simp only: prog_raises_def)
    with claimed(5) raised show ?thesis by (simp add: run_to_def)
  next
    case other
    with raised show ?thesis by (auto simp: callback_exc_def)
  qed
qed

text \<open>
  C16: What escapes the message callback. Whatever arrives, the callback raises only
  \<open>MemoryError\<close> or the \<open>TypeError\<close> of the configuration validation; every other
  failure is answered or ignored.
\<close>

theorem inbound_errors:
  "fst (on_mqtt_message topic payload w s) = Raise e \<Longrightarrow> e = MemoryError \<or> e = TypeError"
proof -
  assume "fst (on_mqtt_message topic payload w s) = Raise e"
  moreover have "run_to (on_mqtt_message topic payload) w s (\<lambda>r t. \<forall>e. r = Raise e \<longrightarrow> callback_exc e)"
    using raises_message by (simp add: prog_raises_def)
  ultimately show ?thesis
    by (cases "on_mqtt_message topic payload w s") (simp add: run_to_def callback_exc_def)
qed

text \<open>A read of the configuration leaves the files and the reboot flag alone.\<close>

lemma read_keeps_files:
  "run_to (load_path p) fates st (\<lambda>r u. files u = files st \<and> reboot_flag u = reboot_flag st)"
  by (auto simp: run_to_def load_path_def fs_step_def Let_def io_bind_def io_try_def io_res_def
      io_return_def io_raise_def split: fate.splits sum.splits)

lemma broadcast_keeps_files:
  "run_to (validate_and_dispatch i False doc) w s
     (\<lambda>r t. files (c0_store t) = files (c0_store s) \<and> reboot_flag (c0_store t) = reboot_flag (c0_store s))"
proof -
  let ?Q = "\<lambda>t. files (c0_store t) = files (c0_store s) \<and> reboot_flag (c0_store t) = reboot_flag (c0_store s)"
  have reboot: "run_to (handle_reboot_command i False p) w s (\<lambda>r. ?Q)" for p
    using run_to_answer [of _ w s "\<lambda>r. ?Q"] by (auto simp: run_to_def handle_reboot_command_def)
  have details: "run_to (handle_get_details_command i False p) w s (\<lambda>r. ?Q)" for p
    unfolding handle_get_details_command_def run_to_if run_to_bind
    by (auto intro!: run_to_put_event simp: details_event_def)
  have read: "run_to (handle_read_config_command i False p) w s (\<lambda>r. ?Q)" for p
    unfolding handle_read_config_command_def run_to_if run_to_catch_config_error run_to_on_store read_persisted_def
    by (auto intro!: run_to_mono [OF read_keeps_files] split: outcome.splits)
  show ?thesis
    using reboot details read
    by (simp add: validate_and_dispatch_def dispatch_command_def Let_def)
qed

text \<open>
  C17: A broadcast never changes the configuration. Whatever a message addressed to every
  node contains, the four files and the reboot flag stay as they are.
\<close>

theorem broadcast_never_writes:
  assumes "dget_none doc ''target'' = PStr BROADCAST_TARGET"
  shows "files (c0_store (snd (on_mqtt_message topic (Inr (PDict doc)) w s))) = files (c0_store s)
       \<and> reboot_flag (c0_store (snd (on_mqtt_message topic (Inr (PDict doc)) w s))) = reboot_flag (c0_store s)"
proof -
  obtain r t where rt: "on_mqtt_message topic (Inr (PDict doc)) w s = (r, t)" by fastforce
  from rt show ?thesis
  proof (cases rule: message_cases)
    case (claimed d i)
    then have d: "d = doc" by simp
    from claimed(5) assms have "validate_and_dispatch i False doc w (claim i s) = (r, t)"
      by (simp only: d) simp
    with broadcast_keeps_files [of i doc w "claim i s"] rt show ?thesis
      by (simp add: run_to_def)
  next
    case other
    with rt show ?thesis by (simp add: utc_only_fields)
  qed
qed

lemma triple_run:
  assumes "triple any_fate S A m Q E" and "files st = A"
  shows "run_to m fates st (\<lambda>r u. ends S Q E (r, u))"
  using tripleD [OF assms(1), where fates = fates and s = st] assms(2) by (auto simp: run_to_def split: prod.splits)

text \<open>What an answer to a write-config claims about the files.\<close>

definition truthful :: "pyval \<Rightarrow> pyval \<Rightarrow> string \<Rightarrow> core0 \<Rightarrow> core0 \<Rightarrow> response \<Rightarrow> bool" where
  "truthful c d i s t rsp \<longleftrightarrow>
     pending_core0_responses t = pending_core0_responses s @ [rsp] \<and> r_command_id rsp = i
   \<and> (if \<not> r_success rsp
      then settles_on c (files (c0_store t)) \<or> files (c0_store t) = promoted c d
      else if dget_none (the_dict (r_data rsp)) ''configuration_changed'' = PBool True
      then \<not> py_eq d c \<and> settles_on d (files (c0_store t))
      else py_eq d c \<and> files (c0_store t) = files (c0_store s))"

lemma truthful_failure:
  assumes "slot_free s" and "r_command_id rsp = i" and "\<not> r_success rsp"
    and "settles_on c (files (c0_store t)) \<or> files (c0_store t) = promoted c d"
    and "pending_core0_responses t = pending_core0_responses s"
  shows "run_to (answer rsp) w t (\<lambda>r t. r = Return () \<longrightarrow> (\<exists>rsp. truthful c d i s t rsp))"
  using assms by (auto simp: truthful_def)

lemma truthful_success:
  assumes "slot_free s" and "committed c (files (c0_store s))"
    and "write_done c d (files (c0_store s)) result (files (c0_store t))"
    and "pending_core0_responses t = pending_core0_responses s"
  shows "run_to (answer (write_config_success i targeted result b)) w t
           (\<lambda>r t. r = Return () \<longrightarrow> (\<exists>rsp. truthful c d i s t rsp))"
  using assms
  by (auto simp: truthful_def write_config_success_def command_success_def write_done_def dget_none_def
      dget_def split: classification.splits)

lemma not_success [simp]: "\<not> r_success (command_error i targeted c e)"
  by (simp add: command_error_def)


subsection \<open>Witnesses\<close>

definition demo_c0_config :: c0_config where
  "demo_c0_config =
     \<lparr>c_source = ''node'', c_topic_command = ''cmd'', c_topic_info_response = ''inf'',
      c_topic_info_request = ''req'', c_topic_command_response = ''rsp'', c_topic_telemetry = ''tel'',
      c_topic_health = ''hea'', c_topic_log = ''log'', c_publish_delay_ms = 50, c_command_poll_ms = 100,
      c_broker_timeout_sec = 5, c_sync_interval_min = 60\<rparr>"

definition demo_world :: c0_world where
  "demo_world =
     \<lparr>config = demo_c0_config, runtime_id = ''r1'', wifi_ssid = ''net'', wifi_delays_sec = [1],
      mqtt_delays_sec = [1], snapshot_interval_sec = 30, keepalive_sec = 60, probe_timeout_sec = 10,
      has_watchdog = True, ticks_at = \<lambda>n. 1000, wlan_connected_at = \<lambda>n. Some True,
      wlan_status_at = \<lambda>n. Some (PInt 3), wlan_connect_at = \<lambda>n. True,
      ifconfig_at = \<lambda>n. Some [PStr ''10.0.0.2'', PNone, PNone, PNone], rssi_at = \<lambda>n. None,
      handshake_at = \<lambda>n. ([], None), exchange_at = \<lambda>n. ([], None), poll_at = \<lambda>n. ([], None),
      ping_at = \<lambda>n. ([], None), core1_activity_at = \<lambda>n. None, core1_puts_at = \<lambda>n. [], storage = \<lambda>n. Ok,
      event_env = \<lparr>ev_free_at = \<lambda>n. 100, core1_takes_at = \<lambda>n. False\<rparr>, out_env = demo_env,
      exc_text = \<lambda>e. ''error'', gmtime_accepts = \<lambda>n. True\<rparr>"

definition demo_core0 :: core0 where
  "demo_core0 =
     \<lparr>c0_clock = 0, recent_command_ids = [], pending_core0_responses = [], pending_reboot = None,
      c0_events = projr (evq_init (PInt 10)), c0_outbound = demo_queue, c0_mailboxes = mailboxes_init,
      c0_store = demo_store, c0_uptime = create_uptime_state 0, utc_request_counter = 0,
      pending_utc_request_id = None, utc_request_deadline_ms = None, utc_last_attempt_ms = None,
      c0_utc_snapshot = None, last_publish_completed_ms = None, last_command_poll_ms = 0,
      last_network_snapshot_ms = None, next_sequence = 0, network_stack_ready = True,
      mqtt_connected = True, mqtt_connect_count = 1, mqtt_disconnect_count = 0, mqtt_last_reason = None,
      mqtt_last_activity_ms = 0, wlan_active = True, wifi_was_connected = True, wifi_connect_count = 1,
      wifi_disconnect_count = 0, led_connecting = False, wdt_armed = True, claimed = [], sent = [],
      acked = [], resets = [], feeds = 0\<rparr>"

definition demo_command :: "string \<Rightarrow> string \<Rightarrow> string \<Rightarrow> pydict" where
  "demo_command target i command =
     [(PStr ''message_type'', PStr ''command''), (PStr ''message_schema_version'', PInt 3),
      (PStr ''target'', PStr target), (PStr ''command_id'', PStr i), (PStr ''command'', PStr command),
      (PStr ''payload'', PDict [])]"

lemma demo_claims:
  "claimed (snd (on_mqtt_message (Inr ''cmd'') (Inr (PDict (demo_command ''NODE'' ''id1'' ''reboot''))) demo_world demo_core0)) = [''id1'']"
  by code_simp

lemma demo_repeat:
  "claimed (snd (deliver [(Inr ''cmd'', Inr (PDict (demo_command ''*'' ''id1'' ''get-details''))),
                          (Inr ''cmd'', Inr (PDict (demo_command ''*'' ''id1'' ''reboot'')))]
       demo_world demo_core0)) = [''id1'']"
  by code_simp


lemma unclaimed_message_inert_witness:
  "utc_only demo_core0 (snd (on_mqtt_message (Inr ''other'') (Inr (PDict (demo_command ''*'' ''i'' ''x''))) demo_world demo_core0))"
proof -
  have "claimed (snd (on_mqtt_message (Inr ''other'') (Inr (PDict (demo_command ''*'' ''i'' ''x''))) demo_world demo_core0)) = claimed demo_core0"
    by code_simp
  from unclaimed_message_inert [OF prod.collapse [symmetric] this] show ?thesis by blast
qed

lemma debounce_window_witness:
  "distinct (take 17 (drop 0 (claimed (snd (deliver
     [(Inr ''cmd'', Inr (PDict (demo_command ''*'' ''id1'' ''get-details''))),
      (Inr ''cmd'', Inr (PDict (demo_command ''*'' ''id1'' ''reboot'')))] demo_world demo_core0)))))"
  by (rule conjunct1 [OF debounce_window [OF prod.collapse [symmetric]]])
    (simp_all add: demo_core0_def MAX_PENDING_CORE0_RESPONSES_def)

lemma inbound_errors_witness:
  "MemoryError = MemoryError \<or> MemoryError = TypeError"
  by (rule inbound_errors [of "Inl MemoryError" "Inr PNone" demo_world demo_core0])
    (simp add: on_mqtt_message_def parse_message_def)

lemma broadcast_never_writes_witness:
  "files (c0_store (snd (on_mqtt_message (Inr ''cmd'')
     (Inr (PDict (demo_command ''*'' ''id1'' ''write-config''))) demo_world demo_core0))) = files demo_store"
  using broadcast_never_writes [of "demo_command ''*'' ''id1'' ''write-config''" "Inr ''cmd''" demo_world demo_core0]
  by (simp add: demo_command_def dget_none_def dget_def BROADCAST_TARGET_def demo_core0_def)


end
