(* ===== verification/Publish.thy ===== *)
theory Publish
  imports Commands "HOL-Library.Sublist"
begin

section \<open>Core 0: publishing\<close>

text \<open>
  The outbound half of \<open>core0.py\<close> over the session operations of \<open>mqtt.py\<close>: the wire
  sequence, the envelope splice, the command responses with their bounded substitutes, the
  reboot, the pacing gate, the UTC requests and the watchdogs. An exchange may deliver
  inbound messages to the callback before it ends, so the callback of the theory
  \<open>Commands\<close> runs inside a publish, as in the firmware.
\<close>

subsection \<open>The watchdogs\<close>

definition sense :: "(c0_world \<Rightarrow> nat \<Rightarrow> 'x) \<Rightarrow> 'x c0" where
  "sense f w s = (Return (f w (c0_clock s)), s\<lparr>c0_clock := Suc (c0_clock s)\<rparr>)"

definition CORE_1_HEARTBEAT_STALE_TIMEOUT_MS :: int where
  "CORE_1_HEARTBEAT_STALE_TIMEOUT_MS = 30000"
definition WDT_TIMEOUT_MS :: int where "WDT_TIMEOUT_MS = 8000"

text \<open>\<open>machine.reset()\<close> does not return.\<close>

definition machine_reset :: "reset_cause \<Rightarrow> 'a c0" where
  "machine_reset cause w s = (Cut, s\<lparr>resets := resets s @ [cause]\<rparr>)"

definition watch_core_1_heartbeat :: "unit c0" where
  "watch_core_1_heartbeat =
     io_bind (sense core1_activity_at) (\<lambda>activity.
       case activity of
         None \<Rightarrow> io_return ()
       | Some t \<Rightarrow> io_bind read_ticks (\<lambda>now.
           if ticks_diff now t \<ge> CORE_1_HEARTBEAT_STALE_TIMEOUT_MS then machine_reset Core_1_stale
           else io_return ()))"

definition feed_watchdog :: "unit c0" where
  "feed_watchdog = io_set (\<lambda>s. if wdt_armed s then s\<lparr>feeds := Suc (feeds s)\<rparr> else s)"

definition enable_watchdog :: "unit c0" where
  "enable_watchdog = io_ask (\<lambda>w. io_set (\<lambda>s. s\<lparr>wdt_armed := has_watchdog w\<rparr>))"

definition service_wait :: "unit c0" where
  "service_wait = io_bind watch_core_1_heartbeat (\<lambda>_. feed_watchdog)"

subsection \<open>The session operations of mqtt.py\<close>

text \<open>
  An exchange with the broker. The client runs the servicing hook before its socket
  operations, so at least once and before every inbound message it delivers.
\<close>

fun pump :: "inbound list \<Rightarrow> unit c0" where
  "pump [] = service_wait"
| "pump ((t, p) # rest) = io_bind service_wait (\<lambda>_. io_bind (on_mqtt_message t p) (\<lambda>_. pump rest))"

definition exchange :: "(c0_world \<Rightarrow> nat \<Rightarrow> inbound list \<times> exc option) \<Rightarrow> unit c0" where
  "exchange f =
     io_bind (sense f) (\<lambda>(msgs, result). io_bind (pump msgs) (\<lambda>_.
       case result of None \<Rightarrow> io_return () | Some e \<Rightarrow> io_raise e))"

fun transport_error :: "exc \<Rightarrow> bool" where
  "transport_error OSError = True"
| "transport_error MQTTException = True"
| "transport_error e = False"

definition touch :: "unit c0" where
  "touch = io_bind read_ticks (\<lambda>now. io_set (\<lambda>s. s\<lparr>mqtt_last_activity_ms := now\<rparr>))"

definition mark_disconnected :: "string option \<Rightarrow> unit c0" where
  "mark_disconnected reason =
     io_set (\<lambda>s. s\<lparr>mqtt_disconnect_count := mqtt_disconnect_count s + (if mqtt_connected s then 1 else 0),
                   mqtt_connected := False,
                   mqtt_last_reason := (case reason of None \<Rightarrow> mqtt_last_reason s | Some r \<Rightarrow> Some r)\<rparr>)"

definition DISCONNECT_WIFI_LOST :: string where "DISCONNECT_WIFI_LOST = ''wifi_lost''"
definition DISCONNECT_PING_TIMEOUT :: string where "DISCONNECT_PING_TIMEOUT = ''ping_timeout''"
definition DISCONNECT_PUBLISH_FAILURE :: string where
  "DISCONNECT_PUBLISH_FAILURE = ''publish_failure''"
definition DISCONNECT_CHECK_MSG_FAILURE :: string where
  "DISCONNECT_CHECK_MSG_FAILURE = ''check_msg_failure''"

text \<open>A transport error of \<open>m\<close> marks the session down and passes on; others just pass.\<close>

definition marking :: "string \<Rightarrow> 'a c0 \<Rightarrow> 'a c0" where
  "marking reason m =
     io_try m (\<lambda>e. if transport_error e
                   then io_bind (mark_disconnected (Some reason)) (\<lambda>_. io_raise e) else io_raise e)"

definition if_connected :: "unit c0 \<Rightarrow> unit c0 \<Rightarrow> unit c0" where
  "if_connected m n = io_bind (io_get mqtt_connected) (\<lambda>up. if up then m else n)"

definition publish_qos1 :: "unit c0" where
  "publish_qos1 =
     if_connected (io_bind (marking DISCONNECT_PUBLISH_FAILURE (exchange exchange_at)) (\<lambda>_. touch))
       (io_raise OSError)"

definition mqtt_check_msg :: "unit c0" where
  "mqtt_check_msg =
     if_connected (marking DISCONNECT_CHECK_MSG_FAILURE (exchange poll_at)) (io_return ())"

definition mqtt_ping :: "unit c0" where
  "mqtt_ping =
     if_connected (io_bind (marking DISCONNECT_PING_TIMEOUT (exchange ping_at)) (\<lambda>_. touch))
       (io_raise OSError)"

definition ping_interval_sec :: "int \<Rightarrow> int" where
  "ping_interval_sec keepalive = max (keepalive div 2) 1"

definition ping_due :: "bool c0" where
  "ping_due =
     io_bind (io_get mqtt_connected) (\<lambda>up. io_ask (\<lambda>w.
       if \<not> up then io_return False
       else if keepalive_sec w \<le> 0 then io_return False
       else io_bind read_ticks (\<lambda>now. io_get (\<lambda>s.
            ticks_diff now (mqtt_last_activity_ms s) \<ge> ping_interval_sec (keepalive_sec w) * 1000))))"

text \<open>The probe's publish: a transport error is the answer False.\<close>

definition publish_qos1_with_packet_id :: "bool c0" where
  "publish_qos1_with_packet_id =
     io_bind (io_get mqtt_connected) (\<lambda>up.
       if \<not> up then io_raise OSError
       else io_try (io_bind (exchange exchange_at) (\<lambda>_. io_bind touch (\<lambda>_. io_return True)))
              (\<lambda>e. if transport_error e
                   then io_bind (mark_disconnected (Some DISCONNECT_PUBLISH_FAILURE)) (\<lambda>_. io_return False)
                   else io_raise e))"

subsection \<open>Pacing\<close>

definition mqtt_publish_ready :: "bool c0" where
  "mqtt_publish_ready =
     io_ask (\<lambda>w. io_bind (io_get last_publish_completed_ms) (\<lambda>last.
       if c_publish_delay_ms (config w) = 0 then io_return True
       else case last of
              None \<Rightarrow> io_return True
            | Some t \<Rightarrow> io_bind read_ticks (\<lambda>now.
                io_return (ticks_diff now t \<ge> c_publish_delay_ms (config w)))))"

definition note_mqtt_publish_completed :: "unit c0" where
  "note_mqtt_publish_completed =
     io_bind read_ticks (\<lambda>now. io_set (\<lambda>s. s\<lparr>last_publish_completed_ms := Some now\<rparr>))"

text \<open>
  The gate is a one-shot difference: when half a tick period or more (and less than a whole one)
  has passed since the last publication, it answers that it is not time yet.
\<close>

lemma stale_pacing_gate:
  assumes "last_publish_completed_ms s = Some (ticks_of b)" and "ticks_at w (c0_clock s) = ticks_of a"
    and "0 < c_publish_delay_ms (config w)" and "ticks_half \<le> a - b" "a - b < ticks_period"
  shows "fst (mqtt_publish_ready w s) = Return False"
  using assms ticks_diff_stale [OF assms(4,5)]
  by (simp add: mqtt_publish_ready_def io_ask_def io_bind_def io_get_def io_return_def read_ticks_def)

subsection \<open>Envelope and wire sequence\<close>

definition envelope :: "c0_world \<Rightarrow> int \<Rightarrow> pydict" where
  "envelope w sequence =
     [(PStr ''sequence'', PInt sequence), (PStr ''runtime_id'', PStr (runtime_id w)),
      (PStr ''source'', PStr (c_source (config w))), (PStr ''firmware_version'', PStr FIRMWARE_VERSION),
      (PStr ''message_schema_version'', PInt MESSAGE_SCHEMA_VERSION)]"

definition c0_floats :: "c0_world \<Rightarrow> rat \<Rightarrow> string" where
  "c0_floats w = float_repr (out_env w)"

text \<open>\<open>json.dumps(...)[1:-1]\<close>.\<close>

definition envelope_fragment :: "c0_world \<Rightarrow> int \<Rightarrow> string" where
  "envelope_fragment w sequence =
     tl (butlast (json_text (c0_floats w) (PDict (envelope w sequence))))"

text \<open>The segments \<open>MQTTClient.publish\<close> writes: the body without its brace, a comma, the fragment, the brace.\<close>

definition splice_frame :: "string \<Rightarrow> string \<Rightarrow> string" where
  "splice_frame body fragment = butlast body @ '','' @ fragment @ ''}''"

definition new_sequence :: "int c0" where
  "new_sequence = io_bind (io_get next_sequence) (\<lambda>n.
     io_bind (io_set (\<lambda>s. s\<lparr>next_sequence := n + 1\<rparr>)) (\<lambda>_. io_return n))"

text \<open>\<open>_claim_wire_sequence\<close> on a container that is read and written in the state.\<close>

definition claim_wire_sequence :: "(core0 \<Rightarrow> int option) \<Rightarrow> (int \<Rightarrow> core0 \<Rightarrow> core0) \<Rightarrow> int c0" where
  "claim_wire_sequence read stamp =
     io_bind (io_get read) (\<lambda>known.
       case known of
         Some n \<Rightarrow> io_return n
       | None \<Rightarrow> io_bind new_sequence (\<lambda>n. io_bind (io_set (stamp n)) (\<lambda>_. io_return n)))"

definition publish_entry :: "string \<Rightarrow> string \<Rightarrow> int c0 \<Rightarrow> unit c0" where
  "publish_entry topic body claim_sequence =
     (if body = [] \<or> last body \<noteq> CHR ''}'' then io_raise ValueError
      else io_bind claim_sequence (\<lambda>sequence. io_ask (\<lambda>w.
        (let fragment = envelope_fragment w sequence; frame = splice_frame body fragment in
         if length body + length fragment + 1 > MAX_OUTBOUND_MESSAGE_BYTES
         then io_raise OutboundMessageTooLargeError
         else io_bind (io_set (\<lambda>s. s\<lparr>sent := sent s @ [(sequence, topic, frame)]\<rparr>)) (\<lambda>_.
              io_bind publish_qos1 (\<lambda>_.
              io_bind (io_set (\<lambda>s. s\<lparr>acked := acked s @ [(sequence, topic, frame)]\<rparr>)) (\<lambda>_.
              note_mqtt_publish_completed)))))))"

subsection \<open>Command responses\<close>

text \<open>
  The two containers that carry publication state: the response at the head of the queue
  and the pending reboot.
\<close>

datatype holder = Head_response | Held_reboot

fun get_track :: "holder \<Rightarrow> core0 \<Rightarrow> tracked" where
  "get_track Head_response s =
     (case pending_core0_responses s of [] \<Rightarrow> untracked | r # rs \<Rightarrow> r_track r)"
| "get_track Held_reboot s =
     (case pending_reboot s of None \<Rightarrow> untracked | Some rb \<Rightarrow> rb_track rb)"

fun set_track :: "holder \<Rightarrow> tracked \<Rightarrow> core0 \<Rightarrow> core0" where
  "set_track Head_response tr s =
     (case pending_core0_responses s of
        [] \<Rightarrow> s | r # rs \<Rightarrow> s\<lparr>pending_core0_responses := r\<lparr>r_track := tr\<rparr> # rs\<rparr>)"
| "set_track Held_reboot tr s =
     (case pending_reboot s of
        None \<Rightarrow> s | Some rb \<Rightarrow> s\<lparr>pending_reboot := Some (rb\<lparr>rb_track := tr\<rparr>)\<rparr>)"

definition update_track :: "holder \<Rightarrow> (tracked \<Rightarrow> tracked) \<Rightarrow> unit c0" where
  "update_track h f = io_set (\<lambda>s. set_track h (f (get_track h s)) s)"

definition claim_tracked :: "holder \<Rightarrow> int c0" where
  "claim_tracked h =
     claim_wire_sequence (\<lambda>s. claimed_sequence (get_track h s))
       (\<lambda>n s. set_track h ((get_track h s)\<lparr>claimed_sequence := Some n\<rparr>) s)"

definition record_failure :: "holder \<Rightarrow> failure \<Rightarrow> bool c0" where
  "record_failure h f =
     io_bind (update_track h (\<lambda>tr. tr\<lparr>permanent_failure := Some f\<rparr>)) (\<lambda>_. io_return False)"

definition response_payload :: "string \<Rightarrow> string option \<Rightarrow> bool \<Rightarrow> bool \<Rightarrow> pyval \<Rightarrow> pydict \<Rightarrow> pydict" where
  "response_payload command_id command success targeted data error =
     [(PStr ''command_id'', PStr command_id)]
     @ (case command of None \<Rightarrow> [] | Some c \<Rightarrow> [(PStr ''command'', PStr c)])
     @ [(PStr ''targeted'', PBool targeted), (PStr ''success'', PBool success)]
     @ (if success then [(PStr ''data'', data)] else [(PStr ''error'', PDict error)])"

definition response_message :: "pydict \<Rightarrow> int \<Rightarrow> pyval \<Rightarrow> pyval" where
  "response_message payload uptime timestamp =
     PDict [(PStr ''message_type'', PStr ''command_response''), (PStr ''uptime_ms'', PInt uptime),
            (PStr ''timestamp'', timestamp), (PStr ''payload'', PDict payload)]"

text \<open>Serialization; the allocation may fail, which no handler turns into an answer.\<close>

definition c0_serialize :: "pyval \<Rightarrow> string c0" where
  "c0_serialize message =
     io_bind (sense (\<lambda>w n. alloc_ok_at (out_env w) n)) (\<lambda>ok. io_ask (\<lambda>w.
       if \<not> ok then io_raise MemoryError
       else io_res (serialize_and_validate_message (c0_floats w) message)))"

text \<open>The bytes of the container, frozen at the first attempt; None after a permanent failure.\<close>

definition freeze_bytes :: "holder \<Rightarrow> pydict \<Rightarrow> string option c0" where
  "freeze_bytes h payload =
     io_bind (io_get (\<lambda>s. frozen_bytes (get_track h s))) (\<lambda>frozen.
       case frozen of
         Some bs \<Rightarrow> io_return (Some bs)
       | None \<Rightarrow>
           io_bind uptime_ms (\<lambda>u. io_bind current_utc_timestamp (\<lambda>ts.
           io_try (io_bind (c0_serialize (response_message payload u ts)) (\<lambda>bs.
                   io_bind (update_track h (\<lambda>tr. tr\<lparr>frozen_bytes := Some bs\<rparr>)) (\<lambda>_.
                   io_return (Some bs))))
             (\<lambda>e. if e = MemoryError then io_raise e
                  else io_bind (record_failure h (if e = MessageTooLargeError then Response_too_large
                                                  else Response_invalid)) (\<lambda>_. io_return None)))))"

definition publish_core0_command_response :: "holder \<Rightarrow> pydict \<Rightarrow> int \<Rightarrow> bool c0" where
  "publish_core0_command_response h payload sequence =
     io_bind (freeze_bytes h payload) (\<lambda>frozen. io_ask (\<lambda>w.
       case frozen of
         None \<Rightarrow> io_return False
       | Some bs \<Rightarrow>
           io_try (io_bind (publish_entry (c_topic_command_response (config w)) bs (io_return sequence))
                     (\<lambda>_. io_return True))
             (\<lambda>e. if e = OutboundMessageTooLargeError then record_failure h Response_too_large
                  else io_raise e)))"

fun failure_code :: "failure \<Rightarrow> string" where
  "failure_code Response_too_large = ''response_too_large''"
| "failure_code Response_invalid = ''response_invalid''"

fun substitute_text :: "failure \<Rightarrow> string" where
  "substitute_text Response_too_large = ''Command response exceeded the per-message size limit''"
| "substitute_text Response_invalid = ''Command response could not be serialized for transmission''"

definition substitute :: "string \<Rightarrow> bool \<Rightarrow> string option \<Rightarrow> failure \<Rightarrow> response" where
  "substitute command_id targeted command f =
     command_error command_id targeted (case command of None \<Rightarrow> PNone | Some c \<Rightarrow> PStr c)
       (error_dict (failure_code f) (substitute_text f))"

definition is_response_substitute :: "response \<Rightarrow> bool" where
  "is_response_substitute r \<longleftrightarrow>
     \<not> r_success r \<and> dget_none (r_error r) ''code'' \<in> {PStr ''response_too_large'', PStr ''response_invalid''}"

text \<open>What follows a publication attempt of the head response \<open>r\<close>.\<close>

definition conclude_response :: "response \<Rightarrow> bool \<Rightarrow> unit c0" where
  "conclude_response r published =
     (if \<not> published
      then io_bind (io_get (\<lambda>s. permanent_failure (get_track Head_response s))) (\<lambda>failure.
           case failure of
             None \<Rightarrow> io_return ()
           | Some f \<Rightarrow>
               if is_response_substitute r then io_return ()
               else io_set (\<lambda>s. s\<lparr>pending_core0_responses :=
                 substitute (r_command_id r) (r_targeted r) (r_command r) f # tl (pending_core0_responses s)\<rparr>))
      else io_bind (io_set (\<lambda>s. s\<lparr>pending_core0_responses := tl (pending_core0_responses s)\<rparr>)) (\<lambda>_.
           if r_clears_pending_reboot r then io_set (\<lambda>s. s\<lparr>pending_reboot := None\<rparr>)
           else io_return ()))"

definition payload_of :: "response \<Rightarrow> pydict" where
  "payload_of r = response_payload (r_command_id r) (r_command r) (r_success r) (r_targeted r) (r_data r) (r_error r)"

definition service_pending_core0_response :: "unit c0" where
  "service_pending_core0_response =
     io_bind (io_get pending_core0_responses) (\<lambda>pending.
       case pending of
         [] \<Rightarrow> io_return ()
       | r # rest \<Rightarrow>
           io_bind (claim_tracked Head_response) (\<lambda>n.
           io_bind (publish_core0_command_response Head_response (payload_of r) n) (conclude_response r)))"


subsection \<open>Waits\<close>

definition sleep_step :: "unit c0" where
  "sleep_step = io_set (\<lambda>s. s\<lparr>c0_clock := Suc (c0_clock s)\<rparr>)"

text \<open>The slices of \<open>sleep_sliced\<close>, with the servicing hook run in each.\<close>

fun run_waits :: "wait_act list \<Rightarrow> unit c0" where
  "run_waits [] = io_return ()"
| "run_waits (Service # rest) = io_bind service_wait (\<lambda>_. run_waits rest)"
| "run_waits (SleepMs d # rest) = io_bind sleep_step (\<lambda>_. run_waits rest)"

definition sleep_and_service :: "int \<Rightarrow> unit c0" where
  "sleep_and_service delay_sec = run_waits (sleep_sliced delay_sec)"

subsection \<open>The outbound queue as Core 0 uses it\<close>

text \<open>
  Core 1 may put messages before Core 0 takes the lock; its puts do not run Core 0 again
  (the environment of the queue is idle on that side).
\<close>

definition c0_env :: "c0_world \<Rightarrow> env" where
  "c0_env w = (out_env w)\<lparr>core0_at := \<lambda>n. C0_idle\<rparr>"

definition core1_put :: "env \<Rightarrow> string \<times> pyval \<times> pyval \<Rightarrow> outq \<Rightarrow> outq" where
  "core1_put env m q =
     (case m of (kind, message, priority) \<Rightarrow>
        (case put env kind message priority q of None \<Rightarrow> q | Some (r, q') \<Rightarrow> q'))"

definition outbound_op :: "(outq \<Rightarrow> 'a \<times> outq) \<Rightarrow> 'a c0" where
  "outbound_op op w s =
     (let before = fold (core1_put (c0_env w)) (core1_puts_at w (c0_clock s)) (c0_outbound s);
          (r, q) = with_lock (c0_env w) op before
      in (Return r, s\<lparr>c0_outbound := q, c0_clock := Suc (c0_clock s)\<rparr>))"

definition outbound_take :: "entry option c0" where
  "outbound_take = outbound_op take_step"

definition outbound_complete :: "nat \<Rightarrow> bool \<Rightarrow> unit c0" where
  "outbound_complete eid discarded = io_bind (outbound_op (complete_step eid discarded)) (\<lambda>_. io_return ())"

definition outbound_has_in_flight :: "bool c0" where
  "outbound_has_in_flight = io_get (\<lambda>s. in_flight (c0_outbound s) \<noteq> None)"

text \<open>The claimed sequence of a leased entry is stored in the entry.\<close>

definition leased_sequence :: "nat \<Rightarrow> core0 \<Rightarrow> int option" where
  "leased_sequence eid s =
     (case in_flight (c0_outbound s) of
        Some e \<Rightarrow> if e_id e = eid then wire_sequence e else None
      | None \<Rightarrow> None)"

definition stamp_leased :: "nat \<Rightarrow> int \<Rightarrow> core0 \<Rightarrow> core0" where
  "stamp_leased eid n s =
     (case in_flight (c0_outbound s) of
        Some e \<Rightarrow> if e_id e = eid
                 then s\<lparr>c0_outbound := (c0_outbound s)\<lparr>in_flight := Some (e\<lparr>wire_sequence := Some n\<rparr>)\<rparr>\<rparr>
                 else s
      | None \<Rightarrow> s)"

definition claim_leased :: "nat \<Rightarrow> int c0" where
  "claim_leased eid = claim_wire_sequence (leased_sequence eid) (stamp_leased eid)"

fun topic_for_kind :: "c0_config \<Rightarrow> kind \<Rightarrow> string" where
  "topic_for_kind c KIND_TELEMETRY = c_topic_telemetry c"
| "topic_for_kind c KIND_COMMAND_RESPONSE = c_topic_command_response c"
| "topic_for_kind c KIND_HEALTH = c_topic_health c"
| "topic_for_kind c KIND_LOG = c_topic_log c"

text \<open>
  The substitute owed for a discarded command response. \<open>parsed\<close> is what \<open>json.loads\<close>
  gives for the entry's bytes; the parser is the standard library's.
\<close>

definition answer_discarded_command_response :: "pyval res \<Rightarrow> unit c0" where
  "answer_discarded_command_response parsed =
     (case parsed of
        Inl e \<Rightarrow> if e = MemoryError then io_raise MemoryError else io_return ()
      | Inr doc \<Rightarrow>
          (let payload = dget_none (the_dict doc) ''payload'';
               i = dget_none (the_dict payload) ''command_id''
           in if is_dict payload \<and> is_bounded_command_id i
              then answer (command_error (the_str i)
                     (dget_none (the_dict payload) ''targeted'' = PBool True)
                     (dget_none (the_dict payload) ''command'')
                     (error_dict ''response_too_large'' (substitute_text Response_too_large)))
              else io_return ()))"

text \<open>An entry whose spliced frame can never be sent is given up, and its owed answer queued.\<close>

definition discard_entry :: "(string \<Rightarrow> pyval res) \<Rightarrow> entry \<Rightarrow> bool c0" where
  "discard_entry loads e =
     io_bind (outbound_complete (e_id e) True) (\<lambda>_.
     io_bind (if e_kind e = KIND_COMMAND_RESPONSE
              then answer_discarded_command_response (loads (payload_bytes e))
              else io_return ()) (\<lambda>_. io_return False))"

text \<open>Publish a leased entry and settle the lease.\<close>

definition service_outbound_entry :: "(string \<Rightarrow> pyval res) \<Rightarrow> entry \<Rightarrow> unit c0" where
  "service_outbound_entry loads e =
     io_bind
       (io_try
         (io_bind (io_ask (\<lambda>w. publish_entry (topic_for_kind (config w) (e_kind e)) (payload_bytes e)
                                 (claim_leased (e_id e))))
            (\<lambda>_. io_return True))
         (\<lambda>x. if x = OutboundMessageTooLargeError then discard_entry loads e
              else if transport_error x then io_return False else io_raise x))
       (\<lambda>published. if published then outbound_complete (e_id e) False else io_return ())"

subsection \<open>The reboot\<close>

definition reboot_publish_due :: "bool c0" where
  "reboot_publish_due =
     io_bind (io_get (\<lambda>s. pending_reboot s \<noteq> None \<and> mqtt_connected s)) (\<lambda>due.
       if due then mqtt_publish_ready else io_return False)"

text \<open>The answer to an unsendable acknowledgement; the request is terminal once it is queued.\<close>

definition queue_reboot_substitute :: "reboot_request \<Rightarrow> failure \<Rightarrow> bool c0" where
  "queue_reboot_substitute rb f =
     io_bind (queue_core0_response
       ((substitute (rb_command_id rb) (rb_targeted rb) (Some COMMAND_REBOOT) f)
          \<lparr>r_clears_pending_reboot := True\<rparr>)) (\<lambda>queued.
     io_bind (if queued
              then io_set (\<lambda>s. s\<lparr>pending_reboot := map_option (\<lambda>rb. rb\<lparr>rb_answer_queued := True\<rparr>) (pending_reboot s)\<rparr>)
              else io_return ()) (\<lambda>_. io_return False))"

definition publish_reboot_ack :: "reboot_request \<Rightarrow> bool c0" where
  "publish_reboot_ack rb =
     io_bind (claim_tracked Held_reboot) (\<lambda>n.
       publish_core0_command_response Held_reboot
         (response_payload (rb_command_id rb) (Some COMMAND_REBOOT) True (rb_targeted rb)
            (PDict [(PStr ''rebooting'', PBool True)]) []) n)"

text \<open>What follows the attempt to acknowledge; \<open>None\<close> stands for a transport failure.\<close>

definition conclude_reboot :: "reboot_request \<Rightarrow> bool option \<Rightarrow> bool c0" where
  "conclude_reboot rb published =
     (case published of
        None \<Rightarrow> io_return False
      | Some False \<Rightarrow>
          io_bind (io_get (\<lambda>s. permanent_failure (get_track Held_reboot s))) (\<lambda>failure.
            case failure of
              None \<Rightarrow> io_return False
            | Some f \<Rightarrow> queue_reboot_substitute rb f)
      | Some True \<Rightarrow>
          io_bind (io_set (\<lambda>s. s\<lparr>pending_reboot := None\<rparr>)) (\<lambda>_.
          io_bind (sleep_and_service 5) (\<lambda>_. machine_reset Reboot_commanded)))"

definition perform_reboot :: "bool c0" where
  "perform_reboot =
     io_bind (io_get pending_reboot) (\<lambda>request.
       case request of
         None \<Rightarrow> io_return True
       | Some rb \<Rightarrow>
           io_bind outbound_has_in_flight (\<lambda>busy.
             if busy then io_return False
             else if rb_answer_queued rb then io_return False
             else io_bind
               (io_try (io_bind (publish_reboot_ack rb) (\<lambda>b. io_return (Some b)))
                  (\<lambda>e. if transport_error e then io_return None else io_raise e))
               (conclude_reboot rb)))"

subsection \<open>UTC requests\<close>

definition UTC_STARTUP_MAX_ATTEMPTS :: nat where "UTC_STARTUP_MAX_ATTEMPTS = 3"

definition request_id :: "c0_world \<Rightarrow> nat \<Rightarrow> string" where
  "request_id w n = runtime_id w @ ''_'' @ nat_str n"

definition utc_send_request :: "unit c0" where
  "utc_send_request =
     io_ask (\<lambda>w.
     io_bind (io_set (\<lambda>s. s\<lparr>utc_request_counter := Suc (utc_request_counter s),
                           pending_utc_request_id := Some (request_id w (Suc (utc_request_counter s)))\<rparr>)) (\<lambda>_.
     io_bind (io_try (io_bind publish_qos1 (\<lambda>_. io_return True))
                (\<lambda>e. if e = MemoryError \<or> transport_error e
                     then io_bind (io_set (\<lambda>s. s\<lparr>pending_utc_request_id := None\<rparr>)) (\<lambda>_.
                          if e = MemoryError then io_raise e else io_return False)
                     else io_raise e)) (\<lambda>published.
       if \<not> published then io_return ()
       else io_bind note_mqtt_publish_completed (\<lambda>_.
            io_bind read_ticks (\<lambda>now. io_bind (io_set (\<lambda>s. s\<lparr>utc_last_attempt_ms := Some now\<rparr>)) (\<lambda>_.
            io_bind read_ticks (\<lambda>now.
            io_bind (io_res (ticks_add now (c_broker_timeout_sec (config w) * 1000))) (\<lambda>deadline.
            io_set (\<lambda>s. s\<lparr>utc_request_deadline_ms := Some deadline\<rparr>)))))))))"

text \<open>\<open>ticks_diff(now, deadline) >= 0\<close>; a missing deadline is a type error.\<close>

definition deadline_passed :: "bool c0" where
  "deadline_passed =
     io_bind read_ticks (\<lambda>now. io_bind (io_get utc_request_deadline_ms) (\<lambda>deadline.
       case deadline of None \<Rightarrow> io_raise TypeError | Some d \<Rightarrow> io_return (ticks_diff now d \<ge> 0)))"

definition utc_request_expired :: "unit c0" where
  "utc_request_expired =
     io_bind (io_get pending_utc_request_id) (\<lambda>pending.
       if pending = None then io_return ()
       else io_bind deadline_passed (\<lambda>passed. if passed then utc_clear_pending else io_return ()))"

definition utc_sync_due :: "bool c0" where
  "utc_sync_due =
     io_bind (io_get c0_utc_snapshot) (\<lambda>snap.
       case snap of
         None \<Rightarrow> io_return True
       | Some sn \<Rightarrow> io_bind uptime_ms (\<lambda>u. io_ask (\<lambda>w.
           io_return (u - us_sync_uptime_ms sn \<ge> c_sync_interval_min (config w) * 60 * 1000))))"

definition utc_should_send_request :: "bool c0" where
  "utc_should_send_request =
     io_bind (io_get pending_utc_request_id) (\<lambda>pending.
       if pending \<noteq> None then io_return False
       else io_bind utc_sync_due (\<lambda>due.
         if \<not> due then io_return False
         else io_bind (io_get utc_last_attempt_ms) (\<lambda>last.
           case last of
             None \<Rightarrow> io_return True
           | Some t \<Rightarrow> io_bind read_ticks (\<lambda>now.
               io_return (\<not> ticks_diff now t < UTC_RETRY_INTERVAL_MS)))))"

subsection \<open>Identity on the wire\<close>

text \<open>
  A live container: its claimed sequence, the bytes it would send, its topic. The frame a
  container sends is a function of the three.
\<close>

type_synonym slot = "int option \<times> string option \<times> string"

definition track_slot :: "c0_world \<Rightarrow> tracked \<Rightarrow> slot" where
  "track_slot w tr = (claimed_sequence tr, frozen_bytes tr, c_topic_command_response (config w))"

definition entry_slot :: "c0_world \<Rightarrow> entry \<Rightarrow> slot" where
  "entry_slot w e = (wire_sequence e, Some (payload_bytes e), topic_for_kind (config w) (e_kind e))"

definition live :: "c0_world \<Rightarrow> core0 \<Rightarrow> slot list" where
  "live w s =
     map (\<lambda>r. track_slot w (r_track r)) (pending_core0_responses s)
     @ (case pending_reboot s of None \<Rightarrow> [] | Some rb \<Rightarrow> [track_slot w (rb_track rb)])
     @ (case in_flight (c0_outbound s) of None \<Rightarrow> [] | Some e \<Rightarrow> [entry_slot w e])"

fun claims :: "slot list \<Rightarrow> (int \<times> string option \<times> string) list" where
  "claims [] = []"
| "claims ((None, b, t) # L) = claims L"
| "claims ((Some n, b, t) # L) = (n, b, t) # claims L"

lemma claims_append [simp]: "claims (xs @ ys) = claims xs @ claims ys"
  by (induction xs rule: claims.induct) auto

definition frame_of :: "c0_world \<Rightarrow> int \<Rightarrow> string \<Rightarrow> string" where
  "frame_of w n body = splice_frame body (envelope_fragment w n)"

text \<open>
  Every frame sent under a sequence is the frame of one container; a container that is
  still live would send that very frame again.
\<close>

definition resends :: "c0_world \<Rightarrow> (int \<times> string \<times> string) list \<Rightarrow> int \<times> string option \<times> string \<Rightarrow> bool" where
  "resends w hist c \<longleftrightarrow>
     (\<forall>x \<in> set hist. fst x = fst c \<longrightarrow>
        (\<exists>body. fst (snd c) = Some body \<and> x = (fst c, snd (snd c), frame_of w (fst c) body)))"

definition ident_log :: "int \<Rightarrow> (int \<times> string \<times> string) list \<Rightarrow> bool" where
  "ident_log n hist \<longleftrightarrow>
     inj_on fst (set hist)
   \<and> (\<forall>x \<in> set hist. fst x < n \<and> length (snd (snd x)) \<le> MAX_OUTBOUND_MESSAGE_BYTES)"

definition ident ::
  "c0_world \<Rightarrow> (int \<times> string option \<times> string) list \<Rightarrow> int \<Rightarrow> (int \<times> string \<times> string) list \<Rightarrow> bool" where
  "ident w C n hist \<longleftrightarrow>
     distinct (map fst C) \<and> (\<forall>c \<in> set C. fst c < n \<and> resends w hist c) \<and> ident_log n hist"

lemma ident_sub:
  assumes "ident w C n hist" and "set C' \<subseteq> set C" and "distinct (map fst C')"
  shows "ident w C' n hist"
  using assms unfolding ident_def by blast

lemma ident_claim:
  assumes "ident w (C @ D) n hist"
  shows "ident w (C @ (n, b, t) # D) (n + 1) hist"
proof -
  have old: "\<forall>c \<in> set (C @ D). fst c < n" and hist: "\<forall>x \<in> set hist. fst x < n"
    using assms by (simp_all add: ident_def ident_log_def)
  then have "n \<notin> fst ` set (C @ D)" by blast
  then have "distinct (map fst (C @ (n, b, t) # D))" using assms by (auto simp: ident_def)
  moreover have "resends w hist (n, b, t)" using hist by (auto simp: resends_def)
  moreover have "fst c < n + 1" if "c \<in> set (C @ (n, b, t) # D)" for c
  proof (cases "c = (n, b, t)")
    case False
    with that have "c \<in> set (C @ D)" by simp
    with old have "fst c < n" by blast
    then show ?thesis by simp
  qed simp
  moreover have "ident_log (n + 1) hist" using assms by (auto simp: ident_def ident_log_def)
  moreover have "\<forall>c \<in> set (C @ D). resends w hist c" using assms by (simp add: ident_def)
  ultimately show ?thesis by (simp add: ident_def ball_Un)
qed

lemma ident_freeze:
  assumes "ident w (C @ (m, None, t) # D) n hist"
  shows "ident w (C @ (m, Some bs, t) # D) n hist"
  using assms by (auto simp: ident_def resends_def)

lemma ident_send:
  assumes "ident w C n hist" and c: "(m, Some body, t) \<in> set C"
    and len: "length (frame_of w m body) \<le> MAX_OUTBOUND_MESSAGE_BYTES"
  shows "ident w C n (hist @ [(m, t, frame_of w m body)])"
proof -
  let ?x = "(m, t, frame_of w m body)"
  have d: "distinct (map fst C)" and bound: "\<forall>c \<in> set C. fst c < n" and re: "\<forall>c \<in> set C. resends w hist c"
    and l: "ident_log n hist" using assms(1) by (simp_all add: ident_def)
  have same: "x = ?x" if "x \<in> set hist" "fst x = m" for x
    using re c that by (force simp: resends_def)
  have "resends w (hist @ [?x]) c'" if c': "c' \<in> set C" for c'
  proof (cases "fst c' = m")
    case True
    with eq_key_imp_eq_value [OF d, of m "snd c'" "(Some body, t)"] c c' have "c' = (m, Some body, t)"
      by (cases c') auto
    with same show ?thesis by (auto simp: resends_def)
  next
    case False
    with re c' show ?thesis by (auto simp: resends_def)
  qed
  moreover have "ident_log n (hist @ [?x])"
  proof -
    have "inj_on fst (insert ?x (set hist))"
      using l same by (auto simp: ident_log_def inj_on_def)
    with l len bound c show ?thesis by (auto simp: ident_log_def)
  qed
  ultimately show ?thesis using d bound by (simp add: ident_def)
qed

text \<open>The invariant of Core 0's outbound half.\<close>

definition identified :: "c0_world \<Rightarrow> core0 \<Rightarrow> bool" where
  "identified w s \<longleftrightarrow>
     ident w (claims (live w s)) (next_sequence s) (sent s)
   \<and> set (acked s) \<subseteq> set (sent s)
   \<and> healthy (c0_outbound s)"

text \<open>What the invariant depends on; most steps leave it as it is.\<close>

definition view :: "c0_world \<Rightarrow> core0 \<Rightarrow>
    (int \<times> string option \<times> string) list \<times> int \<times> (int \<times> string \<times> string) list
    \<times> (int \<times> string \<times> string) list \<times> outq" where
  "view w s = (claims (live w s), next_sequence s, sent s, acked s, c0_outbound s)"

lemma identified_view: "view w s = view w t \<Longrightarrow> identified w s = identified w t"
  by (simp add: view_def identified_def)

definition keeps :: "(c0_world \<Rightarrow> core0 \<Rightarrow> bool) \<Rightarrow> 'a c0 \<Rightarrow> bool" where
  "keeps I m \<longleftrightarrow> (\<forall>w s. I w s \<longrightarrow> run_to m w s (\<lambda>r t. I w t))"

named_theorems keep_rules \<open>invariants of programs\<close>

lemma keepsD: "keeps I m \<Longrightarrow> I w s \<Longrightarrow> run_to m w s (\<lambda>r t. I w t)"
  by (simp add: keeps_def)

lemma keeps_basic [keep_rules]:
  "keeps I (io_return x)" "keeps I (io_raise e)" "keeps I (io_get f)" "keeps I (io_res r)"
  by (simp_all add: keeps_def split: sum.splits)

lemma keeps_set [keep_rules]: "(\<And>w s. I w s \<Longrightarrow> I w (f s)) \<Longrightarrow> keeps I (io_set f)"
  by (simp add: keeps_def)

lemma keeps_bind [keep_rules]:
  assumes "keeps I m" and "\<And>x. keeps I (f x)"
  shows "keeps I (io_bind m f)"
  unfolding keeps_def run_to_bind
  by (intro allI impI, rule run_to_mono [OF keepsD [OF assms(1)]])
    (use assms(2) in \<open>auto simp: keeps_def split: outcome.splits\<close>)

lemma keeps_try [keep_rules]:
  assumes "keeps I m" and "\<And>e. keeps I (h e)"
  shows "keeps I (io_try m h)"
  unfolding keeps_def run_to_try
  by (intro allI impI, rule run_to_mono [OF keepsD [OF assms(1)]])
    (use assms(2) in \<open>auto simp: keeps_def split: outcome.splits\<close>)

lemma keeps_ask [keep_rules]: "(\<And>w. keeps I (f w)) \<Longrightarrow> keeps I (io_ask f)"
  by (simp add: keeps_def)

lemma keeps_cases [keep_rules]:
  "(b \<Longrightarrow> keeps I m) \<Longrightarrow> (\<not> b \<Longrightarrow> keeps I n) \<Longrightarrow> keeps I (if b then m else n)"
  "keeps I g \<Longrightarrow> (\<And>x. keeps I (h x)) \<Longrightarrow> keeps I (case opt of None \<Rightarrow> g | Some x \<Rightarrow> h x)"
  "(\<And>x y. keeps I (k x y)) \<Longrightarrow> keeps I (case p of (x, y) \<Rightarrow> k x y)"
  "(\<And>e. keeps I (l e)) \<Longrightarrow> (\<And>x. keeps I (h x)) \<Longrightarrow> keeps I (case r of Inl e \<Rightarrow> l e | Inr x \<Rightarrow> h x)"
  by (auto split: option.splits prod.splits sum.splits)

abbreviation still :: "(c0_world \<Rightarrow> core0 \<Rightarrow> 'v) \<Rightarrow> 'a c0 \<Rightarrow> bool" where
  "still v m \<equiv> (\<forall>x. keeps (\<lambda>w s. v w s = x) m)"

lemma still_run: "still v m \<Longrightarrow> run_to m w s (\<lambda>r t. v w t = v w s)"
  by (simp add: keeps_def)

lemma still_identified: "still view m \<Longrightarrow> keeps identified m"
  unfolding keeps_def by (metis (mono_tags, lifting) identified_view run_to_mono)


lemma run_to_sense [simp]:
  "run_to (sense f) w s Q = Q (Return (f w (c0_clock s))) (s\<lparr>c0_clock := Suc (c0_clock s)\<rparr>)"
  by (simp add: run_to_def sense_def)

text \<open>
  What most steps leave alone: the claims, the log and the queue, and the container a
  publish is about.
\<close>

fun exists_holder :: "holder \<Rightarrow> core0 \<Rightarrow> bool" where
  "exists_holder Head_response s = (pending_core0_responses s \<noteq> [])"
| "exists_holder Held_reboot s = (pending_reboot s \<noteq> None)"

definition whole :: "c0_world \<Rightarrow> core0 \<Rightarrow>
    ((int \<times> string option \<times> string) list \<times> int \<times> (int \<times> string \<times> string) list
      \<times> (int \<times> string \<times> string) list \<times> outq) \<times> response list \<times> reboot_request option" where
  "whole w s = (view w s, pending_core0_responses s, pending_reboot s)"

lemma whole_upd [simp]:
  "whole w (s\<lparr>c0_clock := c\<rparr>) = whole w s" "whole w (s\<lparr>c0_uptime := u\<rparr>) = whole w s"
  "whole w (s\<lparr>mqtt_last_activity_ms := n\<rparr>) = whole w s"
  "whole w (s\<lparr>last_publish_completed_ms := p\<rparr>) = whole w s"
  "whole w (s\<lparr>mqtt_connected := b\<rparr>) = whole w s" "whole w (s\<lparr>mqtt_disconnect_count := k\<rparr>) = whole w s"
  "whole w (s\<lparr>mqtt_last_reason := r\<rparr>) = whole w s" "whole w (s\<lparr>feeds := k\<rparr>) = whole w s"
  "whole w (s\<lparr>resets := causes\<rparr>) = whole w s" "whole w (s\<lparr>utc_request_counter := k\<rparr>) = whole w s"
  "whole w (s\<lparr>pending_utc_request_id := i\<rparr>) = whole w s"
  "whole w (s\<lparr>utc_request_deadline_ms := d\<rparr>) = whole w s"
  "whole w (s\<lparr>utc_last_attempt_ms := d\<rparr>) = whole w s"
  "whole w (s\<lparr>last_command_poll_ms := n\<rparr>) = whole w s"
  "whole w (s\<lparr>last_network_snapshot_ms := d\<rparr>) = whole w s"
  "whole w (s\<lparr>network_stack_ready := b\<rparr>) = whole w s" "whole w (s\<lparr>c0_mailboxes := m\<rparr>) = whole w s"
  "whole w (s\<lparr>led_connecting := b\<rparr>) = whole w s" "whole w (s\<lparr>wdt_armed := b\<rparr>) = whole w s"
  "whole w (s\<lparr>mqtt_connect_count := k\<rparr>) = whole w s" "whole w (s\<lparr>wlan_active := b\<rparr>) = whole w s"
  "whole w (s\<lparr>wifi_was_connected := b\<rparr>) = whole w s" "whole w (s\<lparr>wifi_connect_count := k\<rparr>) = whole w s"
  "whole w (s\<lparr>wifi_disconnect_count := k\<rparr>) = whole w s" "whole w (s\<lparr>c0_utc_snapshot := sn\<rparr>) = whole w s"
  by (simp_all add: whole_def view_def live_def)

lemma still_set: "(\<And>w s. v w (f s) = v w s) \<Longrightarrow> still v (io_set f)"
  by (simp add: keeps_def)

lemma keeps_set_whole [keep_rules]:
  "(\<And>w s. whole w (f s) = whole w s) \<Longrightarrow> keeps (\<lambda>w s. whole w s = x) (io_set f)"
  by (simp add: keeps_def)

lemma keeps_sense [keep_rules]: "keeps (\<lambda>w s. whole w s = x) (sense f)"
  by (simp add: keeps_def)

lemma keeps_ticks [keep_rules]: "keeps (\<lambda>w s. whole w s = x) read_ticks"
  by (simp add: keeps_def)

lemma keeps_uptime [keep_rules]: "keeps (\<lambda>w s. whole w s = x) uptime_ms"
  by (simp add: keeps_def run_to_uptime Let_def)

lemma keeps_timestamp [keep_rules]: "keeps (\<lambda>w s. whole w s = x) current_utc_timestamp"
proof -
  have "keeps (\<lambda>w s. whole w s = x) (io_bind uptime_ms (\<lambda>u. io_ask (\<lambda>w.
          io_bind (io_res (utc_text w (n + u))) (\<lambda>t. io_return (PStr t)))))" for n
    by (intro keep_rules)
  then show ?thesis
    by (auto simp: keeps_def current_utc_timestamp_def run_to_def split: option.splits)
qed

lemma keeps_touch [keep_rules]: "keeps (\<lambda>w s. whole w s = x) touch"
  unfolding touch_def by (intro keep_rules) simp_all

lemma keeps_completed [keep_rules]: "keeps (\<lambda>w s. whole w s = x) note_mqtt_publish_completed"
  unfolding note_mqtt_publish_completed_def by (intro keep_rules) simp_all

lemma keeps_mark [keep_rules]: "keeps (\<lambda>w s. whole w s = x) (mark_disconnected r)"
  unfolding mark_disconnected_def by (intro keep_rules) simp_all

lemma run_to_reset [simp]: "run_to (machine_reset c) w s Q = Q Cut (s\<lparr>resets := resets s @ [c]\<rparr>)"
  by (simp add: run_to_def machine_reset_def)

lemma keeps_service [keep_rules]: "keeps (\<lambda>w s. whole w s = x) service_wait"
  by (auto simp: keeps_def service_wait_def watch_core_1_heartbeat_def feed_watchdog_def split: option.splits)

lemma keeps_ready [keep_rules]: "keeps (\<lambda>w s. whole w s = x) mqtt_publish_ready"
  unfolding mqtt_publish_ready_def by (intro keep_rules)

lemma still_view: "still whole m \<Longrightarrow> keeps (\<lambda>w s. view w s = x) m"
  unfolding keeps_def whole_def
  by (intro allI impI, rule run_to_mono [of m]) (blast, simp)

lemmas view_rules [keep_rules] =
  keeps_sense [THEN still_view [OF allI]] keeps_ticks [THEN still_view [OF allI]]
  keeps_uptime [THEN still_view [OF allI]] keeps_timestamp [THEN still_view [OF allI]]
  keeps_touch [THEN still_view [OF allI]] keeps_completed [THEN still_view [OF allI]]
  keeps_mark [THEN still_view [OF allI]] keeps_ready [THEN still_view [OF allI]]
  keeps_service [THEN still_view [OF allI]]

subsection \<open>The callback leaves identities alone\<close>

lemma untracked_slot [simp]: "claims [track_slot w untracked] = []"
  by (simp add: track_slot_def untracked_def)

lemma handled_view: "handled i targeted s r t \<Longrightarrow> view w t = view w s"
  using same_outside_fields [of s t]
  by (auto simp: handled_def left_trace_def view_def live_def split: outcome.splits trace.splits)

lemma message_view: "on_mqtt_message topic payload w s = (r, t) \<Longrightarrow> view w t = view w s"
proof (erule message_cases, goal_cases)
  case (1 doc i)
  note h = claimed_handled(3) [OF 1(3-5)]
  have "view w (claim i s) = view w s"
    unfolding claim_def remember_command_id_def Let_def by (simp add: view_def live_def)
  with handled_view [OF h] show ?case by simp
next
  case 2
  show ?case by (simp add: view_def live_def utc_only_fields [OF 2(1)])
qed

lemma keeps_message [keep_rules]: "keeps (\<lambda>w s. view w s = x) (on_mqtt_message topic payload)"
  by (auto simp: keeps_def message_view intro!: run_toI)

lemma keeps_pump [keep_rules]: "keeps (\<lambda>w s. view w s = x) (pump msgs)"
  by (induction msgs rule: pump.induct) (auto intro!: keep_rules)

lemma keeps_exchange [keep_rules]: "keeps (\<lambda>w s. view w s = x) (exchange f)"
  unfolding exchange_def by (intro keep_rules)

lemma keeps_marking [keep_rules]:
  "keeps (\<lambda>w s. view w s = x) m \<Longrightarrow> keeps (\<lambda>w s. view w s = x) (marking r m)"
  unfolding marking_def by (intro keep_rules)

lemma keeps_publish [keep_rules]: "keeps (\<lambda>w s. view w s = x) publish_qos1"
  unfolding publish_qos1_def if_connected_def by (intro keep_rules)

lemma keeps_check_msg [keep_rules]: "keeps (\<lambda>w s. view w s = x) mqtt_check_msg"
  unfolding mqtt_check_msg_def if_connected_def by (intro keep_rules)

lemma keeps_ping [keep_rules]: "keeps (\<lambda>w s. view w s = x) mqtt_ping"
  unfolding mqtt_ping_def if_connected_def by (intro keep_rules)

subsection \<open>Every publish keeps the identities\<close>

lemma get_set_track [simp]:
  "exists_holder h s \<Longrightarrow> get_track h (set_track h tr s) = tr"
  "exists_holder h (set_track h tr s) = exists_holder h s"
  by (cases h; auto split: list.splits option.splits)+

lemma set_track_frame [simp]:
  "next_sequence (set_track h tr s) = next_sequence s" "sent (set_track h tr s) = sent s"
  "acked (set_track h tr s) = acked s" "c0_outbound (set_track h tr s) = c0_outbound s"
  by (cases h; simp split: list.splits option.splits)+

lemma set_track_next [simp]:
  "set_track h tr (s\<lparr>next_sequence := n\<rparr>) = (set_track h tr s)\<lparr>next_sequence := n\<rparr>"
  "get_track h (s\<lparr>next_sequence := n\<rparr>) = get_track h s"
  "exists_holder h (s\<lparr>next_sequence := n\<rparr>) = exists_holder h s"
  "live w (s\<lparr>next_sequence := n\<rparr>) = live w s"
  by (cases h; simp add: live_def split: list.splits option.splits)+

text \<open>A container is one slot of the live ones.\<close>

lemma live_slot:
  assumes "exists_holder h s"
  shows "\<exists>xs ys. (\<forall>tr. live w (set_track h tr s) = xs @ track_slot w tr # ys)
                \<and> live w s = xs @ track_slot w (get_track h s) # ys"
proof (cases h)
  case Head_response
  with assms obtain r rs where "pending_core0_responses s = r # rs" by (cases "pending_core0_responses s") auto
  with Head_response show ?thesis by - (rule exI [of _ "[]"], simp add: live_def)
next
  case Held_reboot
  with assms obtain rb where "pending_reboot s = Some rb" by auto
  with Held_reboot show ?thesis
    by - (rule exI [of _ "map (\<lambda>r. track_slot w (r_track r)) (pending_core0_responses s)"], simp add: live_def)
qed

lemma holder_claim:
  assumes "exists_holder h s" and "claimed_sequence (get_track h s) = Some n"
    and "frozen_bytes (get_track h s) = Some bs"
  shows "(n, Some bs, c_topic_command_response (config w)) \<in> set (claims (live w s))"
proof -
  obtain xs ys where "live w s = xs @ track_slot w (get_track h s) # ys"
    using live_slot [OF assms(1), of w] by blast
  then show ?thesis using assms(2,3) by (simp add: track_slot_def)
qed

definition holds :: "holder \<Rightarrow> int \<Rightarrow> string option \<Rightarrow> core0 \<Rightarrow> bool" where
  "holds h n b s \<longleftrightarrow> exists_holder h s \<and> claimed_sequence (get_track h s) = Some n
     \<and> frozen_bytes (get_track h s) = b"

lemma claim_tracked_ok:
  assumes "identified w s" and "exists_holder h s"
  shows "run_to (claim_tracked h) w s (\<lambda>r t. identified w t
           \<and> (\<exists>n. r = Return n \<and> holds h n (frozen_bytes (get_track h s)) t))"
proof (cases "claimed_sequence (get_track h s)")
  case (Some n)
  with assms show ?thesis by (simp add: claim_tracked_def claim_wire_sequence_def holds_def)
next
  case None
  let ?tr = "(get_track h s)\<lparr>claimed_sequence := Some (next_sequence s)\<rparr>"
  obtain xs ys where l: "\<And>tr. live w (set_track h tr s) = xs @ track_slot w tr # ys"
    "live w s = xs @ track_slot w (get_track h s) # ys"
    using live_slot [OF assms(2), of w] by blast
  have "ident w (claims xs @ claims ys) (next_sequence s) (sent s)"
    using assms(1) None by (simp add: identified_def l(2) track_slot_def)
  from ident_claim [OF this] have
    "ident w (claims (live w (set_track h ?tr s))) (next_sequence s + 1) (sent s)"
    by (simp add: l(1) track_slot_def)
  with assms None show ?thesis
    by (simp add: claim_tracked_def claim_wire_sequence_def new_sequence_def identified_def holds_def)
qed

lemma holds_whole:
  assumes "whole w t = whole w s"
  shows "holds h n b t = holds h n b s" and "identified w t = identified w s"
  using assms identified_view [of w t s]
  by (cases h; simp add: holds_def whole_def split: option.splits list.splits)+

lemma update_track_ok:
  assumes "identified w s" and "\<And>tr. claimed_sequence (f tr) = claimed_sequence tr"
    and "\<And>tr. frozen_bytes (f tr) = frozen_bytes tr"
  shows "identified w (set_track h (f (get_track h s)) s)"
proof (cases "exists_holder h s")
  case True
  obtain xs ys where l: "\<And>tr. live w (set_track h tr s) = xs @ track_slot w tr # ys"
    "live w s = xs @ track_slot w (get_track h s) # ys"
    using live_slot [OF True, of w] by blast
  show ?thesis using assms by (simp add: identified_def l track_slot_def)
next
  case False
  then have "set_track h (f (get_track h s)) s = s" by (cases h) auto
  with assms(1) show ?thesis by simp
qed

lemma record_failure_ok:
  "identified w s \<Longrightarrow> run_to (record_failure h f) w s (\<lambda>r t. identified w t \<and> r = Return False)"
  by (simp add: record_failure_def update_track_def update_track_ok [of w s "\<lambda>tr. tr\<lparr>permanent_failure := Some f\<rparr>"])

lemma frozen_ok:
  assumes "identified w s" and "holds h n None s"
  shows "identified w (set_track h ((get_track h s)\<lparr>frozen_bytes := Some bs\<rparr>) s)"
    and "holds h n (Some bs) (set_track h ((get_track h s)\<lparr>frozen_bytes := Some bs\<rparr>) s)"
proof -
  have h: "exists_holder h s" "claimed_sequence (get_track h s) = Some n" "frozen_bytes (get_track h s) = None"
    using assms(2) by (simp_all add: holds_def)
  obtain xs ys where l: "\<And>tr. live w (set_track h tr s) = xs @ track_slot w tr # ys"
    "live w s = xs @ track_slot w (get_track h s) # ys"
    using live_slot [OF h(1), of w] by blast
  have "ident w (claims xs @ (n, None, c_topic_command_response (config w)) # claims ys) (next_sequence s) (sent s)"
    using assms(1) h by (simp add: identified_def l(2) track_slot_def)
  from ident_freeze [OF this, of bs] assms(1) h
  show "identified w (set_track h ((get_track h s)\<lparr>frozen_bytes := Some bs\<rparr>) s)"
    by (simp add: identified_def l(1) track_slot_def)
  show "holds h n (Some bs) (set_track h ((get_track h s)\<lparr>frozen_bytes := Some bs\<rparr>) s)"
    using h by (simp add: holds_def)
qed

lemma run_to_bind_get: "run_to (io_bind (io_get f) g) w s Q = run_to (g (f s)) w s Q"
  by simp

text \<open>The serialization part of \<open>freeze_bytes\<close>.\<close>

definition freeze_new :: "holder \<Rightarrow> pyval \<Rightarrow> string option c0" where
  "freeze_new h message =
     io_try (io_bind (c0_serialize message) (\<lambda>bs.
             io_bind (update_track h (\<lambda>tr. tr\<lparr>frozen_bytes := Some bs\<rparr>)) (\<lambda>_.
             io_return (Some bs))))
       (\<lambda>e. if e = MemoryError then io_raise e
            else io_bind (record_failure h (if e = MessageTooLargeError then Response_too_large
                                            else Response_invalid)) (\<lambda>_. io_return None))"

definition answers :: "c0_world \<Rightarrow> pydict \<Rightarrow> string \<Rightarrow> bool" where
  "answers w payload bs \<longleftrightarrow>
     (\<exists>u ts. serialize_and_validate_message (c0_floats w) (response_message payload u ts) = Inr bs)"

definition frozen_to ::
  "holder \<Rightarrow> int \<Rightarrow> c0_world \<Rightarrow> (string \<Rightarrow> bool) \<Rightarrow> string option outcome \<Rightarrow> core0 \<Rightarrow> bool" where
  "frozen_to h n w A r t \<longleftrightarrow>
     identified w t \<and> (\<forall>bs. r = Return (Some bs) \<longrightarrow> holds h n (Some bs) t \<and> A bs)"

lemma freeze_new_ok:
  assumes "identified w s" and "holds h n None s"
  shows "run_to (freeze_new h m) w s
           (frozen_to h n w (\<lambda>bs. serialize_and_validate_message (c0_floats w) m = Inr bs))"
proof -
  let ?s = "s\<lparr>c0_clock := Suc (c0_clock s)\<rparr>"
  have s: "identified w ?s" "holds h n None ?s"
    using assms holds_whole [of w ?s s] by simp_all
  show ?thesis
    using frozen_ok [OF s] update_track_ok [OF s(1), of _ h] s(1)
    by (simp add: freeze_new_def c0_serialize_def update_track_def record_failure_def frozen_to_def
        split: sum.splits)
qed

lemma freeze_bytes_ok:
  assumes "identified w s" and "holds h n b s"
  shows "run_to (freeze_bytes h payload) w s
           (frozen_to h n w (\<lambda>bs. b = Some bs \<or> b = None \<and> answers w payload bs))"
proof (cases b)
  case (Some bs)
  with assms show ?thesis by (simp add: freeze_bytes_def holds_def frozen_to_def)
next
  case None
  have ok: "identified w t" "holds h n None t" if "whole w t = whole w s" for t
    using assms None holds_whole [OF that] by auto
  have new: "run_to (freeze_new h (response_message payload u ts)) w t (frozen_to h n w (answers w payload))"
    if "whole w t = whole w s" for t u ts
    by (rule run_to_mono [OF freeze_new_ok [OF ok [OF that]]]) (auto simp: frozen_to_def answers_def)
  have stamp: "run_to current_utc_timestamp w t (\<lambda>r u. whole w u = whole w s)"
    if "whole w t = whole w s" for t using keepsD [OF keeps_timestamp that] .
  have up: "run_to uptime_ms w s (\<lambda>r u. whole w u = whole w s)"
    by (rule keepsD [OF keeps_uptime refl])
  have frozen: "frozen_bytes (get_track h s) = None" using assms(2) None by (simp add: holds_def)
  have rest: "run_to (io_bind current_utc_timestamp (\<lambda>ts. freeze_new h (response_message payload u ts))) w t
      (frozen_to h n w (answers w payload))" if "whole w t = whole w s" for t u
    unfolding run_to_bind
    by (rule run_to_mono [OF stamp [OF that]]) (auto simp: frozen_to_def ok new split: outcome.splits)
  have "run_to (io_bind uptime_ms (\<lambda>u. io_bind current_utc_timestamp (\<lambda>ts.
          freeze_new h (response_message payload u ts)))) w s (frozen_to h n w (answers w payload))"
    unfolding run_to_bind [of uptime_ms]
    by (rule run_to_mono [OF up])
      (auto simp: frozen_to_def ok rest simp del: run_to_bind split: outcome.splits)
  then show ?thesis
    by (simp add: freeze_bytes_def frozen freeze_new_def run_to_bind_get None del: run_to_bind)
qed

lemma frame_length: "body \<noteq> [] \<Longrightarrow> length (frame_of w n body) = length body + length (envelope_fragment w n) + 1"
  by (simp add: frame_of_def splice_frame_def)

lemma identified_send:
  assumes "identified w s" and "(n, Some body, topic) \<in> set (claims (live w s))" and "body \<noteq> []"
    and "length body + length (envelope_fragment w n) + 1 \<le> MAX_OUTBOUND_MESSAGE_BYTES"
  shows "identified w (s\<lparr>sent := sent s @ [(n, topic, frame_of w n body)]\<rparr>)"
proof -
  have "live w (s\<lparr>sent := x\<rparr>) = live w s" for x by (simp add: live_def)
  then show ?thesis
    using assms ident_send [of w "claims (live w s)" "next_sequence s" "sent s" n body topic]
    by (auto simp: identified_def frame_length)
qed

lemma identified_ack:
  "identified w s \<Longrightarrow> x \<in> set (sent s) \<Longrightarrow> identified w (s\<lparr>acked := acked s @ [x]\<rparr>)"
  by (simp add: identified_def live_def)

definition frame_acked :: "string \<Rightarrow> string \<Rightarrow> c0_world \<Rightarrow> core0 \<Rightarrow> bool" where
  "frame_acked topic body w s \<longleftrightarrow> (\<exists>n. (n, topic, frame_of w n body) \<in> set (acked s))"

definition send_ok :: "string \<Rightarrow> string \<Rightarrow> c0_world \<Rightarrow> 'a outcome \<Rightarrow> core0 \<Rightarrow> bool" where
  "send_ok topic body w r t \<longleftrightarrow> identified w t \<and> (case r of Return x \<Rightarrow> frame_acked topic body w t | _ \<Rightarrow> True)"

lemma send_ok_simps [simp]:
  "send_ok topic body w (Raise e) t = identified w t" "send_ok topic body w Cut t = identified w t"
  "send_ok topic body w (Return x) t = (identified w t \<and> frame_acked topic body w t)"
  by (simp_all add: send_ok_def)

text \<open>The exchange of one frame, from the log entry to the acknowledgement.\<close>

definition exchange_frame :: "int \<times> string \<times> string \<Rightarrow> unit c0" where
  "exchange_frame x =
     io_bind (io_set (\<lambda>s. s\<lparr>sent := sent s @ [x]\<rparr>)) (\<lambda>_.
     io_bind publish_qos1 (\<lambda>_.
     io_bind (io_set (\<lambda>s. s\<lparr>acked := acked s @ [x]\<rparr>)) (\<lambda>_. note_mqtt_publish_completed)))"

lemma exchange_frame_ok:
  assumes "identified w s" and "(n, Some body, topic) \<in> set (claims (live w s))" and "body \<noteq> []"
    and "length body + length (envelope_fragment w n) + 1 \<le> MAX_OUTBOUND_MESSAGE_BYTES"
  shows "run_to (exchange_frame (n, topic, frame_of w n body)) w s (send_ok topic body w)"
proof -
  let ?x = "(n, topic, frame_of w n body)"
  let ?s = "s\<lparr>sent := sent s @ [?x]\<rparr>"
  have completed: "run_to note_mqtt_publish_completed w t (send_ok topic body w)"
    if "identified w t" "frame_acked topic body w t" for t
    using that by (simp add: note_mqtt_publish_completed_def identified_def live_def frame_acked_def)
  have acked: "run_to note_mqtt_publish_completed w (t\<lparr>acked := acked t @ [?x]\<rparr>) (send_ok topic body w)"
    if "view w t = view w ?s" for t
  proof (rule completed)
    have "identified w t" using identified_view [OF that] identified_send [OF assms] by simp
    moreover have "?x \<in> set (sent t)" using that by (simp add: view_def)
    ultimately show "identified w (t\<lparr>acked := acked t @ [?x]\<rparr>)" by (rule identified_ack)
  qed (auto simp: frame_acked_def)
  have "run_to publish_qos1 w ?s (\<lambda>r t. view w t = view w ?s)"
    by (rule keepsD [OF keeps_publish refl])
  then show ?thesis
    unfolding exchange_frame_def run_to_bind run_to_set outcome.case
    by (rule run_to_mono)
      (auto simp: acked identified_send [OF assms] dest: identified_view split: outcome.splits)
qed

lemma publish_entry_frame:
  "publish_entry topic body m =
     (if body = [] \<or> last body \<noteq> CHR ''}'' then io_raise ValueError
      else io_bind m (\<lambda>n. io_ask (\<lambda>w.
        if length body + length (envelope_fragment w n) + 1 > MAX_OUTBOUND_MESSAGE_BYTES
        then io_raise OutboundMessageTooLargeError
        else exchange_frame (n, topic, frame_of w n body))))"
  unfolding publish_entry_def exchange_frame_def frame_of_def Let_def by (rule refl)

lemma publish_entry_ok:
  assumes "run_to m w s (\<lambda>r t. identified w t \<and>
             (\<forall>n. r = Return n \<longrightarrow> (n, Some body, topic) \<in> set (claims (live w t))))" and "identified w s"
  shows "run_to (publish_entry topic body m) w s (send_ok topic body w)"
  using assms(2)
  by (auto simp: publish_entry_frame intro!: run_to_mono [OF assms(1)] exchange_frame_ok split: outcome.splits)

subsection \<open>Containers leave with their claims\<close>

lemma subseq_claims: "subseq xs ys \<Longrightarrow> subseq (claims xs) (claims ys)"
proof (induction xs ys rule: list_emb.induct)
  case (list_emb_Nil ys)
  then show ?case by simp
next
  case (list_emb_Cons xs ys y)
  then show ?case by (cases "[y]" rule: claims.cases) auto
next
  case (list_emb_Cons2 x y xs ys)
  then show ?case by (cases "[y]" rule: claims.cases) auto
qed

lemma distinct_subseq: "subseq xs ys \<Longrightarrow> distinct ys \<Longrightarrow> distinct xs"
  by (induction rule: list_emb.induct) (auto dest: list_emb_set)

lemma identified_less:
  assumes "identified w s" and "subseq (live w t) (live w s)" and "next_sequence t = next_sequence s"
    and "sent t = sent s" and "acked t = acked s" and "healthy (c0_outbound t)"
  shows "identified w t"
proof -
  have sub: "subseq (claims (live w t)) (claims (live w s))" by (rule subseq_claims [OF assms(2)])
  have "distinct (map fst (claims (live w t)))"
    using subseq_map [OF sub, of fst] assms(1) by (auto simp: identified_def ident_def intro: distinct_subseq)
  moreover have "set (claims (live w t)) \<subseteq> set (claims (live w s))"
    using sub by (auto dest: list_emb_set)
  ultimately show ?thesis using assms by (auto simp: identified_def intro: ident_sub)
qed

lemma identified_pop:
  "identified w s \<Longrightarrow> identified w (s\<lparr>pending_core0_responses := tl (pending_core0_responses s)\<rparr>)"
  by (rule identified_less [of w s])
    (cases "pending_core0_responses s"; auto simp: live_def identified_def)+

lemma identified_drop: "identified w s \<Longrightarrow> identified w (s\<lparr>pending_reboot := None\<rparr>)"
  by (rule identified_less [of w s]) (auto simp: live_def identified_def intro!: list_emb_append_mono)

lemma identified_push:
  "identified w s \<Longrightarrow> r_track r = untracked \<Longrightarrow>
     identified w (s\<lparr>pending_core0_responses := r # pending_core0_responses s\<rparr>)"
  "identified w s \<Longrightarrow> r_track r = untracked \<Longrightarrow>
     identified w (s\<lparr>pending_core0_responses := pending_core0_responses s @ [r]\<rparr>)"
  by (simp_all add: identified_def live_def) (use untracked_slot in \<open>simp_all add: track_slot_def untracked_def\<close>)

subsection \<open>A command response, from the claim to the acknowledgement\<close>

definition answered_by :: "(string \<Rightarrow> bool) \<Rightarrow> c0_world \<Rightarrow> bool outcome \<Rightarrow> core0 \<Rightarrow> bool" where
  "answered_by A w r t \<longleftrightarrow>
     identified w t \<and>
     (r = Return True \<longrightarrow> (\<exists>bs. A bs \<and> frame_acked (c_topic_command_response (config w)) bs w t))"

lemma publish_response_ok:
  assumes "identified w s" and "holds h n b s"
  shows "run_to (publish_core0_command_response h payload n) w s
           (answered_by (\<lambda>bs. b = Some bs \<or> b = None \<and> answers w payload bs) w)"
proof -
  let ?A = "\<lambda>bs. b = Some bs \<or> b = None \<and> answers w payload bs"
  have failed: "run_to (record_failure h f) w t (answered_by A w)" if "identified w t" for t f A
    by (rule run_to_mono [OF record_failure_ok [OF that]]) (simp add: answered_by_def)
  have sent: "run_to (publish_entry (c_topic_command_response (config w)) bs (io_return n)) w t
      (send_ok (c_topic_command_response (config w)) bs w)" if "identified w t" "holds h n (Some bs) t" for t bs
    by (rule publish_entry_ok) (use that in \<open>auto simp: holds_def intro: holder_claim\<close>)
  have "run_to (io_try (io_bind (publish_entry (c_topic_command_response (config w)) bs (io_return n))
                     (\<lambda>_. io_return True))
             (\<lambda>e. if e = OutboundMessageTooLargeError then record_failure h Response_too_large
                  else io_raise e)) w t (answered_by ?A w)"
    if "identified w t" "holds h n (Some bs) t" "?A bs" for t bs
    unfolding run_to_try run_to_bind
    by (rule run_to_mono [OF sent [OF that(1,2)]])
      (use that(3) in \<open>auto simp: failed answered_by_def split: outcome.splits\<close>)
  then show ?thesis
    unfolding publish_core0_command_response_def run_to_bind [of "freeze_bytes h payload"]
    by (intro run_to_mono [OF freeze_bytes_ok [OF assms]])
      (auto simp: frozen_to_def answered_by_def [of _ _ "Return False"] answered_by_def [of _ _ "Raise _"]
          answered_by_def [of _ _ Cut] split: outcome.splits option.splits)
qed

subsection \<open>The head of the response queue\<close>

text \<open>The queue still begins with the response \<open>r\<close>, whatever was published or recorded of it.\<close>

definition held :: "response \<Rightarrow> response list \<Rightarrow> core0 \<Rightarrow> bool" where
  "held r rest s \<longleftrightarrow>
     (\<exists>r' new. pending_core0_responses s = r' # rest @ new \<and> r'\<lparr>r_track := r_track r\<rparr> = r)"

lemma message_grows:
  assumes "on_mqtt_message topic payload w s = (r, t)"
  shows "(\<exists>new. pending_core0_responses t = pending_core0_responses s @ new)
         \<and> (pending_reboot s \<noteq> None \<longrightarrow> pending_reboot t = pending_reboot s)"
  using assms
proof (cases rule: message_cases)
  case (claimed doc i)
  note h = claimed_handled(3) [OF claimed(3-5)]
  have "pending_core0_responses (claim i s) = pending_core0_responses s" "pending_reboot (claim i s) = pending_reboot s"
    unfolding claim_def remember_command_id_def Let_def by simp_all
  with h show ?thesis
    by (auto simp: handled_def left_trace_def split: outcome.splits trace.splits)
next
  case other
  then show ?thesis by (simp add: utc_only_fields [OF other(1)])
qed

definition commanded :: "core0 \<Rightarrow> nat" where
  "commanded s = count_list (resets s) Reboot_commanded"

lemma commanded_upd [simp]:
  "commanded (s\<lparr>resets := resets s @ [Core_1_stale]\<rparr>) = commanded s"
  "commanded (s\<lparr>pending_core0_responses := rs\<rparr>) = commanded s"
  "commanded (s\<lparr>pending_reboot := rb\<rparr>) = commanded s"
  by (simp_all add: commanded_def)

lemma message_resets: "on_mqtt_message topic payload w s = (r, t) \<Longrightarrow> commanded t = commanded s"
proof (erule message_cases, goal_cases)
  case (1 doc i)
  have "resets (claim i s) = resets s"
    unfolding claim_def remember_command_id_def Let_def by simp
  with same_outside_fields(8) [of "claim i s" t] claimed_handled(3) [OF 1(3-5)] show ?case
    by (simp add: handled_def commanded_def)
next
  case 2
  show ?case by (simp add: commanded_def utc_only_fields [OF 2(1)])
qed

text \<open>
  What a publication of the container \<open>h\<close> leaves as it is: a property of the containers and
  the reset counter that survives a new message and the tracking of \<open>h\<close>.
\<close>

locale container_kept =
  fixes P :: "core0 \<Rightarrow> bool" and h :: holder
  assumes only: "P s \<Longrightarrow> pending_core0_responses t = pending_core0_responses s \<Longrightarrow>
                   pending_reboot t = pending_reboot s \<Longrightarrow> commanded t = commanded s \<Longrightarrow> P t"
    and grows: "P s \<Longrightarrow> pending_core0_responses t = pending_core0_responses s @ new \<Longrightarrow>
                  (pending_reboot s \<noteq> None \<longrightarrow> pending_reboot t = pending_reboot s) \<Longrightarrow>
                  commanded t = commanded s \<Longrightarrow> P t"
    and track: "P s \<Longrightarrow> P (set_track h tr s)"
begin

lemma kept_set:
  "(\<And>w s. pending_core0_responses (f s) = pending_core0_responses s \<and> pending_reboot (f s) = pending_reboot s
          \<and> resets (f s) = resets s) \<Longrightarrow> keeps (\<lambda>w. P) (io_set f)"
  by (auto simp: keeps_def commanded_def intro: only)

lemma kept_track: "(\<And>s. f s = set_track h (g s) s) \<Longrightarrow> keeps (\<lambda>w. P) (io_set f)"
  by (simp add: keeps_def track)

lemma kept_sense: "keeps (\<lambda>w. P) read_ticks" "keeps (\<lambda>w. P) (sense f)"
  by (auto simp: keeps_def commanded_def intro: only)

lemma kept_uptime: "keeps (\<lambda>w. P) uptime_ms"
  by (auto simp: keeps_def run_to_uptime Let_def commanded_def intro: only)

lemma kept_timestamp: "keeps (\<lambda>w. P) current_utc_timestamp"
proof -
  have "keeps (\<lambda>w. P) (io_bind uptime_ms (\<lambda>u. io_ask (\<lambda>w.
          io_bind (io_res (utc_text w (n + u))) (\<lambda>t. io_return (PStr t)))))" for n
    by (intro keep_rules kept_uptime)
  then show ?thesis
    by (auto simp: keeps_def current_utc_timestamp_def run_to_def split: option.splits)
qed

lemma kept_service: "keeps (\<lambda>w. P) service_wait"
  by (auto simp: keeps_def service_wait_def watch_core_1_heartbeat_def feed_watchdog_def split: option.splits
      elim!: only simp: commanded_def)

lemma kept_message: "keeps (\<lambda>w. P) (on_mqtt_message topic payload)"
  unfolding keeps_def by (intro allI impI run_toI) (metis grows message_grows message_resets)

lemma kept_pump: "keeps (\<lambda>w. P) (pump msgs)"
  by (induction msgs rule: pump.induct) (auto intro!: keep_rules kept_service kept_message)

lemma kept_publish: "keeps (\<lambda>w. P) publish_qos1"
  unfolding publish_qos1_def if_connected_def marking_def exchange_def touch_def mark_disconnected_def
  by (intro keep_rules kept_sense kept_pump kept_set) simp_all

lemma kept_claim: "keeps (\<lambda>w. P) (claim_tracked h)"
  unfolding claim_tracked_def claim_wire_sequence_def new_sequence_def
  by (intro keep_rules kept_set kept_track) (simp_all del: set_track.simps get_track.simps)

lemma kept_failure: "keeps (\<lambda>w. P) (record_failure h f)"
  unfolding record_failure_def update_track_def by (intro keep_rules kept_track) (rule refl)

lemma kept_freeze: "keeps (\<lambda>w. P) (freeze_bytes h payload)"
  unfolding freeze_bytes_def c0_serialize_def update_track_def
  by (intro keep_rules kept_sense kept_uptime kept_timestamp kept_failure kept_track) (rule refl)

lemma kept_response: "keeps (\<lambda>w. P) (publish_core0_command_response h payload n)"
  unfolding publish_core0_command_response_def publish_entry_def Let_def note_mqtt_publish_completed_def
  by (intro keep_rules kept_freeze kept_failure kept_publish kept_sense kept_set) simp_all

end

interpretation head: container_kept "held r rest" Head_response for r rest
  by unfold_locales (auto simp: held_def)

text \<open>The reboot request is still held, and no command has reset the board.\<close>

definition reboot_held :: "reboot_request \<Rightarrow> nat \<Rightarrow> core0 \<Rightarrow> bool" where
  "reboot_held rb n s \<longleftrightarrow>
     commanded s = n \<and> (\<exists>rb'. pending_reboot s = Some rb' \<and> rb'\<lparr>rb_track := rb_track rb\<rparr> = rb)"

interpretation reboot: container_kept "reboot_held rb n" Held_reboot for rb n
  by unfold_locales (auto simp: reboot_held_def)

text \<open>
  The queue after a pass over the response \<open>r\<close>: it is still held, or replaced by its
  substitute, or gone with an acknowledged frame whose body answers it.
\<close>

definition settled :: "(string \<Rightarrow> bool) \<Rightarrow> response \<Rightarrow> response list \<Rightarrow> c0_world \<Rightarrow> core0 \<Rightarrow> bool" where
  "settled A r rest w t \<longleftrightarrow>
     held r rest t
   \<or> (\<exists>f new. pending_core0_responses t =
                substitute (r_command_id r) (r_targeted r) (r_command r) f # rest @ new)
   \<or> (\<exists>bs new. pending_core0_responses t = rest @ new \<and> A bs
                \<and> frame_acked (c_topic_command_response (config w)) bs w t)"

lemma substitute_untracked [simp]: "r_track (substitute i targeted c f) = untracked"
  by (simp add: substitute_def command_error_def)

lemma conclude_ok:
  assumes "answered_by A w (Return b) s" and "held r rest s"
  shows "run_to (conclude_response r b) w s (\<lambda>x t. identified w t \<and> settled A r rest w t)"
proof -
  have s: "identified w s" using assms(1) by (simp add: answered_by_def)
  have replaced: "identified w (s\<lparr>pending_core0_responses :=
        substitute (r_command_id r) (r_targeted r) (r_command r) f # tl (pending_core0_responses s)\<rparr>)" for f
    using identified_push(1) [OF identified_pop [OF s], of "substitute (r_command_id r) (r_targeted r) (r_command r) f"]
    by simp
  show ?thesis
    using assms identified_pop [OF s] identified_drop [OF identified_pop [OF s]] replaced s
    by (auto simp: conclude_response_def settled_def held_def answered_by_def frame_acked_def split: option.splits)
qed

lemma service_pending_ok:
  assumes "identified w s" and "pending_core0_responses s = r # rest"
  shows "run_to service_pending_core0_response w s
           (\<lambda>x t. identified w t
              \<and> settled (\<lambda>bs. frozen_bytes (r_track r) = Some bs
                              \<or> frozen_bytes (r_track r) = None \<and> answers w (payload_of r) bs) r rest w t)"
proof -
  let ?b = "frozen_bytes (r_track r)"
  let ?A = "\<lambda>bs. ?b = Some bs \<or> ?b = None \<and> answers w (payload_of r) bs"
  have h: "exists_holder Head_response s" "held r rest s" "frozen_bytes (get_track Head_response s) = ?b"
    using assms(2) by (auto simp: held_def)
  have claimed: "run_to (claim_tracked Head_response) w s
      (\<lambda>x t. (identified w t \<and> (\<exists>n. x = Return n \<and> holds Head_response n ?b t)) \<and> held r rest t)"
    using claim_tracked_ok [OF assms(1) h(1)] keepsD [OF head.kept_claim h(2)]
    by (simp add: run_to_conj h(3) del: get_track.simps)
  have published: "run_to (io_bind (publish_core0_command_response Head_response (payload_of r) n) (conclude_response r)) w t
      (\<lambda>x u. identified w u \<and> settled ?A r rest w u)"
    if t: "identified w t" "holds Head_response n ?b t" "held r rest t" for t n
  proof -
    have "run_to (publish_core0_command_response Head_response (payload_of r) n) w t
        (\<lambda>x u. answered_by ?A w x u \<and> held r rest u)"
      unfolding run_to_conj by (intro conjI keepsD [OF head.kept_response t(3)] publish_response_ok [OF t(1,2)])
    then show ?thesis
      unfolding run_to_bind
      by (rule run_to_mono)
        (auto simp: settled_def [of ?A] answered_by_def [of _ _ "Raise _"] answered_by_def [of _ _ Cut]
          split: outcome.splits intro: run_to_mono [OF conclude_ok])
  qed
  show ?thesis
    unfolding service_pending_core0_response_def run_to_bind_get assms(2) list.case
      run_to_bind [of "claim_tracked Head_response"]
    by (rule run_to_mono [OF claimed]) (auto simp del: run_to_bind intro: published)
qed

lemma keeps_service_pending [keep_rules]: "keeps identified service_pending_core0_response"
  unfolding keeps_def
proof (intro allI impI)
  fix w s assume s: "identified w s"
  show "run_to service_pending_core0_response w s (\<lambda>x t. identified w t)"
  proof (cases "pending_core0_responses s")
    case Nil
    with s show ?thesis by (simp add: service_pending_core0_response_def)
  next
    case (Cons r rest)
    show ?thesis by (rule run_to_mono [OF service_pending_ok [OF s Cons]]) simp
  qed
qed

subsection \<open>The outbound lane under Core 0's operations\<close>

lemma core1_put_steady:
  assumes "healthy q"
  shows "healthy (core1_put (c0_env w) m q) \<and> in_flight (core1_put (c0_env w) m q) = in_flight q"
proof -
  obtain kind message p where m: "m = (kind, message, p)" by (cases m) auto
  have q: "outq_inv q" "\<not> lock_held q" using assms by (simp_all add: healthy_def)
  obtain r t where rt: "put (c0_env w) kind message p q = Some (r, t)"
    and out: "put_outcome (c0_env w) kind p
                (\<lambda>bs. serialize_and_validate_message (float_repr (c0_env w)) message = Inr bs)
                (message_fault (c0_env w) kind p message) q r t"
    using put_returns [OF q] by blast
  have "idle (c0_env w)" by (simp add: idle_def c0_env_def)
  with put_outcome_inv(2) [OF out q(1)] healthy_call [OF call_put [OF rt] assms]
  show ?thesis by (simp add: core1_put_def m rt quiet_def)
qed

lemma core1_puts_steady:
  "healthy q \<Longrightarrow> healthy (fold (core1_put (c0_env w)) ms q)
                 \<and> in_flight (fold (core1_put (c0_env w)) ms q) = in_flight q"
  by (induction ms arbitrary: q) (simp_all add: core1_put_steady)

text \<open>An operation finds the lease as Core 0 left it, in a lane Core 1 may have filled.\<close>

lemma outbound_op_cases:
  assumes "healthy (c0_outbound s)" and "outbound_op op w s = (r, t)"
  obtains q x q1 where "healthy q" and "in_flight q = in_flight (c0_outbound s)"
    and "with_lock (c0_env w) op q = (x, q1)" and "r = Return x"
    and "t = s\<lparr>c0_outbound := q1, c0_clock := Suc (c0_clock s)\<rparr>"
proof -
  let ?q = "fold (core1_put (c0_env w)) (core1_puts_at w (c0_clock s)) (c0_outbound s)"
  obtain x q1 where xq: "with_lock (c0_env w) op ?q = (x, q1)" by fastforce
  with assms(2) that [OF _ _ xq] core1_puts_steady [OF assms(1), of w "core1_puts_at w (c0_clock s)"]
  show thesis by (simp add: outbound_op_def Let_def)
qed

lemma idle_lock:
  assumes "with_lock (c0_env w) op q = (x, q1)"
  obtains q2 q3 where "op q2 = (x, q3)" and "in_flight q2 = in_flight q" and "queue q2 = queue q"
    and "in_flight q1 = in_flight q3" and "queue q1 = queue q3"
proof -
  let ?q2 = "q\<lparr>clock := Suc (clock q), lock_held := True, lock_faults := lock_faults q + (if lock_held q then 1 else 0)\<rparr>"
  obtain y q3 where y: "op ?q2 = (y, q3)" by fastforce
  from assms y have "x = y" "q1 = q3\<lparr>lock_held := False\<rparr>"
    by (auto simp: with_lock_def core0_step_def c0_env_def Let_def)
  with that [of ?q2 q3] y show thesis by simp
qed

text \<open>Everything but the lane.\<close>

definition same_but_lane :: "core0 \<Rightarrow> core0 \<Rightarrow> bool" where
  "same_but_lane s t \<longleftrightarrow> t\<lparr>c0_outbound := c0_outbound s, c0_clock := c0_clock s\<rparr> = s"

lemma same_but_laneD:
  assumes "same_but_lane s t"
  shows "pending_core0_responses t = pending_core0_responses s" "pending_reboot t = pending_reboot s"
    "next_sequence t = next_sequence s" "sent t = sent s" "acked t = acked s" "resets t = resets s"
  using assms by (cases s; cases t; simp add: same_but_lane_def)+

lemma identified_front:
  assumes "ident w (claims (live w s)) n hist"
  shows "ident w (claims (map (\<lambda>r. track_slot w (r_track r)) (pending_core0_responses s)
           @ (case pending_reboot s of None \<Rightarrow> [] | Some rb \<Rightarrow> [track_slot w (rb_track rb)]))) n hist"
proof -
  have "distinct (map fst (claims (live w s)))" using assms by (simp add: ident_def)
  then have "distinct (map fst (claims (map (\<lambda>r. track_slot w (r_track r)) (pending_core0_responses s)
           @ (case pending_reboot s of None \<Rightarrow> [] | Some rb \<Rightarrow> [track_slot w (rb_track rb)]))))"
    by (simp add: live_def del: map_map) blast
  then show ?thesis by (intro ident_sub [OF assms]) (auto simp: live_def)
qed

lemma identified_lane:
  assumes "identified w s" and "same_but_lane s t" and "healthy (c0_outbound t)"
    and "in_flight (c0_outbound t) = in_flight (c0_outbound s) \<or> in_flight (c0_outbound t) = None
         \<or> (\<exists>e. in_flight (c0_outbound t) = Some e \<and> wire_sequence e = None)"
  shows "identified w t"
proof -
  let ?front = "claims (map (\<lambda>r. track_slot w (r_track r)) (pending_core0_responses s)
     @ (case pending_reboot s of None \<Rightarrow> [] | Some rb \<Rightarrow> [track_slot w (rb_track rb)]))"
  have "claims (live w t) = claims (live w s) \<or> claims (live w t) = ?front"
    using assms(4) by (auto simp: live_def same_but_laneD [OF assms(2)] entry_slot_def)
  moreover have "ident w (claims (live w s)) (next_sequence s) (sent s)" using assms(1) by (simp add: identified_def)
  moreover from this have "ident w ?front (next_sequence s) (sent s)"
    by (rule identified_front)
  ultimately have "ident w (claims (live w t)) (next_sequence s) (sent s)" by auto
  then show ?thesis
    using assms(1,3) by (simp add: identified_def same_but_laneD [OF assms(2)])
qed

lemma outbound_take_ok:
  assumes "identified w s"
  shows "run_to outbound_take w s (\<lambda>r t. identified w t \<and> same_but_lane s t
           \<and> (\<exists>found. r = Return found \<and> in_flight (c0_outbound t) = found))"
proof (rule run_toI)
  fix r t assume op: "outbound_take w s = (r, t)"
  have h: "healthy (c0_outbound s)" using assms by (simp add: identified_def)
  from op obtain q x q1 where q: "healthy q" "in_flight q = in_flight (c0_outbound s)"
    "with_lock (c0_env w) take_step q = (x, q1)" "r = Return x"
    "t = s\<lparr>c0_outbound := q1, c0_clock := Suc (c0_clock s)\<rparr>"
    unfolding outbound_take_def by (rule outbound_op_cases [OF h])
  obtain q2 q3 where t: "take_step q2 = (x, q3)" "in_flight q2 = in_flight q" "queue q2 = queue q"
    "in_flight q1 = in_flight q3" "queue q1 = queue q3"
    by (rule idle_lock [OF q(3)])
  have fresh: "\<forall>e \<in> set (queue q). wire_sequence e = None"
    using q(1) by (simp add: healthy_def outq_inv_def)
  have h1: "healthy q1" using healthy_call [OF call_take q(1)] q(3) by (simp add: outq_take_def)
  have flight: "in_flight q1 = x"
    using t by (auto simp: take_step_def split: option.splits list.splits)
  have "identified w t"
    by (rule identified_lane [OF assms])
      (use t q fresh h1 in \<open>auto simp: same_but_lane_def take_step_def split: option.splits list.splits\<close>)
  with q flight show "identified w t \<and> same_but_lane s t
      \<and> (\<exists>found. r = Return found \<and> in_flight (c0_outbound t) = found)"
    by (simp add: same_but_lane_def)
qed

lemma outbound_complete_ok:
  assumes "identified w s"
  shows "run_to (outbound_complete eid d) w s (\<lambda>r t. identified w t \<and> same_but_lane s t \<and> r = Return ()
           \<and> (\<forall>e. in_flight (c0_outbound s) = Some e \<and> e_id e = eid \<longrightarrow> in_flight (c0_outbound t) = None))"
proof -
  have h: "healthy (c0_outbound s)" using assms by (simp add: identified_def)
  have "run_to (outbound_op (complete_step eid d)) w s (\<lambda>r t. identified w t \<and> same_but_lane s t
      \<and> (\<exists>x. r = Return x) \<and> (\<forall>e. in_flight (c0_outbound s) = Some e \<and> e_id e = eid \<longrightarrow> in_flight (c0_outbound t) = None))"
  proof (rule run_toI)
    fix r t assume op: "outbound_op (complete_step eid d) w s = (r, t)"
    from op obtain q x q1 where q: "healthy q" "in_flight q = in_flight (c0_outbound s)"
      "with_lock (c0_env w) (complete_step eid d) q = (x, q1)" "r = Return x"
      "t = s\<lparr>c0_outbound := q1, c0_clock := Suc (c0_clock s)\<rparr>"
      by (rule outbound_op_cases [OF h])
    obtain q2 q3 where t: "complete_step eid d q2 = (x, q3)" "in_flight q2 = in_flight q" "queue q2 = queue q"
      "in_flight q1 = in_flight q3" "queue q1 = queue q3"
      by (rule idle_lock [OF q(3)])
    have h1: "healthy q1" using healthy_call [OF call_complete q(1)] q(3) by (simp add: complete_in_flight_def)
    have "identified w t"
      by (rule identified_lane [OF assms])
        (use t q h1 in \<open>auto simp: same_but_lane_def complete_step_def split: option.splits if_splits\<close>)
    with q t show "identified w t \<and> same_but_lane s t \<and> (\<exists>x. r = Return x)
        \<and> (\<forall>e. in_flight (c0_outbound s) = Some e \<and> e_id e = eid \<longrightarrow> in_flight (c0_outbound t) = None)"
      by (auto simp: same_but_lane_def complete_step_def)
  qed
  then show ?thesis
    unfolding outbound_complete_def run_to_bind by (rule run_to_mono) auto
qed

subsection \<open>Waiting and resetting\<close>

text \<open>A wait ends, or the watch on Core 1 resets the board in it.\<close>

definition waited :: "c0_world \<Rightarrow> core0 \<Rightarrow> unit outcome \<Rightarrow> core0 \<Rightarrow> bool" where
  "waited w s r t \<longleftrightarrow> whole w t = whole w s
     \<and> (r = Return () \<and> resets t = resets s \<or> r = Cut \<and> resets t = resets s @ [Core_1_stale])"

lemma waited_run:
  assumes "waited w s r t" and "\<And>t. waited w s (Return ()) t \<Longrightarrow> run_to m w t (waited w s)"
  shows "case r of Return x \<Rightarrow> run_to m w t (waited w s) | Raise e \<Rightarrow> waited w s (Raise e) t | Cut \<Rightarrow> waited w s Cut t"
  using assms by (cases r) (auto simp: waited_def)

lemma watch_waited: "waited w s (Return ()) t \<Longrightarrow> run_to watch_core_1_heartbeat w t (waited w s)"
  by (simp add: watch_core_1_heartbeat_def waited_def split: option.splits)

lemma service_waited: "waited w s (Return ()) t \<Longrightarrow> run_to service_wait w t (waited w s)"
  unfolding service_wait_def run_to_bind
  by (rule run_to_mono [OF watch_waited], assumption, erule waited_run)
    (simp add: feed_watchdog_def waited_def)

lemma waits_waited: "waited w s (Return ()) t \<Longrightarrow> run_to (run_waits acts) w t (waited w s)"
proof (induction acts arbitrary: t rule: run_waits.induct)
  case 1
  then show ?case by simp
next
  case (2 rest)
  then show ?case
    unfolding run_waits.simps run_to_bind by (intro run_to_mono [OF service_waited [OF 2(2)]] waited_run) auto
next
  case (3 d rest)
  then show ?case by (simp add: sleep_step_def waited_def)
qed

lemma sleep_then_reset:
  "run_to (io_bind (sleep_and_service n) (\<lambda>_. machine_reset c)) w s
     (\<lambda>r t. r = Cut \<and> commanded t \<le> Suc (commanded s) \<and> resets t \<noteq> [] \<and> whole w t = whole w s)"
proof -
  have "waited w s (Return ()) s" by (simp add: waited_def)
  from waits_waited [OF this] show ?thesis
    unfolding sleep_and_service_def run_to_bind
    by (rule run_to_mono) (auto simp: waited_def commanded_def split: outcome.splits)
qed

subsection \<open>The reboot\<close>

definition reboot_payload :: "reboot_request \<Rightarrow> pydict" where
  "reboot_payload rb = response_payload (rb_command_id rb) (Some COMMAND_REBOOT) True (rb_targeted rb)
                         (PDict [(PStr ''rebooting'', PBool True)]) []"

text \<open>The end of a reboot attempt: the request still stands, or its acknowledged frame came before the reset.\<close>

definition reboot_end :: "(string \<Rightarrow> bool) \<Rightarrow> c0_world \<Rightarrow> core0 \<Rightarrow> bool outcome \<Rightarrow> core0 \<Rightarrow> bool" where
  "reboot_end A w s r t \<longleftrightarrow>
     commanded t = commanded s \<and> pending_reboot t \<noteq> None \<and> r \<noteq> Return True
   \<or> r = Cut \<and> resets t \<noteq> [] \<and> commanded t \<le> Suc (commanded s) \<and> in_flight (c0_outbound s) = None
     \<and> (\<exists>bs. A bs \<and> frame_acked (c_topic_command_response (config w)) bs w t)"

lemma publish_ack_ok:
  assumes "identified w s" and "pending_reboot s = Some rb"
  shows "run_to (publish_reboot_ack rb) w s (\<lambda>x t.
           answered_by (\<lambda>bs. frozen_bytes (rb_track rb) = Some bs
                             \<or> frozen_bytes (rb_track rb) = None \<and> answers w (reboot_payload rb) bs) w x t
         \<and> reboot_held rb (commanded s) t)"
proof -
  let ?b = "frozen_bytes (rb_track rb)"
  have h: "exists_holder Held_reboot s" "reboot_held rb (commanded s) s" "frozen_bytes (get_track Held_reboot s) = ?b"
    using assms(2) by (auto simp: reboot_held_def)
  have "run_to (claim_tracked Held_reboot) w s
      (\<lambda>x t. (identified w t \<and> (\<exists>n. x = Return n \<and> holds Held_reboot n ?b t)) \<and> reboot_held rb (commanded s) t)"
    using claim_tracked_ok [OF assms(1) h(1)] keepsD [OF reboot.kept_claim h(2)]
    by (simp add: run_to_conj h(3) del: get_track.simps)
  moreover have "run_to (publish_core0_command_response Held_reboot (reboot_payload rb) n) w t (\<lambda>x u.
           answered_by (\<lambda>bs. ?b = Some bs \<or> ?b = None \<and> answers w (reboot_payload rb) bs) w x u
         \<and> reboot_held rb (commanded s) u)"
    if t: "identified w t" "holds Held_reboot n ?b t" "reboot_held rb (commanded s) t" for t n
    unfolding run_to_conj by (intro conjI keepsD [OF reboot.kept_response t(3)] publish_response_ok [OF t(1,2)])
  ultimately show ?thesis
    unfolding publish_reboot_ack_def reboot_payload_def [symmetric] run_to_bind
    by (elim run_to_mono) auto
qed

lemma queue_substitute_ok:
  assumes "identified w s" and "reboot_held rb n s"
  shows "run_to (queue_reboot_substitute rb f) w s (\<lambda>r t. identified w t \<and> commanded t = n
           \<and> pending_reboot t \<noteq> None \<and> r = Return False)"
proof -
  let ?r = "(substitute (rb_command_id rb) (rb_targeted rb) (Some COMMAND_REBOOT) f)\<lparr>r_clears_pending_reboot := True\<rparr>"
  obtain rb' where rb': "pending_reboot s = Some rb'" using assms(2) by (auto simp: reboot_held_def)
  have "identified w (s\<lparr>pending_core0_responses := pending_core0_responses s @ [?r]\<rparr>)"
    by (rule identified_push(2) [OF assms(1)]) simp
  then have "identified w (s\<lparr>pending_core0_responses := pending_core0_responses s @ [?r],
                             pending_reboot := Some (rb'\<lparr>rb_answer_queued := True\<rparr>)\<rparr>)"
    by (rule identified_less) (use rb' assms(1) in \<open>auto simp: live_def identified_def\<close>)
  with assms rb' show ?thesis
    by (auto simp: queue_reboot_substitute_def queue_core0_response_def run_to_def io_bind_def io_return_def
        io_set_def reboot_held_def)
qed

lemma conclude_reboot_ok:
  assumes "identified w s" and "reboot_held rb (commanded s0) s" and "in_flight (c0_outbound s0) = None"
    and "x = Some True \<longrightarrow> (\<exists>bs. A bs \<and> frame_acked (c_topic_command_response (config w)) bs w s)"
  shows "run_to (conclude_reboot rb x) w s (\<lambda>r t. identified w t \<and> reboot_end A w s0 r t)"
proof -
  consider "x = None" | "x = Some False" | "x = Some True" by (cases x) auto
  then show ?thesis
  proof cases
    case 1
    with assms(1,2) show ?thesis by (auto simp: conclude_reboot_def reboot_end_def reboot_held_def)
  next
    case 2
    have "run_to (queue_reboot_substitute rb f) w s (\<lambda>r t. identified w t \<and> reboot_end A w s0 r t)" for f
      by (rule run_to_mono [OF queue_substitute_ok [OF assms(1,2)]]) (auto simp: reboot_end_def)
    with 2 assms(1,2) show ?thesis
      by (auto simp: conclude_reboot_def reboot_end_def reboot_held_def split: option.splits)
  next
    case 3
    let ?s = "s\<lparr>pending_reboot := None\<rparr>"
    have "identified w ?s" by (rule identified_drop [OF assms(1)])
    then have cut: "identified w t \<and> reboot_end A w s0 Cut t"
      if "resets t \<noteq> []" "commanded t \<le> Suc (commanded s)" "whole w t = whole w ?s" for t
    proof -
      have "acked t = acked s" using that(3) by (simp add: whole_def view_def)
      moreover have "identified w t" using holds_whole(2) [OF that(3)] \<open>identified w ?s\<close> by simp
      moreover obtain bs where "A bs" "frame_acked (c_topic_command_response (config w)) bs w s"
        using 3 assms(4) by blast
      ultimately show ?thesis
        using that(1,2) assms(2,3) by (auto simp: reboot_end_def frame_acked_def reboot_held_def)
    qed
    have "run_to (io_bind (sleep_and_service 5) (\<lambda>_. machine_reset Reboot_commanded)) w ?s
        (\<lambda>r t. identified w t \<and> reboot_end A w s0 r t)"
      by (rule run_to_mono [OF sleep_then_reset]) (use cut in \<open>simp add: commanded_upd\<close>)
    with 3 show ?thesis by (simp add: conclude_reboot_def run_to_bind [of "io_set _"] del: run_to_bind)
  qed
qed

lemma perform_reboot_ok:
  assumes "identified w s" and "pending_reboot s = Some rb"
  shows "run_to perform_reboot w s (\<lambda>r t. identified w t
           \<and> reboot_end (\<lambda>bs. frozen_bytes (rb_track rb) = Some bs
                              \<or> frozen_bytes (rb_track rb) = None \<and> answers w (reboot_payload rb) bs) w s r t)"
proof (cases "in_flight (c0_outbound s) \<noteq> None \<or> rb_answer_queued rb")
  case True
  with assms show ?thesis by (auto simp: perform_reboot_def outbound_has_in_flight_def reboot_end_def)
next
  case False
  let ?A = "\<lambda>bs. frozen_bytes (rb_track rb) = Some bs
                \<or> frozen_bytes (rb_track rb) = None \<and> answers w (reboot_payload rb) bs"
  have idle_lane: "in_flight (c0_outbound s) = None" using False by simp
  have stands: "identified w t \<and> reboot_end ?A w s r t"
    if "answered_by ?A w x t" "reboot_held rb (commanded s) t" "r \<noteq> Return True" for x r t
    using that by (auto simp: answered_by_def reboot_end_def reboot_held_def)
  have conclude: "run_to (conclude_reboot rb y) w t (\<lambda>r t. identified w t \<and> reboot_end ?A w s r t)"
    if "answered_by ?A w x t" "reboot_held rb (commanded s) t" "y = Some True \<longrightarrow> x = Return True" for x y t
    by (rule conclude_reboot_ok [OF _ that(2) idle_lane]) (use that in \<open>auto simp: answered_by_def\<close>)
  have "run_to (io_bind
               (io_try (io_bind (publish_reboot_ack rb) (\<lambda>b. io_return (Some b)))
                  (\<lambda>e. if transport_error e then io_return None else io_raise e))
               (conclude_reboot rb)) w s (\<lambda>r t. identified w t \<and> reboot_end ?A w s r t)"
    unfolding run_to_bind run_to_try
    by (rule run_to_mono [OF publish_ack_ok [OF assms]])
      (auto split: outcome.splits intro: conclude dest: stands)
  with False assms(2) show ?thesis
    by (simp add: perform_reboot_def outbound_has_in_flight_def run_to_bind_get del: run_to_bind)
qed

lemma keeps_perform_reboot [keep_rules]: "keeps identified perform_reboot"
  unfolding keeps_def
proof (intro allI impI)
  fix w s assume s: "identified w s"
  show "run_to perform_reboot w s (\<lambda>r t. identified w t)"
  proof (cases "pending_reboot s")
    case None
    with s show ?thesis by (simp add: perform_reboot_def)
  next
    case (Some rb)
    show ?thesis by (rule run_to_mono [OF perform_reboot_ok [OF s Some]]) simp
  qed
qed

subsection \<open>A leased entry\<close>

text \<open>The entry is still leased, stamped or not.\<close>

definition leased :: "entry \<Rightarrow> core0 \<Rightarrow> bool" where
  "leased e s \<longleftrightarrow> (\<exists>n. in_flight (c0_outbound s) = Some (e\<lparr>wire_sequence := n\<rparr>))"

lemma stamp_healthy:
  "healthy q \<Longrightarrow> in_flight q = Some e \<Longrightarrow> healthy (q\<lparr>in_flight := Some (e\<lparr>wire_sequence := n\<rparr>)\<rparr>)"
  by (auto simp: healthy_def outq_defs)

lemma claim_leased_ok:
  assumes "identified w s" and e: "in_flight (c0_outbound s) = Some e"
  shows "run_to (claim_leased (e_id e)) w s (\<lambda>r t. identified w t
           \<and> (\<exists>n. r = Return n \<and> in_flight (c0_outbound t) = Some (e\<lparr>wire_sequence := Some n\<rparr>)))"
proof (cases "wire_sequence e")
  case (Some n)
  then have "e\<lparr>wire_sequence := Some n\<rparr> = e" by simp
  with assms Some show ?thesis by (simp add: claim_leased_def claim_wire_sequence_def leased_sequence_def)
next
  case None
  let ?n = "next_sequence s"
  let ?e = "e\<lparr>wire_sequence := Some ?n\<rparr>"
  let ?t = "s\<lparr>next_sequence := ?n + 1, c0_outbound := (c0_outbound s)\<lparr>in_flight := Some ?e\<rparr>\<rparr>"
  have "ident w (claims (live w s) @ []) ?n (sent s)" using assms(1) by (simp add: identified_def)
  from ident_claim [OF this] have "ident w (claims (live w ?t)) (?n + 1) (sent s)"
    using e None by (simp add: live_def entry_slot_def)
  then have "identified w ?t"
    using assms stamp_healthy [OF _ e] by (simp add: identified_def)
  with None e show ?thesis
    by (simp add: claim_leased_def claim_wire_sequence_def leased_sequence_def new_sequence_def stamp_leased_def)
qed

lemma leased_claim:
  "in_flight (c0_outbound s) = Some (e\<lparr>wire_sequence := Some n\<rparr>) \<Longrightarrow>
   (n, Some (payload_bytes e), topic_for_kind (config w) (e_kind e)) \<in> set (claims (live w s))"
  by (simp add: live_def entry_slot_def)

text \<open>No exchange raises the exception Core 0 keeps for its own ceiling.\<close>

definition transport_only :: "c0_world \<Rightarrow> bool" where
  "transport_only w \<longleftrightarrow> (\<forall>n. snd (exchange_at w n) \<noteq> Some OutboundMessageTooLargeError)"

lemma raises_pump: "prog_raises callback_exc (pump msgs)"
proof -
  have "prog_raises callback_exc service_wait"
    by (simp add: prog_raises_def service_wait_def watch_core_1_heartbeat_def feed_watchdog_def split: option.splits)
  then show ?thesis
    by (induction msgs rule: pump.induct) (auto intro: prog_raise_rules raises_message)
qed

lemma publish_not_too_large:
  assumes "transport_only w"
  shows "run_to publish_qos1 w s (\<lambda>r t. r \<noteq> Raise OutboundMessageTooLargeError)"
proof -
  have "run_to (pump msgs) w t (\<lambda>r u. \<forall>e. r = Raise e \<longrightarrow> callback_exc e)" for msgs t
    using raises_pump by (simp add: prog_raises_def)
  then have d: "run_to (pump msgs) w t (\<lambda>r u. r \<noteq> Raise OutboundMessageTooLargeError)" for msgs t
    by (rule run_to_mono) (auto simp: callback_exc_def)
  have x: "run_to (exchange exchange_at) w s (\<lambda>r t. r \<noteq> Raise OutboundMessageTooLargeError)" for s
  proof (cases "exchange_at w (c0_clock s)")
    case (Pair msgs result)
    with assms have "result \<noteq> Some OutboundMessageTooLargeError"
      by (simp add: transport_only_def) (metis snd_conv)
    with Pair show ?thesis
      by (auto simp: exchange_def split: option.splits outcome.splits intro!: run_to_mono [OF d])
  qed
  show ?thesis
    unfolding publish_qos1_def if_connected_def marking_def touch_def mark_disconnected_def
    by (auto split: outcome.splits intro!: run_to_mono [OF x])
qed

definition too_large :: "entry \<Rightarrow> c0_world \<Rightarrow> bool" where
  "too_large e w \<longleftrightarrow>
     (\<exists>n. length (payload_bytes e) + length (envelope_fragment w n) + 1 > MAX_OUTBOUND_MESSAGE_BYTES)"

definition entry_topic :: "entry \<Rightarrow> c0_world \<Rightarrow> string" where
  "entry_topic e w = topic_for_kind (config w) (e_kind e)"

text \<open>The attempt to publish the leased entry.\<close>

definition attempted :: "entry \<Rightarrow> c0_world \<Rightarrow> unit outcome \<Rightarrow> core0 \<Rightarrow> bool" where
  "attempted e w r t \<longleftrightarrow> send_ok (entry_topic e w) (payload_bytes e) w r t \<and> leased e t
     \<and> (transport_only w \<longrightarrow> r = Raise OutboundMessageTooLargeError \<longrightarrow> too_large e w)"

lemma publish_leased_ok:
  assumes "identified w s" and e: "in_flight (c0_outbound s) = Some e"
  shows "run_to (publish_entry (entry_topic e w) (payload_bytes e) (claim_leased (e_id e))) w s (attempted e w)"
proof -
  let ?m = "publish_entry (entry_topic e w) (payload_bytes e) (claim_leased (e_id e))"
  have claim: "run_to (claim_leased (e_id e)) w s (\<lambda>r t. identified w t \<and>
      (\<forall>n. r = Return n \<longrightarrow> (n, Some (payload_bytes e), entry_topic e w) \<in> set (claims (live w t))))"
    by (rule run_to_mono [OF claim_leased_ok [OF assms]]) (auto simp: leased_claim entry_topic_def)
  have flight: "run_to (exchange_frame x) w t (\<lambda>r u. leased e u)" if "leased e t" for x t
  proof -
    let ?t = "t\<lparr>sent := sent t @ [x]\<rparr>"
    have "run_to publish_qos1 w ?t (\<lambda>r u. view w u = view w ?t)" by (rule keepsD [OF keeps_publish refl])
    then show ?thesis
      unfolding exchange_frame_def run_to_bind run_to_set outcome.case
      by (rule run_to_mono)
        (use that in \<open>auto simp: note_mqtt_publish_completed_def view_def leased_def split: outcome.splits\<close>)
  qed
  have kept: "run_to ?m w s (\<lambda>r t. leased e t)"
  proof -
    have "leased e s" using e by (auto simp: leased_def intro: exI [of _ "wire_sequence e"])
    moreover have "run_to (claim_leased (e_id e)) w s (\<lambda>r t. leased e t \<and> (\<exists>n. r = Return n))"
      by (rule run_to_mono [OF claim_leased_ok [OF assms]]) (auto simp: leased_def)
    ultimately show ?thesis
      by (auto simp: publish_entry_frame flight split: outcome.splits elim!: run_to_mono)
  qed
  have large: "run_to ?m w s (\<lambda>r t. r = Raise OutboundMessageTooLargeError \<longrightarrow> too_large e w)"
    if w: "transport_only w"
  proof -
    have "run_to (exchange_frame x) w t (\<lambda>r u. r \<noteq> Raise OutboundMessageTooLargeError)" for x t
      unfolding exchange_frame_def run_to_bind run_to_set outcome.case
      by (rule run_to_mono [OF publish_not_too_large [OF w]])
        (auto simp: note_mqtt_publish_completed_def split: outcome.splits)
    then have frame: "run_to (exchange_frame x) w t (\<lambda>r u. r = Raise OutboundMessageTooLargeError \<longrightarrow> too_large e w)" for x t
      by (rule run_to_mono) simp
    have "run_to (claim_leased (e_id e)) w s (\<lambda>r t. \<exists>n. r = Return n)"
      by (rule run_to_mono [OF claim_leased_ok [OF assms]]) auto
    moreover have "too_large e w"
      if "length (payload_bytes e) + length (envelope_fragment w n) + 1 > MAX_OUTBOUND_MESSAGE_BYTES" for n
      using that by (auto simp: too_large_def)
    ultimately show ?thesis
      by (auto simp: publish_entry_frame frame split: outcome.splits elim!: run_to_mono)
  qed
  have "run_to ?m w s (send_ok (entry_topic e w) (payload_bytes e) w)"
    by (rule publish_entry_ok [OF claim assms(1)])
  with kept large show ?thesis
    by (cases "transport_only w") (simp_all add: attempted_def [abs_def] run_to_conj)
qed

text \<open>The lease is given back only for an acknowledged frame or one that can never be sent.\<close>

definition lease_end :: "entry \<Rightarrow> c0_world \<Rightarrow> core0 \<Rightarrow> bool" where
  "lease_end e w t \<longleftrightarrow> leased e t
   \<or> in_flight (c0_outbound t) = None
     \<and> (frame_acked (entry_topic e w) (payload_bytes e) w t \<or> (transport_only w \<longrightarrow> too_large e w))"

lemma answer_discarded_ok:
  "identified w s \<Longrightarrow> run_to (answer_discarded_command_response p) w s
     (\<lambda>r t. identified w t \<and> c0_outbound t = c0_outbound s)"
  by (auto simp: answer_discarded_command_response_def Let_def command_error_def
      intro: identified_push split: sum.splits)

lemma service_entry_ok:
  assumes "identified w s" and e: "in_flight (c0_outbound s) = Some e"
  shows "run_to (service_outbound_entry loads e) w s (\<lambda>r t. identified w t \<and> lease_end e w t)"
proof -
  let ?Q = "\<lambda>r t. identified w t \<and> lease_end e w t"
  have still_leased: "?Q r t" if "attempted e w x t" for x :: "unit outcome" and r t
    using that by (auto simp: attempted_def send_ok_def lease_end_def split: outcome.splits)
  have given: "run_to (outbound_complete (e_id e) d) w t (\<lambda>r u. identified w u \<and> same_but_lane t u \<and> r = Return ()
      \<and> in_flight (c0_outbound u) = None)" if "identified w t" "leased e t" for d t
    by (rule run_to_mono [OF outbound_complete_ok [OF that(1)]]) (use that(2) in \<open>auto simp: leased_def\<close>)
  have acked: "run_to (outbound_complete (e_id e) False) w t ?Q" if "attempted e w (Return ()) t" for t
    by (rule run_to_mono [OF given])
      (use that in \<open>auto simp: attempted_def lease_end_def frame_acked_def same_but_laneD(5)\<close>)
  have discarded: "run_to (discard_entry loads e) w t (\<lambda>r u. ?Q r u \<and> r \<noteq> Return True)"
    if "attempted e w (Raise OutboundMessageTooLargeError) t" for t
    unfolding discard_entry_def run_to_bind
    by (rule run_to_mono [OF given])
      (use that in \<open>auto simp: attempted_def lease_end_def split: outcome.splits
        intro!: run_to_mono [OF answer_discarded_ok]\<close>)
  show ?thesis
    unfolding service_outbound_entry_def run_to_bind [of "io_try _ _"] run_to_try
      run_to_bind [of "io_ask _"] run_to_ask entry_topic_def [symmetric]
    apply (rule run_to_mono [OF publish_leased_ok [OF assms]])
    subgoal for r t
      by (cases r)
        (auto simp: acked still_leased intro: run_to_mono [OF discarded] simp del: run_to_bind split: outcome.splits)
    done
qed

lemma keeps_outbound_pass [keep_rules]:
  "keeps identified (io_bind outbound_take (\<lambda>found. case found of
     None \<Rightarrow> io_return () | Some e \<Rightarrow> service_outbound_entry loads e))"
  unfolding keeps_def run_to_bind
  by (intro allI impI, rule run_to_mono [OF outbound_take_ok])
    (auto split: outcome.splits option.splits intro: run_to_mono [OF service_entry_ok])

subsection \<open>The properties\<close>

text \<open>
  C18: A response is never dropped. When a pass over the head of the response queue
  returns, the response is still there, or its bounded substitute with the same id
  stands in its place, or it left with an acknowledged frame on the response topic
  whose body is a serialization of that very response.
\<close>

theorem response_leaves_acknowledged:
  assumes "identified w s" and "pending_core0_responses s = r # rest"
    and "\<forall>bs. frozen_bytes (r_track r) = Some bs \<longrightarrow> answers w (payload_of r) bs"
    and "service_pending_core0_response w s = (x, t)"
  shows "held r rest t
       \<or> (\<exists>f new. pending_core0_responses t =
                    substitute (r_command_id r) (r_targeted r) (r_command r) f # rest @ new)
       \<or> (\<exists>bs new. pending_core0_responses t = rest @ new \<and> answers w (payload_of r) bs
                    \<and> frame_acked (c_topic_command_response (config w)) bs w t)"
  using run_toD [OF service_pending_ok [OF assms(1,2)] assms(4)] assms(3)
  by (auto simp: settled_def)

text \<open>
  C19: No reboot without its acknowledgement. While a reboot is held, an attempt either
  leaves it held without a commanded reset (whatever the link, the lane and the storage
  do), or ends in a reset (at most one commanded), from an empty lease and after an acknowledged frame that
  answers the command.
\<close>

theorem reboot_acknowledged:
  assumes "identified w s" and "pending_reboot s = Some rb"
    and "\<forall>bs. frozen_bytes (rb_track rb) = Some bs \<longrightarrow> answers w (reboot_payload rb) bs"
    and "perform_reboot w s = (r, t)"
  shows "commanded t = commanded s \<and> pending_reboot t \<noteq> None \<and> r \<noteq> Return True
       \<or> r = Cut \<and> resets t \<noteq> [] \<and> commanded t \<le> Suc (commanded s) \<and> in_flight (c0_outbound s) = None
         \<and> (\<exists>bs. answers w (reboot_payload rb) bs
                 \<and> frame_acked (c_topic_command_response (config w)) bs w t)"
  using run_toD [OF perform_reboot_ok [OF assms(1,2)] assms(4)] assms(3)
  by (auto simp: reboot_end_def)



subsection \<open>A prompt retry that is lost\<close>

text \<open>
  A malformed answer to a UTC request re-keys the throttle for a retry in half a second.
  When it arrives while the request still waits for its own acknowledgement, the
  request overwrites the throttle after the exchange, and the retry waits out 30 seconds.
\<close>

definition malformed_utc_answer :: inbound where
  "malformed_utc_answer =
     (Inr ''inf'', Inr (PDict [(PStr ''message_type'', PStr ''info_response''),
        (PStr ''message_schema_version'', PInt 3), (PStr ''source'', PStr ''server''),
        (PStr ''target'', PStr ''node''), (PStr ''request_type'', PStr ''utc_time''),
        (PStr ''request_id'', PStr ''r1_1''), (PStr ''payload'', PNone)]))"

lemma prompt_retry_lost:
  "let early = demo_world\<lparr>exchange_at := \<lambda>n. ([malformed_utc_answer], None)\<rparr>;
       s = snd (utc_send_request early demo_core0)
   in pending_utc_request_id s = None \<and> utc_last_attempt_ms s = Some 1000"
  by code_simp

lemma prompt_retry_kept:
  "let late = demo_world\<lparr>poll_at := \<lambda>n. ([malformed_utc_answer], None)\<rparr>;
       s = snd (mqtt_check_msg late (snd (utc_send_request late demo_core0)))
   in pending_utc_request_id s = None
      \<and> map_option (\<lambda>t. ticks_diff (1000 + UTC_PROMPT_RETRY_DELAY_MS) t) (utc_last_attempt_ms s)
        = Some UTC_RETRY_INTERVAL_MS"
  by code_simp

subsection \<open>Witnesses\<close>

lemma identified_start:
  assumes "\<forall>r \<in> set (pending_core0_responses s). r_track r = untracked"
    and "\<forall>rb. pending_reboot s = Some rb \<longrightarrow> rb_track rb = untracked"
    and "\<forall>e. in_flight (c0_outbound s) = Some e \<longrightarrow> wire_sequence e = None"
    and "sent s = []" and "acked s = []" and "healthy (c0_outbound s)"
  shows "identified w s"
proof -
  have "claims (map (\<lambda>r. track_slot w (r_track r)) rs) = []"
    if "\<forall>r \<in> set rs. r_track r = untracked" for rs
    using that by (induction rs) (simp_all add: track_slot_def untracked_def)
  from this [OF assms(1)] assms(2-6) show ?thesis
    by (auto simp: identified_def ident_def ident_log_def live_def entry_slot_def split: option.splits)
qed

lemma demo_lane: "healthy demo_queue" "healthy (snd (outq_take demo_env (demo_put demo_queue)))"
proof -
  show q: "healthy demo_queue" by (rule outq_reachable_healthy [OF demo_queue_reachable])
  have "put demo_env ''telemetry'' (PDict []) (PInt 40) demo_queue \<noteq> None" by code_simp
  then obtain r t where "put demo_env ''telemetry'' (PDict []) (PInt 40) demo_queue = Some (r, t)" by fastforce
  from healthy_call [OF call_put [OF this] q] this have "healthy (demo_put demo_queue)"
    by (simp add: demo_put_def)
  from healthy_call [OF call_take [OF prod.collapse [symmetric]] this]
  show "healthy (snd (outq_take demo_env (demo_put demo_queue)))" .
qed

definition demo_response :: response where
  "demo_response = command_error ''id1'' True (PStr ''reboot'') (error_dict ''code'' ''text'')"

definition demo_answering :: core0 where
  "demo_answering = demo_core0\<lparr>pending_core0_responses := [demo_response]\<rparr>"

definition demo_rebooting :: core0 where
  "demo_rebooting = demo_core0\<lparr>pending_reboot := Some \<lparr>rb_command_id = ''id1'', rb_targeted = True,
     rb_track = untracked, rb_answer_queued = False\<rparr>\<rparr>"

definition demo_leased :: core0 where
  "demo_leased = demo_core0\<lparr>c0_outbound := snd (outq_take demo_env (demo_put demo_queue))\<rparr>"

lemma demo_identified:
  "identified w demo_answering" "identified w demo_rebooting" "identified w demo_leased"
proof -
  have q: "in_flight demo_queue = None" by code_simp
  have "map_option wire_sequence (in_flight (snd (outq_take demo_env (demo_put demo_queue)))) = Some None"
    by code_simp
  then show "identified w demo_leased"
    by (intro identified_start) (auto simp: demo_leased_def demo_core0_def demo_lane)
  show "identified w demo_answering" "identified w demo_rebooting"
    by (intro identified_start; simp add: demo_answering_def demo_rebooting_def demo_core0_def demo_lane q
        demo_response_def command_error_def)+
qed

lemma response_leaves_acknowledged_witness:
  "let t = snd (service_pending_core0_response demo_world demo_answering) in
     held demo_response [] t
   \<or> (\<exists>f new. pending_core0_responses t = substitute ''id1'' True (Some ''reboot'') f # new)
   \<or> (\<exists>bs new. pending_core0_responses t = new \<and> answers demo_world (payload_of demo_response) bs
               \<and> frame_acked ''rsp'' bs demo_world t)"
proof -
  have p: "pending_core0_responses demo_answering = [demo_response]" by (simp add: demo_answering_def)
  have r: "r_command_id demo_response = ''id1''" "r_targeted demo_response" "r_command demo_response = Some ''reboot''"
    by code_simp+
  have u: "frozen_bytes (r_track demo_response) = None" by code_simp
  have "c_topic_command_response (config demo_world) = ''rsp''" by (simp add: demo_world_def demo_c0_config_def)
  with response_leaves_acknowledged [OF demo_identified(1) p _ prod.collapse [symmetric], of demo_world] u
  show ?thesis by (simp add: Let_def r)
qed

lemma reboot_acknowledged_witness:
  "let t = snd (perform_reboot demo_world demo_rebooting) in
     commanded t = 0 \<and> pending_reboot t \<noteq> None
   \<or> resets t \<noteq> [] \<and> (\<exists>bs. frame_acked ''rsp'' bs demo_world t)"
proof -
  let ?rb = "\<lparr>rb_command_id = ''id1'', rb_targeted = True, rb_track = untracked, rb_answer_queued = False\<rparr>"
  have p: "pending_reboot demo_rebooting = Some ?rb" by (simp add: demo_rebooting_def)
  have u: "frozen_bytes (rb_track ?rb) = None" by (simp add: untracked_def)
  have z: "commanded demo_rebooting = 0" by (simp add: demo_rebooting_def demo_core0_def commanded_def)
  have "c_topic_command_response (config demo_world) = ''rsp''" by (simp add: demo_world_def demo_c0_config_def)
  with reboot_acknowledged [OF demo_identified(2) p _ prod.collapse [symmetric], of demo_world] u z
  show ?thesis by (auto simp: Let_def)
qed


end
