(* ===== verification/Session.thy ===== *)
theory Session
  imports Publish
begin

section \<open>Core 0: the network session and the run loop\<close>

text \<open>
  The Wi-Fi lifecycle of \<open>wifi.py\<close>, the MQTT session of \<open>mqtt.py\<close>, and what \<open>core0.py\<close>
  builds on them: the connect loops, the startup contract (two probes and the UTC clock),
  recovery, the network snapshot and one pass of \<open>run\<close>. The loops the firmware leaves
  unbounded take a number of rounds and answer whether they ended within it.
\<close>

subsection \<open>Wi-Fi\<close>

text \<open>\<open>is_connected\<close>: an \<open>OSError\<close> of the driver reads as not connected.\<close>

definition wifi_up :: "bool c0" where
  "wifi_up w s = (Return (wifi_is_connected w s), s\<lparr>c0_clock := Suc (c0_clock s)\<rparr>)"

text \<open>Inside \<open>connect\<close> the driver is called directly, so its \<open>OSError\<close> ends the attempt.\<close>

definition driver :: "(c0_world \<Rightarrow> nat \<Rightarrow> 'x option) \<Rightarrow> 'x c0" where
  "driver f = io_bind (sense f) (\<lambda>answer. case answer of None \<Rightarrow> io_raise OSError | Some x \<Rightarrow> io_return x)"

text \<open>The association states of the Pico W that end an attempt: wrong password, no access point, failure.\<close>

definition TERMINAL_FAILURE_STATUSES :: "int list" where
  "TERMINAL_FAILURE_STATUSES = [-3, -2, -1]"

definition current_status :: "int option c0" where
  "current_status =
     io_bind (sense wlan_status_at) (\<lambda>status.
       io_return (case status of
                    Some (PInt n) \<Rightarrow> Some n
                  | Some (PBool b) \<Rightarrow> Some (if b then 1 else 0)
                  | _ \<Rightarrow> None))"

text \<open>The observation window of an attempt: at most \<open>n\<close> more slices of 100 ms.\<close>

fun observe :: "nat \<Rightarrow> unit c0" where
  "observe 0 = io_bind (driver wlan_connected_at) (\<lambda>up. io_return ())"
| "observe (Suc n) =
     io_bind (driver wlan_connected_at) (\<lambda>up.
       if up then io_return ()
       else io_bind service_wait (\<lambda>_. io_bind current_status (\<lambda>status.
         case status of
           Some c \<Rightarrow> if c \<in> set TERMINAL_FAILURE_STATUSES then io_return ()
                     else io_bind sleep_step (\<lambda>_. observe n)
         | None \<Rightarrow> io_bind sleep_step (\<lambda>_. observe n))))"

definition note_associated :: "unit c0" where
  "note_associated =
     io_set (\<lambda>s. s\<lparr>wifi_connect_count := wifi_connect_count s + (if wifi_was_connected s then 0 else 1),
                   wifi_was_connected := True\<rparr>)"

definition note_dissociated :: "unit c0" where
  "note_dissociated =
     io_set (\<lambda>s. s\<lparr>wifi_disconnect_count := wifi_disconnect_count s + (if wifi_was_connected s then 1 else 0),
                   wifi_was_connected := False\<rparr>)"

definition wifi_attempt :: "bool c0" where
  "wifi_attempt =
     io_try
       (io_bind (io_set (\<lambda>s. s\<lparr>wlan_active := True\<rparr>)) (\<lambda>_.
        io_bind (sense wlan_connect_at) (\<lambda>started.
          if \<not> started then io_raise OSError
          else io_bind (observe 200) (\<lambda>_.
               io_bind (driver wlan_connected_at) (\<lambda>up.
                 if up then io_bind note_associated (\<lambda>_. io_return True) else io_return False)))))
       (\<lambda>e. if e = OSError then io_return False else io_raise e)"

text \<open>The backoff between attempts; none follows the last.\<close>

definition backoff :: "int \<Rightarrow> int list \<Rightarrow> unit c0" where
  "backoff delay_sec rest = (if rest = [] then io_return () else sleep_and_service delay_sec)"

fun wifi_attempts :: "int list \<Rightarrow> bool c0" where
  "wifi_attempts [] = io_return False"
| "wifi_attempts (delay_sec # rest) =
     io_bind wifi_attempt (\<lambda>ok.
       if ok then io_return True
       else io_bind note_dissociated (\<lambda>_. io_bind (backoff delay_sec rest) (\<lambda>_. wifi_attempts rest)))"

definition wifi_connect :: "bool c0" where
  "wifi_connect = io_ask (\<lambda>w. wifi_attempts (wifi_delays_sec w))"

definition opt_val :: "('a \<Rightarrow> pyval) \<Rightarrow> 'a option \<Rightarrow> pyval" where
  "opt_val f x = (case x of None \<Rightarrow> PNone | Some y \<Rightarrow> f y)"

text \<open>\<open>snapshot\<close>: an unreadable address or RSSI is left out; fewer than four addresses is an index error.\<close>

definition addresses :: "pyval list option \<Rightarrow> (pyval \<times> pyval \<times> pyval \<times> pyval) res" where
  "addresses values =
     (case values of
        None \<Rightarrow> Inr (PNone, PNone, PNone, PNone)
      | Some (a # b # c # d # rest) \<Rightarrow> Inr (a, b, c, d)
      | Some short \<Rightarrow> Inl IndexError)"

definition wifi_snapshot :: "bool \<Rightarrow> pydict c0" where
  "wifi_snapshot mqtt_up =
     io_bind wifi_up (\<lambda>up.
     io_bind (io_set (\<lambda>s. if wifi_was_connected s \<and> \<not> up
                          then s\<lparr>wifi_disconnect_count := wifi_disconnect_count s + 1, wifi_was_connected := False\<rparr>
                          else if up \<and> \<not> wifi_was_connected s
                          then s\<lparr>wifi_connect_count := wifi_connect_count s + 1, wifi_was_connected := True\<rparr>
                          else s)) (\<lambda>_.
     io_bind (if up then sense ifconfig_at else io_return None) (\<lambda>values.
     io_bind (io_res (addresses values)) (\<lambda>(ip, netmask, gateway, dns).
     io_bind (if up then sense rssi_at else io_return None) (\<lambda>rssi.
     io_ask (\<lambda>w. io_get (\<lambda>s.
       [(PStr ''wifi_connected'', PBool up), (PStr ''mqtt_connected'', PBool mqtt_up),
        (PStr ''ssid'', if up then PStr (wifi_ssid w) else PNone), (PStr ''ip_address'', ip),
        (PStr ''netmask'', netmask), (PStr ''gateway'', gateway), (PStr ''dns'', dns),
        (PStr ''rssi'', opt_val id rssi), (PStr ''wifi_connect_count'', PInt (int (wifi_connect_count s))),
        (PStr ''wifi_disconnect_count'', PInt (int (wifi_disconnect_count s)))])))))))"

subsection \<open>The MQTT session\<close>

text \<open>Connect and subscribe; a transport error fails the attempt and leaves the session down.\<close>

definition mqtt_attempt :: "bool c0" where
  "mqtt_attempt =
     io_try
       (io_bind (exchange handshake_at) (\<lambda>_.
        io_bind (io_set (\<lambda>s. s\<lparr>mqtt_connected := True, mqtt_connect_count := mqtt_connect_count s + 1\<rparr>)) (\<lambda>_.
        io_bind touch (\<lambda>_. io_return True))))
       (\<lambda>e. if transport_error e then io_bind (mark_disconnected None) (\<lambda>_. io_return False) else io_raise e)"

fun mqtt_attempts :: "int list \<Rightarrow> bool c0" where
  "mqtt_attempts [] = io_return False"
| "mqtt_attempts (delay_sec # rest) =
     io_bind mqtt_attempt (\<lambda>ok.
       if ok then io_return True
       else io_bind (backoff delay_sec rest) (\<lambda>_. mqtt_attempts rest))"

definition mqtt_connect :: "bool c0" where
  "mqtt_connect = io_ask (\<lambda>w. mqtt_attempts (mqtt_delays_sec w))"

definition mqtt_status :: "core0 \<Rightarrow> pydict" where
  "mqtt_status s =
     [(PStr ''connected'', PBool (mqtt_connected s)), (PStr ''connect_count'', PInt (int (mqtt_connect_count s))),
      (PStr ''disconnect_count'', PInt (int (mqtt_disconnect_count s))),
      (PStr ''last_disconnect_reason'', opt_val PStr (mqtt_last_reason s))]"

subsection \<open>The network snapshot\<close>

definition store_snapshot :: "pydict \<Rightarrow> unit c0" where
  "store_snapshot snapshot =
     io_bind (io_get (\<lambda>s. set_network_snapshot (PDict snapshot) (c0_mailboxes s))) (\<lambda>r.
     io_bind (io_res r) (\<lambda>m. io_set (\<lambda>s. s\<lparr>c0_mailboxes := m\<rparr>)))"

definition snapshot_due :: "bool \<Rightarrow> int \<Rightarrow> bool c0" where
  "snapshot_due force now =
     io_ask (\<lambda>w. io_get (\<lambda>s.
       force \<or> (case last_network_snapshot_ms s of
                  None \<Rightarrow> True
                | Some t \<Rightarrow> \<not> ticks_diff now t < snapshot_interval_sec w * 1000)))"

definition publish_network_snapshot :: "bool \<Rightarrow> unit c0" where
  "publish_network_snapshot force =
     io_bind read_ticks (\<lambda>now. io_bind (snapshot_due force now) (\<lambda>due.
       if \<not> due then io_return ()
       else io_bind (io_get mqtt_status) (\<lambda>status. io_bind (io_get mqtt_connected) (\<lambda>up.
            io_bind (wifi_snapshot up) (\<lambda>snapshot. io_bind (io_get network_stack_ready) (\<lambda>ready.
            io_bind (store_snapshot (snapshot
                @ [(PStr ''mqtt_connect_count'', dget_none status ''connect_count''),
                   (PStr ''mqtt_disconnect_count'', dget_none status ''disconnect_count''),
                   (PStr ''mqtt_last_disconnect_reason'', dget_none status ''last_disconnect_reason''),
                   (PStr ''network_stack_ready'', PBool ready)])) (\<lambda>_.
            io_set (\<lambda>s. s\<lparr>last_network_snapshot_ms := Some now\<rparr>))))))))"

subsection \<open>Connecting\<close>

definition last_delay :: "int list \<Rightarrow> int c0" where
  "last_delay delays = (if delays = [] then io_raise IndexError else io_return (last delays))"

fun wifi_loop :: "nat \<Rightarrow> bool c0" where
  "wifi_loop 0 = io_return False"
| "wifi_loop (Suc rounds) =
     io_bind wifi_up (\<lambda>up.
       if up then io_return True
       else io_bind wifi_connect (\<lambda>ok.
         if ok then io_return True
         else io_bind (io_ask (\<lambda>w. last_delay (wifi_delays_sec w))) (\<lambda>d.
              io_bind (sleep_and_service d) (\<lambda>_. wifi_loop rounds))))"

fun mqtt_loop :: "nat \<Rightarrow> bool c0" where
  "mqtt_loop 0 = io_return False"
| "mqtt_loop (Suc rounds) =
     io_bind (io_get mqtt_connected) (\<lambda>up.
       if up then io_return True
       else io_bind mqtt_connect (\<lambda>ok.
         if ok then io_return True
         else io_bind (io_ask (\<lambda>w. last_delay (mqtt_delays_sec w))) (\<lambda>d.
              io_bind (sleep_and_service d) (\<lambda>_. mqtt_loop rounds))))"

definition set_connecting :: "bool \<Rightarrow> unit c0" where
  "set_connecting on = io_set (\<lambda>s. s\<lparr>led_connecting := on\<rparr>)"

definition establish_network :: "nat \<Rightarrow> bool c0" where
  "establish_network rounds =
     io_bind (set_connecting True) (\<lambda>_.
     io_bind (wifi_loop rounds) (\<lambda>wifi.
       if \<not> wifi then io_return False else mqtt_loop rounds))"

definition recover_network :: "nat \<Rightarrow> bool c0" where
  "recover_network rounds =
     io_bind (io_set (\<lambda>s. s\<lparr>network_stack_ready := False\<rparr>)) (\<lambda>_.
     io_bind wifi_up (\<lambda>up.
     io_bind (if up then io_return () else mark_disconnected (Some DISCONNECT_WIFI_LOST)) (\<lambda>_.
     io_bind (publish_network_snapshot True) (\<lambda>_.
     io_bind (establish_network rounds) (\<lambda>ok.
       if \<not> ok then io_return False
       else io_bind (io_set (\<lambda>s. s\<lparr>network_stack_ready := True\<rparr>)) (\<lambda>_.
            io_bind (set_connecting False) (\<lambda>_.
            io_bind (publish_network_snapshot True) (\<lambda>_. io_return True))))))))"

definition recover_network_if_needed :: "nat \<Rightarrow> bool c0" where
  "recover_network_if_needed rounds =
     io_bind wifi_up (\<lambda>wifi. io_bind (io_get mqtt_connected) (\<lambda>mqtt.
       if wifi \<and> mqtt then io_return True else recover_network rounds))"

subsection \<open>The startup contract\<close>

text \<open>\<open>_wait_for_mqtt_publish_slot\<close>, within a number of slices of 10 ms.\<close>

fun wait_for_publish_slot :: "nat \<Rightarrow> bool c0" where
  "wait_for_publish_slot 0 = io_return False"
| "wait_for_publish_slot (Suc slices) =
     io_bind mqtt_publish_ready (\<lambda>ready.
       if ready then io_return True else io_bind sleep_step (\<lambda>_. wait_for_publish_slot slices))"

text \<open>
  A probe; its uptime is sampled for the message. \<open>None\<close> means the pacing gate did not
  open within the bound.
\<close>

definition perform_network_probe :: "nat \<Rightarrow> bool option c0" where
  "perform_network_probe bound =
     io_bind (wait_for_publish_slot bound) (\<lambda>slot.
       if \<not> slot then io_return None
       else io_bind uptime_ms (\<lambda>uptime.
            io_bind (io_try
               (io_bind publish_qos1_with_packet_id (\<lambda>acked.
                if acked then io_bind note_mqtt_publish_completed (\<lambda>_. io_return True) else io_return False))
               (\<lambda>e. if transport_error e then io_return False else io_raise e))
              (\<lambda>acked. io_return (Some acked))))"

text \<open>\<open>_utc_wait_response\<close>: pump until the answer or the deadline, within a bound.\<close>

fun utc_pump :: "nat \<Rightarrow> bool c0" where
  "utc_pump 0 = io_return False"
| "utc_pump (Suc n) =
     io_bind (io_get pending_utc_request_id) (\<lambda>pending.
       if pending = None then io_return True
       else io_bind deadline_passed (\<lambda>passed.
         if passed then io_return True
         else io_bind (io_try (io_bind mqtt_check_msg (\<lambda>_. io_return True))
                         (\<lambda>e. if transport_error e then io_return False else io_raise e)) (\<lambda>alive.
              if alive then io_bind sleep_step (\<lambda>_. utc_pump n) else io_return True)))"

definition utc_wait_response :: "nat \<Rightarrow> bool c0" where
  "utc_wait_response bound =
     io_bind (utc_pump bound) (\<lambda>ended.
       if ended then io_bind utc_clear_pending (\<lambda>_. io_return True) else io_return False)"

fun synchronize_utc :: "nat \<Rightarrow> nat \<Rightarrow> bool option c0" where
  "synchronize_utc bound 0 = io_return (Some False)"
| "synchronize_utc bound (Suc attempts) =
     io_bind (wait_for_publish_slot bound) (\<lambda>slot.
       if \<not> slot then io_return None
       else io_bind utc_send_request (\<lambda>_.
            io_bind (utc_wait_response bound) (\<lambda>ended.
              if \<not> ended then io_return None
              else io_bind (io_get c0_utc_snapshot) (\<lambda>snap.
                   if snap \<noteq> None then io_return (Some True)
                   else io_bind sleep_step (\<lambda>_. synchronize_utc bound attempts)))))"

definition and_then_check :: "bool option c0 \<Rightarrow> bool option c0 \<Rightarrow> bool option c0" where
  "and_then_check m n = io_bind m (\<lambda>r. if r = Some True then n else io_return r)"

definition verify_startup_contract :: "nat \<Rightarrow> bool option c0" where
  "verify_startup_contract bound =
     and_then_check (perform_network_probe bound)
       (io_bind sleep_step (\<lambda>_.
        and_then_check (perform_network_probe bound) (synchronize_utc bound UTC_STARTUP_MAX_ATTEMPTS)))"

text \<open>The verification loop: a failed pass drops the session, re-establishes and retries.\<close>

fun startup_loop :: "nat \<Rightarrow> nat \<Rightarrow> bool c0" where
  "startup_loop bound 0 = io_return False"
| "startup_loop bound (Suc passes) =
     io_bind (verify_startup_contract bound) (\<lambda>verdict.
       case verdict of
         None \<Rightarrow> io_return False
       | Some True \<Rightarrow> io_return True
       | Some False \<Rightarrow>
           io_bind (io_ask (\<lambda>w. last_delay (mqtt_delays_sec w))) (\<lambda>d.
           io_bind (sleep_and_service d) (\<lambda>_.
           io_bind (mark_disconnected None) (\<lambda>_.
           io_bind (establish_network bound) (\<lambda>ok.
             if ok then startup_loop bound passes else io_return False)))))"

definition publish_utc_snapshot :: "unit c0" where
  "publish_utc_snapshot =
     io_bind (io_get c0_utc_snapshot) (\<lambda>snap.
       case snap of
         None \<Rightarrow> io_return ()
       | Some sn \<Rightarrow>
           io_bind (io_get (\<lambda>s. set_utc_snapshot (utc_snapshot_dict sn) (c0_mailboxes s))) (\<lambda>r.
           io_bind (io_res r) (\<lambda>m. io_set (\<lambda>s. s\<lparr>c0_mailboxes := m\<rparr>))))"

definition startup_complete :: "unit c0" where
  "startup_complete =
     io_bind publish_utc_snapshot (\<lambda>_.
     io_bind (io_set (\<lambda>s. s\<lparr>network_stack_ready := True\<rparr>)) (\<lambda>_.
     io_bind (publish_network_snapshot True) (\<lambda>_.
     io_bind (set_connecting False) (\<lambda>_. enable_watchdog))))"

definition start_core0 :: "nat \<Rightarrow> bool c0" where
  "start_core0 bound =
     io_bind (set_connecting True) (\<lambda>_.
     io_bind (establish_network bound) (\<lambda>up.
       if \<not> up then io_return False
       else io_bind (startup_loop bound bound) (\<lambda>ok.
            if \<not> ok then io_return False else io_bind startup_complete (\<lambda>_. io_return True))))"

subsection \<open>One pass of the run loop\<close>

text \<open>A transport failure ends a step; the recovery of the next pass re-establishes the session.\<close>

definition link_step :: "unit c0 \<Rightarrow> unit c0" where
  "link_step m = io_try m (\<lambda>e. if transport_error e then io_return () else io_raise e)"

definition if_reboot_due :: "unit c0" where
  "if_reboot_due = io_bind reboot_publish_due (\<lambda>due.
     if due then io_bind perform_reboot (\<lambda>_. io_return ()) else io_return ())"

definition poll_commands :: "unit c0" where
  "poll_commands =
     io_ask (\<lambda>w. io_bind read_ticks (\<lambda>now. io_bind (io_get last_command_poll_ms) (\<lambda>last.
       if ticks_diff now last \<ge> c_command_poll_ms (config w)
       then io_bind (link_step mqtt_check_msg) (\<lambda>_. io_set (\<lambda>s. s\<lparr>last_command_poll_ms := now\<rparr>))
       else io_return ())))"

definition response_due :: "bool c0" where
  "response_due =
     io_bind (io_get (\<lambda>s. mqtt_connected s \<and> pending_core0_responses s \<noteq> [])) (\<lambda>due.
     io_bind outbound_has_in_flight (\<lambda>busy.
       if due \<and> \<not> busy then mqtt_publish_ready else io_return False))"

definition answer_commands :: "unit c0" where
  "answer_commands = io_bind response_due (\<lambda>due.
     if due then link_step service_pending_core0_response else io_return ())"

definition ping_broker :: "unit c0" where
  "ping_broker = io_bind ping_due (\<lambda>due. if due then link_step mqtt_ping else io_return ())"

definition serve_outbound :: "(string \<Rightarrow> pyval res) \<Rightarrow> unit c0" where
  "serve_outbound loads =
     io_bind (io_get mqtt_connected) (\<lambda>up.
       if \<not> up then io_return ()
       else io_bind mqtt_publish_ready (\<lambda>ready.
            if ready
            then io_bind outbound_take (\<lambda>found. case found of
                   None \<Rightarrow> ping_broker
                 | Some e \<Rightarrow> service_outbound_entry loads e)
            else ping_broker))"

definition refresh_utc :: "unit c0" where
  "refresh_utc =
     io_bind utc_request_expired (\<lambda>_.
     io_bind (io_get mqtt_connected) (\<lambda>up.
       if \<not> up then io_return ()
       else io_bind utc_should_send_request (\<lambda>wanted.
            if \<not> wanted then io_return ()
            else io_bind mqtt_publish_ready (\<lambda>ready.
                 if ready then utc_send_request else io_return ()))))"

text \<open>The answer is whether the recovery of the pass ended within its rounds.\<close>

definition run_pass :: "(string \<Rightarrow> pyval res) \<Rightarrow> nat \<Rightarrow> bool c0" where
  "run_pass loads rounds =
     io_bind service_wait (\<lambda>_.
     io_bind if_reboot_due (\<lambda>_.
     io_bind (recover_network_if_needed rounds) (\<lambda>up.
       if \<not> up then io_return False
       else io_bind poll_commands (\<lambda>_.
            io_bind if_reboot_due (\<lambda>_.
            io_bind answer_commands (\<lambda>_.
            io_bind (serve_outbound loads) (\<lambda>_.
            io_bind (publish_network_snapshot False) (\<lambda>_.
            io_bind refresh_utc (\<lambda>_.
            io_bind sleep_step (\<lambda>_. io_return True))))))))))"

fun run_passes :: "(string \<Rightarrow> pyval res) \<Rightarrow> nat \<Rightarrow> nat \<Rightarrow> bool c0" where
  "run_passes loads rounds 0 = io_return True"
| "run_passes loads rounds (Suc n) =
     io_bind (run_pass loads rounds) (\<lambda>up. if up then run_passes loads rounds n else io_return False)"

text \<open>Core 0's thread: the startup, then passes.\<close>

definition core0_thread :: "(string \<Rightarrow> pyval res) \<Rightarrow> nat \<Rightarrow> nat \<Rightarrow> bool c0" where
  "core0_thread loads bound passes =
     io_bind (start_core0 bound) (\<lambda>started.
       if started then run_passes loads bound passes else io_return False)"

subsection \<open>What the session leaves alone\<close>

lemma keeps_view_set: "(\<And>w s. whole w (f s) = whole w s) \<Longrightarrow> keeps (\<lambda>w s. view w s = x) (io_set f)"
  by (simp add: keeps_def whole_def)

lemma run_to_wifi_up [simp]:
  "run_to wifi_up w s Q = Q (Return (wifi_is_connected w s)) (s\<lparr>c0_clock := Suc (c0_clock s)\<rparr>)"
  by (simp add: run_to_def wifi_up_def)

named_theorems session_rules \<open>programs that keep the view\<close>

lemmas [session_rules] = keeps_basic keeps_bind keeps_try keeps_ask keeps_cases keeps_view_set view_rules
  keeps_exchange keeps_marking keeps_publish keeps_check_msg keeps_ping

lemma view_wifi_up [session_rules]: "keeps (\<lambda>w s. view w s = x) wifi_up"
  using keeps_sense [THEN still_view [OF allI]] by (simp add: keeps_def view_def live_def)

lemma view_sleep [session_rules]: "keeps (\<lambda>w s. view w s = x) sleep_step"
  unfolding sleep_step_def by (intro session_rules) simp

lemma view_run_waits [session_rules]: "keeps (\<lambda>w s. view w s = x) (run_waits acts)"
  by (induction acts rule: run_waits.induct) (auto intro!: session_rules)

lemma view_wait [session_rules]: "keeps (\<lambda>w s. view w s = x) (sleep_and_service d)"
  unfolding sleep_and_service_def by (rule view_run_waits)

lemma view_driver [session_rules]: "keeps (\<lambda>w s. view w s = x) (driver f)"
  unfolding driver_def by (intro session_rules)

lemma view_status [session_rules]: "keeps (\<lambda>w s. view w s = x) current_status"
  unfolding current_status_def by (intro session_rules)

lemma view_observe [session_rules]: "keeps (\<lambda>w s. view w s = x) (observe n)"
  by (induction n) (auto intro!: session_rules split: option.splits)

lemma view_notes [session_rules]:
  "keeps (\<lambda>w s. view w s = x) note_associated" "keeps (\<lambda>w s. view w s = x) note_dissociated"
  "keeps (\<lambda>w s. view w s = x) (set_connecting b)"
  unfolding note_associated_def note_dissociated_def set_connecting_def
  by (intro session_rules; simp)+

lemma view_wifi_attempt [session_rules]: "keeps (\<lambda>w s. view w s = x) wifi_attempt"
  unfolding wifi_attempt_def by (intro session_rules) simp

lemma view_backoff [session_rules]: "keeps (\<lambda>w s. view w s = x) (backoff d rest)"
  unfolding backoff_def by (intro session_rules)

lemma view_wifi_attempts [session_rules]: "keeps (\<lambda>w s. view w s = x) (wifi_attempts ds)"
  by (induction ds) (auto intro!: session_rules)

lemma view_wifi_connect [session_rules]: "keeps (\<lambda>w s. view w s = x) wifi_connect"
  unfolding wifi_connect_def by (intro session_rules)

lemma view_wifi_snapshot [session_rules]: "keeps (\<lambda>w s. view w s = x) (wifi_snapshot up)"
  unfolding wifi_snapshot_def by (intro session_rules) simp

lemma view_mqtt_attempt [session_rules]: "keeps (\<lambda>w s. view w s = x) mqtt_attempt"
  unfolding mqtt_attempt_def by (intro session_rules) simp

lemma view_mqtt_attempts [session_rules]: "keeps (\<lambda>w s. view w s = x) (mqtt_attempts ds)"
  by (induction ds) (auto intro!: session_rules)

lemma view_mqtt_connect [session_rules]: "keeps (\<lambda>w s. view w s = x) mqtt_connect"
  unfolding mqtt_connect_def by (intro session_rules)

lemma view_store [session_rules]: "keeps (\<lambda>w s. view w s = x) (store_snapshot d)"
  unfolding store_snapshot_def by (intro session_rules) simp

lemma view_due [session_rules]: "keeps (\<lambda>w s. view w s = x) (snapshot_due force now)"
  unfolding snapshot_due_def by (intro session_rules)

lemma view_publish_snapshot [session_rules]: "keeps (\<lambda>w s. view w s = x) (publish_network_snapshot force)"
  unfolding publish_network_snapshot_def by (intro session_rules) simp

lemma view_last_delay [session_rules]: "keeps (\<lambda>w s. view w s = x) (last_delay ds)"
  unfolding last_delay_def by (intro session_rules)

lemma view_loops [session_rules]:
  "keeps (\<lambda>w s. view w s = x) (wifi_loop n)" "keeps (\<lambda>w s. view w s = x) (mqtt_loop n)"
  by (induction n) (auto intro!: session_rules)

lemma view_establish [session_rules]: "keeps (\<lambda>w s. view w s = x) (establish_network n)"
  unfolding establish_network_def by (intro session_rules)

lemma view_recover [session_rules]: "keeps (\<lambda>w s. view w s = x) (recover_network_if_needed n)"
  unfolding recover_network_if_needed_def recover_network_def by (intro session_rules) simp_all

lemma view_utc_clear [session_rules]: "keeps (\<lambda>w s. view w s = x) utc_clear_pending"
  unfolding utc_clear_pending_def by (intro session_rules) simp

lemma view_slot [session_rules]: "keeps (\<lambda>w s. view w s = x) (wait_for_publish_slot n)"
  by (induction n) (auto intro!: session_rules)

lemma view_probe [session_rules]: "keeps (\<lambda>w s. view w s = x) (perform_network_probe n)"
  unfolding perform_network_probe_def publish_qos1_with_packet_id_def by (intro session_rules)

lemma view_deadline [session_rules]: "keeps (\<lambda>w s. view w s = x) deadline_passed"
  unfolding deadline_passed_def by (intro session_rules)

lemma view_utc_pump [session_rules]: "keeps (\<lambda>w s. view w s = x) (utc_pump n)"
  by (induction n) (auto intro!: session_rules)

lemma view_utc_wait [session_rules]: "keeps (\<lambda>w s. view w s = x) (utc_wait_response n)"
  unfolding utc_wait_response_def by (intro session_rules)

lemma view_utc_send [session_rules]: "keeps (\<lambda>w s. view w s = x) utc_send_request"
  unfolding utc_send_request_def by (intro session_rules) simp_all

lemma view_sync [session_rules]: "keeps (\<lambda>w s. view w s = x) (synchronize_utc b n)"
  by (induction n) (auto intro!: session_rules)

lemma view_verify [session_rules]: "keeps (\<lambda>w s. view w s = x) (verify_startup_contract n)"
  unfolding verify_startup_contract_def and_then_check_def by (intro session_rules)

lemma view_startup [session_rules]: "keeps (\<lambda>w s. view w s = x) (startup_loop b n)"
  by (induction n) (auto intro!: session_rules split: option.splits bool.splits)

lemma view_start [session_rules]: "keeps (\<lambda>w s. view w s = x) (start_core0 n)"
  unfolding start_core0_def startup_complete_def publish_utc_snapshot_def enable_watchdog_def
  by (intro session_rules) simp_all

subsection \<open>The identity invariant through the run loop\<close>

lemma view_identified: "(\<And>x. keeps (\<lambda>w s. view w s = x) m) \<Longrightarrow> keeps identified m"
  by (rule still_identified) blast

lemma view_ready_flag [session_rules]: "keeps (\<lambda>w s. view w s = x) reboot_publish_due"
  unfolding reboot_publish_due_def by (intro session_rules)

lemma identified_reboot: "keeps identified if_reboot_due"
  unfolding if_reboot_due_def
  by (intro keeps_bind keeps_cases keeps_basic keeps_perform_reboot view_identified session_rules)

lemma identified_link: "keeps identified m \<Longrightarrow> keeps identified (link_step m)"
  unfolding link_step_def by (intro keeps_try keeps_cases keeps_basic)

lemma view_link [session_rules]: "keeps (\<lambda>w s. view w s = x) m \<Longrightarrow> keeps (\<lambda>w s. view w s = x) (link_step m)"
  unfolding link_step_def by (intro session_rules)

lemma view_poll: "keeps (\<lambda>w s. view w s = x) poll_commands"
  unfolding poll_commands_def by (intro session_rules) simp

lemma view_ping_broker [session_rules]: "keeps (\<lambda>w s. view w s = x) ping_broker"
  unfolding ping_broker_def ping_due_def by (intro session_rules)

lemma identified_answer: "keeps identified answer_commands"
proof -
  have "keeps identified response_due"
    unfolding response_due_def outbound_has_in_flight_def by (intro view_identified session_rules)
  then show ?thesis
    unfolding answer_commands_def
    by (intro keeps_bind keeps_cases keeps_basic identified_link keeps_service_pending)
qed

lemma identified_serve: "keeps identified (serve_outbound loads)"
proof -
  have served: "keeps identified (io_bind outbound_take (\<lambda>found. case found of
      None \<Rightarrow> ping_broker | Some e \<Rightarrow> service_outbound_entry loads e))"
    unfolding keeps_def run_to_bind
    by (intro allI impI, rule run_to_mono [OF outbound_take_ok])
      (auto split: outcome.splits option.splits intro: run_to_mono [OF service_entry_ok]
        keepsD [OF view_identified [OF view_ping_broker]])
  have quiet: "keeps identified mqtt_publish_ready" "keeps identified ping_broker"
    by (intro view_identified session_rules)+
  show ?thesis
    unfolding serve_outbound_def by (intro keeps_bind keeps_cases keeps_basic served quiet)
qed

lemma view_refresh: "keeps (\<lambda>w s. view w s = x) refresh_utc"
  unfolding refresh_utc_def utc_request_expired_def utc_should_send_request_def utc_sync_due_def
  by (intro session_rules)

lemma identified_pass: "keeps identified (run_pass loads n)"
proof -
  have "keeps identified service_wait" "keeps identified (recover_network_if_needed n)"
    "keeps identified poll_commands" "keeps identified (publish_network_snapshot False)"
    "keeps identified refresh_utc" "keeps identified sleep_step"
    by (intro view_identified session_rules view_poll view_refresh)+
  then show ?thesis
    unfolding run_pass_def
    by (intro keeps_bind keeps_cases keeps_basic identified_reboot identified_answer identified_serve)
qed

lemma identified_passes: "keeps identified (run_passes loads n k)"
  by (induction k) (auto intro!: keeps_bind keeps_cases keeps_basic identified_pass)

lemma identified_thread: "keeps identified (core0_thread loads b n)"
  unfolding core0_thread_def
  by (intro keeps_bind keeps_cases keeps_basic identified_passes view_identified view_start)

definition fresh_core0 :: "core0 \<Rightarrow> bool" where
  "fresh_core0 s \<longleftrightarrow> pending_core0_responses s = [] \<and> pending_reboot s = None \<and> sent s = [] \<and> acked s = []
     \<and> in_flight (c0_outbound s) = None \<and> healthy (c0_outbound s)"

text \<open>
  C22: Identity on the wire. Whatever the environment does, from a fresh Core 0 through
  its startup and any number of passes: two frames sent under one sequence are the same
  frame on the same topic, no frame exceeds the ceiling, sequences are handed out in
  order, and only sent frames are acknowledged.
\<close>

theorem wire_identity:
  assumes "fresh_core0 s" and "core0_thread loads bound passes w s = (r, t)"
  shows "(\<forall>n topic frame topic' frame'.
            (n, topic, frame) \<in> set (sent t) \<and> (n, topic', frame') \<in> set (sent t) \<longrightarrow>
            topic' = topic \<and> frame' = frame)
       \<and> (\<forall>x \<in> set (sent t). fst x < next_sequence t \<and> length (snd (snd x)) \<le> MAX_OUTBOUND_MESSAGE_BYTES)
       \<and> set (acked t) \<subseteq> set (sent t)"
proof -
  have "identified w s"
    using assms(1) by (intro identified_start) (auto simp: fresh_core0_def)
  then have "identified w t"
    using run_toD [OF keepsD [OF identified_thread] assms(2)] by blast
  then have log: "ident_log (next_sequence t) (sent t)" "set (acked t) \<subseteq> set (sent t)"
    by (simp_all add: identified_def ident_def)
  then have inj: "inj_on fst (set (sent t))" by (simp add: ident_log_def)
  then have "topic' = topic \<and> frame' = frame"
    if "(n, topic, frame) \<in> set (sent t)" "(n, topic', frame') \<in> set (sent t)" for n topic frame topic' frame'
    using inj_onD [OF inj _ that] by simp
  with log show ?thesis by (auto simp: ident_log_def)
qed

subsection \<open>What a completed startup guarantees\<close>

lemma synchronize_snapshot:
  "run_to (synchronize_utc b n) w s (\<lambda>r t. r = Return (Some True) \<longrightarrow> c0_utc_snapshot t \<noteq> None)"
proof (induction n arbitrary: s)
  case 0
  show ?case by simp
next
  case (Suc n)
  then show ?case
    by (auto simp: run_to_def [of "wait_for_publish_slot _"] run_to_def [of utc_send_request]
        run_to_def [of "utc_wait_response _"] run_to_def [of sleep_step]
        split: prod.splits outcome.splits)
qed

lemma startup_snapshot:
  "run_to (startup_loop b n) w s (\<lambda>r t. r = Return True \<longrightarrow> c0_utc_snapshot t \<noteq> None)"
proof (induction n arbitrary: s)
  case 0
  show ?case by simp
next
  case (Suc n)
  have "run_to (verify_startup_contract b) w s (\<lambda>r t. r = Return (Some True) \<longrightarrow> c0_utc_snapshot t \<noteq> None)"
    unfolding verify_startup_contract_def and_then_check_def
    by (auto simp: run_to_def [of "perform_network_probe _"] run_to_def [of sleep_step]
        split: prod.splits outcome.splits intro: run_to_mono [OF synchronize_snapshot])
  then show ?case
    unfolding startup_loop.simps run_to_bind [of "verify_startup_contract b"]
    by (rule run_to_mono)
      (auto split: outcome.splits option.splits bool.splits intro!: run_toI
        dest!: run_toD [OF Suc.IH] simp: io_bind_def split: prod.splits)
qed

definition snapshot_says :: "bool \<Rightarrow> core0 \<Rightarrow> bool" where
  "snapshot_says ready t \<longleftrightarrow>
     (\<exists>d. network_snapshot (c0_mailboxes t) = PDict d \<and> dget_none d ''network_stack_ready'' = PBool ready)"

text \<open>The state in which Core 1 is started.\<close>

definition verified :: "c0_world \<Rightarrow> core0 \<Rightarrow> bool" where
  "verified w t \<longleftrightarrow>
     (\<exists>sn. c0_utc_snapshot t = Some sn \<and> get_utc_snapshot (c0_mailboxes t) = utc_snapshot_dict sn)
   \<and> network_stack_ready t \<and> \<not> led_connecting t \<and> wdt_armed t = has_watchdog w
   \<and> snapshot_says True t"

definition ready_key :: pyval where "ready_key = PStr ''network_stack_ready''"

lemma wifi_snapshot_frame:
  "run_to (wifi_snapshot up) w s (\<lambda>r t. c0_utc_snapshot t = c0_utc_snapshot s \<and> c0_mailboxes t = c0_mailboxes s
     \<and> network_stack_ready t = network_stack_ready s \<and> wdt_armed t = wdt_armed s
     \<and> (\<forall>d. r = Return d \<longrightarrow> ready_key \<notin> fst ` set d))"
  by (auto simp: wifi_snapshot_def ready_key_def split: sum.splits)

lemma ready_entry:
  "ready_key \<notin> fst ` set d \<Longrightarrow>
   dget_none (d @ [(PStr ''mqtt_connect_count'', a), (PStr ''mqtt_disconnect_count'', b),
                   (PStr ''mqtt_last_disconnect_reason'', c), (PStr ''network_stack_ready'', v)])
     ''network_stack_ready'' = v"
  by (simp add: dget_none_def dget_def ready_key_def map_add_def map_of_eq_None_iff [THEN iffD2])

lemma snapshot_says_upd [simp]:
  "snapshot_says v (s\<lparr>led_connecting := b\<rparr>) = snapshot_says v s"
  "snapshot_says v (s\<lparr>wdt_armed := b\<rparr>) = snapshot_says v s"
  by (simp_all add: snapshot_says_def)

lemma snapshot_saysI:
  "ready_key \<notin> fst ` set d \<Longrightarrow>
   snapshot_says v (s\<lparr>c0_mailboxes := m\<lparr>network_snapshot := PDict (d @ [(PStr ''mqtt_connect_count'', a),
       (PStr ''mqtt_disconnect_count'', b), (PStr ''mqtt_last_disconnect_reason'', c),
       (PStr ''network_stack_ready'', PBool v)])\<rparr>, last_network_snapshot_ms := l\<rparr>)"
  by (auto simp: snapshot_says_def ready_entry)

lemma snapshot_stored:
  "run_to (publish_network_snapshot True) w s (\<lambda>r t. r = Return () \<longrightarrow>
     c0_utc_snapshot t = c0_utc_snapshot s \<and> utc_snapshot (c0_mailboxes t) = utc_snapshot (c0_mailboxes s)
     \<and> network_stack_ready t = network_stack_ready s \<and> wdt_armed t = wdt_armed s
     \<and> snapshot_says (network_stack_ready s) t)"
proof -
  have store: "run_to (io_bind (store_snapshot (d @ [(PStr ''mqtt_connect_count'', a),
         (PStr ''mqtt_disconnect_count'', b), (PStr ''mqtt_last_disconnect_reason'', c),
         (PStr ''network_stack_ready'', PBool v)]))
        (\<lambda>_. io_set (\<lambda>s. s\<lparr>last_network_snapshot_ms := Some now\<rparr>))) w u (\<lambda>r t. r = Return () \<longrightarrow>
     c0_utc_snapshot t = c0_utc_snapshot u \<and> utc_snapshot (c0_mailboxes t) = utc_snapshot (c0_mailboxes u)
     \<and> network_stack_ready t = network_stack_ready u \<and> wdt_armed t = wdt_armed u \<and> snapshot_says v t)"
    if "ready_key \<notin> fst ` set d" for d a b c v now u
    by (simp add: store_snapshot_def set_network_snapshot_def snapshot_saysI [OF that])
  show ?thesis
    unfolding publish_network_snapshot_def snapshot_due_def run_to_bind [of "wifi_snapshot _"]
      run_to_bind [of read_ticks] run_to_bind [of "io_ask _"] run_to_bind [of "io_get _"]
      run_to_ticks run_to_ask run_to_get outcome.case if_True if_False simp_thms
    by (rule run_to_mono [OF wifi_snapshot_frame])
      (auto simp del: run_to_bind split: outcome.splits intro: run_to_mono [OF store])
qed

lemma startup_complete_verified:
  assumes "c0_utc_snapshot s = Some sn"
  shows "run_to startup_complete w s (\<lambda>r t. r = Return () \<longrightarrow> verified w t)"
proof -
  have d: "is_dict (utc_snapshot_dict sn)" by (simp add: utc_snapshot_dict_def)
  show ?thesis
    using assms d
    by (auto simp: startup_complete_def publish_utc_snapshot_def set_utc_snapshot_def set_connecting_def
        enable_watchdog_def verified_def get_utc_snapshot_def get_network_snapshot_def
        split: outcome.splits intro!: run_to_mono [OF snapshot_stored])
qed

text \<open>
  C23: The startup contract. When \<open>start\<close> returns, whatever the links did meanwhile, the
  clock is synchronized and published, the network snapshot says the stack is ready, the
  LED has stopped flashing and the hardware watchdog is armed exactly when the build has
  one.
\<close>

theorem startup_contract:
  assumes "start_core0 bound w s = (Return True, t)"
  shows "verified w t"
proof -
  have loop: "run_to (startup_loop bound bound) w u (\<lambda>r t. r = Return True \<longrightarrow> (\<exists>sn. c0_utc_snapshot t = Some sn))" for u
    by (rule run_to_mono [OF startup_snapshot]) auto
  have "run_to (start_core0 bound) w s (\<lambda>r t. r = Return True \<longrightarrow> verified w t)"
    unfolding start_core0_def
    by (auto simp: set_connecting_def run_to_def [of "establish_network _"]
        split: prod.splits outcome.splits intro!: run_to_mono [OF loop]
        elim!: run_to_mono [OF startup_complete_verified])
  with assms show ?thesis by (simp add: run_to_def)
qed

subsection \<open>The network comes up\<close>

text \<open>
  A link that only fails the way links fail: handshakes end with an acknowledgement or a
  transport error and bring no message, no Core 1 runs yet, and the delay lists are not
  empty. From the instant \<open>T\<close> on it works.
\<close>

definition link_faults_only :: "c0_world \<Rightarrow> bool" where
  "link_faults_only w \<longleftrightarrow>
     (\<forall>k. fst (handshake_at w k) = []
        \<and> (case snd (handshake_at w k) of None \<Rightarrow> True | Some e \<Rightarrow> transport_error e)
        \<and> core1_activity_at w k = None)
   \<and> wifi_delays_sec w \<noteq> [] \<and> mqtt_delays_sec w \<noteq> []"

definition link_works_from :: "nat \<Rightarrow> c0_world \<Rightarrow> bool" where
  "link_works_from T w \<longleftrightarrow>
     (\<forall>k \<ge> T. wlan_connect_at w k \<and> wlan_connected_at w k = Some True \<and> snd (handshake_at w k) = None)"

text \<open>A step that returns, with the clock further on and the MQTT flag as it was.\<close>

definition went_on :: "core0 \<Rightarrow> 'a outcome \<Rightarrow> core0 \<Rightarrow> bool" where
  "went_on s r t \<longleftrightarrow> (\<exists>x. r = Return x) \<and> c0_clock s \<le> c0_clock t \<and> mqtt_connected t = mqtt_connected s"

definition steady :: "'a c0 \<Rightarrow> bool" where
  "steady m \<longleftrightarrow> (\<forall>w s. link_faults_only w \<longrightarrow> run_to m w s (went_on s))"

lemma steadyD: "steady m \<Longrightarrow> link_faults_only w \<Longrightarrow> run_to m w s (went_on s)"
  by (simp add: steady_def)

lemma went_on_trans: "went_on s (Return x) t \<Longrightarrow> went_on t r u \<Longrightarrow> went_on s r u"
  by (auto simp: went_on_def)

lemma went_on_bind:
  assumes "went_on s r t" and "\<And>x. run_to (f x) w t (went_on t)"
  shows "case r of Return x \<Rightarrow> run_to (f x) w t (went_on s) | Raise e \<Rightarrow> went_on s (Raise e) t | Cut \<Rightarrow> went_on s Cut t"
proof -
  obtain x where x: "r = Return x" using assms(1) by (auto simp: went_on_def)
  have "run_to (f x) w t (went_on s)"
    by (rule run_to_mono [OF assms(2)]) (rule went_on_trans [OF assms(1) [unfolded x]])
  with x show ?thesis by simp
qed

named_theorems steady_rules \<open>steps that return\<close>

lemma steady_basic [steady_rules]:
  "steady (io_return x)" "steady (io_get f)" "steady (sense g)" "steady read_ticks" "steady wifi_up" "steady sleep_step"
  by (simp_all add: steady_def went_on_def sleep_step_def)

lemma steady_set [steady_rules]:
  "(\<And>s. c0_clock (f s) = c0_clock s \<and> mqtt_connected (f s) = mqtt_connected s) \<Longrightarrow> steady (io_set f)"
  by (simp add: steady_def went_on_def)

lemma steady_bind [steady_rules]: "steady m \<Longrightarrow> (\<And>x. steady (f x)) \<Longrightarrow> steady (io_bind m f)"
  unfolding steady_def run_to_bind by (blast intro: run_to_mono went_on_bind)

lemma steady_cases [steady_rules]:
  "(b \<Longrightarrow> steady m) \<Longrightarrow> (\<not> b \<Longrightarrow> steady n) \<Longrightarrow> steady (if b then m else n)"
  "steady g \<Longrightarrow> (\<And>x. steady (h x)) \<Longrightarrow> steady (case opt of None \<Rightarrow> g | Some x \<Rightarrow> h x)"
  by (auto split: option.splits)

lemma steady_service [steady_rules]: "steady service_wait"
  by (auto simp: steady_def went_on_def service_wait_def watch_core_1_heartbeat_def feed_watchdog_def
      link_faults_only_def split: option.splits)

lemma steady_wait [steady_rules]: "steady (sleep_and_service d)"
proof -
  have "steady (run_waits acts)" for acts
    by (induction acts rule: run_waits.induct) (auto intro!: steady_rules)
  then show ?thesis by (simp add: sleep_and_service_def)
qed

text \<open>Inside an attempt the driver may also raise \<open>OSError\<close>, which the attempt catches.\<close>

definition went_on_or_failed :: "core0 \<Rightarrow> 'a outcome \<Rightarrow> core0 \<Rightarrow> bool" where
  "went_on_or_failed s r t \<longleftrightarrow>
     ((\<exists>x. r = Return x) \<or> r = Raise OSError) \<and> c0_clock s \<le> c0_clock t \<and> mqtt_connected t = mqtt_connected s"

lemma went_on_or_failed_trans:
  "c0_clock s \<le> c0_clock t \<Longrightarrow> mqtt_connected t = mqtt_connected s \<Longrightarrow>
   went_on_or_failed t r u \<Longrightarrow> went_on_or_failed s r u"
  by (simp add: went_on_or_failed_def)

lemma observe_goes_on:
  assumes "link_faults_only w"
  shows "run_to (observe n) w s (went_on_or_failed s)"
proof (induction n arbitrary: s)
  case 0
  then show ?case by (simp add: driver_def went_on_or_failed_def split: option.splits)
next
  case (Suc n)
  have rest: "run_to (observe n) w t (went_on_or_failed s)"
    if "c0_clock s \<le> c0_clock t" "mqtt_connected t = mqtt_connected s" for t
    by (rule run_to_mono [OF Suc.IH]) (rule went_on_or_failed_trans [OF that])
  have here: "went_on_or_failed s (Return ()) t" if "c0_clock s \<le> c0_clock t" "mqtt_connected t = mqtt_connected s" for t
    using that by (simp add: went_on_or_failed_def)
  show ?case
    unfolding observe.simps driver_def
    by (auto simp: current_status_def sleep_step_def rest here went_on_or_failed_def [of s "Raise _"] went_on_def
        split: option.splits pyval.splits outcome.splits intro!: run_to_mono [OF steadyD [OF steady_service assms]])
qed

lemma steady_wifi_attempt [steady_rules]: "steady wifi_attempt"
  unfolding steady_def
proof (intro allI impI)
  fix w and s :: core0 assume w: "link_faults_only w"
  let ?s = "s\<lparr>wlan_active := True, c0_clock := Suc (c0_clock s)\<rparr>"
  show "run_to wifi_attempt w s (went_on s)"
    unfolding wifi_attempt_def note_associated_def
    by (auto simp: driver_def went_on_def went_on_or_failed_def split: option.splits outcome.splits
        intro!: run_to_mono [OF observe_goes_on [OF w, of 200 ?s]])
qed

lemma steady_wifi_connect [steady_rules]: "steady wifi_connect"
proof -
  have "steady (wifi_attempts ds)" for ds
    by (induction ds) (auto simp: note_dissociated_def backoff_def intro!: steady_rules)
  then show ?thesis by (simp add: steady_def wifi_connect_def)
qed

text \<open>One round of the Wi-Fi loop advances the clock, and connects once the link works.\<close>

lemma observe_connected:
  "wlan_connected_at w (c0_clock s) = Some True \<Longrightarrow>
   run_to (observe n) w s Q = Q (Return ()) (s\<lparr>c0_clock := Suc (c0_clock s)\<rparr>)"
  by (cases n) (simp_all add: driver_def)

lemma wifi_attempt_works:
  assumes "link_works_from T w" and "T \<le> c0_clock s"
  shows "run_to wifi_attempt w s (\<lambda>r t. r = Return True)"
  using assms
  by (simp add: wifi_attempt_def note_associated_def observe_connected driver_def link_works_from_def)

lemma wifi_loop_connects:
  assumes "link_faults_only w" and "link_works_from T w" and "T \<le> c0_clock s + n"
  shows "run_to (wifi_loop (Suc n)) w s
           (\<lambda>r t. r = Return True \<and> c0_clock s \<le> c0_clock t \<and> mqtt_connected t = mqtt_connected s)"
  using assms(3)
proof (induction n arbitrary: s)
  case 0
  let ?s = "s\<lparr>c0_clock := Suc (c0_clock s)\<rparr>"
  obtain d ds where ds: "wifi_delays_sec w = d # ds"
    using assms(1) by (cases "wifi_delays_sec w") (auto simp: link_faults_only_def)
  have "run_to wifi_attempt w ?s (\<lambda>r t. r = Return True \<and> went_on ?s r t)"
    using wifi_attempt_works [OF assms(2), of ?s] steadyD [OF steady_wifi_attempt assms(1), of ?s] 0
    by (simp add: run_to_conj)
  then show ?case
    by (auto simp: wifi_connect_def ds went_on_def elim!: run_to_mono)
next
  case (Suc n)
  let ?s = "s\<lparr>c0_clock := Suc (c0_clock s)\<rparr>"
  have d: "wifi_delays_sec w \<noteq> []" using assms(1) by (simp add: link_faults_only_def)
  have rest: "run_to (wifi_loop (Suc n)) w t
      (\<lambda>r u. r = Return True \<and> c0_clock s \<le> c0_clock u \<and> mqtt_connected u = mqtt_connected s)"
    if "Suc (c0_clock s) \<le> c0_clock t" "mqtt_connected t = mqtt_connected s" for t
    by (rule run_to_mono [OF Suc.IH]) (use that Suc.prems in auto)
  show ?case
    unfolding wifi_loop.simps(2) [of "Suc n"]
    by (auto simp: last_delay_def d went_on_def rest split: outcome.splits
        simp del: wifi_loop.simps
        intro!: run_to_mono [OF steadyD [OF steady_wifi_connect assms(1), of ?s]]
          run_to_mono [OF steadyD [OF steady_wait assms(1)]])
qed

text \<open>The same for the MQTT loop; here success sets the flag.\<close>

definition answered_later :: "core0 \<Rightarrow> bool outcome \<Rightarrow> core0 \<Rightarrow> bool" where
  "answered_later s r t \<longleftrightarrow> (\<exists>b. r = Return b \<and> (b \<longrightarrow> mqtt_connected t)) \<and> c0_clock s < c0_clock t"

lemma mqtt_attempt_answers:
  assumes "link_faults_only w"
  shows "run_to mqtt_attempt w s (\<lambda>r t. answered_later s r t \<and> (snd (handshake_at w (c0_clock s)) = None \<longrightarrow> r = Return True))"
proof (cases "handshake_at w (c0_clock s)")
  case (Pair msgs result)
  let ?s = "s\<lparr>c0_clock := Suc (c0_clock s)\<rparr>"
  have m: "msgs = []" "case result of None \<Rightarrow> True | Some e \<Rightarrow> transport_error e"
    using assms Pair by (simp_all add: link_faults_only_def) (metis fst_conv, metis snd_conv)
  show ?thesis
    unfolding mqtt_attempt_def exchange_def touch_def mark_disconnected_def
    using m(2)
    by (auto simp: Pair m(1) went_on_def answered_later_def split: outcome.splits option.splits
        intro!: run_to_mono [OF steadyD [OF steady_service assms, of ?s]])
qed

lemma answered_later_trans: "c0_clock s \<le> c0_clock t \<Longrightarrow> answered_later t r u \<Longrightarrow> answered_later s r u"
  by (auto simp: answered_later_def)

lemma mqtt_attempts_answer:
  assumes "link_faults_only w" and "ds \<noteq> []"
  shows "run_to (mqtt_attempts ds) w s (answered_later s)"
  using assms(2)
proof (induction ds arbitrary: s)
  case (Cons d ds)
  have wait: "steady (backoff d ds)" unfolding backoff_def by (intro steady_rules)
  have rest: "run_to (mqtt_attempts ds) w t (answered_later s)" if "c0_clock s < c0_clock t" for t
  proof (cases ds)
    case Nil
    with that show ?thesis by (auto simp: answered_later_def intro: exI [of _ False])
  next
    case (Cons d' ds')
    then show ?thesis
      by (intro run_to_mono [OF Cons.IH]) (use that in \<open>auto intro: answered_later_trans less_imp_le\<close>)
  qed
  have again: "run_to (io_bind (backoff d ds) (\<lambda>_. mqtt_attempts ds)) w t (answered_later s)"
    if "c0_clock s < c0_clock t" for t
    unfolding run_to_bind
    by (rule run_to_mono [OF steadyD [OF wait assms(1)]]) (use that in \<open>auto simp: went_on_def intro!: rest\<close>)
  have first: "run_to mqtt_attempt w s (answered_later s)"
    by (rule run_to_mono [OF mqtt_attempt_answers [OF assms(1)]]) simp
  show ?case
    unfolding mqtt_attempts.simps run_to_bind [of mqtt_attempt]
  proof (rule run_to_mono [OF first])
    fix r t assume r: "answered_later s r t"
    then obtain b where b: "r = Return b" "c0_clock s < c0_clock t" by (auto simp: answered_later_def)
    show "case r of
        Return ok \<Rightarrow> run_to (if ok then io_return True else io_bind (backoff d ds) (\<lambda>_. mqtt_attempts ds)) w t (answered_later s)
      | Raise e \<Rightarrow> answered_later s (Raise e) t | Cut \<Rightarrow> answered_later s Cut t"
      using r b again by (cases b) simp_all
  qed
qed simp

lemma mqtt_loop_connects:
  assumes "link_faults_only w" and "link_works_from T w" and "T \<le> c0_clock s + n"
  shows "run_to (mqtt_loop (Suc n)) w s (\<lambda>r t. r = Return True \<and> mqtt_connected t)"
  using assms(3)
proof (induction n arbitrary: s)
  case 0
  obtain d ds where ds: "mqtt_delays_sec w = d # ds"
    using assms(1) by (cases "mqtt_delays_sec w") (auto simp: link_faults_only_def)
  have "snd (handshake_at w (c0_clock s)) = None" using assms(2) 0 by (simp add: link_works_from_def)
  with mqtt_attempt_answers [OF assms(1), of s] show ?case
    by (auto simp: mqtt_connect_def ds answered_later_def elim!: run_to_mono)
next
  case (Suc n)
  have d: "mqtt_delays_sec w \<noteq> []" using assms(1) by (simp add: link_faults_only_def)
  have rest: "run_to (mqtt_loop (Suc n)) w t (\<lambda>r u. r = Return True \<and> mqtt_connected u)"
    if "c0_clock s < c0_clock t" for t
    by (rule Suc.IH) (use that Suc.prems in auto)
  show ?case
    unfolding mqtt_loop.simps(2) [of "Suc n"]
    by (auto simp: last_delay_def d went_on_def rest mqtt_connect_def answered_later_def split: outcome.splits
        simp del: mqtt_loop.simps
        intro!: run_to_mono [OF mqtt_attempts_answer [OF assms(1) d]]
          run_to_mono [OF steadyD [OF steady_wait assms(1)]])
qed

text \<open>
  C24: The network comes up. If from some instant on the access point and the broker
  answer, then whatever happened before, \<open>establish_network\<close> returns within as many rounds
  as that instant is away, with a session; the loops the firmware leaves unbounded end.
\<close>

theorem network_established:
  assumes "link_faults_only w" and "link_works_from T w"
  shows "\<exists>t. establish_network (Suc T) w s = (Return True, t) \<and> mqtt_connected t"
proof -
  have wifi: "run_to (wifi_loop (Suc T)) w u (\<lambda>r t. r = Return True)" for u
    by (rule run_to_mono [OF wifi_loop_connects [OF assms]]) auto
  have mqtt: "run_to (mqtt_loop (Suc T)) w u (\<lambda>r t. r = Return True \<and> mqtt_connected t)" for u
    by (rule mqtt_loop_connects [OF assms]) simp
  have "run_to (establish_network (Suc T)) w s (\<lambda>r t. r = Return True \<and> mqtt_connected t)"
    by (auto simp: establish_network_def set_connecting_def mqtt simp del: wifi_loop.simps mqtt_loop.simps
        intro!: run_to_mono [OF wifi])
  then show ?thesis by (auto simp: run_to_def split: prod.splits)
qed

text \<open>
  A dead Core 1 resets the board. When the heartbeat is stale, a pass of the run loop
  resets the board before anything else, the watchdog feed included.
\<close>

theorem stale_core1_resets:
  assumes "core1_activity_at w (c0_clock s) = Some a"
    and "ticks_diff (ticks_at w (Suc (c0_clock s))) a \<ge> CORE_1_HEARTBEAT_STALE_TIMEOUT_MS"
  shows "\<exists>t. run_pass loads n w s = (Cut, t) \<and> resets t = resets s @ [Core_1_stale]
           \<and> feeds t = feeds s \<and> sent t = sent s"
proof -
  have "run_to (run_pass loads n) w s (\<lambda>r t. r = Cut \<and> resets t = resets s @ [Core_1_stale]
           \<and> feeds t = feeds s \<and> sent t = sent s)"
    using assms unfolding run_pass_def service_wait_def watch_core_1_heartbeat_def
    by (simp add: run_to_bind [of "io_bind _ _"])
  then show ?thesis by (auto simp: run_to_def split: prod.splits)
qed

subsection \<open>Witnesses\<close>

lemma demo_links: "link_faults_only demo_world" "link_works_from 0 demo_world"
  by (simp_all add: link_faults_only_def link_works_from_def demo_world_def)

lemma network_established_witness:
  "\<exists>t. establish_network 1 demo_world (demo_core0\<lparr>mqtt_connected := False\<rparr>) = (Return True, t) \<and> mqtt_connected t"
  using network_established [OF demo_links, of "demo_core0\<lparr>mqtt_connected := False\<rparr>"] by simp

lemma stale_core1_resets_witness:
  "\<exists>t. run_pass (\<lambda>bs. Inr PNone) 1
         (demo_world\<lparr>core1_activity_at := \<lambda>n. Some 0, ticks_at := \<lambda>n. 40000\<rparr>) demo_core0 = (Cut, t)
       \<and> resets t = [Core_1_stale]"
proof -
  let ?w = "demo_world\<lparr>core1_activity_at := \<lambda>n. Some 0, ticks_at := \<lambda>n. 40000\<rparr>"
  have a: "core1_activity_at ?w (c0_clock demo_core0) = Some 0" by simp
  have b: "ticks_diff (ticks_at ?w (Suc (c0_clock demo_core0))) 0 \<ge> CORE_1_HEARTBEAT_STALE_TIMEOUT_MS"
    by code_simp
  from stale_core1_resets [OF a b, of "\<lambda>bs. Inr PNone" 1] show ?thesis
    by (auto simp: demo_core0_def)
qed

lemma wire_identity_witness:
  "set (acked (snd (core0_thread (\<lambda>bs. Inr PNone) 3 2 demo_world demo_core0)))
     \<subseteq> set (sent (snd (core0_thread (\<lambda>bs. Inr PNone) 3 2 demo_world demo_core0)))"
proof -
  have "in_flight demo_queue = None" by code_simp
  then have "fresh_core0 demo_core0"
    by (simp add: fresh_core0_def demo_core0_def demo_lane)
  from wire_identity [OF this prod.collapse [symmetric], of "\<lambda>bs. Inr PNone" 3 2 demo_world]
  show ?thesis by blast
qed

text \<open>A server that answers the first UTC request at once.\<close>

definition utc_answer :: inbound where
  "utc_answer =
     (Inr ''inf'', Inr (PDict [(PStr ''message_type'', PStr ''info_response''),
        (PStr ''message_schema_version'', PInt 3), (PStr ''source'', PStr ''server''),
        (PStr ''target'', PStr ''node''), (PStr ''request_type'', PStr ''utc_time''),
        (PStr ''request_id'', PStr ''r1_1''),
        (PStr ''payload'', PDict [(PStr ''timestamp'', PStr ''t''), (PStr ''utc_epoch_ms'', PInt 1700000000000)])]))"

definition answering_world :: c0_world where
  "answering_world = demo_world\<lparr>config := demo_c0_config\<lparr>c_publish_delay_ms := 0\<rparr>,
     exchange_at := \<lambda>n. ([utc_answer], None)\<rparr>"

lemma demo_start: "fst (start_core0 1 answering_world demo_core0) = Return True"
  by code_simp

lemma startup_contract_witness: "verified answering_world (snd (start_core0 1 answering_world demo_core0))"
  by (rule startup_contract [of 1]) (use demo_start in \<open>simp add: prod_eq_iff\<close>)

end
