(* ===== verification/MqttWire.thy ===== *)
theory MqttWire
  imports Prelude "HOL-Library.Word" "HOL-Library.Sublist"
begin

section \<open>The MQTT wire protocol\<close>

text \<open>
  \<open>mqtt_client.py\<close> byte by byte: the frames it writes (CONNECT, SUBSCRIBE, PUBLISH with its
  segmented splice, PINGREQ, PUBACK), the parser of inbound frames with its limits, and the
  wait loops of the four transactions. The socket is MicroPython's stream socket: a read
  returns all the bytes asked for, or fewer at the end of the stream, and a stalled read
  ends with an \<open>OSError\<close> under a timeout and never without one.
\<close>

unbundle bit_operations_syntax

type_synonym byte = "8 word"

subsection \<open>The socket\<close>

text \<open>
  The environment: the stream of a new connection, the instants at which a write, a change
  of the socket mode or the dialling fails, at which the servicing hook resets the board, what
  a read or a close raises by itself (a reset connection, a failed allocation), and the
  exception (if any) of the message callback on a message.
\<close>

datatype stream_end = Eof | Quiet

record wire_world =
  stream_at :: "nat \<Rightarrow> byte list \<times> stream_end"
  write_fails :: "nat \<Rightarrow> bool"
  mode_fails :: "nat \<Rightarrow> bool"
  dial_fails :: "nat \<Rightarrow> bool"
  hook_resets :: "nat \<Rightarrow> bool"
  read_faults :: "nat \<Rightarrow> exc option"
  close_faults :: "nat \<Rightarrow> exc option"
  on_message :: "byte list \<Rightarrow> byte list \<Rightarrow> exc option"

text \<open>
  The client with its socket. \<open>inbuf\<close> is what the broker sends in time, \<open>at_end\<close> what
  follows it. The last five fields only record: the messages handed to the callback,
  whether the servicing hook ran since the last socket operation, the operations that were
  not serviced, the ones that were not under a timeout, and the largest read requested.
\<close>

record wire =
  inbuf :: "byte list"
  at_end :: stream_end
  outbuf :: "byte list"
  sock_timeout :: "int option"
  sock_closed :: bool
  pid :: nat
  w_clock :: nat
  delivered :: "(byte list \<times> byte list) list"
  fed :: bool
  unfed :: nat
  untimed :: nat
  largest_read :: nat

type_synonym 'a wp = "(wire_world, wire, 'a) prog"

definition instant :: "(wire_world \<Rightarrow> nat \<Rightarrow> 'x) \<Rightarrow> 'x wp" where
  "instant f w s = (Return (f w (w_clock s)), s\<lparr>w_clock := Suc (w_clock s)\<rparr>)"

definition board_reset :: "'a wp" where
  "board_reset w s = (Cut, s)"

text \<open>\<open>_service\<close>: the hook of Core 0; it may find a dead Core 1 and reset the board.\<close>

definition service :: "unit wp" where
  "service = io_bind (instant hook_resets) (\<lambda>reset.
     if reset then board_reset else io_set (\<lambda>s. s\<lparr>fed := True\<rparr>))"

definition note_io :: "wire \<Rightarrow> wire" where
  "note_io s = s\<lparr>fed := False, unfed := unfed s + (if fed s then 0 else 1),
                 untimed := untimed s + (if sock_timeout s = None then 1 else 0)\<rparr>"

text \<open>\<open>sock.read(n)\<close>; \<open>None\<close> is the answer of a non-blocking socket with nothing to read.\<close>

definition sock_read :: "nat \<Rightarrow> byte list option wp" where
  "sock_read n =
     io_bind (io_set (\<lambda>s. (note_io s)\<lparr>largest_read := max n (largest_read s)\<rparr>)) (\<lambda>_.
     io_bind (instant read_faults) (\<lambda>fault. io_bind (io_get id) (\<lambda>s.
       if fault \<noteq> None then io_raise (the fault)
       else if sock_closed s then io_raise OSError
       else if n \<le> length (inbuf s)
       then io_bind (io_set (\<lambda>s. s\<lparr>inbuf := drop n (inbuf s)\<rparr>)) (\<lambda>_. io_return (Some (take n (inbuf s))))
       else io_bind (io_set (\<lambda>s. s\<lparr>inbuf := []\<rparr>)) (\<lambda>_.
            if at_end s = Eof then io_return (Some (inbuf s))
            else case sock_timeout s of
                   None \<Rightarrow> board_reset
                 | Some t \<Rightarrow> if t = 0 then io_return (if inbuf s = [] then None else Some (inbuf s))
                             else io_raise OSError))))"

definition sock_write :: "byte list \<Rightarrow> unit wp" where
  "sock_write bs =
     io_bind (io_set note_io) (\<lambda>_.
     io_bind (instant write_fails) (\<lambda>fault. io_bind (io_get sock_closed) (\<lambda>gone.
       if fault \<or> gone then io_raise OSError
       else io_set (\<lambda>s. s\<lparr>outbuf := outbuf s @ bs\<rparr>))))"

definition settimeout :: "int option \<Rightarrow> unit wp" where
  "settimeout t = io_bind (instant mode_fails) (\<lambda>fault.
     if fault then io_raise OSError else io_set (\<lambda>s. s\<lparr>sock_timeout := t\<rparr>))"

text \<open>\<open>try: m finally: n\<close>; an exception of \<open>n\<close> replaces the outcome of \<open>m\<close>.\<close>

definition finally_do :: "'a wp \<Rightarrow> unit wp \<Rightarrow> 'a wp" where
  "finally_do m n =
     io_bind (io_try m (\<lambda>e. io_bind n (\<lambda>_. io_raise e))) (\<lambda>x. io_bind n (\<lambda>_. io_return x))"

definition send :: "byte list \<Rightarrow> unit wp" where
  "send bs = io_bind service (\<lambda>_. sock_write bs)"

text \<open>\<open>_abort_corrupt_inbound\<close>: close the socket, then raise; only a \<open>MemoryError\<close> of the close gets out.\<close>

definition abort_corrupt_inbound :: "'a wp" where
  "abort_corrupt_inbound =
     io_bind (instant close_faults) (\<lambda>fault.
     io_bind (case fault of
                None \<Rightarrow> io_set (\<lambda>s. s\<lparr>sock_closed := True\<rparr>)
              | Some e \<Rightarrow> if e = MemoryError then io_raise e else io_return ()) (\<lambda>_.
     io_raise MQTTException))"

definition read_required :: "nat \<Rightarrow> byte list wp" where
  "read_required n =
     io_bind service (\<lambda>_. io_bind (sock_read n) (\<lambda>data.
       case data of
         None \<Rightarrow> io_raise OSError
       | Some bs \<Rightarrow> if length bs \<noteq> n then io_raise OSError else io_return bs))"

subsection \<open>Data\<close>

text \<open>
  What is written is \<open>bytes\<close> or a \<open>str\<close>. A \<open>str\<close> goes out in UTF-8, but \<open>len\<close> counts its
  code points.
\<close>

datatype pydata = Bytes "byte list" | Text string

definition utf8 :: "string \<Rightarrow> byte list" where
  "utf8 s = map (\<lambda>c. of_nat (of_char c)) s"

fun data_bytes :: "pydata \<Rightarrow> byte list" where
  "data_bytes (Bytes bs) = bs"
| "data_bytes (Text s) = utf8 s"

fun data_len :: "pydata \<Rightarrow> nat" where
  "data_len (Bytes bs) = length bs"
| "data_len (Text s) = py_len s"

text \<open>\<open>struct.pack("!H", n)\<close>; MicroPython keeps the low 16 bits.\<close>

definition pack_H :: "nat \<Rightarrow> byte list" where
  "pack_H n = [of_nat (n div 256), of_nat n]"

definition unpack_H :: "byte list \<Rightarrow> nat" where
  "unpack_H bs = (unat (bs ! 0) * 256) OR unat (bs ! 1)"

definition send_str :: "pydata \<Rightarrow> unit wp" where
  "send_str s = io_bind (send (pack_H (data_len s))) (\<lambda>_. send (data_bytes s))"

subsection \<open>The remaining length\<close>

text \<open>
  The loop of \<open>connect\<close> and \<open>publish\<close> that fills a header: from index \<open>i\<close> on, seven bits a
  byte, the high bit on all but the last; the result is the header and the index of the
  last byte written.
\<close>

fun fill_len :: "byte list \<Rightarrow> nat \<Rightarrow> nat \<Rightarrow> byte list \<times> nat" where
  "fill_len pkt i sz =
     (if sz > 0x7F then fill_len (pkt[i := (of_nat sz AND 0x7F) OR 0x80]) (Suc i) (sz div 128)
      else (pkt[i := of_nat sz], i))"

declare fill_len.simps [simp del]

text \<open>\<open>_recv_len\<close>, from the shift \<open>sh\<close> and the value \<open>n\<close> reached so far.\<close>

function recv_len_from :: "nat \<Rightarrow> nat \<Rightarrow> nat wp" where
  "recv_len_from sh n =
     io_bind (read_required 1) (\<lambda>data.
       let b = hd data; m = n OR push_bit sh (unat (b AND 0x7F)) in
       if b AND 0x80 = 0 then io_return m
       else if sh + 7 \<ge> 28 then abort_corrupt_inbound
       else recv_len_from (sh + 7) m)"
  by pat_completeness auto
termination by (relation "measure (\<lambda>(sh, n). 28 - sh)") auto

declare recv_len_from.simps [simp del]

definition recv_len :: "nat wp" where
  "recv_len = recv_len_from 0 0"

subsection \<open>Packet identifiers\<close>

definition next_packet_id :: "nat wp" where
  "next_packet_id =
     io_bind (io_set (\<lambda>s. s\<lparr>pid := pid s + 1\<rparr>)) (\<lambda>_.
     io_bind (io_get pid) (\<lambda>n.
     io_bind (if n > 65535 then io_set (\<lambda>s. s\<lparr>pid := 1\<rparr>) else io_return ()) (\<lambda>_.
     io_get pid)))"

subsection \<open>Inbound frames\<close>

definition MAX_INBOUND_PACKET_BYTES :: nat where
  "MAX_INBOUND_PACKET_BYTES = 20 * 1024"

text \<open>\<open>self.cb(topic, msg)\<close>.\<close>

definition call_back :: "byte list \<Rightarrow> byte list \<Rightarrow> unit wp" where
  "call_back topic msg =
     io_ask (\<lambda>w. io_bind (io_set (\<lambda>s. s\<lparr>delivered := delivered s @ [(topic, msg)]\<rparr>)) (\<lambda>_.
       case on_message w topic msg of None \<Rightarrow> io_return () | Some e \<Rightarrow> io_raise e))"

definition check_inbound :: "bool \<Rightarrow> unit wp" where
  "check_inbound ok = (if ok then io_return () else abort_corrupt_inbound)"

text \<open>The packet identifier of a PUBLISH above QoS 0, and how much of the frame remains.\<close>

definition read_packet_id :: "byte \<Rightarrow> nat \<Rightarrow> (nat \<times> nat) wp" where
  "read_packet_id op remaining =
     (if op AND 6 \<noteq> 0
      then io_bind (check_inbound (\<not> remaining < 2)) (\<lambda>_.
           io_bind (read_required 2) (\<lambda>data. io_return (unpack_H data, remaining - 2)))
      else io_return (0, remaining))"

definition wait_publish :: "byte \<Rightarrow> byte option wp" where
  "wait_publish op =
     io_bind (check_inbound (op AND 6 \<noteq> 4)) (\<lambda>_.
     io_bind (check_inbound (op AND 6 \<noteq> 6)) (\<lambda>_.
     io_bind recv_len (\<lambda>sz.
     io_bind (check_inbound (\<not> sz > MAX_INBOUND_PACKET_BYTES)) (\<lambda>_.
     io_bind (check_inbound (\<not> sz < 2)) (\<lambda>_.
     io_bind (read_required 2) (\<lambda>data.
       let topic_len = unpack_H data; remaining = sz - 2 in
       io_bind (check_inbound (\<not> topic_len > remaining)) (\<lambda>_.
       io_bind (read_required topic_len) (\<lambda>topic.
       io_bind (read_packet_id op (remaining - topic_len)) (\<lambda>(rcv_pid, rest).
       io_bind (read_required rest) (\<lambda>msg.
       io_bind (call_back topic msg) (\<lambda>_.
       io_bind (if op AND 6 = 2 then send ([0x40, 0x02] @ pack_H rcv_pid) else io_return ()) (\<lambda>_.
       io_return (Some op)))))))))))))"

text \<open>A packet from its opcode on; PUBACK and SUBACK are left to the wait loops.\<close>

definition process_frame :: "byte list option \<Rightarrow> byte option wp" where
  "process_frame res =
     (case res of
        None \<Rightarrow> io_return None
      | Some [] \<Rightarrow> io_raise OSError
      | Some (op # _) \<Rightarrow>
          if op = 0xD0
          then io_bind (read_required 1) (\<lambda>data. io_bind (check_inbound (hd data = 0)) (\<lambda>_. io_return None))
          else if op AND 0xF0 \<noteq> 0x30
          then (if op = 0x40 \<or> op = 0x90 then io_return (Some op) else abort_corrupt_inbound)
          else wait_publish op)"

definition wait_msg :: "byte option wp" where
  "wait_msg = io_bind service (\<lambda>_. io_bind (sock_read 1) process_frame)"

subsection \<open>The transactions\<close>

text \<open>\<open>connect\<close>: the socket of a new connection, the CONNECT frame, the CONNACK.\<close>

definition open_socket :: "int option \<Rightarrow> unit wp" where
  "open_socket timeout =
     io_bind (instant stream_at) (\<lambda>(bs, ending).
     io_bind (io_set (\<lambda>s. s\<lparr>inbuf := bs, at_end := ending, outbuf := [], sock_timeout := None, sock_closed := False\<rparr>)) (\<lambda>_.
     settimeout timeout))"

definition dial :: "unit wp" where
  "dial =
     io_bind (io_set note_io) (\<lambda>_.
     io_bind (instant dial_fails) (\<lambda>fault. if fault then io_raise OSError else io_return ()))"

definition connect_flags :: "bool \<Rightarrow> nat \<Rightarrow> byte list" where
  "connect_flags clean_session keepalive =
     [0x04, 0x4D, 0x51, 0x54, 0x54, 0x04, if clean_session then 2 else 0,
      of_nat (keepalive div 256), of_nat keepalive]"

definition connect_frame :: "bool \<Rightarrow> string \<Rightarrow> nat \<Rightarrow> unit wp" where
  "connect_frame clean_session client_id keepalive =
     (if keepalive > 65535 then io_raise MQTTException
      else case fill_len [0x10, 0, 0, 0, 0, 0] 1 (10 + 2 + py_len client_id) of (premsg, i) \<Rightarrow>
        io_bind (send (take (i + 2) premsg)) (\<lambda>_.
        io_bind (send (connect_flags clean_session keepalive)) (\<lambda>_.
        send_str (Text client_id))))"

definition connect :: "bool \<Rightarrow> string \<Rightarrow> nat \<Rightarrow> int option \<Rightarrow> byte wp" where
  "connect clean_session client_id keepalive timeout =
     io_bind (open_socket timeout) (\<lambda>_.
     io_bind service (\<lambda>_. io_bind dial (\<lambda>_.
     io_bind service (\<lambda>_. io_bind dial (\<lambda>_.
     io_bind (connect_frame clean_session client_id keepalive) (\<lambda>_.
     io_bind (read_required 4) (\<lambda>resp.
       if resp ! 0 \<noteq> 0x20 \<or> resp ! 1 \<noteq> 0x02 then io_raise MQTTException
       else if resp ! 3 \<noteq> 0 then io_raise MQTTException
       else io_return (resp ! 2 AND 1))))))))"

text \<open>
  The wait loops read frames until the awaited one; they take a number of rounds and answer
  whether they ended within it.
\<close>

fun pingresp_wait :: "nat \<Rightarrow> bool wp" where
  "pingresp_wait 0 = io_return False"
| "pingresp_wait (Suc rounds) =
     io_bind wait_msg (\<lambda>op. if op = None then io_return True else pingresp_wait rounds)"

text \<open>A bounded exchange: the timeout is installed before it and removed after it.\<close>

definition under_timeout :: "int option \<Rightarrow> 'a wp \<Rightarrow> 'a wp" where
  "under_timeout timeout m =
     (case timeout of
        None \<Rightarrow> m
      | Some t \<Rightarrow> io_bind (settimeout (Some t)) (\<lambda>_. finally_do m (settimeout None)))"

definition ping :: "nat \<Rightarrow> int option \<Rightarrow> bool wp" where
  "ping rounds timeout =
     under_timeout timeout (io_bind (send [0xC0, 0]) (\<lambda>_. pingresp_wait rounds))"

definition puback :: "nat \<Rightarrow> bool wp" where
  "puback sent_pid =
     io_bind (read_required 1) (\<lambda>sz.
     io_bind (check_inbound (sz = [0x02])) (\<lambda>_.
     io_bind (read_required 2) (\<lambda>data. io_return (sent_pid = unpack_H data))))"

fun puback_wait :: "nat \<Rightarrow> nat \<Rightarrow> bool wp" where
  "puback_wait sent_pid 0 = io_return False"
| "puback_wait sent_pid (Suc rounds) =
     io_bind wait_msg (\<lambda>op.
     io_bind (if op = Some 0x40 then puback sent_pid else io_return False) (\<lambda>matched.
       if matched then io_return True else puback_wait sent_pid rounds))"

text \<open>The body of a PUBLISH: the message, or its head, a comma, the fragment and the brace.\<close>

definition write_body :: "pydata \<Rightarrow> byte list option \<Rightarrow> unit wp" where
  "write_body msg splice_fragment =
     (case splice_fragment of
        None \<Rightarrow> send (data_bytes msg)
      | Some fragment \<Rightarrow>
          io_bind (send (take (data_len msg - 1) (data_bytes msg))) (\<lambda>_.
          io_bind (send (utf8 '','')) (\<lambda>_.
          io_bind (send fragment) (\<lambda>_.
          send [0x7D]))))"

definition publish_size :: "string \<Rightarrow> pydata \<Rightarrow> byte list option \<Rightarrow> nat" where
  "publish_size topic msg splice_fragment =
     2 + py_len topic + data_len msg + 2
       + (case splice_fragment of None \<Rightarrow> 0 | Some fragment \<Rightarrow> length fragment + 1)"

definition write_publish :: "string \<Rightarrow> pydata \<Rightarrow> byte list option \<Rightarrow> nat \<Rightarrow> unit wp" where
  "write_publish topic msg splice_fragment packet =
     (case fill_len [0x32, 0, 0, 0] 1 (publish_size topic msg splice_fragment) of (pkt, i) \<Rightarrow>
        io_bind (send (take (i + 1) pkt)) (\<lambda>_.
        io_bind (send_str (Text topic)) (\<lambda>_.
        io_bind (send (pack_H packet)) (\<lambda>_.
        write_body msg splice_fragment))))"

definition publish ::
  "nat \<Rightarrow> string \<Rightarrow> pydata \<Rightarrow> nat option \<Rightarrow> int option \<Rightarrow> byte list option \<Rightarrow> bool wp" where
  "publish rounds topic msg packet_id timeout splice_fragment =
     (if publish_size topic msg splice_fragment > 2097151 then io_raise MQTTException
      else io_bind (case packet_id of None \<Rightarrow> next_packet_id | Some n \<Rightarrow> io_return n) (\<lambda>packet.
           under_timeout timeout
             (io_bind (write_publish topic msg splice_fragment packet) (\<lambda>_. puback_wait packet rounds))))"

definition suback :: "nat \<Rightarrow> unit wp" where
  "suback packet =
     io_bind (read_required 1) (\<lambda>sz.
     io_bind (check_inbound (sz = [0x03])) (\<lambda>_.
     io_bind (read_required 3) (\<lambda>resp.
       if take 2 resp \<noteq> pack_H packet then io_raise MQTTException
       else if resp ! 2 = 0x80 then io_raise MQTTException
       else check_inbound (resp ! 2 = 0x00 \<or> resp ! 2 = 0x01))))"

fun suback_wait :: "nat \<Rightarrow> nat \<Rightarrow> bool wp" where
  "suback_wait packet 0 = io_return False"
| "suback_wait packet (Suc rounds) =
     io_bind wait_msg (\<lambda>op.
       if op = Some 0x90 then io_bind (suback packet) (\<lambda>_. io_return True)
       else suback_wait packet rounds)"

definition subscribe :: "nat \<Rightarrow> string \<Rightarrow> bool wp" where
  "subscribe rounds topic =
     (if py_len topic > 122 then io_raise MQTTException
      else io_bind next_packet_id (\<lambda>packet.
           io_bind (send ([0x82, of_nat (2 + 2 + py_len topic + 1)] @ pack_H packet)) (\<lambda>_.
           io_bind (send_str (Text topic)) (\<lambda>_.
           io_bind (send [0x01]) (\<lambda>_.
           suback_wait packet rounds)))))"

text \<open>\<open>check_msg\<close>: nothing unless a packet has started.\<close>

definition check_msg :: "int \<Rightarrow> byte option wp" where
  "check_msg timeout =
     io_bind (io_get (\<lambda>s. inbuf s \<noteq> [] \<or> at_end s = Eof \<or> sock_closed s)) (\<lambda>ready.
       if \<not> ready then io_return None
       else under_timeout (Some timeout) wait_msg)"

subsection \<open>What every socket operation keeps\<close>

lemma run_to_instant [simp]:
  "run_to (instant f) w s Q = Q (Return (f w (w_clock s))) (s\<lparr>w_clock := Suc (w_clock s)\<rparr>)"
  by (simp add: run_to_def instant_def)

lemma run_to_board_reset [simp]: "run_to board_reset w s Q = Q Cut s"
  by (simp add: run_to_def board_reset_def)

text \<open>
  From \<open>s\<close> to \<open>t\<close> with the outcome \<open>r\<close>: the socket mode stays, each operation was serviced
  and under a timeout if the socket has one, no read asked for more than the packet limit,
  and only transport errors and those of the callback and the platform are raised; a run that does not end
  is one that the hook cut, or a read without a timeout.
\<close>

definition resettable :: "wire_world \<Rightarrow> bool" where
  "resettable w \<longleftrightarrow> (\<exists>n. hook_resets w n)"

definition wire_error :: "wire_world \<Rightarrow> exc \<Rightarrow> wire \<Rightarrow> bool" where
  "wire_error w e t \<longleftrightarrow>
     e = OSError \<or> (e = MQTTException \<and> (sock_closed t \<or> (\<exists>n. close_faults w n \<noteq> None)))
   \<or> (\<exists>topic msg. on_message w topic msg = Some e) \<or> (\<exists>n. read_faults w n = Some e)
   \<or> (e = MemoryError \<and> (\<exists>n. close_faults w n = Some MemoryError))"

definition guarded :: "wire_world \<Rightarrow> wire \<Rightarrow> 'a outcome \<Rightarrow> wire \<Rightarrow> bool" where
  "guarded w s r t \<longleftrightarrow>
     sock_timeout t = sock_timeout s \<and> unfed t = unfed s
   \<and> (sock_timeout s \<noteq> None \<longrightarrow> untimed t = untimed s)
   \<and> largest_read t \<le> max (largest_read s) MAX_INBOUND_PACKET_BYTES
   \<and> suffix (inbuf t) (inbuf s) \<and> prefix (outbuf s) (outbuf t)
   \<and> (case r of
        Return x \<Rightarrow> True
      | Raise e \<Rightarrow> wire_error w e t
      | Cut \<Rightarrow> resettable w \<or> sock_timeout s = None)"

definition guards :: "'a wp \<Rightarrow> bool" where
  "guards m \<longleftrightarrow> (\<forall>w s. run_to m w s (guarded w s))"

named_theorems guard_rules \<open>programs whose socket operations are serviced and bounded\<close>

lemma guardsD: "guards m \<Longrightarrow> run_to m w s (guarded w s)"
  by (simp add: guards_def)

lemma guarded_trans:
  "guarded w s (Return x) u \<Longrightarrow> guarded w u r t \<Longrightarrow> guarded w s r t"
  by (auto simp: guarded_def split: outcome.splits intro: suffix_order.trans prefix_order.trans)

text \<open>A failure has no value, so it fails a computation of any type alike.\<close>

lemma guarded_fail:
  "guarded w s (Raise e :: 'a outcome) t \<Longrightarrow> guarded w s (Raise e :: 'b outcome) t"
  "guarded w s (Cut :: 'a outcome) t \<Longrightarrow> guarded w s (Cut :: 'b outcome) t"
  unfolding guarded_def outcome.case by blast+

lemma guards_bind [guard_rules]:
  assumes "guards m" and "\<And>x. guards (f x)"
  shows "guards (io_bind m f)"
  unfolding guards_def
  by (intro allI run_to_bindI [OF guardsD [OF assms(1)]] run_to_mono [OF guardsD [OF assms(2)]])
    (auto intro: guarded_trans guarded_fail)

lemma guards_basic [guard_rules]:
  "guards (io_return x)" "guards (io_get g)" "guards (io_raise OSError)"
  by (simp_all add: guards_def guarded_def wire_error_def)

lemma guards_ask [guard_rules]: "(\<And>w. guards (f w)) \<Longrightarrow> guards (io_ask f)"
  by (simp add: guards_def)

lemma guards_set:
  assumes "\<And>s. guarded undefined s (Return ()) (f s)"
  shows "guards (io_set f)"
  using assms by (simp add: guards_def guarded_def)

lemma guards_cases [guard_rules]:
  "(b \<Longrightarrow> guards m) \<Longrightarrow> (\<not> b \<Longrightarrow> guards n) \<Longrightarrow> guards (if b then m else n)"
  "(x = None \<Longrightarrow> guards m) \<Longrightarrow> (\<And>y. x = Some y \<Longrightarrow> guards (f y)) \<Longrightarrow> guards (case x of None \<Rightarrow> m | Some y \<Rightarrow> f y)"
  "(\<And>a b. p = (a, b) \<Longrightarrow> guards (g a b)) \<Longrightarrow> guards (case p of (a, b) \<Rightarrow> g a b)"
  "(xs = [] \<Longrightarrow> guards m) \<Longrightarrow> (\<And>y ys. xs = y # ys \<Longrightarrow> guards (h y ys)) \<Longrightarrow>
     guards (case xs of [] \<Rightarrow> m | y # ys \<Rightarrow> h y ys)"
  by (auto split: prod.splits option.splits list.splits)

text \<open>A serviced operation: the hook, then the operation.\<close>

lemma guards_serviced_read:
  assumes "n \<le> MAX_INBOUND_PACKET_BYTES"
  shows "guards (io_bind service (\<lambda>_. io_bind (sock_read n) (\<lambda>data. io_return data)))"
  using assms unfolding guards_def service_def sock_read_def
  by (auto simp: suffix_drop guarded_def note_io_def resettable_def wire_error_def split: option.splits)

lemma guards_read:
  assumes "n \<le> MAX_INBOUND_PACKET_BYTES" and "\<And>data. guards (f data)"
  shows "guards (io_bind service (\<lambda>_. io_bind (sock_read n) f))"
  using guards_bind [OF guards_serviced_read [OF assms(1)] assms(2)]
  by (simp add: io_bind_assoc io_bind_return)

lemma guards_read_required [guard_rules]:
  "n \<le> MAX_INBOUND_PACKET_BYTES \<Longrightarrow> guards (read_required n)"
  unfolding read_required_def by (intro guards_read guard_rules)

lemma guards_send [guard_rules]: "guards (send bs)"
  by (auto simp: guards_def send_def service_def sock_write_def guarded_def note_io_def resettable_def wire_error_def)

lemma guards_abort [guard_rules]: "guards abort_corrupt_inbound"
  by (auto simp: guards_def abort_corrupt_inbound_def guarded_def wire_error_def split: option.splits)

lemma guards_check [guard_rules]: "guards (check_inbound ok)"
  unfolding check_inbound_def by (intro guard_rules)

lemma guards_call_back [guard_rules]: "guards (call_back topic msg)"
  by (auto simp: guards_def call_back_def guarded_def wire_error_def split: option.splits)

lemma small_read [guard_rules]:
  "1 \<le> MAX_INBOUND_PACKET_BYTES" "2 \<le> MAX_INBOUND_PACKET_BYTES" "3 \<le> MAX_INBOUND_PACKET_BYTES"
  "4 \<le> MAX_INBOUND_PACKET_BYTES"
  by (simp_all add: MAX_INBOUND_PACKET_BYTES_def)

lemma guards_send_str [guard_rules]: "guards (send_str s)"
  unfolding send_str_def by (intro guard_rules)

lemma guards_recv_len_from: "guards (recv_len_from sh n)"
proof (induction sh n rule: recv_len_from.induct)
  case (1 sh n)
  show ?case
    unfolding recv_len_from.simps [of sh n] Let_def
    by (intro guard_rules 1) auto
qed

lemma guards_recv_len [guard_rules]: "guards recv_len"
  unfolding recv_len_def by (rule guards_recv_len_from)

text \<open>What \<open>check_inbound\<close> and a bound on the reads that follow need to know of each other.\<close>

lemma guards_checked:
  assumes "ok \<Longrightarrow> guards (f ())"
  shows "guards (io_bind (check_inbound ok) f)"
proof (cases ok)
  case True
  with assms show ?thesis by (simp add: check_inbound_def guards_def)
next
  case False
  then show ?thesis
    by (auto simp: check_inbound_def guards_def abort_corrupt_inbound_def guarded_def wire_error_def split: option.splits)
qed

lemma read_packet_id_rest:
  assumes "\<And>i n. n \<le> remaining \<Longrightarrow> guards (f (i, n))"
  shows "guards (io_bind (read_packet_id op remaining) f)"
  unfolding read_packet_id_def
  by (auto simp: io_bind_assoc io_return_bind
      intro!: guards_checked guards_bind [OF guards_read_required] small_read assms split: prod.splits)

lemma guards_wait_publish [guard_rules]: "guards (wait_publish op)"
  unfolding wait_publish_def Let_def
  by (intro guards_checked guards_bind [OF guards_recv_len] guards_bind [OF guards_read_required]
      read_packet_id_rest guard_rules) auto

lemma guards_process_frame [guard_rules]: "guards (process_frame res)"
  unfolding process_frame_def by (intro guard_rules)

lemma guards_wait_msg [guard_rules]: "guards wait_msg"
  unfolding wait_msg_def by (intro guards_read guard_rules)

subsection \<open>The wait loops end\<close>

text \<open>Under a timeout each frame the loops skip consumes input.\<close>

definition timed :: "wire \<Rightarrow> bool" where
  "timed s \<longleftrightarrow> (\<exists>t. sock_timeout s = Some t \<and> 0 < t)"

lemma timed_guarded: "guarded w s r u \<Longrightarrow> timed s \<Longrightarrow> timed u"
  by (simp add: guarded_def timed_def)

lemma wait_msg_progress:
  assumes "timed s"
  shows "run_to wait_msg w s (\<lambda>r u. guarded w s r u
           \<and> (\<forall>op. r = Return op \<longrightarrow> length (inbuf u) < length (inbuf s)))"
proof -
  have wait: "wait_msg = io_bind (io_bind service (\<lambda>_. sock_read 1)) process_frame"
    by (simp add: wait_msg_def io_bind_assoc)
  have read: "run_to (io_bind service (\<lambda>_. sock_read 1)) w s (\<lambda>r u. guarded w s r u
           \<and> (\<forall>res. r = Return res \<longrightarrow> length (inbuf u) < length (inbuf s) \<or> res = Some []))"
    using assms unfolding service_def sock_read_def
    by (auto simp: guarded_def note_io_def resettable_def wire_error_def timed_def suffix_drop
          Suc_le_eq MAX_INBOUND_PACKET_BYTES_def
        split: option.splits)
  have rest: "run_to (process_frame res) w u (\<lambda>r t. guarded w u r t \<and> (\<forall>op. r = Return op \<longrightarrow> res \<noteq> Some []))" for res u
    using guardsD [OF guards_process_frame, of res w u]
    by (cases "res = Some []") (simp_all add: process_frame_def run_to_conj)
  show ?thesis
    unfolding wait
  proof (rule run_to_bindI [OF read])
    fix res :: "byte list option" and t
    assume t: "guarded w s (Return res) t
      \<and> (\<forall>res'. Return res = Return res' \<longrightarrow> length (inbuf t) < length (inbuf s) \<or> res' = Some [])"
    show "run_to (process_frame res) w t (\<lambda>r u. guarded w s r u
        \<and> (\<forall>op. r = Return op \<longrightarrow> length (inbuf u) < length (inbuf s)))"
    proof (rule run_to_mono [OF rest])
      fix r :: "byte option outcome" and u
      assume u: "guarded w t r u \<and> (\<forall>op. r = Return op \<longrightarrow> res \<noteq> Some [])"
      then have "length (inbuf u) \<le> length (inbuf t)" by (simp add: guarded_def suffix_length_le)
      with t u show "guarded w s r u \<and> (\<forall>op. r = Return op \<longrightarrow> length (inbuf u) < length (inbuf s))"
        using guarded_trans [of w s res t r u] by auto
    qed
  qed (auto intro: guarded_fail)
qed

text \<open>
  \<open>m\<close> ends, and says so: it returns True or raises a transport error or an error of the
  callback; its operations were serviced and under a timeout.
\<close>

definition ends_guarded :: "wire_world \<Rightarrow> wire \<Rightarrow> bool outcome \<Rightarrow> wire \<Rightarrow> bool" where
  "ends_guarded w s r u \<longleftrightarrow> guarded w s r u \<and> r \<noteq> Return False"

lemma puback_guards [guard_rules]: "guards (puback n)"
  unfolding puback_def by (intro guard_rules)

lemma puback_wait_ends:
  assumes "timed s" and "length (inbuf s) < rounds"
  shows "run_to (puback_wait packet rounds) w s (ends_guarded w s)"
  using assms
proof (induction rounds arbitrary: s)
  case (Suc n)
  have check: "guards (if op = Some 0x40 then puback packet else io_return False)" for op :: "byte option"
    by (intro guard_rules)
  have again: "run_to (puback_wait packet n) w t (ends_guarded w s)"
    if "guarded w s (Return b) t" "length (inbuf t) < length (inbuf s)" for t and b :: bool
    using that timed_guarded [OF that(1) Suc.prems(1)] Suc.prems(2)
    by (intro run_to_mono [OF Suc.IH]) (auto simp: ends_guarded_def elim: guarded_trans)
  have rest: "run_to (io_bind (if op = Some 0x40 then puback packet else io_return False)
       (\<lambda>matched. if matched then io_return True else puback_wait packet n)) w u (ends_guarded w s)"
    if u: "guarded w s (Return op) u" "length (inbuf u) < length (inbuf s)" for op :: "byte option" and u
  proof (rule run_to_bindI [OF guardsD [OF check]])
    fix matched :: bool and t
    assume t: "guarded w u (Return matched) t"
    then have "length (inbuf t) \<le> length (inbuf u)" by (simp add: guarded_def suffix_length_le)
    with u guarded_trans [OF u(1) t]
    show "run_to (if matched then io_return True else puback_wait packet n) w t (ends_guarded w s)"
      by (auto intro: again guarded_trans simp: ends_guarded_def)
  qed (auto intro: guarded_trans [OF u(1)] simp: ends_guarded_def)
  show ?case
    unfolding puback_wait.simps
    by (rule run_to_bindI [OF wait_msg_progress [OF Suc.prems(1)]])
      (rule rest, simp, simp, auto intro: guarded_fail simp: ends_guarded_def)
qed simp

lemma pingresp_wait_ends:
  assumes "timed s" and "length (inbuf s) < rounds"
  shows "run_to (pingresp_wait rounds) w s (ends_guarded w s)"
  using assms
proof (induction rounds arbitrary: s)
  case (Suc n)
  have again: "run_to (pingresp_wait n) w t (ends_guarded w s)"
    if "guarded w s (Return b) t" "length (inbuf t) < length (inbuf s)" for t and b :: "byte option"
    using that timed_guarded [OF that(1) Suc.prems(1)] Suc.prems(2)
    by (intro run_to_mono [OF Suc.IH]) (auto simp: ends_guarded_def elim: guarded_trans)
  show ?case
    unfolding pingresp_wait.simps
    by (rule run_to_bindI [OF wait_msg_progress [OF Suc.prems(1)]])
      (auto intro: again [unfolded ends_guarded_def] guarded_fail simp: ends_guarded_def, simp add: guarded_def)
qed simp

subsection \<open>A bounded exchange\<close>

text \<open>
  The timeout is installed before the first operation and removed after the last, whatever
  happened; if it cannot be removed the exchange has failed.
\<close>

definition bounded_exchange :: "wire_world \<Rightarrow> wire \<Rightarrow> bool outcome \<Rightarrow> wire \<Rightarrow> bool" where
  "bounded_exchange w s r u \<longleftrightarrow>
     (case r of
        Return ended \<Rightarrow> ended \<and> sock_timeout u = None
      | Raise e \<Rightarrow> wire_error w e u
      | Cut \<Rightarrow> resettable w)
   \<and> unfed u = unfed s \<and> untimed u = untimed s
   \<and> largest_read u \<le> max (largest_read s) MAX_INBOUND_PACKET_BYTES
   \<and> suffix (inbuf u) (inbuf s)"

lemma under_timeout_bounded:
  assumes "0 < t"
    and m: "\<And>u. timed u \<Longrightarrow> inbuf u = inbuf s \<Longrightarrow> run_to m w u (ends_guarded w u)"
  shows "run_to (under_timeout (Some t) m) w s (bounded_exchange w s)"
proof -
  have body: "run_to (finally_do m (settimeout None)) w (s\<lparr>w_clock := Suc (w_clock s), sock_timeout := Some t\<rparr>)
      (bounded_exchange w s)"
    unfolding finally_do_def run_to_bind run_to_try
    by (rule run_to_mono [OF m])
      (use assms(1) in \<open>auto simp: timed_def settimeout_def ends_guarded_def guarded_def bounded_exchange_def
         wire_error_def split: outcome.splits\<close>)
  then show ?thesis
    by (auto simp: under_timeout_def settimeout_def bounded_exchange_def wire_error_def)
qed

lemma guards_write_publish [guard_rules]: "guards (write_publish topic msg fragment packet)"
  unfolding write_publish_def write_body_def by (intro guard_rules)

text \<open>What runs before the loop leaves the loop enough rounds.\<close>

lemma then_wait_ends:
  assumes "guards m" and "timed s"
    and "\<And>u. timed u \<Longrightarrow> length (inbuf u) \<le> length (inbuf s) \<Longrightarrow> run_to n w u (ends_guarded w u)"
  shows "run_to (io_bind m (\<lambda>_. n)) w s (ends_guarded w s)"
proof (rule run_to_bindI [OF guardsD [OF assms(1)]])
  fix x t
  assume t: "guarded w s (Return x) t"
  then have "length (inbuf t) \<le> length (inbuf s)" by (simp add: guarded_def suffix_length_le)
  from assms(3) [OF timed_guarded [OF t assms(2)] this] show "run_to n w t (ends_guarded w s)"
    by (rule run_to_mono) (use t in \<open>auto simp: ends_guarded_def intro: guarded_trans\<close>)
qed (auto simp: ends_guarded_def intro: guarded_fail)

text \<open>The two bounded transactions of a connected session, and the body of the handshake.\<close>

lemma publish_bounded:
  assumes "0 < t" and "length (inbuf s) < rounds" and "publish_size topic msg fragment \<le> 2097151"
  shows "run_to (publish rounds topic msg packet (Some t) fragment) w s (bounded_exchange w s)"
proof -
  have exchange: "run_to (under_timeout (Some t)
       (io_bind (write_publish topic msg fragment n) (\<lambda>_. puback_wait n rounds))) w u (bounded_exchange w u)"
    if "inbuf u = inbuf s" for n u
    using that assms(1,2)
    by (intro under_timeout_bounded then_wait_ends puback_wait_ends guard_rules) auto
  have upd: "bounded_exchange w (s\<lparr>pid := i\<rparr>) = bounded_exchange w s" for i
    by (simp add: bounded_exchange_def fun_eq_iff)
  show ?thesis
    using assms(3) exchange [of s] exchange [of "s\<lparr>pid := pid s + 1\<rparr>"] exchange [of "s\<lparr>pid := 1\<rparr>"]
    by (auto simp: publish_def next_packet_id_def upd split: option.splits simp del: run_to_bind
        simp: run_to_bind [of next_packet_id] run_to_bind [of "io_set _"] run_to_bind [of "io_get _"]
          io_bind_assoc io_return_bind)
qed

lemma ping_bounded:
  assumes "0 < t" and "length (inbuf s) < rounds"
  shows "run_to (ping rounds (Some t)) w s (bounded_exchange w s)"
  unfolding ping_def using assms
  by (intro under_timeout_bounded then_wait_ends pingresp_wait_ends guard_rules) auto

text \<open>
  C27: Every transaction under a timeout ends. Whatever bytes the broker sends, a publish and a
  ping return with the socket back in blocking mode or raise a transport error, or what the
  callback or the platform's own read and close raised; each socket operation is preceded by the servicing hook and runs under
  the timeout, and no read asks for more than the packet limit. So the watchdog is fed
  between any two bounded operations.
\<close>

theorem transactions_bounded:
  assumes "0 < t" and "length (inbuf s) < rounds" and "publish_size topic msg fragment \<le> 2097151"
  shows "run_to (publish rounds topic msg packet (Some t) fragment) w s (bounded_exchange w s)
       \<and> run_to (ping rounds (Some t)) w s (bounded_exchange w s)"
  using publish_bounded [OF assms] ping_bounded [OF assms(1,2)] ..

subsection \<open>Only the broker's acknowledgement ends a publish\<close>

definition puback_frame :: "nat \<Rightarrow> byte list" where
  "puback_frame packet = [0x40, 0x02] @ pack_H packet"

lemma run_to_service [simp]:
  "run_to service w s Q \<longleftrightarrow>
     (if hook_resets w (w_clock s) then Q Cut (s\<lparr>w_clock := Suc (w_clock s)\<rparr>)
      else Q (Return ()) (s\<lparr>w_clock := Suc (w_clock s), fed := True\<rparr>))"
  by (simp add: service_def)

text \<open>A read that succeeds took its bytes from the front of the input.\<close>

lemma sock_read_front:
  "run_to (sock_read n) w s (\<lambda>r u. \<forall>bs. r = Return (Some bs) \<longrightarrow> inbuf s = bs @ inbuf u)"
  by (auto simp: sock_read_def note_io_def split: option.splits)

lemma read_required_front:
  "run_to (read_required n) w s (\<lambda>r u. \<forall>bs. r = Return bs \<longrightarrow> inbuf s = bs @ inbuf u \<and> length bs = n)"
  by (auto simp: read_required_def intro!: run_to_mono [OF sock_read_front] split: outcome.splits option.splits)

lemma wait_publish_op: "run_to (wait_publish op) w s (\<lambda>r u. \<forall>x. r = Return x \<longrightarrow> x = Some op)"
  unfolding wait_publish_def Let_def
  by (auto simp: run_to_def io_bind_def io_return_def split: prod.splits outcome.splits)

lemma sock_read_one:
  "run_to (sock_read 1) w s (\<lambda>r u. \<forall>op rest. r = Return (Some (op # rest)) \<longrightarrow> inbuf s = op # inbuf u)"
  by (auto simp: sock_read_def note_io_def neq_Nil_conv Suc_le_eq split: option.splits)

lemma process_frame_puback:
  "run_to (process_frame res) w u (\<lambda>r v. r = Return (Some 0x40) \<longrightarrow> v = u \<and> (\<exists>rest. res = Some (0x40 # rest)))"
  by (auto simp: process_frame_def abort_corrupt_inbound_def check_inbound_def run_to_def [of "read_required _"]
      split: option.splits list.splits prod.splits outcome.splits intro!: run_to_mono [OF wait_publish_op])

lemma wait_msg_puback:
  "run_to wait_msg w s (\<lambda>r u. r = Return (Some 0x40) \<longrightarrow> inbuf s = 0x40 # inbuf u)"
proof -
  have "run_to (io_bind (sock_read 1) process_frame) w u
      (\<lambda>r t. r = Return (Some 0x40) \<longrightarrow> inbuf u = 0x40 # inbuf t)" for u
    by (rule run_to_bindI [OF sock_read_one])
      (auto intro!: run_to_mono [OF process_frame_puback])
  note frame = this
  show ?thesis
    unfolding wait_msg_def
  proof (rule run_to_bindI [where P = "\<lambda>r u. inbuf u = inbuf s"])
    fix x :: unit and t :: wire
    assume "inbuf t = inbuf s"
    with frame [of t] show "run_to (io_bind (sock_read 1) process_frame) w t
        (\<lambda>r u. r = Return (Some 0x40) \<longrightarrow> inbuf s = 0x40 # inbuf u)" by simp
  qed simp_all
qed

subsection \<open>Reference encodings\<close>

text \<open>The remaining length of the standard, and the frame of a PUBLISH joined in one piece.\<close>

fun rem_len :: "nat \<Rightarrow> byte list" where
  "rem_len sz =
     (if sz > 0x7F then ((of_nat sz AND 0x7F) OR 0x80) # rem_len (sz div 128) else [of_nat sz])"

declare rem_len.simps [simp del]

definition body_bytes :: "pydata \<Rightarrow> byte list option \<Rightarrow> byte list" where
  "body_bytes msg fragment =
     (case fragment of
        None \<Rightarrow> data_bytes msg
      | Some f \<Rightarrow> take (data_len msg - 1) (data_bytes msg) @ utf8 '','' @ f @ [0x7D])"

definition publish_bytes :: "string \<Rightarrow> pydata \<Rightarrow> byte list option \<Rightarrow> nat \<Rightarrow> byte list" where
  "publish_bytes topic msg fragment packet =
     0x32 # rem_len (publish_size topic msg fragment)
       @ pack_H (py_len topic) @ utf8 topic @ pack_H packet @ body_bytes msg fragment"

lemma rem_len_nonempty [simp]: "rem_len sz \<noteq> []"
  by (subst rem_len.simps) simp

lemma length_rem_len: "0 < k \<Longrightarrow> sz < 128 ^ k \<Longrightarrow> length (rem_len sz) \<le> k"
proof (induction k arbitrary: sz)
  case (Suc k)
  show ?case
  proof (cases "sz > 0x7F")
    case True
    with Suc.prems have "k \<noteq> 0" by (cases k) auto
    moreover have "sz div 128 < 128 ^ k" using Suc.prems by (simp add: less_mult_imp_div_less mult.commute)
    ultimately have "length (rem_len (sz div 128)) \<le> k" using Suc.IH by simp
    with True show ?thesis by (subst rem_len.simps) simp
  next
    case False
    then show ?thesis by (subst rem_len.simps) simp
  qed
qed simp

lemma fill_len_rem_len:
  "i + length (rem_len sz) \<le> length pkt \<Longrightarrow>
   fill_len pkt i sz = (take i pkt @ rem_len sz @ drop (i + length (rem_len sz)) pkt, i + length (rem_len sz) - 1)"
proof (induction pkt i sz rule: fill_len.induct)
  case (1 pkt i sz)
  show ?case
  proof (cases "sz > 0x7F")
    case True
    let ?b = "(of_nat sz AND 0x7F) OR 0x80 :: byte"
    have r: "rem_len sz = ?b # rem_len (sz div 128)" using True by (subst rem_len.simps) simp
    have "fill_len (pkt[i := ?b]) (Suc i) (sz div 128) =
        (take (Suc i) (pkt[i := ?b]) @ rem_len (sz div 128) @ drop (Suc i + length (rem_len (sz div 128))) (pkt[i := ?b]),
         Suc i + length (rem_len (sz div 128)) - 1)"
      using True "1.prems" r by (intro "1.IH") auto
    with True "1.prems" r show ?thesis
      by (subst fill_len.simps) (auto simp: take_Suc_conv_app_nth Suc_le_eq)
  next
    case False
    then have r: "rem_len sz = [of_nat sz]" by (subst rem_len.simps) simp
    with False "1.prems" show ?thesis
      by (subst fill_len.simps) (auto simp: upd_conv_take_nth_drop Suc_le_eq)
  qed
qed

lemma publish_header:
  assumes "sz \<le> 2097151"
  shows "case fill_len [0x32, 0, 0, 0] 1 sz of (pkt, i) \<Rightarrow> take (i + 1) pkt = 0x32 # rem_len sz"
proof -
  have "length (rem_len sz) \<le> 3" using assms by (intro length_rem_len) simp_all
  then show ?thesis by (subst fill_len_rem_len) (simp_all add: Suc_le_eq)
qed

lemma run_to_send:
  "run_to (send bs) w s (\<lambda>r u. r = Return () \<longrightarrow> outbuf u = outbuf s @ bs \<and> inbuf u = inbuf s)"
  by (auto simp: send_def sock_write_def note_io_def)

lemma run_to_sends:
  assumes "\<And>u. outbuf u = outbuf s @ bs \<Longrightarrow> inbuf u = inbuf s \<Longrightarrow>
      run_to m w u (\<lambda>r t. r = Return x \<longrightarrow> outbuf t = outbuf s @ bs @ cs \<and> inbuf t = inbuf s)"
  shows "run_to (io_bind (send bs) (\<lambda>_. m)) w s (\<lambda>r t. r = Return x \<longrightarrow> outbuf t = outbuf s @ bs @ cs \<and> inbuf t = inbuf s)"
  by (rule run_to_bindI [OF run_to_send]) (auto intro: assms)

text \<open>The segmented writes put the joined frame on the wire.\<close>

lemma write_publish_bytes:
  assumes "publish_size topic msg fragment \<le> 2097151"
  shows "run_to (write_publish topic msg fragment packet) w s
           (\<lambda>r u. r = Return () \<longrightarrow>
                  outbuf u = outbuf s @ publish_bytes topic msg fragment packet \<and> inbuf u = inbuf s)"
proof -
  obtain pkt i where f: "fill_len [0x32, 0, 0, 0] 1 (publish_size topic msg fragment) = (pkt, i)"
    and h: "take (i + 1) pkt = 0x32 # rem_len (publish_size topic msg fragment)"
    using publish_header [OF assms] by (auto split: prod.splits)
  show ?thesis
    unfolding write_publish_def f prod.case h
    by (auto simp: write_body_def send_str_def io_bind_assoc publish_bytes_def body_bytes_def run_to_bind [of "send _"]
        simp del: run_to_bind split: option.splits outcome.splits intro!: run_to_mono [OF run_to_send])
qed

lemma or_push:
  fixes n m :: nat
  assumes "n < 2 ^ sh"
  shows "n OR push_bit sh m = n + push_bit sh m"
proof -
  have n: "take_bit sh n = n" using assms by (simp add: take_bit_nat_eq_self)
  have "take_bit sh n AND push_bit sh m = 0" by (simp add: bit_eq_iff bit_simps)
  from disjunctive_add_eq_or [OF this] n show ?thesis by simp
qed

lemma byte_less [simp]: "unat (b :: byte) < 256"
proof -
  have "unat b < 2 ^ LENGTH(8)" by (rule unsigned_less)
  then show ?thesis by simp
qed

lemma unpack_H_eq: "unpack_H [a, b] = unat a * 256 + unat b"
  using or_push [of "unat b" 8 "unat a"]
  by (simp add: unpack_H_def push_bit_eq_mult or.commute add.commute)

lemma pack_unpack:
  assumes "length bs = 2"
  shows "pack_H (unpack_H bs) = bs"
proof -
  obtain a b where bs: "bs = [a, b]" using assms by (auto simp: length_Suc_conv numeral_2_eq_2)
  have "(unat a * 256 + unat b) div 256 = unat a" by (simp add: div_add1_eq)
  moreover have "(256 :: byte) = 0" by simp
  then have "a * 256 = 0" by (simp only: mult_zero_right)
  ultimately show ?thesis by (simp add: bs unpack_H_eq pack_H_def)
qed

lemma unpack_pack: "n < 65536 \<Longrightarrow> unpack_H (pack_H n) = n"
  by (simp add: pack_H_def unpack_H_eq unsigned_of_nat take_bit_eq_mod less_mult_imp_div_less)

text \<open>Every byte of input a run consumed, and every byte of output it added.\<close>

lemma guards_moved:
  assumes "guards m"
  shows "run_to m w s (\<lambda>r u. (\<exists>pre. inbuf s = pre @ inbuf u) \<and> (\<exists>out. outbuf u = outbuf s @ out))"
  by (rule run_to_mono [OF guardsD [OF assms]]) (auto simp: guarded_def suffix_def prefix_def)

lemma puback_matches:
  "run_to (puback packet) w s (\<lambda>r u. r = Return True \<longrightarrow> inbuf s = [0x02] @ pack_H packet @ inbuf u)"
  unfolding puback_def
  by (rule run_to_bindI [OF read_required_front])
    (auto simp: check_inbound_def abort_corrupt_inbound_def pack_unpack split: outcome.splits option.splits
      intro!: run_to_mono [OF read_required_front])

lemma puback_wait_matches:
  "run_to (puback_wait packet rounds) w s (\<lambda>r u. r = Return True \<longrightarrow>
     (\<exists>pre. inbuf s = pre @ puback_frame packet @ inbuf u))"
proof (induction rounds arbitrary: s)
  case (Suc n)
  let ?Q = "\<lambda>s r u. r = Return True \<longrightarrow> (\<exists>pre. inbuf s = pre @ puback_frame packet @ inbuf u)"
  have later: "run_to (puback_wait packet n) w t (?Q s)" if "inbuf s = pre @ inbuf t" for pre t
    by (rule run_to_mono [OF Suc.IH]) (use that in auto)
  have body: "run_to (io_bind (if op = Some 0x40 then puback packet else io_return False)
       (\<lambda>matched. if matched then io_return True else puback_wait packet n)) w t (?Q s)"
    if pre: "inbuf s = pre @ inbuf t" and op: "op = Some 0x40 \<longrightarrow> inbuf s = 0x40 # inbuf t" for op :: "byte option" and pre t
  proof (cases "op = Some (0x40 :: byte)")
    case True
    have "run_to (puback packet) w t (\<lambda>r u. (r = Return True \<longrightarrow> inbuf t = [0x02] @ pack_H packet @ inbuf u)
        \<and> (\<exists>pre. inbuf t = pre @ inbuf u))"
      unfolding run_to_conj
      by (intro conjI puback_matches run_to_mono [OF guards_moved [OF puback_guards]]) blast
    then show ?thesis
      unfolding True simp_thms if_True
    proof (rule run_to_bindI)
      fix matched :: bool and u :: wire
      assume u: "(Return matched = Return True \<longrightarrow> inbuf t = [0x02] @ pack_H packet @ inbuf u)
        \<and> (\<exists>pre. inbuf t = pre @ inbuf u)"
      then obtain p where "inbuf s = (0x40 # p) @ inbuf u" using op True by auto
      from later [OF this] show "run_to (if matched then io_return True else puback_wait packet n) w u (?Q s)"
        using u op True by (auto simp: puback_frame_def)
    qed auto
  next
    case False
    then show ?thesis by (simp add: io_return_bind later [OF pre] del: run_to_bind)
  qed
  have "run_to wait_msg w s (\<lambda>r u. (\<exists>pre. inbuf s = pre @ inbuf u) \<and> (r = Return (Some 0x40) \<longrightarrow> inbuf s = 0x40 # inbuf u))"
    unfolding run_to_conj
    by (intro conjI wait_msg_puback run_to_mono [OF guards_moved [OF guards_wait_msg]]) blast
  then show ?case
    unfolding puback_wait.simps
  proof (rule run_to_bindI)
    fix op and t :: wire
    assume h: "(\<exists>pre. inbuf s = pre @ inbuf t) \<and> (Return op = Return (Some (0x40 :: byte)) \<longrightarrow> inbuf s = 0x40 # inbuf t)"
    then obtain pre where "inbuf s = pre @ inbuf t" by blast
    from body [OF this, of op] h show "run_to (io_bind (if op = Some 0x40 then puback packet else io_return False)
        (\<lambda>matched. if matched then io_return True else puback_wait packet n)) w t (?Q s)" by blast
  qed simp_all
qed simp

lemma puback_wait_moved: "guards (puback_wait packet rounds)"
  by (induction rounds) (auto intro!: guard_rules)

text \<open>The identifier of a publish: the caller's, or the next of 1 to 65535.\<close>

definition packet_of :: "nat option \<Rightarrow> wire \<Rightarrow> nat" where
  "packet_of packet s =
     (case packet of Some n \<Rightarrow> n | None \<Rightarrow> if pid s + 1 > 65535 then 1 else pid s + 1)"

lemma packet_of_range: "packet = None \<Longrightarrow> 1 \<le> packet_of packet s \<and> packet_of packet s \<le> 65535"
  by (simp add: packet_of_def)

lemma under_timeout_keeps:
  assumes "\<And>u. inbuf u = inbuf s \<Longrightarrow> outbuf u = outbuf s \<Longrightarrow>
      run_to m w u (\<lambda>r v. r = Return x \<longrightarrow> P (inbuf v) (outbuf v))"
  shows "run_to (under_timeout timeout m) w s (\<lambda>r v. r = Return x \<longrightarrow> P (inbuf v) (outbuf v))"
proof (cases timeout)
  case (Some t)
  have "run_to (finally_do m (settimeout None)) w u (\<lambda>r v. r = Return x \<longrightarrow> P (inbuf v) (outbuf v))"
    if "inbuf u = inbuf s" "outbuf u = outbuf s" for u
    unfolding finally_do_def run_to_bind run_to_try
    by (rule run_to_mono [OF assms [OF that]])
      (auto simp: settimeout_def split: outcome.splits)
  with Some show ?thesis by (auto simp: under_timeout_def settimeout_def)
qed (use assms in \<open>simp add: under_timeout_def\<close>)

definition acknowledged ::
  "string \<Rightarrow> pydata \<Rightarrow> byte list option \<Rightarrow> nat \<Rightarrow> wire \<Rightarrow> byte list \<Rightarrow> byte list \<Rightarrow> bool" where
  "acknowledged topic msg fragment packet s input output \<longleftrightarrow>
     (\<exists>pre acks. inbuf s = pre @ puback_frame packet @ input
               \<and> output = outbuf s @ publish_bytes topic msg fragment packet @ acks)"

lemma exchange_acknowledged:
  assumes "publish_size topic msg fragment \<le> 2097151" and "inbuf u = inbuf s" "outbuf u = outbuf s"
  shows "run_to (io_bind (write_publish topic msg fragment n) (\<lambda>_. puback_wait n rounds)) w u
           (\<lambda>r v. r = Return True \<longrightarrow> acknowledged topic msg fragment n s (inbuf v) (outbuf v))"
proof (rule run_to_bindI [OF write_publish_bytes [OF assms(1)]])
  fix x :: unit and t :: wire
  assume "Return x = Return () \<longrightarrow> outbuf t = outbuf u @ publish_bytes topic msg fragment n \<and> inbuf t = inbuf u"
  then have t: "outbuf t = outbuf s @ publish_bytes topic msg fragment n" "inbuf t = inbuf s"
    using assms(2,3) by auto
  have "run_to (puback_wait n rounds) w t (\<lambda>r v. (r = Return True \<longrightarrow> (\<exists>pre. inbuf t = pre @ puback_frame n @ inbuf v))
      \<and> (\<exists>pre. inbuf t = pre @ inbuf v) \<and> (\<exists>out. outbuf v = outbuf t @ out))"
    unfolding run_to_conj [of _ _ _ "\<lambda>r v. r = Return True \<longrightarrow> _ v"]
    by (intro conjI puback_wait_matches guards_moved [OF puback_wait_moved])
  then show "run_to (puback_wait n rounds) w t
      (\<lambda>r v. r = Return True \<longrightarrow> acknowledged topic msg fragment n s (inbuf v) (outbuf v))"
    by (rule run_to_mono) (auto simp: acknowledged_def t)
qed simp_all

text \<open>
  C25: A publish returns only when the broker acknowledged it. If it returns, exactly the
  PUBLISH frame was written first (the spliced message in its pre-joined form), and the
  last thing read was a PUBACK with the identifier of that frame.
\<close>

theorem publish_acknowledged:
  assumes "publish rounds topic msg packet timeout fragment w s = (Return True, u)"
  shows "acknowledged topic msg fragment (packet_of packet s) s (inbuf u) (outbuf u)"
proof -
  have size: "publish_size topic msg fragment \<le> 2097151"
    using assms by (auto simp: publish_def io_raise_def split: if_splits)
  have "run_to (under_timeout timeout
       (io_bind (write_publish topic msg fragment n) (\<lambda>_. puback_wait n rounds))) w v
       (\<lambda>r t. r = Return True \<longrightarrow> acknowledged topic msg fragment n s (inbuf t) (outbuf t))"
    if "inbuf v = inbuf s" "outbuf v = outbuf s" for n v
    by (rule under_timeout_keeps, rule exchange_acknowledged) (simp_all add: size that)
  then have "run_to (publish rounds topic msg packet timeout fragment) w s
      (\<lambda>r t. r = Return True \<longrightarrow> acknowledged topic msg fragment (packet_of packet s) s (inbuf t) (outbuf t))"
    using size
    by (auto simp: publish_def next_packet_id_def packet_of_def split: option.splits simp del: run_to_bind
        simp: run_to_bind [of next_packet_id] run_to_bind [of "io_set _"] run_to_bind [of "io_get _"]
          io_bind_assoc io_return_bind)
  with assms show ?thesis by (simp add: run_to_def)
qed

subsection \<open>Round trip of a PUBLISH\<close>

lemma low_bits: "unat (b AND 0x7F :: byte) = unat b mod 128"
proof -
  have "b AND 0x7F = take_bit 7 b" by (simp add: take_bit_eq_mask mask_eq_exp_minus_1)
  then have "unat (b AND 0x7F) = take_bit 7 (unat b)" by (simp only: unsigned_take_bit_eq)
  then show ?thesis by (simp add: take_bit_eq_mod)
qed

lemma more_bits:
  fixes b :: byte
  shows "((b AND 0x7F) OR 0x80) AND 0x80 = 0x80" and "((b AND 0x7F) OR 0x80) AND 0x7F = b AND 0x7F"
  by (simp_all add: bit.conj_disj_distrib2 and.assoc)

lemma last_byte: "sz \<le> 0x7F \<Longrightarrow> (of_nat sz :: byte) AND 0x80 = 0"
proof -
  assume "sz \<le> 0x7F"
  then have "(of_nat sz :: byte) = take_bit 7 (of_nat sz)"
    by (simp add: take_bit_of_nat take_bit_nat_eq_self)
  also have "\<dots> = of_nat sz AND 0x7F" by (simp add: take_bit_eq_mask mask_eq_exp_minus_1)
  finally have "(of_nat sz :: byte) AND 0x80 = (of_nat sz AND 0x7F) AND 0x80" by simp
  then show ?thesis by (simp add: and.assoc)
qed

text \<open>The receiving end: an open socket with the bytes in it, and no fault.\<close>

definition undisturbed :: "wire_world \<Rightarrow> bool" where
  "undisturbed w \<longleftrightarrow> (\<forall>n. \<not> hook_resets w n \<and> \<not> write_fails w n \<and> read_faults w n = None)"

definition reads :: "wire \<Rightarrow> byte list \<Rightarrow> wire \<Rightarrow> bool" where
  "reads s rest t \<longleftrightarrow> inbuf t = rest \<and> outbuf t = outbuf s \<and> delivered t = delivered s \<and> \<not> sock_closed t"

lemma reads_trans: "reads s rest u \<Longrightarrow> reads u rest' t \<Longrightarrow> reads s rest' t"
  by (simp add: reads_def)

lemma read_required_reads:
  assumes "undisturbed w" and "inbuf s = bs @ rest" and "\<not> sock_closed s" and "length bs = n"
  shows "run_to (read_required n) w s (\<lambda>r t. r = Return bs \<and> reads s rest t)"
  using assms by (auto simp: read_required_def sock_read_def note_io_def undisturbed_def reads_def)

lemma run_to_bind_value:
  assumes "run_to m w s (\<lambda>r t. r = Return x \<and> P t)" and "\<And>t. P t \<Longrightarrow> run_to (f x) w t Q"
  shows "run_to (io_bind m f) w s Q"
  by (rule run_to_bindI [OF assms(1)]) (auto intro: assms(2))

lemma recv_len_reads:
  assumes "undisturbed w" and "inbuf s = rem_len sz @ rest" and "\<not> sock_closed s"
    and "length (rem_len sz) \<le> k" and "sh + 7 * k = 28" and "n < 2 ^ sh"
  shows "run_to (recv_len_from sh n) w s (\<lambda>r t. r = Return (n + push_bit sh sz) \<and> reads s rest t)"
  using assms
proof (induction k arbitrary: sh n sz s)
  case (Suc k)
  obtain b bs where b: "rem_len sz = b # bs" by (cases "rem_len sz") simp_all
  have m: "n OR push_bit sh (unat (b AND 0x7F)) = n + push_bit sh (unat b mod 128)"
    using or_push [OF Suc.prems(6)] by (simp add: low_bits)
  have one: "run_to (read_required 1) w s (\<lambda>r t. r = Return [b] \<and> reads s (bs @ rest) t)"
    using Suc.prems(1-3) b by (intro read_required_reads) simp_all
  show ?case
    unfolding recv_len_from.simps [of sh n]
  proof (rule run_to_bindI [OF one])
    fix data t
    assume "Return data = Return [b] \<and> reads s (bs @ rest) t"
    then have data: "data = [b]" and t: "reads s (bs @ rest) t" by simp_all
    show "run_to (let b = hd data; m = n OR push_bit sh (unat (b AND 0x7F)) in
        if b AND 0x80 = 0 then io_return m
        else if sh + 7 \<ge> 28 then abort_corrupt_inbound else recv_len_from (sh + 7) m) w t
      (\<lambda>r t. r = Return (n + push_bit sh sz) \<and> reads s rest t)"
    proof (cases "sz > 0x7F")
      case True
      then have r: "b = ((of_nat sz AND 0x7F) OR 0x80)" "bs = rem_len (sz div 128)"
        using b by (subst (asm) rem_len.simps; simp)+
      have low: "unat b mod 128 = sz mod 128"
      proof -
        have "unat b mod 128 = unat (b AND 0x7F)" by (simp add: low_bits)
        also have "\<dots> = unat (of_nat sz :: byte) mod 128" unfolding r(1) more_bits by (rule low_bits)
        finally show ?thesis by (simp add: unsigned_of_nat take_bit_eq_mod mod_mod_cancel)
      qed
      let ?m = "n + push_bit sh (sz mod 128)"
      have "length bs \<le> k" "length bs \<noteq> 0" using r(2) Suc.prems(4) b by simp_all
      then have k: "0 < k" "length (rem_len (sz div 128)) \<le> k" unfolding r(2) by linarith+
      have "push_bit sh (sz mod 128) \<le> 127 * 2 ^ sh" by (simp add: push_bit_eq_mult)
      with Suc.prems(6) have small: "?m < 2 ^ (sh + 7)" by (simp add: power_add)
      have whole: "?m + push_bit (sh + 7) (sz div 128) = n + push_bit sh sz"
        by (simp add: push_bit_eq_mult power_add algebra_simps)
          (metis distrib_left mod_mult_div_eq mult.commute)
      have "run_to (recv_len_from (sh + 7) ?m) w t
          (\<lambda>r u. r = Return (?m + push_bit (sh + 7) (sz div 128)) \<and> reads t rest u)"
        using Suc.prems(1,5) k small t r(2) by (intro Suc.IH) (auto simp: reads_def)
      moreover have "b AND 0x80 \<noteq> 0" unfolding r(1) more_bits by simp
      moreover have "\<not> sh + 7 \<ge> 28" using Suc.prems(5) k by simp
      ultimately show ?thesis
        using m low unfolding data whole
        by (auto simp: Let_def elim!: run_to_mono intro: reads_trans [OF t])
    next
      case False
      then have r: "b = of_nat sz" "bs = []" using b by (subst (asm) rem_len.simps; simp)+
      with False have "unat b mod 128 = sz" "b AND 0x80 = 0"
        by (simp_all add: last_byte unsigned_of_nat take_bit_eq_mod)
      with m t r(2) show ?thesis by (simp add: data)
    qed
  qed auto
qed simp

text \<open>\<open>len\<close> is the number of bytes that go out: \<open>bytes\<close>, or a \<open>str\<close> of ASCII.\<close>

definition counted :: "pydata \<Rightarrow> bool" where
  "counted d \<longleftrightarrow> data_len d = length (data_bytes d)"

lemma counted_simps [simp]:
  "counted (Bytes bs)" "counted (Text s) \<longleftrightarrow> py_len s = length s" "length (utf8 s) = length s"
  by (simp_all add: counted_def utf8_def)

lemma publish_size_body:
  assumes "py_len topic = length topic" and "counted msg" and "fragment \<noteq> None \<Longrightarrow> 0 < data_len msg"
  shows "publish_size topic msg fragment = 2 + length (utf8 topic) + 2 + length (body_bytes msg fragment)"
  using assms by (auto simp: publish_size_def body_bytes_def counted_def split: option.splits)

lemma wait_publish_reads:
  assumes "undisturbed w" and "\<not> sock_closed s" and "on_message w topic body = None"
    and "inbuf s = rem_len (2 + length topic + 2 + length body) @ pack_H (length topic) @ topic @ pack_H packet @ body @ rest"
    and "2 + length topic + 2 + length body \<le> MAX_INBOUND_PACKET_BYTES" and "packet < 65536"
  shows "run_to (wait_publish 0x32) w s (\<lambda>r t. r = Return (Some 0x32) \<and> inbuf t = rest
           \<and> delivered t = delivered s @ [(topic, body)] \<and> outbuf t = outbuf s @ puback_frame packet)"
proof -
  let ?sz = "2 + length topic + 2 + length body"
  have max: "?sz \<le> 20480" using assms(5) by (simp add: MAX_INBOUND_PACKET_BYTES_def)
  then have "length (rem_len ?sz) \<le> 4" by (intro length_rem_len) simp_all
  then have len: "run_to recv_len w s (\<lambda>r t. r = Return ?sz
      \<and> reads s (pack_H (length topic) @ topic @ pack_H packet @ body @ rest) t)"
    unfolding recv_len_def
    using recv_len_reads [where k = 4 and sh = 0 and n = 0, OF assms(1,4,2)] by simp
  have two: "length (pack_H n) = 2" for n by (simp add: pack_H_def)
  have pid: "unpack_H (pack_H packet) = packet" "unpack_H (pack_H (length topic)) = length topic"
    using max assms(6) by (simp_all add: unpack_pack)
  have flags: "(0x32 :: byte) AND 6 = 2" by simp
  have read: "run_to (read_required n) w u (\<lambda>r t. r = Return bs \<and> reads u after t)"
    if "reads v (bs @ after) u" "n = length bs" for n bs after u v
    using that assms(1) by (intro read_required_reads) (auto simp: reads_def)
  have finish: "run_to (send (puback_frame packet)) w t (\<lambda>r t'. r = Return () \<and> inbuf t' = inbuf t
      \<and> delivered t' = delivered t \<and> outbuf t' = outbuf t @ puback_frame packet)" if "\<not> sock_closed t" for t
    using that assms(1) by (auto simp: send_def sock_write_def note_io_def undisturbed_def)
  have topic: "run_to (read_required (length topic)) w u (\<lambda>r t. r = Return topic \<and> reads s (pack_H packet @ body @ rest) t)"
    if "reads s (topic @ pack_H packet @ body @ rest) u" for u
    by (rule run_to_mono [OF read [OF that]]) (use that in \<open>auto intro: reads_trans\<close>)
  have head: "run_to (read_required 2) w u (\<lambda>r t. r = Return (pack_H n) \<and> reads s after t)"
    if "reads s (pack_H n @ after) u" for n after u
    by (rule run_to_mono [OF read [OF that]]) (use that two in \<open>auto intro: reads_trans\<close>)
  have message: "run_to (read_required (length body)) w u (\<lambda>r t. r = Return body \<and> reads s rest t)"
    if "reads s (body @ rest) u" for u
    by (rule run_to_mono [OF read [OF that]]) (use that in \<open>auto intro: reads_trans\<close>)
  note ok = check_inbound_def io_return_bind pid Let_def
  show ?thesis
    unfolding wait_publish_def
    apply (simp add: ok del: run_to_bind)
    apply (rule run_to_bind_value [OF len])
    apply (use max in \<open>simp add: ok MAX_INBOUND_PACKET_BYTES_def del: run_to_bind\<close>)
    apply (rule run_to_bind_value [OF head], assumption)
    apply (simp add: ok del: run_to_bind)
    apply (rule run_to_bind_value [OF topic], assumption)
    apply (simp add: read_packet_id_def ok io_bind_assoc del: run_to_bind)
    apply (rule run_to_bind_value [OF head], assumption)
    apply (simp add: ok del: run_to_bind)
    apply (rule run_to_bind_value [OF message], assumption)
    apply (simp add: call_back_def assms(3) flags)
    apply (rule run_to_mono [OF finish [unfolded puback_frame_def append.simps]])
     apply (auto simp: reads_def puback_frame_def)
    done
qed

lemma process_publish: "process_frame (Some [0x32]) = wait_publish 0x32"
  by (simp add: process_frame_def)

text \<open>
  C26: Round trip. The frame a publish writes is read back by a client of the same code as
  exactly that message, byte for byte, and answered with the PUBACK of its identifier; what
  follows it in the stream is untouched.
\<close>

theorem publish_roundtrip:
  assumes "run_to (write_publish topic msg fragment packet) w s (\<lambda>r t. r = Return () \<and> outbuf t = outbuf s @ frame)"
    and "py_len topic = length topic" and "counted msg" and "fragment \<noteq> None \<longrightarrow> 0 < data_len msg"
    and "publish_size topic msg fragment \<le> MAX_INBOUND_PACKET_BYTES" and "packet < 65536"
    and "undisturbed w'" and "\<not> sock_closed s'" and "inbuf s' = frame @ rest"
    and "on_message w' (utf8 topic) (body_bytes msg fragment) = None"
  shows "run_to wait_msg w' s' (\<lambda>r t. r = Return (Some 0x32) \<and> inbuf t = rest
           \<and> delivered t = delivered s' @ [(utf8 topic, body_bytes msg fragment)]
           \<and> outbuf t = outbuf s' @ puback_frame packet)"
proof -
  let ?body = "body_bytes msg fragment"
  have size: "publish_size topic msg fragment = 2 + length (utf8 topic) + 2 + length ?body"
    using assms(2-4) by (intro publish_size_body) auto
  have "publish_size topic msg fragment \<le> 2097151" using assms(5) by (simp add: MAX_INBOUND_PACKET_BYTES_def)
  from write_publish_bytes [OF this, of packet w s] assms(1)
  have "frame = publish_bytes topic msg fragment packet"
    by (auto simp: run_to_def split: prod.splits)
  then have front: "inbuf s' = [0x32] @ rem_len (2 + length (utf8 topic) + 2 + length ?body)
      @ pack_H (length (utf8 topic)) @ utf8 topic @ pack_H packet @ ?body @ rest"
    using assms(2,9) by (simp add: publish_bytes_def size)
  have body: "run_to (wait_publish 0x32) w' t (\<lambda>r u. r = Return (Some 0x32) \<and> inbuf u = rest
       \<and> delivered u = delivered s' @ [(utf8 topic, ?body)] \<and> outbuf u = outbuf s' @ puback_frame packet)"
    if "reads s' (rem_len (2 + length (utf8 topic) + 2 + length ?body)
      @ pack_H (length (utf8 topic)) @ utf8 topic @ pack_H packet @ ?body @ rest) t" for t
    by (rule run_to_mono [OF wait_publish_reads [OF assms(7), where topic = "utf8 topic" and body = ?body and packet = packet and rest = rest]])
      (use that assms(5,6,10) size in \<open>auto simp: reads_def\<close>)
  have first: "run_to (sock_read 1) w' (s'\<lparr>w_clock := k, fed := True\<rparr>) (\<lambda>r t. r = Return (Some [0x32])
      \<and> reads s' (rem_len (2 + length (utf8 topic) + 2 + length ?body)
         @ pack_H (length (utf8 topic)) @ utf8 topic @ pack_H packet @ ?body @ rest) t)" for k
    using front assms(7,8) by (simp add: sock_read_def note_io_def reads_def undisturbed_def)
  show ?thesis
    unfolding wait_msg_def run_to_bind [of service]
    using assms(7)
    by (auto simp del: run_to_bind One_nat_def simp: undisturbed_def process_publish
        intro!: run_to_bind_value [OF first] body)
qed

text \<open>
  The data that is not counted in bytes. The UTC request goes out as a \<open>str\<close>; with a
  non-ASCII \<open>source\<close> its declared length is short, so what follows the message starts
  inside it.
\<close>

lemma declared_length_short:
  assumes "py_len s < length s"
  shows "publish_size topic (Text s) None < 2 + py_len topic + 2 + length (body_bytes (Text s) None)"
  using assms by (simp add: publish_size_def body_bytes_def utf8_def)

subsection \<open>Witnesses\<close>

definition demo_wire :: wire where
  "demo_wire = \<lparr>inbuf = [0x40, 0x02, 0, 1], at_end = Quiet, outbuf = [], sock_timeout = None, sock_closed = False,
     pid = 0, w_clock = 0, delivered = [], fed = False, unfed = 0, untimed = 0, largest_read = 0\<rparr>"

definition demo_wire_world :: wire_world where
  "demo_wire_world = \<lparr>stream_at = \<lambda>n. ([], Eof), write_fails = \<lambda>n. False, mode_fails = \<lambda>n. False,
     dial_fails = \<lambda>n. False, hook_resets = \<lambda>n. False, read_faults = \<lambda>n. None, close_faults = \<lambda>n. None,
     on_message = \<lambda>topic msg. None\<rparr>"

lemma transactions_bounded_witness:
  "run_to (publish 5 ''t'' (Bytes [1, 2]) None (Some 10) None) demo_wire_world demo_wire
     (bounded_exchange demo_wire_world demo_wire)"
  using transactions_bounded [of 10 demo_wire 5 "''t''" "Bytes [1, 2]" None None demo_wire_world]
  by (simp add: demo_wire_def publish_size_def py_len_def is_continuation_def)

lemma demo_publish:
  "run_to (publish 1 ''t'' (Bytes [1, 2]) None (Some 10) None) demo_wire_world demo_wire (\<lambda>r u. r = Return True)"
proof -
  have header: "fill_len [0x32, 0, 0, 0] 1 7 = ([0x32, 7, 0, 0], 1 :: nat)" by code_simp
  have size: "publish_size ''t'' (Bytes [1, 2]) None = 7" by code_simp
  have reply: "unpack_H [0, 1] = 1" by code_simp
  show ?thesis
    unfolding publish_def size
    by (simp add: header [unfolded One_nat_def] reply next_packet_id_def under_timeout_def settimeout_def finally_do_def write_publish_def size
        send_def sock_write_def send_str_def write_body_def note_io_def wait_msg_def sock_read_def process_frame_def
        puback_def read_required_def check_inbound_def demo_wire_def demo_wire_world_def)
qed

lemma publish_acknowledged_witness:
  "\<exists>u :: wire. acknowledged ''t'' (Bytes [1, 2]) None 1 demo_wire (inbuf u) (outbuf u)"
proof -
  obtain u where "publish 1 ''t'' (Bytes [1, 2]) None (Some 10) None demo_wire_world demo_wire = (Return True, u)"
    using demo_publish by (auto simp: run_to_def split: prod.splits)
  from publish_acknowledged [OF this] have "acknowledged ''t'' (Bytes [1, 2]) None 1 demo_wire (inbuf u) (outbuf u)"
    by (simp add: packet_of_def demo_wire_def)
  then show ?thesis by blast
qed

lemma demo_frame:
  "run_to (write_publish ''t'' (Bytes [0x7B, 0x7D]) (Some [1]) 7) demo_wire_world demo_wire
     (\<lambda>r t. r = Return () \<and> outbuf t = outbuf demo_wire @ [0x32, 9, 0, 1, 0x74, 0, 7, 0x7B, 0x2C, 1, 0x7D])"
  by code_simp

lemma publish_roundtrip_witness:
  "run_to wait_msg demo_wire_world (demo_wire\<lparr>inbuf := [0x32, 9, 0, 1, 0x74, 0, 7, 0x7B, 0x2C, 1, 0x7D] @ [5]\<rparr>)
     (\<lambda>r t. r = Return (Some 0x32) \<and> inbuf t = [5] \<and> delivered t = [([0x74], [0x7B, 0x2C, 1, 0x7D])]
          \<and> outbuf t = [0x40, 0x02, 0, 7])"
proof -
  let ?s = "demo_wire\<lparr>inbuf := [0x32, 9, 0, 1, 0x74, 0, 7, 0x7B, 0x2C, 1, 0x7D] @ [5]\<rparr>"
  have topic: "py_len ''t'' = length ''t''" by code_simp
  have size: "publish_size ''t'' (Bytes [0x7B, 0x7D]) (Some [1]) \<le> MAX_INBOUND_PACKET_BYTES" by code_simp
  have bytes: "utf8 ''t'' = [0x74]" "body_bytes (Bytes [0x7B, 0x7D]) (Some [1]) = [0x7B, 0x2C, 1, 0x7D]"
    "puback_frame 7 = [0x40, 0x02, 0, 7]" by code_simp+
  show ?thesis
    using publish_roundtrip [OF demo_frame topic _ _ size, of demo_wire_world ?s "[5]"]
    by (simp add: bytes undisturbed_def demo_wire_world_def demo_wire_def)
qed

end
