(* ===== verification/MqttLink.thy ===== *)
theory MqttLink
  imports Session MqttWire
begin

section \<open>The MQTT session over the byte-level client\<close>

text \<open>
  The class \<open>Mqtt\<close> of \<open>mqtt.py\<close> as it is: over the client of the theory \<open>MqttWire\<close> and its socket.
  The theories \<open>Publish\<close> and \<open>Session\<close> use an abstract session whose exchanges the environment answers;
  here the two are put side by side. Both keep the same books, by the locale \<open>mqtt_session\<close>, and
  every run over the socket is a run of the abstract session.
\<close>

subsection \<open>World and object\<close>

text \<open>
  What the object finds: the world of the socket, the ticks, the identity of the board, and the configuration. Timeouts are in milliseconds.
\<close>

record link_world =
  wires :: wire_world
  link_ticks_at :: "nat \<Rightarrow> int"
  unique_id :: "nat list res"
  keepalive :: nat
  ack_timeout_ms :: int
  reconnect_delays :: "int list"
  command_topic :: string
  info_response_topic :: string

text \<open>
  The object: \<open>has_client\<close> says that \<open>_client\<close> is not None, \<open>has_sock\<close> that its \<open>sock\<close> is not;
  the client and its socket are the record \<open>wire\<close>.
\<close>

record mqtt_link =
  client_wire :: wire
  has_client :: bool
  has_sock :: bool
  connected :: bool
  connect_count :: nat
  disconnect_count :: nat
  last_connect_error :: "exc option"
  last_disconnect_reason :: "string option"
  last_activity_ms :: int
  client_id :: string

type_synonym 'a lp = "(link_world, mqtt_link, 'a) prog"

definition on_client :: "'a wp \<Rightarrow> 'a lp" where
  "on_client m w l = (case m (wires w) (client_wire l) of (r, s) \<Rightarrow> (r, l\<lparr>client_wire := s\<rparr>))"

definition link_sense :: "(link_world \<Rightarrow> nat \<Rightarrow> 'x) \<Rightarrow> 'x lp" where
  "link_sense f w l =
     (Return (f w (w_clock (client_wire l))),
      l\<lparr>client_wire := (client_wire l)\<lparr>w_clock := Suc (w_clock (client_wire l))\<rparr>\<rparr>)"

definition never_returns :: "'a lp" where
  "never_returns w l = (Cut, l)"

text \<open>
  A wait loop of the client, with one round for each byte still to come and one more; it reads
  at least one byte a round, so it ends within them (\<open>link_answers\<close>).
\<close>

definition awaiting :: "(nat \<Rightarrow> bool wp) \<Rightarrow> unit lp" where
  "awaiting m =
     io_bind (io_get (\<lambda>l. Suc (length (inbuf (client_wire l))))) (\<lambda>rounds.
     io_bind (on_client (m rounds)) (\<lambda>ended. if ended then io_return () else never_returns))"

subsection \<open>The operations of mqtt.py\<close>

text \<open>\<open>__init__\<close>, with the tick counter read at an instant and the one after it.\<close>

definition client_suffix :: "nat list res \<Rightarrow> int \<Rightarrow> string res" where
  "client_suffix uid now =
     (case uid of
        Inr bs \<Rightarrow> Inr (hex_bytes (drop (length bs - 4) bs))
      | Inl e \<Rightarrow> if e = MemoryError then Inl e else Inr (hex_digits 8 (nat (now mod 2 ^ 32))))"

definition unconnected :: "int \<Rightarrow> string \<Rightarrow> mqtt_link" where
  "unconnected now name =
     \<lparr>client_wire = \<lparr>inbuf = [], at_end = Eof, outbuf = [], sock_timeout = None, sock_closed = True, pid = 0,
        w_clock = 0, delivered = [], fed = False, unfed = 0, untimed = 0, largest_read = 0\<rparr>,
      has_client = False, has_sock = False, connected = False, connect_count = 0, disconnect_count = 0,
      last_connect_error = None, last_disconnect_reason = None, last_activity_ms = now, client_id = name\<rparr>"

definition mqtt_init :: "link_world \<Rightarrow> nat \<Rightarrow> mqtt_link res" where
  "mqtt_init w n =
     andthen (client_suffix (unique_id w) (link_ticks_at w (Suc n))) (\<lambda>suffix.
     Inr (unconnected (link_ticks_at w n) (''pico_'' @ suffix)))"

definition is_connected :: "mqtt_link \<Rightarrow> bool" where
  "is_connected l \<longleftrightarrow> connected l \<and> has_client l"

definition link_touch :: "unit lp" where
  "link_touch = io_bind (link_sense link_ticks_at) (\<lambda>now. io_set (\<lambda>l. l\<lparr>last_activity_ms := now\<rparr>))"

definition new_client :: "unit lp" where
  "new_client =
     io_set (\<lambda>l. l\<lparr>has_client := True, has_sock := False, client_wire := (client_wire l)\<lparr>pid := 0\<rparr>\<rparr>)"

definition close_old_client :: "unit lp" where
  "close_old_client =
     io_bind (io_get (\<lambda>l. has_client l \<and> has_sock l)) (\<lambda>old.
     io_bind (io_set (\<lambda>l. l\<lparr>has_client := False, has_sock := False\<rparr>)) (\<lambda>_.
       if \<not> old then io_return ()
       else io_bind (link_sense (\<lambda>w. close_faults (wires w))) (\<lambda>fault.
            case fault of
              None \<Rightarrow> io_set (\<lambda>l. l\<lparr>client_wire := (client_wire l)\<lparr>sock_closed := True\<rparr>\<rparr>)
            | Some e \<Rightarrow> if e = MemoryError then io_raise e else io_return ())))"

definition link_handshake :: "unit lp" where
  "link_handshake =
     io_ask (\<lambda>w. io_bind close_old_client (\<lambda>_. io_bind new_client (\<lambda>_.
     io_bind (io_set (\<lambda>l. l\<lparr>has_sock := True\<rparr>)) (\<lambda>_.
     io_bind (io_get client_id) (\<lambda>name.
     io_bind (on_client (connect True name (keepalive w) (Some (ack_timeout_ms w)))) (\<lambda>_.
     io_bind (awaiting (\<lambda>rounds. subscribe rounds (command_topic w))) (\<lambda>_.
     io_bind (awaiting (\<lambda>rounds. subscribe rounds (info_response_topic w))) (\<lambda>_.
     on_client (settimeout None)))))))))"

text \<open>One attempt of \<open>connect\<close>; \<open>attempt_failed\<close> is its handler of transport errors.\<close>

definition attempt_failed :: "exc \<Rightarrow> bool lp" where
  "attempt_failed e =
     io_bind (io_set (\<lambda>l. l\<lparr>disconnect_count := disconnect_count l + (if connected l then 1 else 0),
                           connected := False, last_connect_error := Some e\<rparr>)) (\<lambda>_.
     io_return False)"

definition link_attempt :: "bool lp" where
  "link_attempt =
     io_try
       (io_bind link_handshake (\<lambda>_.
        io_bind (io_set (\<lambda>l. l\<lparr>connected := True, connect_count := connect_count l + 1\<rparr>)) (\<lambda>_.
        io_bind link_touch (\<lambda>_. io_return True))))
       (\<lambda>e. if transport_error e then attempt_failed e else io_raise e)"

text \<open>The waits between attempts, with the servicing hook run in each slice.\<close>

fun link_waits :: "wait_act list \<Rightarrow> unit lp" where
  "link_waits [] = io_return ()"
| "link_waits (Service # rest) = io_bind (on_client service) (\<lambda>_. link_waits rest)"
| "link_waits (SleepMs d # rest) = io_bind (link_sense (\<lambda>w n. ())) (\<lambda>_. link_waits rest)"

definition link_pause :: "int \<Rightarrow> unit lp" where
  "link_pause delay_sec = link_waits (sleep_sliced delay_sec)"

fun link_attempts :: "int list \<Rightarrow> bool lp" where
  "link_attempts [] = io_return False"
| "link_attempts (delay_sec # rest) =
     io_bind link_attempt (\<lambda>ok.
       if ok then io_return True
       else io_bind (if rest = [] then io_return () else link_pause delay_sec) (\<lambda>_. link_attempts rest))"

definition link_connect :: "bool lp" where
  "link_connect =
     io_bind (io_set (\<lambda>l. l\<lparr>last_connect_error := None\<rparr>)) (\<lambda>_. io_ask (\<lambda>w. link_attempts (reconnect_delays w)))"

definition link_mark_disconnected :: "string option \<Rightarrow> unit lp" where
  "link_mark_disconnected reason =
     io_set (\<lambda>l. l\<lparr>disconnect_count := disconnect_count l + (if connected l then 1 else 0), connected := False,
                   last_disconnect_reason := (case reason of None \<Rightarrow> last_disconnect_reason l | Some r \<Rightarrow> Some r)\<rparr>)"

definition link_marking :: "string \<Rightarrow> 'a lp \<Rightarrow> 'a lp" where
  "link_marking reason m =
     io_try m (\<lambda>e. if transport_error e
                   then io_bind (link_mark_disconnected (Some reason)) (\<lambda>_. io_raise e) else io_raise e)"

definition link_if_connected :: "'a lp \<Rightarrow> 'a lp \<Rightarrow> 'a lp" where
  "link_if_connected m n = io_bind (io_get is_connected) (\<lambda>up. if up then m else n)"

definition link_check_msg :: "unit lp" where
  "link_check_msg =
     link_if_connected
       (link_marking DISCONNECT_CHECK_MSG_FAILURE
         (io_ask (\<lambda>w. io_bind (on_client (check_msg (ack_timeout_ms w))) (\<lambda>_. io_return ()))))
       (io_return ())"

definition link_publish_qos1 :: "string \<Rightarrow> pydata \<Rightarrow> byte list option \<Rightarrow> unit lp" where
  "link_publish_qos1 topic message splice_fragment =
     link_if_connected
       (io_bind (link_marking DISCONNECT_PUBLISH_FAILURE (io_ask (\<lambda>w.
          awaiting (\<lambda>rounds. publish rounds topic message None (Some (ack_timeout_ms w)) splice_fragment))))
          (\<lambda>_. link_touch))
       (io_raise OSError)"

definition link_publish_with_packet_id :: "string \<Rightarrow> pydata \<Rightarrow> nat \<Rightarrow> int option \<Rightarrow> bool lp" where
  "link_publish_with_packet_id topic message packet timeout_ms =
     link_if_connected
       (io_try
         (io_bind (awaiting (\<lambda>rounds. publish rounds topic message (Some packet) timeout_ms None)) (\<lambda>_.
          io_bind link_touch (\<lambda>_. io_return True)))
         (\<lambda>e. if transport_error e
              then io_bind (link_mark_disconnected (Some DISCONNECT_PUBLISH_FAILURE)) (\<lambda>_. io_return False)
              else io_raise e))
       (io_raise OSError)"

definition MAX_PINGRESP_WAIT_SEC :: int where
  "MAX_PINGRESP_WAIT_SEC = 5"

definition link_ping_due :: "bool lp" where
  "link_ping_due =
     link_if_connected
       (io_ask (\<lambda>w. if int (keepalive w) \<le> 0 then io_return False
          else io_bind (link_sense link_ticks_at) (\<lambda>now. io_get (\<lambda>l.
            ticks_diff now (last_activity_ms l) \<ge> ping_interval_sec (int (keepalive w)) * 1000))))
       (io_return False)"

definition link_ping :: "unit lp" where
  "link_ping =
     link_if_connected
       (io_bind (link_marking DISCONNECT_PING_TIMEOUT (io_ask (\<lambda>w.
          awaiting (\<lambda>rounds.
            ping rounds (Some (min MAX_PINGRESP_WAIT_SEC (ping_interval_sec (int (keepalive w))) * 1000))))))
          (\<lambda>_. link_touch))
       (io_raise OSError)"

definition get_next_packet_id :: "nat lp" where
  "get_next_packet_id =
     io_bind (io_get has_client) (\<lambda>c. if c then on_client next_packet_id else io_return 1)"

definition link_status :: "mqtt_link \<Rightarrow> pydict" where
  "link_status l =
     [(PStr ''connected'', PBool (is_connected l)), (PStr ''connect_count'', PInt (int (connect_count l))),
      (PStr ''disconnect_count'', PInt (int (disconnect_count l))),
      (PStr ''last_disconnect_reason'', opt_val PStr (last_disconnect_reason l))]"

subsection \<open>The books of a session\<close>

text \<open>
  What the rest of Core 0 sees of a session: whether it is up, its counters, the last reason and the
  instant of the last activity; and what an operation makes of them, given the answer of the
  exchange (None, or the exception) and the tick read after it.
\<close>

record books =
  is_up :: bool
  ups :: nat
  downs :: nat
  reason :: "string option"
  active_ms :: int

datatype session_op = Attempt | Publishing | Probing | Polling | Pinging | Marking "string option"

definition went_down :: "string option \<Rightarrow> books \<Rightarrow> books" where
  "went_down why b =
     b\<lparr>downs := downs b + (if is_up b then 1 else 0), is_up := False,
       reason := (case why of None \<Rightarrow> reason b | Some r \<Rightarrow> Some r)\<rparr>"

text \<open>What a failed exchange leaves, where \<open>m\<close> is the answer to a transport error.\<close>

definition failing :: "string option \<Rightarrow> (exc \<Rightarrow> bool outcome) \<Rightarrow> exc \<Rightarrow> books \<Rightarrow> bool outcome \<times> books" where
  "failing why m e b = (if transport_error e then (m e, went_down why b) else (Raise e, b))"

fun session_step :: "session_op \<Rightarrow> exc option \<Rightarrow> int \<Rightarrow> books \<Rightarrow> bool outcome \<times> books" where
  "session_step (Marking why) ans now b = (Return True, went_down why b)"
| "session_step Attempt None now b = (Return True, b\<lparr>is_up := True, ups := ups b + 1, active_ms := now\<rparr>)"
| "session_step Attempt (Some e) now b = failing None (\<lambda>e. Return False) e b"
| "session_step Polling ans now b =
     (case ans of
        Some e \<Rightarrow> if is_up b then failing (Some DISCONNECT_CHECK_MSG_FAILURE) Raise e b else (Return True, b)
      | None \<Rightarrow> (Return True, b))"
| "session_step op ans now b =
     (if \<not> is_up b then (Raise OSError, b)
      else case ans of
        None \<Rightarrow> (Return True, b\<lparr>active_ms := now\<rparr>)
      | Some e \<Rightarrow>
          if op = Probing then failing (Some DISCONNECT_PUBLISH_FAILURE) (\<lambda>e. Return False) e b
          else failing (Some (if op = Pinging then DISCONNECT_PING_TIMEOUT else DISCONNECT_PUBLISH_FAILURE)) Raise e b)"

text \<open>
  A session is whatever keeps these books. \<open>good\<close> is what its states have besides; an attempt is only
  made while the session is down.
\<close>

locale mqtt_session =
  fixes books_of :: "'s \<Rightarrow> books" and run :: "'o \<Rightarrow> ('w, 's, bool) prog" and kind :: "'o \<Rightarrow> session_op"
    and good :: "'s \<Rightarrow> bool"
  assumes run_step: "good s \<Longrightarrow> (kind op = Attempt \<Longrightarrow> \<not> is_up (books_of s)) \<Longrightarrow> run op w s = (r, t) \<Longrightarrow> r \<noteq> Cut \<Longrightarrow>
    good t \<and> (\<exists>ans now. session_step (kind op) ans now (books_of s) = (r, books_of t))"
begin

text \<open>Every drop is counted: as many ups as downs, and one more while up.\<close>

definition balanced :: "'s \<Rightarrow> bool" where
  "balanced s \<longleftrightarrow> good s \<and> ups (books_of s) = downs (books_of s) + (if is_up (books_of s) then 1 else 0)"

lemma balanced_run:
  assumes "run op w s = (r, t)" and "r \<noteq> Cut" and "balanced s" and "kind op = Attempt \<Longrightarrow> \<not> is_up (books_of s)"
  shows "balanced t"
proof -
  have good: "good s" using assms(3) by (simp add: balanced_def)
  from run_step [OF this assms(4,1,2)] obtain ans now
    where "good t" "session_step (kind op) ans now (books_of s) = (r, books_of t)" by blast
  then show ?thesis
    using assms(3,4) unfolding balanced_def
    by (cases "kind op"; cases ans)
      (auto simp: failing_def went_down_def split: if_splits dest!: sym [of _ "books_of t"])
qed

text \<open>A transport error leaves the session down.\<close>

lemma transport_error_down:
  assumes "run op w s = (Raise e, t)" and "transport_error e" and "good s"
    and "kind op = Attempt \<Longrightarrow> \<not> is_up (books_of s)"
  shows "\<not> is_up (books_of t)"
proof -
  from run_step [OF assms(3,4,1)] obtain ans now
    where "session_step (kind op) ans now (books_of s) = (Raise e, books_of t)" by blast
  then show ?thesis
    using assms(2)
    by (cases "kind op"; cases ans)
      (auto simp: failing_def went_down_def split: if_splits dest!: sym [of _ "books_of t"])
qed

end

subsection \<open>The session of the abstract Core 0\<close>

definition core_books :: "core0 \<Rightarrow> books" where
  "core_books s = \<lparr>is_up = mqtt_connected s, ups = mqtt_connect_count s, downs = mqtt_disconnect_count s,
     reason = mqtt_last_reason s, active_ms = mqtt_last_activity_ms s\<rparr>"

definition reporting :: "('w, 's, unit) prog \<Rightarrow> ('w, 's, bool) prog" where
  "reporting m = io_bind m (\<lambda>_. io_return True)"

fun core_op :: "session_op \<Rightarrow> bool c0" where
  "core_op Attempt = mqtt_attempt"
| "core_op Publishing = reporting publish_qos1"
| "core_op Probing = publish_qos1_with_packet_id"
| "core_op Polling = reporting mqtt_check_msg"
| "core_op Pinging = reporting mqtt_ping"
| "core_op (Marking why) = reporting (mark_disconnected why)"

lemma core_books_upd [simp]:
  "core_books (s\<lparr>c0_clock := n\<rparr>) = core_books s" "core_books (s\<lparr>resets := rs\<rparr>) = core_books s"
  "core_books (s\<lparr>feeds := k\<rparr>) = core_books s"
  "core_books (s\<lparr>mqtt_last_activity_ms := now\<rparr>) = (core_books s)\<lparr>active_ms := now\<rparr>"
  "core_books (s\<lparr>mqtt_connected := b\<rparr>) = (core_books s)\<lparr>is_up := b\<rparr>"
  "core_books (s\<lparr>mqtt_connect_count := n\<rparr>) = (core_books s)\<lparr>ups := n\<rparr>"
  "core_books (s\<lparr>mqtt_disconnect_count := n\<rparr>) = (core_books s)\<lparr>downs := n\<rparr>"
  "core_books (s\<lparr>mqtt_last_reason := why\<rparr>) = (core_books s)\<lparr>reason := why\<rparr>"
  by (simp_all add: core_books_def)

lemma core_books_sel [simp]:
  "is_up (core_books s) = mqtt_connected s" "ups (core_books s) = mqtt_connect_count s"
  "downs (core_books s) = mqtt_disconnect_count s" "reason (core_books s) = mqtt_last_reason s"
  by (simp_all add: core_books_def)

text \<open>What the callback may change is not in the books.\<close>

lemma handled_books:
  assumes "same_outside s t"
  shows "core_books t = core_books s"
proof -
  have "core_books (t\<lparr>pending_core0_responses := pending_core0_responses s, pending_reboot := pending_reboot s,
       c0_events := c0_events s, c0_store := c0_store s\<rparr>) = core_books s"
    using assms unfolding same_outside_def by (rule arg_cong)
  then show ?thesis by (simp add: core_books_def)
qed

lemma utc_books:
  assumes "utc_only s t"
  shows "core_books t = core_books s"
proof -
  have "core_books (t\<lparr>c0_clock := c0_clock s, c0_uptime := c0_uptime s, c0_mailboxes := c0_mailboxes s,
       pending_utc_request_id := pending_utc_request_id s, utc_request_deadline_ms := utc_request_deadline_ms s,
       utc_last_attempt_ms := utc_last_attempt_ms s, c0_utc_snapshot := c0_utc_snapshot s\<rparr>) = core_books s"
    using conjunct2 [OF assms [unfolded utc_only_def]] by (rule arg_cong)
  then show ?thesis by (simp add: core_books_def)
qed

lemma claim_books: "core_books (claim i s) = core_books s"
  unfolding claim_def remember_command_id_def Let_def by (simp add: core_books_def)

lemma message_books: "on_mqtt_message topic payload w s = (r, t) \<Longrightarrow> core_books t = core_books s"
proof (erule message_cases, goal_cases)
  case (1 doc i)
  then show ?case
    using handled_books [of "claim i s" t] claimed_handled(3) [OF 1(3-5)] by (simp add: handled_def claim_books)
next
  case 2
  then show ?case by (simp add: utc_books)
qed

text \<open>Programs that leave the books as they are, whatever they do otherwise.\<close>

definition keeps_books :: "'a c0 \<Rightarrow> bool" where
  "keeps_books m \<longleftrightarrow> (\<forall>b. keeps (\<lambda>w s. core_books s = b) m)"

lemma keeps_booksD: "keeps_books m \<Longrightarrow> run_to m w s (\<lambda>r t. core_books t = core_books s)"
  by (simp add: keeps_books_def keeps_def)

lemma keeps_books_service: "keeps_books service_wait"
  by (auto simp: keeps_books_def keeps_def service_wait_def watch_core_1_heartbeat_def feed_watchdog_def sense_def
      run_to_def io_bind_def io_get_def io_set_def io_return_def read_ticks_def machine_reset_def
      split: option.splits prod.splits if_splits)

lemma keeps_books_pump: "keeps_books (pump msgs)"
  unfolding keeps_books_def
proof
  fix b show "keeps (\<lambda>w s. core_books s = b) (pump msgs)"
  proof (induction msgs rule: pump.induct)
    case 1
    then show ?case using keeps_books_service by (simp add: keeps_books_def)
  next
    case (2 topic payload rest)
    have "keeps (\<lambda>w s. core_books s = b) (on_mqtt_message topic payload)"
      by (auto simp: keeps_def message_books intro!: run_toI)
    with 2 keeps_books_service show ?case
      unfolding pump.simps by (intro keeps_bind) (simp_all add: keeps_books_def)
  qed
qed

text \<open>An exchange answers None or an exception and leaves the books alone.\<close>

lemma exchange_books:
  "run_to (exchange f) w s (\<lambda>r t. core_books t = core_books s)"
  unfolding exchange_def sense_def
  by (auto simp: run_to_def [of "\<lambda>w s. (Return (f w (c0_clock s)), s\<lparr>c0_clock := Suc (c0_clock s)\<rparr>)"]
      split: outcome.splits prod.splits option.splits
      intro!: run_to_mono [OF keeps_booksD [OF keeps_books_pump]])

text \<open>
  So what follows an exchange decides the step: \<open>f\<close> gets the outcome of an exchange, with the
  books as they were.
\<close>

definition explained :: "session_op \<Rightarrow> books \<Rightarrow> bool outcome \<Rightarrow> books \<Rightarrow> bool" where
  "explained op b r b' \<longleftrightarrow> r = Cut \<or> (\<exists>ans now. session_step op ans now b = (r, b'))"

lemma explainedI: "session_step op ans now b = (r, b') \<Longrightarrow> explained op b r b'"
  unfolding explained_def by blast

lemma explained_Cut [simp]: "explained op b Cut b'"
  by (simp add: explained_def)

definition same_books :: "core0 \<Rightarrow> core0 \<Rightarrow> bool" where
  "same_books s t \<longleftrightarrow> core_books t = core_books s"

lemma same_booksD:
  assumes "same_books s t"
  shows "core_books t = core_books s" "mqtt_connected t = mqtt_connected s" "mqtt_connect_count t = mqtt_connect_count s"
    "mqtt_disconnect_count t = mqtt_disconnect_count s" "mqtt_last_reason t = mqtt_last_reason s"
  using assms by (simp_all add: same_books_def core_books_def)

lemma after_exchange:
  assumes "\<And>t. same_books s t \<Longrightarrow> Q (Return ()) t"
    and "\<And>e t. same_books s t \<Longrightarrow> Q (Raise e) t"
    and "\<And>t. Q Cut t"
  shows "run_to (exchange f) w s Q"
proof (rule run_to_mono [OF exchange_books])
  show "Q r t" if "core_books t = core_books s" for r t using that assms by (cases r) (auto simp: same_books_def)
qed

lemmas session_op_defs = mqtt_attempt_def publish_qos1_def publish_qos1_with_packet_id_def mqtt_check_msg_def
  mqtt_ping_def mark_disconnected_def touch_def marking_def if_connected_def reporting_def

text \<open>The three shapes of a step: success, a transport error, another exception.\<close>

lemma explained_answers:
  "explained Attempt b (Return True) (b\<lparr>is_up := True, ups := Suc (ups b), active_ms := now\<rparr>)"
  "explained Polling b (Return True) b"
  "is_up b \<Longrightarrow> op \<in> {Publishing, Probing, Pinging} \<Longrightarrow> explained op b (Return True) (b\<lparr>active_ms := now\<rparr>)"
  "\<not> is_up b \<Longrightarrow> op \<in> {Publishing, Probing, Pinging} \<Longrightarrow> explained op b (Raise OSError) b"
  by (rule explainedI [where ans = None and now = now], fastforce)+

abbreviation dropped :: "books \<Rightarrow> string \<Rightarrow> books" where
  "dropped b why \<equiv> b\<lparr>downs := Suc (downs b), is_up := False, reason := Some why\<rparr>"

lemma explained_failures:
  "transport_error e \<Longrightarrow> is_up b \<Longrightarrow> explained Attempt b (Return False) (b\<lparr>downs := Suc (downs b), is_up := False\<rparr>)"
  "transport_error e \<Longrightarrow> \<not> is_up b \<Longrightarrow> explained Attempt b (Return False) (b\<lparr>downs := downs b, is_up := False\<rparr>)"
  "transport_error e \<Longrightarrow> is_up b \<Longrightarrow> explained Probing b (Return False) (dropped b DISCONNECT_PUBLISH_FAILURE)"
  "transport_error e \<Longrightarrow> is_up b \<Longrightarrow> explained Publishing b (Raise e) (dropped b DISCONNECT_PUBLISH_FAILURE)"
  "transport_error e \<Longrightarrow> is_up b \<Longrightarrow> explained Polling b (Raise e) (dropped b DISCONNECT_CHECK_MSG_FAILURE)"
  "transport_error e \<Longrightarrow> is_up b \<Longrightarrow> explained Pinging b (Raise e) (dropped b DISCONNECT_PING_TIMEOUT)"
  "\<not> transport_error e \<Longrightarrow> is_up b \<or> op = Attempt \<Longrightarrow> (\<And>why. op \<noteq> Marking why) \<Longrightarrow> explained op b (Raise e) b"
  by (rule explainedI [where ans = "Some e"], cases op; fastforce simp: failing_def went_down_def)+

lemmas core_explained =
  explained_answers [where b = "core_books s" for s, simplified]
  explained_failures [where b = "core_books s" for s, simplified]

lemma core_op_explained:
  "run_to (core_op op) w s (\<lambda>r t. explained op (core_books s) r (core_books t))"
proof (cases op)
  case (Marking why)
  show ?thesis
    unfolding Marking core_op.simps session_op_defs
    by (simp, intro impI conjI; rule explainedI [where ans = None]; cases why; simp add: went_down_def)
next
  case Attempt
  show ?thesis
    unfolding Attempt core_op.simps session_op_defs
    by (simp, rule after_exchange)
      (simp_all add: same_booksD [of s] core_explained)
next
  case Publishing
  show ?thesis
    unfolding Publishing core_op.simps session_op_defs
    by (simp add: core_explained, intro impI, rule after_exchange) (simp_all add: same_booksD [of s] core_explained)
next
  case Probing
  show ?thesis
    unfolding Probing core_op.simps session_op_defs
    by (simp add: core_explained, intro impI, rule after_exchange) (simp_all add: same_booksD [of s] core_explained)
next
  case Polling
  show ?thesis
    unfolding Polling core_op.simps session_op_defs
    by (simp add: core_explained, intro impI, rule after_exchange) (simp_all add: same_booksD [of s] core_explained)
next
  case Pinging
  show ?thesis
    unfolding Pinging core_op.simps session_op_defs
    by (simp add: core_explained, intro impI, rule after_exchange) (simp_all add: same_booksD [of s] core_explained)
qed

interpretation core0_session: mqtt_session core_books core_op "\<lambda>op. op" "\<lambda>s. True"
  by unfold_locales (use core_op_explained in \<open>fastforce simp: explained_def dest: run_toD\<close>)

subsection \<open>What the transactions leave of the socket\<close>

text \<open>
  Between two changes of its mode: the socket keeps it, input is only consumed, only a transport
  error may leave the socket closed, and what does not end is cut by the hook or waits without a
  timeout.
\<close>

definition orderly_end :: "wire_world \<Rightarrow> wire \<Rightarrow> 'a outcome \<Rightarrow> wire \<Rightarrow> bool" where
  "orderly_end w s r t \<longleftrightarrow>
     sock_timeout t = sock_timeout s \<and> length (inbuf t) \<le> length (inbuf s)
   \<and> ((\<exists>e. r = Raise e \<and> transport_error e) \<or> sock_closed t = sock_closed s)
   \<and> (r = Cut \<longrightarrow> resettable w \<or> sock_timeout s = None)"

definition orderly :: "'a wp \<Rightarrow> bool" where
  "orderly m \<longleftrightarrow> (\<forall>w s. run_to m w s (orderly_end w s))"

named_theorems orderly_rules \<open>programs that end orderly\<close>

lemma orderlyD: "orderly m \<Longrightarrow> run_to m w s (orderly_end w s)"
  by (simp add: orderly_def)

lemma orderly_trans:
  "orderly_end w s (Return x) u \<Longrightarrow> orderly_end w u r t \<Longrightarrow> orderly_end w s r t"
  by (auto simp: orderly_end_def)

lemma orderly_fail:
  "orderly_end w s (Raise e :: 'a outcome) t \<Longrightarrow> orderly_end w s (Raise e :: 'b outcome) t"
  "orderly_end w s (Cut :: 'a outcome) t \<Longrightarrow> orderly_end w s (Cut :: 'b outcome) t"
  by (auto simp: orderly_end_def)

lemma orderly_bind [orderly_rules]:
  assumes "orderly m" and "\<And>x. orderly (f x)"
  shows "orderly (io_bind m f)"
  unfolding orderly_def
  by (intro allI run_to_bindI [OF orderlyD [OF assms(1)]] run_to_mono [OF orderlyD [OF assms(2)]])
    (auto intro: orderly_trans orderly_fail)

lemma orderly_basic [orderly_rules]:
  "orderly (io_return x)" "orderly (io_get g)" "orderly (io_raise e)" "orderly abort_corrupt_inbound"
  "orderly service" "orderly (sock_write bs)" "orderly (sock_read n)"
  by (auto simp: orderly_def orderly_end_def abort_corrupt_inbound_def service_def sock_write_def sock_read_def
      note_io_def resettable_def split: option.splits)

lemma orderly_set [orderly_rules]:
  "(\<And>s. sock_closed (f s) = sock_closed s \<and> sock_timeout (f s) = sock_timeout s \<and> inbuf (f s) = inbuf s) \<Longrightarrow>
   orderly (io_set f)"
  by (simp add: orderly_def orderly_end_def)

lemma orderly_ask [orderly_rules]: "(\<And>w. orderly (f w)) \<Longrightarrow> orderly (io_ask f)"
  by (simp add: orderly_def)

lemma orderly_cases [orderly_rules]:
  "(b \<Longrightarrow> orderly m) \<Longrightarrow> (\<not> b \<Longrightarrow> orderly n) \<Longrightarrow> orderly (if b then m else n)"
  "orderly m \<Longrightarrow> (\<And>y. orderly (f y)) \<Longrightarrow> orderly (case x of None \<Rightarrow> m | Some y \<Rightarrow> f y)"
  "(\<And>a b. orderly (g a b)) \<Longrightarrow> orderly (case p of (a, b) \<Rightarrow> g a b)"
  "orderly m \<Longrightarrow> (\<And>y ys. orderly (h y ys)) \<Longrightarrow> orderly (case xs of [] \<Rightarrow> m | y # ys \<Rightarrow> h y ys)"
  by (auto split: prod.splits option.splits list.splits)

lemmas wire_parts = read_required_def check_inbound_def call_back_def send_def send_str_def

lemma orderly_recv_len_from: "orderly (recv_len_from sh n)"
proof (induction sh n rule: recv_len_from.induct)
  case (1 sh n)
  then show ?case
    unfolding recv_len_from.simps [of sh n] Let_def wire_parts by (intro orderly_rules 1) auto
qed

lemma orderly_wait_msg [orderly_rules]: "orderly wait_msg"
  unfolding wait_msg_def process_frame_def wait_publish_def read_packet_id_def recv_len_def Let_def wire_parts
  by (intro orderly_rules orderly_recv_len_from) simp_all

lemma orderly_acks [orderly_rules]: "orderly (puback packet)" "orderly (suback packet)"
  unfolding puback_def suback_def wire_parts by (intro orderly_rules)+

lemma orderly_loops [orderly_rules]:
  "orderly (puback_wait packet n)" "orderly (pingresp_wait n)" "orderly (suback_wait packet n)"
  by (induction n) (auto intro!: orderly_rules)

lemma orderly_writes [orderly_rules]: "orderly (write_publish topic msg fragment packet)" "orderly (send bs)"
  "orderly (send_str d)" "orderly (connect_frame b name n)"
  unfolding write_publish_def write_body_def connect_frame_def wire_parts by (intro orderly_rules)+

lemma orderly_next_id [orderly_rules]: "orderly next_packet_id"
  unfolding next_packet_id_def by (intro orderly_rules) simp_all

lemma orderly_subscribe [orderly_rules]: "orderly (subscribe rounds topic)"
  unfolding subscribe_def by (intro orderly_rules)

text \<open>A socket in blocking mode is back in it, and open if it was, unless a transport error is raised.\<close>

definition usable :: "wire \<Rightarrow> bool" where
  "usable s \<longleftrightarrow> \<not> sock_closed s \<and> sock_timeout s = None"

definition leaves_usable :: "'a outcome \<Rightarrow> wire \<Rightarrow> bool" where
  "leaves_usable r t \<longleftrightarrow> r = Cut \<or> (\<exists>e. r = Raise e \<and> transport_error e) \<or> usable t"

lemma under_timeout_usable:
  assumes "orderly m" and "usable s"
  shows "run_to (under_timeout timeout m) w s leaves_usable"
proof (cases timeout)
  case None
  then show ?thesis
    using assms(2) by (auto simp: under_timeout_def leaves_usable_def usable_def orderly_end_def
        intro!: run_to_mono [OF orderlyD [OF assms(1)]])
next
  case (Some t)
  have body: "run_to (finally_do m (settimeout None)) w u leaves_usable" if "\<not> sock_closed u" for u
    unfolding finally_do_def run_to_bind run_to_try
    by (rule run_to_mono [OF orderlyD [OF assms(1)]])
      (use that in \<open>auto simp: settimeout_def leaves_usable_def usable_def orderly_end_def split: outcome.splits\<close>)
  with Some assms(2) show ?thesis
    by (auto simp: under_timeout_def settimeout_def usable_def leaves_usable_def)
qed

lemma transactions_usable:
  assumes "usable s"
  shows "run_to (publish rounds topic msg packet timeout fragment) w s leaves_usable"
    and "run_to (ping rounds timeout) w s leaves_usable" and "run_to (check_msg t) w s leaves_usable"
proof -
  have exchange: "run_to (under_timeout timeout (io_bind (write_publish topic msg fragment n) (\<lambda>_. puback_wait n rounds)))
      w u leaves_usable" if "usable u" for n u
    by (rule under_timeout_usable [OF _ that]) (intro orderly_rules)
  show "run_to (publish rounds topic msg packet timeout fragment) w s leaves_usable"
    using assms
    by (auto simp: publish_def next_packet_id_def leaves_usable_def usable_def split: option.splits simp del: run_to_bind
        simp: run_to_bind [of next_packet_id] run_to_bind [of "io_set _"] run_to_bind [of "io_get _"]
          io_bind_assoc io_return_bind intro!: exchange [unfolded usable_def])
  show "run_to (ping rounds timeout) w s leaves_usable"
    unfolding ping_def by (rule under_timeout_usable [OF _ assms]) (intro orderly_rules)
  show "run_to (check_msg t) w s leaves_usable"
    using assms by (auto simp: check_msg_def leaves_usable_def intro!: orderly_rules under_timeout_usable)
qed

subsection \<open>The handshake ends\<close>

lemma wait_msg_orderly:
  assumes "timed s"
  shows "run_to wait_msg w s (\<lambda>r u. orderly_end w s r u \<and> (\<forall>op. r = Return op \<longrightarrow> length (inbuf u) < length (inbuf s)))"
  using wait_msg_progress [OF assms, of w] orderlyD [OF orderly_wait_msg, of w s] by (simp add: run_to_conj)

definition orderly_answer :: "wire_world \<Rightarrow> wire \<Rightarrow> bool outcome \<Rightarrow> wire \<Rightarrow> bool" where
  "orderly_answer w s r t \<longleftrightarrow> orderly_end w s r t \<and> r \<noteq> Return False"

lemma orderly_timed: "orderly_end w s r t \<Longrightarrow> timed s \<Longrightarrow> timed t"
  by (simp add: orderly_end_def timed_def)

lemma suback_wait_ends:
  assumes "timed s" and "length (inbuf s) < rounds"
  shows "run_to (suback_wait packet rounds) w s (orderly_answer w s)"
  using assms
proof (induction rounds arbitrary: s)
  case (Suc n)
  have again: "run_to (suback_wait packet n) w t (orderly_answer w s)"
    if "orderly_end w s (Return b) t" "length (inbuf t) < length (inbuf s)" for t and b :: "byte option"
    using that orderly_timed [OF that(1) Suc.prems(1)] Suc.prems(2)
    by (intro run_to_mono [OF Suc.IH]) (auto simp: orderly_answer_def elim: orderly_trans)
  have reply: "run_to (io_bind (suback packet) (\<lambda>_. io_return True)) w t (orderly_answer w s)"
    if "orderly_end w s (Return b) t" for t and b :: "byte option"
    by (rule run_to_bindI [OF orderlyD [OF orderly_acks(2)]])
      (use that in \<open>auto simp: orderly_answer_def intro: orderly_trans orderly_fail, simp add: orderly_end_def\<close>)
  show ?case
    unfolding suback_wait.simps
  proof (rule run_to_bindI [OF wait_msg_orderly [OF Suc.prems(1)]])
    fix op :: "byte option" and t
    assume "orderly_end w s (Return op) t \<and> (\<forall>op'. Return op = Return op' \<longrightarrow> length (inbuf t) < length (inbuf s))"
    then show "run_to (if op = Some 0x90 then io_bind (suback packet) (\<lambda>_. io_return True) else suback_wait packet n) w t
        (orderly_answer w s)"
      using again [of op t] reply [of op t] by simp
  qed (auto intro: orderly_fail simp: orderly_answer_def)
qed simp

lemma then_answers:
  assumes "orderly m" and "timed s"
    and "\<And>u. timed u \<Longrightarrow> length (inbuf u) \<le> length (inbuf s) \<Longrightarrow> run_to n w u (orderly_answer w u)"
  shows "run_to (io_bind m (\<lambda>_. n)) w s (orderly_answer w s)"
proof (rule run_to_bindI [OF orderlyD [OF assms(1)]])
  fix x t
  assume t: "orderly_end w s (Return x) t"
  then have "length (inbuf t) \<le> length (inbuf s)" by (simp add: orderly_end_def)
  from assms(3) [OF orderly_timed [OF t assms(2)] this] show "run_to n w t (orderly_answer w s)"
    by (rule run_to_mono) (use t in \<open>auto simp: orderly_answer_def intro: orderly_trans\<close>)
qed (auto simp: orderly_answer_def intro: orderly_fail)

lemma subscribe_answers:
  assumes "timed s" and "length (inbuf s) < rounds"
  shows "run_to (subscribe rounds topic) w s (orderly_answer w s)"
proof -
  have body: "run_to (io_bind (send frame) (\<lambda>_. io_bind (send_str (Text topic)) (\<lambda>_. io_bind (send [0x01]) (\<lambda>_.
      suback_wait packet rounds)))) w u (orderly_answer w u)"
    if "timed u" "length (inbuf u) < rounds" for u packet frame
    using that by (intro then_answers suback_wait_ends orderly_rules) auto
  have "run_to (io_bind next_packet_id (\<lambda>packet. io_bind (send (f packet)) (\<lambda>_. io_bind (send_str (Text topic)) (\<lambda>_.
      io_bind (send [0x01]) (\<lambda>_. suback_wait packet rounds))))) w s (orderly_answer w s)" for f
  proof (rule run_to_bindI [OF orderlyD [OF orderly_next_id]])
    fix x :: nat and t
    assume t: "orderly_end w s (Return x) t"
    then have "length (inbuf t) < rounds" using assms(2) by (simp add: orderly_end_def)
    from body [OF orderly_timed [OF t assms(1)] this]
    show "run_to (io_bind (send (f x)) (\<lambda>_. io_bind (send_str (Text topic)) (\<lambda>_.
        io_bind (send [0x01]) (\<lambda>_. suback_wait x rounds)))) w t (orderly_answer w s)"
      by (rule run_to_mono) (use t in \<open>auto simp: orderly_answer_def intro: orderly_trans\<close>)
  qed (auto simp: orderly_answer_def intro: orderly_fail)
  then show ?thesis
    unfolding subscribe_def by (auto simp: orderly_answer_def orderly_end_def)
qed

lemma orderly_dial [orderly_rules]: "orderly dial"
  by (auto simp: orderly_def orderly_end_def dial_def note_io_def)

text \<open>A new connection that answers is an open socket under the timeout; the attempt ends in any case.\<close>

lemma connect_answers:
  "run_to (connect clean_session name ka (Some t)) w s (\<lambda>r u.
     (\<forall>x. r = Return x \<longrightarrow> \<not> sock_closed u \<and> sock_timeout u = Some t) \<and> (r = Cut \<longrightarrow> resettable w))"
proof -
  define rest where "rest =
     io_bind service (\<lambda>_. io_bind dial (\<lambda>_. io_bind service (\<lambda>_. io_bind dial (\<lambda>_.
     io_bind (connect_frame clean_session name ka) (\<lambda>_. io_bind (read_required 4) (\<lambda>resp.
       if resp ! 0 \<noteq> 0x20 \<or> resp ! 1 \<noteq> 0x02 then io_raise MQTTException
       else if resp ! 3 \<noteq> 0 then io_raise MQTTException
       else io_return (resp ! 2 AND 1)))))))"
  have "orderly rest" unfolding rest_def wire_parts by (intro orderly_rules)
  note rest = orderlyD [OF this]
  show ?thesis
    unfolding connect_def rest_def [symmetric] open_socket_def settimeout_def
    by (simp split: prod.splits, intro allI impI, rule run_to_mono [OF rest]) (auto simp: orderly_end_def)
qed

subsection \<open>The object keeps the books of a session\<close>

text \<open>The operations as Core 0 calls them, with their arguments.\<close>

datatype link_op =
    Connect_attempt | Publish_message string pydata "byte list option"
  | Publish_with_id string pydata nat "int option" | Check_inbound | Ping_broker | Mark "string option"

fun link_kind :: "link_op \<Rightarrow> session_op" where
  "link_kind Connect_attempt = Attempt"
| "link_kind (Publish_message topic msg fragment) = Publishing"
| "link_kind (Publish_with_id topic msg packet timeout) = Probing"
| "link_kind Check_inbound = Polling"
| "link_kind Ping_broker = Pinging"
| "link_kind (Mark why) = Marking why"

fun run_link :: "link_op \<Rightarrow> bool lp" where
  "run_link Connect_attempt = link_attempt"
| "run_link (Publish_message topic msg fragment) = reporting (link_publish_qos1 topic msg fragment)"
| "run_link (Publish_with_id topic msg packet timeout) = link_publish_with_packet_id topic msg packet timeout"
| "run_link Check_inbound = reporting link_check_msg"
| "run_link Ping_broker = reporting link_ping"
| "run_link (Mark why) = reporting (link_mark_disconnected why)"

definition link_books :: "mqtt_link \<Rightarrow> books" where
  "link_books l = \<lparr>is_up = is_connected l, ups = connect_count l, downs = disconnect_count l,
     reason = last_disconnect_reason l, active_ms = last_activity_ms l\<rparr>"

text \<open>While the session counts as up, its client has an open socket in blocking mode.\<close>

definition sound :: "mqtt_link \<Rightarrow> bool" where
  "sound l \<longleftrightarrow> (connected l \<longrightarrow> has_client l \<and> has_sock l \<and> usable (client_wire l))"

lemma run_to_link [simp]:
  "run_to (on_client m) w l Q = run_to m (wires w) (client_wire l) (\<lambda>r s. Q r (l\<lparr>client_wire := s\<rparr>))"
  "run_to (link_sense f) w l Q = Q (Return (f w (w_clock (client_wire l))))
     (l\<lparr>client_wire := (client_wire l)\<lparr>w_clock := Suc (w_clock (client_wire l))\<rparr>\<rparr>)"
  "run_to never_returns w l Q' = Q' Cut l"
  by (simp_all add: run_to_def on_client_def link_sense_def never_returns_def split: prod.splits)

lemma usable_upd [simp]:
  "usable (s\<lparr>w_clock := n\<rparr>) = usable s" "usable (s\<lparr>pid := n\<rparr>) = usable s"
  by (simp_all add: usable_def)

text \<open>What a transaction of a sound object leaves: another wire, usable unless a transport error was raised.\<close>

lemma after_awaiting:
  assumes m: "\<And>rounds. run_to (m rounds) (wires w) (client_wire l) leaves_usable"
    and "\<And>s. usable s \<Longrightarrow> Q (Return ()) (l\<lparr>client_wire := s\<rparr>)"
    and "\<And>e s. \<not> transport_error e \<longrightarrow> usable s \<Longrightarrow> Q (Raise e) (l\<lparr>client_wire := s\<rparr>)"
    and "\<And>l. Q Cut l"
  shows "run_to (awaiting m) w l Q"
  unfolding awaiting_def
  by (simp, rule run_to_mono [OF m]) (use assms(2-4) in \<open>auto simp: leaves_usable_def split: outcome.splits\<close>)

lemma after_check:
  assumes "run_to m (wires w) (client_wire l) leaves_usable"
    and "\<And>x s. usable s \<Longrightarrow> Q (Return x) (l\<lparr>client_wire := s\<rparr>)"
    and "\<And>e s. \<not> transport_error e \<longrightarrow> usable s \<Longrightarrow> Q (Raise e) (l\<lparr>client_wire := s\<rparr>)"
    and "\<And>l. Q Cut l"
  shows "run_to (on_client m) w l Q"
proof (simp, rule run_to_mono [OF assms(1)])
  show "Q r (l\<lparr>client_wire := s\<rparr>)" if "leaves_usable r s" for r s
    using that assms(2-4) by (cases r) (auto simp: leaves_usable_def)
qed

lemma link_books_upd [simp]:
  "link_books (l\<lparr>client_wire := s\<rparr>) = link_books l" "link_books (l\<lparr>last_connect_error := x\<rparr>) = link_books l"
  "link_books (l\<lparr>has_sock := b\<rparr>) = link_books l"
  "link_books (l\<lparr>last_activity_ms := now\<rparr>) = (link_books l)\<lparr>active_ms := now\<rparr>"
  "link_books (l\<lparr>connect_count := n\<rparr>) = (link_books l)\<lparr>ups := n\<rparr>"
  "link_books (l\<lparr>disconnect_count := n\<rparr>) = (link_books l)\<lparr>downs := n\<rparr>"
  "link_books (l\<lparr>last_disconnect_reason := why\<rparr>) = (link_books l)\<lparr>reason := why\<rparr>"
  "link_books (l\<lparr>connected := b\<rparr>) = (link_books l)\<lparr>is_up := b \<and> has_client l\<rparr>"
  by (simp_all add: link_books_def is_connected_def)

lemma link_books_sel [simp]:
  "is_up (link_books l) = is_connected l" "ups (link_books l) = connect_count l"
  "downs (link_books l) = disconnect_count l" "reason (link_books l) = last_disconnect_reason l"
  by (simp_all add: link_books_def)

lemmas link_explained =
  explained_answers [where b = "link_books l" for l, simplified]
  explained_failures [where b = "link_books l" for l, simplified]

lemmas link_op_defs = link_publish_qos1_def link_publish_with_packet_id_def link_check_msg_def link_ping_def
  link_mark_disconnected_def link_touch_def link_marking_def link_if_connected_def reporting_def

definition kept :: "link_op \<Rightarrow> mqtt_link \<Rightarrow> bool outcome \<Rightarrow> mqtt_link \<Rightarrow> bool" where
  "kept op l r l' \<longleftrightarrow> r = Cut \<or> (sound l' \<and> explained (link_kind op) (link_books l) r (link_books l'))"

lemma kept_Cut [simp]: "kept op l Cut l'"
  by (simp add: kept_def)

lemma connected_usable:
  assumes "sound l" and "is_connected l"
  shows "connected l" "has_client l" "has_sock l" "usable (client_wire l)"
  using assms by (simp_all add: sound_def is_connected_def)

lemma transactions_kept:
  assumes "sound l"
  shows "run_to (run_link (Publish_message topic msg fragment)) w l (kept (Publish_message topic msg fragment) l)"
    and "run_to (run_link (Publish_with_id topic msg packet timeout)) w l (kept (Publish_with_id topic msg packet timeout) l)"
    and "run_to (run_link Ping_broker) w l (kept Ping_broker l)"
    and "run_to (run_link Check_inbound) w l (kept Check_inbound l)"
    and "run_to (run_link (Mark why)) w l (kept (Mark why) l)"
proof -
  note c = connected_usable [OF assms]
  note start = kept_def assms link_explained
  note finish = kept_def sound_def c link_explained
  show "run_to (run_link (Publish_message topic msg fragment)) w l (kept (Publish_message topic msg fragment) l)"
    unfolding run_link.simps link_op_defs
    by (simp add: start, intro impI, rule after_awaiting, rule transactions_usable, erule c) (simp_all add: finish)
  show "run_to (run_link (Publish_with_id topic msg packet timeout)) w l (kept (Publish_with_id topic msg packet timeout) l)"
    unfolding run_link.simps link_op_defs
    by (simp add: start, intro impI, rule after_awaiting, rule transactions_usable, erule c) (simp_all add: finish)
  show "run_to (run_link Ping_broker) w l (kept Ping_broker l)"
    unfolding run_link.simps link_op_defs
    by (simp add: start, intro impI, rule after_awaiting, rule transactions_usable, erule c) (simp_all add: finish)
  show "run_to (run_link Check_inbound) w l (kept Check_inbound l)"
    unfolding run_link.simps link_op_defs
    by (simp add: start del: run_to_link, intro impI, rule after_check, rule transactions_usable, erule c) (simp_all add: finish)
  show "run_to (run_link (Mark why)) w l (kept (Mark why) l)"
    unfolding run_link.simps link_op_defs
    using assms
    by (auto simp: kept_def sound_def is_connected_def went_down_def intro!: explainedI [where ans = None] split: option.splits)
qed

text \<open>Everything of the object but its client.\<close>

definition same_session :: "mqtt_link \<Rightarrow> mqtt_link \<Rightarrow> bool" where
  "same_session l l' \<longleftrightarrow>
     connected l' = connected l \<and> connect_count l' = connect_count l \<and> disconnect_count l' = disconnect_count l
   \<and> last_disconnect_reason l' = last_disconnect_reason l \<and> last_activity_ms l' = last_activity_ms l"

lemma same_session_refl [simp]: "same_session l l"
  by (simp add: same_session_def)

lemma same_session_upd [simp]:
  "same_session l (l'\<lparr>client_wire := s\<rparr>) = same_session l l'" "same_session l (l'\<lparr>has_sock := b\<rparr>) = same_session l l'"
  "same_session l (l'\<lparr>has_client := b\<rparr>) = same_session l l'"
  by (simp_all add: same_session_def)

lemma same_session_down:
  assumes "same_session l l'" and "\<not> connected l"
  shows "link_books l' = link_books l" "\<not> connected l'" "connect_count l' = connect_count l"
    "disconnect_count l' = disconnect_count l"
  using assms by (simp_all add: same_session_def link_books_def is_connected_def)

lemma close_keeps: "run_to close_old_client w l (\<lambda>r l'. same_session l l' \<and> r \<noteq> Cut)"
  by (auto simp: close_old_client_def split: option.splits)

lemma await_subscribe:
  "run_to (awaiting (\<lambda>n. subscribe n topic)) w l (\<lambda>r l'. \<exists>s. l' = l\<lparr>client_wire := s\<rparr>
     \<and> sock_timeout s = sock_timeout (client_wire l)
     \<and> (\<forall>x. r = Return x \<longrightarrow> sock_closed s = sock_closed (client_wire l))
     \<and> (r = Cut \<longrightarrow> timed (client_wire l) \<longrightarrow> resettable (wires w)))"
proof -
  let ?s = "client_wire l" and ?n = "Suc (length (inbuf (client_wire l)))"
  have "run_to (subscribe ?n topic) (wires w) ?s
      (\<lambda>r t. orderly_end (wires w) ?s r t \<and> (timed ?s \<longrightarrow> r \<noteq> Return False))"
    using subscribe_answers [of ?s ?n topic "wires w"] orderlyD [OF orderly_subscribe [of ?n topic], of "wires w" ?s]
    by (cases "timed ?s") (auto simp: orderly_answer_def intro: run_to_mono)
  then show ?thesis
    unfolding awaiting_def
    by (simp, elim run_to_mono) (auto simp: orderly_end_def timed_def split: outcome.splits)
qed

text \<open>A handshake that returns leaves an open socket in blocking mode.\<close>

definition handshaken :: "link_world \<Rightarrow> mqtt_link \<Rightarrow> unit outcome \<Rightarrow> mqtt_link \<Rightarrow> bool" where
  "handshaken w l r l' \<longleftrightarrow>
     same_session l l' \<and> (r = Return () \<longrightarrow> has_client l' \<and> has_sock l' \<and> usable (client_wire l'))
   \<and> (r = Cut \<longrightarrow> 0 < ack_timeout_ms w \<longrightarrow> resettable (wires w))"

lemma link_handshake_ends: "run_to link_handshake w l (handshaken w l)"
proof -
  let ?t = "ack_timeout_ms w"
  define open_under where "open_under l' \<longleftrightarrow> same_session l l' \<and> has_client l' \<and> has_sock l'
    \<and> \<not> sock_closed (client_wire l') \<and> sock_timeout (client_wire l') = Some ?t" for l'
  have restore: "run_to (on_client (settimeout None)) w l' (handshaken w l)" if "open_under l'" for l'
    using that by (auto simp: open_under_def settimeout_def handshaken_def usable_def)
  have step: "run_to (io_bind (awaiting (\<lambda>n. subscribe n topic)) f) w l' (handshaken w l)"
    if l': "open_under l'" and f: "\<And>u. open_under u \<Longrightarrow> run_to (f ()) w u (handshaken w l)" for f topic l'
    unfolding run_to_bind
    by (rule run_to_mono [OF await_subscribe])
      (use l' in \<open>auto simp: open_under_def handshaken_def timed_def split: outcome.splits
         intro!: f [unfolded open_under_def]\<close>)
  have rest: "run_to (io_bind (awaiting (\<lambda>n. subscribe n a)) (\<lambda>_. io_bind (awaiting (\<lambda>n. subscribe n b)) (\<lambda>_.
      on_client (settimeout None)))) w l' (handshaken w l)" if "open_under l'" for a b l'
    by (intro step restore that)
  have dialled: "run_to (io_bind (on_client (connect True name (keepalive w) (Some ?t))) f) w l' (handshaken w l)"
    if l': "same_session l l'" "has_client l'" "has_sock l'"
      and f: "\<And>x u. open_under u \<Longrightarrow> run_to (f x) w u (handshaken w l)" for f name l'
    unfolding run_to_bind run_to_link
    by (rule run_to_mono [OF connect_answers])
      (use l' in \<open>auto simp: open_under_def handshaken_def split: outcome.splits
         intro!: f [unfolded open_under_def]\<close>)
  show ?thesis
    unfolding link_handshake_def run_to_ask
  proof (rule run_to_bindI [OF close_keeps])
    fix x l' assume l': "same_session l l' \<and> Return x \<noteq> Cut"
    show "run_to (io_bind new_client (\<lambda>_. io_bind (io_set (\<lambda>l. l\<lparr>has_sock := True\<rparr>)) (\<lambda>_. io_bind (io_get client_id) (\<lambda>name.
        io_bind (on_client (connect True name (keepalive w) (Some ?t))) (\<lambda>_.
        io_bind (awaiting (\<lambda>rounds. subscribe rounds (command_topic w))) (\<lambda>_.
        io_bind (awaiting (\<lambda>rounds. subscribe rounds (info_response_topic w))) (\<lambda>_.
        on_client (settimeout None)))))))) w l' (handshaken w l)"
      unfolding new_client_def run_to_bind [of "io_set f" for f] run_to_bind [of "io_get f" for f]
        run_to_set run_to_get outcome.case
      by (rule dialled [OF _ _ _ rest]) (use l' in simp_all)
  qed (auto simp: handshaken_def)
qed

lemma attempt_kept:
  assumes "\<not> connected l"
  shows "run_to (run_link Connect_attempt) w l (\<lambda>r l'. kept Connect_attempt l r l'
     \<and> (r = Cut \<longrightarrow> 0 < ack_timeout_ms w \<longrightarrow> resettable (wires w)))"
proof -
  have down: "\<not> is_connected l" using assms by (simp add: is_connected_def)
  show ?thesis
    unfolding run_link.simps link_attempt_def attempt_failed_def link_touch_def run_to_try run_to_bind [of link_handshake]
  proof (rule run_to_mono [OF link_handshake_ends], goal_cases)
    case (1 r t)
    have same: "link_books t = link_books l" "\<not> connected t" "connect_count t = connect_count l"
      "disconnect_count t = disconnect_count l"
      using 1 same_session_down [of l t, OF _ assms] unfolding handshaken_def by blast+
    show ?case
    proof (cases r)
      case (Return x)
      with 1 same down show ?thesis by (auto simp: handshaken_def kept_def sound_def link_explained)
    next
      case (Raise e)
      with 1 same down show ?thesis by (auto simp: handshaken_def kept_def sound_def link_explained)
    next
      case Cut
      with 1 show ?thesis by (auto simp: handshaken_def)
    qed
  qed
qed

interpretation link: mqtt_session link_books run_link link_kind sound
proof unfold_locales
  fix l op w r l'
  assume l: "sound l" "link_kind op = Attempt \<Longrightarrow> \<not> is_up (link_books l)" and run: "run_link op w l = (r, l')" "r \<noteq> Cut"
  have "run_to (run_link op) w l (kept op l)"
  proof (cases op)
    case Connect_attempt
    with l have "\<not> connected l" by (auto simp: sound_def is_connected_def)
    from attempt_kept [OF this] show ?thesis unfolding Connect_attempt by (rule run_to_mono) simp
  qed (use transactions_kept [OF l(1)] in simp_all)
  with run show "sound l' \<and> (\<exists>ans now. session_step (link_kind op) ans now (link_books l) = (r, link_books l'))"
    by (auto simp: kept_def explained_def dest!: run_toD)
qed

subsection \<open>Every transaction ends\<close>

text \<open>With positive timeouts a run that does not end is a reset by the servicing hook.\<close>

definition ends :: "link_world \<Rightarrow> 'a lp \<Rightarrow> bool" where
  "ends w m \<longleftrightarrow> (\<forall>l. run_to m w l (\<lambda>r l'. r = Cut \<longrightarrow> resettable (wires w)))"

named_theorems ends_rules \<open>programs that end or are reset\<close>

lemma endsD: "ends w m \<Longrightarrow> run_to m w l (\<lambda>r l'. r = Cut \<longrightarrow> resettable (wires w))"
  by (simp add: ends_def)

lemma ends_basic [ends_rules]:
  "ends w (io_return x)" "ends w (io_get g)" "ends w (io_raise e)" "ends w (io_set f)" "ends w (link_sense h)"
  by (simp_all add: ends_def)

lemma ends_bind [ends_rules]: "ends w m \<Longrightarrow> (\<And>x. ends w (f x)) \<Longrightarrow> ends w (io_bind m f)"
  unfolding ends_def by (intro allI run_to_bindI [where P = "\<lambda>r l'. r = Cut \<longrightarrow> resettable (wires w)"]) auto

lemma ends_try [ends_rules]:
  assumes "ends w m" and "\<And>e. ends w (h e)"
  shows "ends w (io_try m h)"
  unfolding ends_def run_to_try
  by (intro allI run_to_mono [OF endsD [OF assms(1)]]) (use endsD [OF assms(2)] in \<open>auto split: outcome.splits\<close>)

lemma ends_ask [ends_rules]: "ends w (f w) \<Longrightarrow> ends w (io_ask f)"
  by (simp add: ends_def)

lemma ends_if [ends_rules]: "ends w m \<Longrightarrow> ends w n \<Longrightarrow> ends w (if b then m else n)"
  by simp

lemma await_bounded:
  assumes "\<And>s. run_to (m (Suc (length (inbuf s)))) (wires w) s (bounded_exchange (wires w) s)"
  shows "ends w (awaiting m)"
  unfolding ends_def awaiting_def
  by (simp, intro allI run_to_mono [OF assms]) (auto simp: bounded_exchange_def split: outcome.splits)

lemma await_publish:
  assumes "0 < t"
  shows "ends w (awaiting (\<lambda>n. publish n topic msg packet (Some t) fragment))"
proof (cases "publish_size topic msg fragment \<le> 2097151")
  case True
  with assms show ?thesis by (intro await_bounded publish_bounded) simp_all
next
  case False
  then show ?thesis by (simp add: awaiting_def publish_def ends_def)
qed

lemma await_ping: "0 < t \<Longrightarrow> ends w (awaiting (\<lambda>n. ping n (Some t)))"
  by (intro await_bounded ping_bounded) simp_all

lemma check_ends: "ends w (on_client (check_msg t))"
proof -
  have "run_to (finally_do wait_msg (settimeout None)) v u (\<lambda>r s. r = Cut \<longrightarrow> resettable v)" if "sock_timeout u = Some t" for v u
    unfolding finally_do_def run_to_bind run_to_try
    by (rule run_to_mono [OF orderlyD [OF orderly_wait_msg]])
      (use that in \<open>auto simp: settimeout_def orderly_end_def split: outcome.splits\<close>)
  then show ?thesis
    unfolding ends_def by (auto simp: check_msg_def under_timeout_def settimeout_def)
qed

definition bounded_op :: "link_op \<Rightarrow> bool" where
  "bounded_op op \<longleftrightarrow> (case op of Publish_with_id topic msg packet timeout \<Rightarrow> \<exists>t > 0. timeout = Some t | _ \<Rightarrow> True)"

lemma transactions_end:
  assumes "0 < ack_timeout_ms w" and "bounded_op op" and "op \<noteq> Connect_attempt"
  shows "ends w (run_link op)"
proof (cases op)
  case (Publish_message topic msg fragment)
  show ?thesis
    unfolding Publish_message run_link.simps link_op_defs by (intro ends_rules await_publish assms(1))
next
  case (Publish_with_id topic msg packet timeout)
  with assms(2) obtain t where "timeout = Some t" "0 < t" by (auto simp: bounded_op_def)
  then show ?thesis
    unfolding Publish_with_id run_link.simps link_op_defs by (auto intro!: ends_rules await_publish)
next
  case Check_inbound
  show ?thesis
    unfolding Check_inbound run_link.simps link_op_defs by (intro ends_rules check_ends)
next
  case Ping_broker
  show ?thesis
    unfolding Ping_broker run_link.simps link_op_defs
    by (intro ends_rules await_ping) (simp add: MAX_PINGRESP_WAIT_SEC_def ping_interval_sec_def)
next
  case (Mark why)
  show ?thesis
    unfolding Mark run_link.simps link_op_defs by (intro ends_rules)
qed (use assms(3) in simp)

subsection \<open>Objects that come up\<close>

text \<open>
  The objects of a run: constructed, then used by Core 0, which attempts a connection only while the
  session is down. The rest of the interface leaves the session alone: the waits between attempts,
  \<open>ping_due\<close>, \<open>get_next_packet_id\<close> and the forgetting of the last connect error.
\<close>

inductive link_reachable :: "link_world \<Rightarrow> mqtt_link \<Rightarrow> bool" for w where
  constructed: "mqtt_init w n = Inr l \<Longrightarrow> link_reachable w l"
| operated: "link_reachable w l \<Longrightarrow> (op = Connect_attempt \<Longrightarrow> \<not> is_connected l) \<Longrightarrow>
    run_link op w l = (r, l') \<Longrightarrow> r \<noteq> Cut \<Longrightarrow> link_reachable w l'"
| paused: "link_reachable w l \<Longrightarrow> link_pause d w l = (Return (), l') \<Longrightarrow> link_reachable w l'"
| asked_ping: "link_reachable w l \<Longrightarrow> link_ping_due w l = (r', l') \<Longrightarrow> link_reachable w l'"
| asked_id: "link_reachable w l \<Longrightarrow> get_next_packet_id w l = (i, l') \<Longrightarrow> link_reachable w l'"
| begun: "link_reachable w l \<Longrightarrow> link_reachable w (l\<lparr>last_connect_error := None\<rparr>)"

definition aside :: "mqtt_link \<Rightarrow> mqtt_link \<Rightarrow> bool" where
  "aside l l' \<longleftrightarrow> link_books l' = link_books l \<and> (sound l \<longrightarrow> sound l')"

lemma aside_trans: "aside l u \<Longrightarrow> aside u l' \<Longrightarrow> aside l l'"
  by (simp add: aside_def)

lemma aside_client [simp]:
  "sock_closed s = sock_closed (client_wire l) \<Longrightarrow> sock_timeout s = sock_timeout (client_wire l) \<Longrightarrow>
   aside l (l\<lparr>client_wire := s\<rparr>)"
  by (simp add: aside_def sound_def usable_def)

lemma aside_waits: "run_to (link_waits acts) w l (\<lambda>r l'. aside l l' \<and> (r = Return () \<or> r = Cut))"
proof (induction acts arbitrary: l rule: link_waits.induct)
  case 1
  then show ?case by (simp add: aside_def)
next
  case (2 rest)
  have "run_to (link_waits rest) w (l\<lparr>client_wire := s\<rparr>) (\<lambda>r l'. aside l l' \<and> (r = Return () \<or> r = Cut))"
    if "aside l (l\<lparr>client_wire := s\<rparr>)" for s
    by (rule run_to_mono [OF 2]) (use aside_trans [OF that] in auto)
  then show ?case by (auto simp: service_def)
next
  case (3 d rest)
  have "run_to (link_waits rest) w (l\<lparr>client_wire := s\<rparr>) (\<lambda>r l'. aside l l' \<and> (r = Return () \<or> r = Cut))"
    if "aside l (l\<lparr>client_wire := s\<rparr>)" for s
    by (rule run_to_mono [OF 3]) (use aside_trans [OF that] in auto)
  then show ?case by simp
qed

lemma aside_asks:
  "run_to link_ping_due w l (\<lambda>r l'. aside l l')" "run_to get_next_packet_id w l (\<lambda>r l'. aside l l')"
  by (auto simp: link_ping_due_def link_if_connected_def get_next_packet_id_def next_packet_id_def aside_def
      sound_def usable_def is_connected_def)

lemma balanced_aside: "aside l l' \<Longrightarrow> link.balanced l \<Longrightarrow> link.balanced l'"
  unfolding link.balanced_def aside_def by (elim conjE) simp

lemma reachable_balanced: "link_reachable w l \<Longrightarrow> link.balanced l"
proof (induction rule: link_reachable.induct)
  case (constructed n l)
  then obtain now name where l: "l = unconnected now name" by (auto simp: mqtt_init_def res_simps)
  have "sound l" "link_books l = \<lparr>is_up = False, ups = 0, downs = 0, reason = None, active_ms = now\<rparr>"
    by (simp_all add: l unconnected_def sound_def link_books_def is_connected_def)
  then show ?case by (simp add: link.balanced_def del: link_books_sel)
next
  case (operated l op r l')
  then have "link_kind op = Attempt \<Longrightarrow> \<not> is_up (link_books l)" by (cases op) simp_all
  from link.balanced_run [OF operated(3,4,5) this] show ?case .
next
  case (paused l d l')
  from run_toD [OF aside_waits paused(2) [unfolded link_pause_def]] paused(3) show ?case
    by (blast intro: balanced_aside)
next
  case (asked_ping l r' l')
  then show ?case using run_toD [OF aside_asks(1)] balanced_aside by blast
next
  case (asked_id l i l')
  then show ?case using run_toD [OF aside_asks(2)] balanced_aside by blast
next
  case (begun l)
  have "aside l (l\<lparr>last_connect_error := None\<rparr>)" by (simp add: aside_def sound_def)
  from balanced_aside [OF this begun(2)] show ?case .
qed

text \<open>\<open>connect\<close> as a whole is a sequence of attempts and pauses of a session that is down.\<close>

lemma connect_reachable:
  assumes "link_reachable w l" and "\<not> is_connected l" and "link_connect w l = (r, l')" and "r \<noteq> Cut"
  shows "link_reachable w l'"
proof -
  have attempt: "run_to link_attempt w l (\<lambda>r t. r \<noteq> Cut \<longrightarrow> link_reachable w t \<and> (r = Return False \<longrightarrow> \<not> is_connected t))"
    if l: "link_reachable w l" "\<not> is_connected l" for l
  proof (rule run_toI, intro impI conjI)
    fix r t assume t: "link_attempt w l = (r, t)" "r \<noteq> Cut"
    then show "link_reachable w t" using link_reachable.operated [OF l(1), of Connect_attempt r t] l(2) by simp
    assume r: "r = Return False"
    obtain ans now where "session_step Attempt ans now (link_books l) = (Return False, link_books t)"
      using link.run_step [of l Connect_attempt w r t] t l(2) r reachable_balanced [OF l(1)]
      by (auto simp: link.balanced_def)
    then have "\<not> is_up (link_books t)"
      by (cases ans) (auto simp: failing_def went_down_def simp del: link_books_sel split: if_splits
          dest!: sym [of _ "link_books t"])
    then show "\<not> is_connected t" by simp
  qed
  have attempts: "run_to (link_attempts ds) w l (\<lambda>r l'. r \<noteq> Cut \<longrightarrow> link_reachable w l')"
    if "link_reachable w l" "\<not> is_connected l" for ds l
    using that
  proof (induction ds arbitrary: l)
    case (Cons d ds)
    have wait: "run_to (link_pause d) w t (\<lambda>r u. (r = Return () \<and> link_reachable w u \<and> \<not> is_connected u) \<or> r = Cut)"
      if "link_reachable w t" "\<not> is_connected t" for t
    proof (rule run_toI)
      fix r u assume u: "link_pause d w t = (r, u)"
      then have "aside t u" "r = Return () \<or> r = Cut"
        using run_toD [OF aside_waits] unfolding link_pause_def by blast+
      with that u link_reachable.paused [OF that(1), of d u]
      show "(r = Return () \<and> link_reachable w u \<and> \<not> is_connected u) \<or> r = Cut"
        by (auto simp: aside_def link_books_def)
    qed
    have rest: "run_to (io_bind (if ds = [] then io_return () else link_pause d) (\<lambda>_. link_attempts ds)) w t
        (\<lambda>r l'. r \<noteq> Cut \<longrightarrow> link_reachable w l')" if "link_reachable w t" "\<not> is_connected t" for t
    proof (cases "ds = []")
      case False
      have "run_to (io_bind (link_pause d) (\<lambda>_. link_attempts ds)) w t (\<lambda>r l'. r \<noteq> Cut \<longrightarrow> link_reachable w l')"
        by (rule run_to_bindI [OF wait [OF that]]) (auto intro: Cons.IH)
      with False show ?thesis by simp
    qed (use that in simp)
    show ?case
      unfolding link_attempts.simps
      by (rule run_to_bindI [OF attempt [OF Cons.prems]]) (use rest in \<open>auto split: if_splits\<close>)
  qed simp
  from attempts [OF link_reachable.begun [OF assms(1)], of "reconnect_delays w"] assms(2-4) show ?thesis
    by (auto simp: link_connect_def is_connected_def io_bind_def io_set_def io_ask_def dest: run_toD)
qed

text \<open>The abstract session makes every step of the books.\<close>

definition answering :: "exc option \<Rightarrow> int \<Rightarrow> c0_world" where
  "answering ans now = demo_world\<lparr>ticks_at := (\<lambda>n. now), core1_activity_at := (\<lambda>n. None),
     handshake_at := (\<lambda>n. ([], ans)), exchange_at := (\<lambda>n. ([], ans)), poll_at := (\<lambda>n. ([], ans)),
     ping_at := (\<lambda>n. ([], ans))\<rparr>"

lemma core_steps:
  "run_to (core_op op) (answering ans now) s (\<lambda>r t. session_step op ans now (core_books s) = (r, core_books t))"
proof -
  have exchange: "run_to (exchange f) (answering ans now) s Q"
    if f: "f = handshake_at \<or> f = exchange_at \<or> f = poll_at \<or> f = ping_at"
      and Q: "\<And>t. same_books s t \<Longrightarrow> Q (case ans of None \<Rightarrow> Return () | Some e \<Rightarrow> Raise e) t" for f Q
  proof -
    have f: "f (answering ans now) n = ([], ans)" for n using f by (auto simp: answering_def)
    have wait: "run_to service_wait (answering ans now) t (\<lambda>r u. r = Return () \<and> core_books u = core_books t)" for t
      by (auto simp: service_wait_def watch_core_1_heartbeat_def feed_watchdog_def sense_def run_to_def io_bind_def
          io_set_def io_return_def answering_def)
    show ?thesis
      unfolding exchange_def sense_def
      by (simp add: f run_to_def [of "\<lambda>w s. (Return (f w (c0_clock s)), s\<lparr>c0_clock := Suc (c0_clock s)\<rparr>)"],
          rule run_to_mono [OF wait]) (use Q in \<open>auto simp: same_books_def split: option.splits\<close>)
  qed
  show ?thesis
  proof (cases op)
    case Attempt
    show ?thesis
      unfolding Attempt core_op.simps session_op_defs
      by (simp, rule exchange, simp) (auto simp: same_booksD [of s] failing_def went_down_def answering_def split: option.splits)
  next
    case Publishing
    show ?thesis
      unfolding Publishing core_op.simps session_op_defs
      by (cases "mqtt_connected s", simp, rule exchange, simp)
        (auto simp: same_booksD [of s] failing_def went_down_def answering_def split: option.splits)
  next
    case Probing
    show ?thesis
      unfolding Probing core_op.simps session_op_defs
      by (cases "mqtt_connected s", simp, rule exchange, simp)
        (auto simp: same_booksD [of s] failing_def went_down_def answering_def split: option.splits)
  next
    case Polling
    show ?thesis
      unfolding Polling core_op.simps session_op_defs
      by (cases "mqtt_connected s", simp, rule exchange, simp)
        (auto simp: same_booksD [of s] failing_def went_down_def answering_def split: option.splits)
  next
    case Pinging
    show ?thesis
      unfolding Pinging core_op.simps session_op_defs
      by (cases "mqtt_connected s", simp, rule exchange, simp)
        (auto simp: same_booksD [of s] failing_def went_down_def answering_def split: option.splits)
  next
    case (Marking why)
    show ?thesis
      unfolding Marking core_op.simps session_op_defs by (cases why) (simp_all add: went_down_def)
  qed
qed

subsection \<open>A broker that accepts\<close>

text \<open>
  Without faults, and with a broker that accepts the connection and grants both subscriptions, an
  attempt brings the session up.
\<close>

definition quiet_wire :: "wire_world \<Rightarrow> bool" where
  "quiet_wire w \<longleftrightarrow> undisturbed w \<and> (\<forall>n. \<not> mode_fails w n \<and> \<not> dial_fails w n)"

definition stands :: "byte list \<Rightarrow> nat \<Rightarrow> wire \<Rightarrow> bool" where
  "stands bs n t \<longleftrightarrow> \<not> sock_closed t \<and> inbuf t = bs \<and> pid t = n"

lemma sends_stand:
  assumes "quiet_wire w" and "stands bs n s"
  shows "run_to (send d) w s (\<lambda>r t. r = Return () \<and> stands bs n t)"
    and "run_to (send_str x) w s (\<lambda>r t. r = Return () \<and> stands bs n t)"
    and "run_to (connect_frame b name k) w s (\<lambda>r t. k \<le> 65535 \<longrightarrow> r = Return () \<and> stands bs n t)"
    and "run_to service w s (\<lambda>r t. r = Return () \<and> stands bs n t)"
    and "run_to dial w s (\<lambda>r t. r = Return () \<and> stands bs n t)"
  using assms
  by (auto simp: send_str_def send_def sock_write_def note_io_def quiet_wire_def undisturbed_def stands_def
      connect_frame_def dial_def split: prod.splits)

lemma read_stands:
  assumes "quiet_wire w" and "stands (xs @ bs) n s" and "length xs = k"
  shows "run_to (read_required k) w s (\<lambda>r t. r = Return xs \<and> stands bs n t)"
  using assms by (auto simp: read_required_def sock_read_def note_io_def quiet_wire_def undisturbed_def stands_def)

lemma wait_suback:
  assumes "quiet_wire w" and "stands (0x90 # bs) n s"
  shows "run_to wait_msg w s (\<lambda>r t. r = Return (Some 0x90) \<and> stands bs n t)"
  using assms
  by (auto simp: wait_msg_def sock_read_def note_io_def process_frame_def quiet_wire_def undisturbed_def stands_def)

lemma subscribe_granted:
  assumes w: "quiet_wire w" and s: "stands ([0x90, 3] @ pack_H (Suc n) @ [1] @ bs) n s"
    and n: "Suc n \<le> 65535" and topic: "py_len topic \<le> 122"
  shows "run_to (subscribe (Suc k) topic) w s (\<lambda>r t. r = Return True \<and> stands bs (Suc n) t)"
proof -
  let ?q = "pack_H (Suc n)"
  have fresh: "run_to next_packet_id w s (\<lambda>r t. r = Return (Suc n) \<and> stands ([0x90, 3] @ ?q @ [1] @ bs) (Suc n) t)"
    using s n by (auto simp: next_packet_id_def stands_def)
  have grant: "run_to (suback (Suc n)) w t (\<lambda>r u. r = Return () \<and> stands bs (Suc n) u)"
    if t: "stands ([3] @ ?q @ [1] @ bs) (Suc n) t" for t
  proof -
    have "run_to (read_required 1) w t (\<lambda>r u. r = Return [3] \<and> stands ((?q @ [1]) @ bs) (Suc n) u)"
      using t by (intro read_stands w) simp_all
    note one = this
    have body: "run_to (read_required 3) w u (\<lambda>r v. r = Return (?q @ [1]) \<and> stands bs (Suc n) v)"
      if "stands ((?q @ [1]) @ bs) (Suc n) u" for u
      by (rule read_stands [OF w that]) (simp add: pack_H_def)
    show ?thesis
      unfolding suback_def
    proof (rule run_to_bind_value [OF one])
      fix u assume u: "stands ((?q @ [1]) @ bs) (Suc n) u"
      show "run_to (io_bind (check_inbound ([3] = [3])) (\<lambda>_. io_bind (read_required 3) (\<lambda>resp.
           if take 2 resp \<noteq> ?q then io_raise MQTTException
           else if resp ! 2 = 0x80 then io_raise MQTTException
           else check_inbound (resp ! 2 = 0x00 \<or> resp ! 2 = 0x01)))) w u (\<lambda>r u. r = Return () \<and> stands bs (Suc n) u)"
        by (simp add: check_inbound_def, rule run_to_mono [OF body [OF u]]) (auto simp: pack_H_def check_inbound_def)
    qed
  qed
  have wait: "run_to (suback_wait (Suc n) (Suc k)) w t (\<lambda>r u. r = Return True \<and> stands bs (Suc n) u)"
    if t: "stands ([0x90, 3] @ ?q @ [1] @ bs) (Suc n) t" for t
    unfolding suback_wait.simps
    by (rule run_to_bind_value [OF wait_suback [OF w]], use t in simp, simp del: run_to_bind,
        rule run_to_bind_value [OF grant]) simp_all
  show ?thesis
    unfolding subscribe_def using topic
    by (simp del: run_to_bind suback_wait.simps, intro run_to_bind_value [OF fresh] run_to_bind_value [OF sends_stand(1) [OF w]]
        run_to_bind_value [OF sends_stand(2) [OF w]] wait)
qed

lemma connect_accepted:
  assumes w: "quiet_wire w" and stream: "\<And>n. fst (stream_at w n) = [0x20, 2, 0, 0] @ bs" and k: "k \<le> 65535"
  shows "run_to (connect b name k t) w s (\<lambda>r u. (\<exists>x. r = Return x) \<and> stands bs (pid s) u)"
proof -
  have opened: "run_to (open_socket t) w s (\<lambda>r u. r = Return () \<and> stands ([0x20, 2, 0, 0] @ bs) (pid s) u)"
    using w stream [of "w_clock s"]
    by (auto simp: open_socket_def settimeout_def quiet_wire_def stands_def split: prod.splits)
  have frame: "run_to (connect_frame b name k) w u (\<lambda>r t. r = Return () \<and> stands xs n t)" if "stands xs n u" for xs n u
    using sends_stand(3) [OF w that, of b name k] k by simp
  have connack: "run_to (io_bind (read_required 4) (\<lambda>resp.
       if resp ! 0 \<noteq> 0x20 \<or> resp ! 1 \<noteq> 0x02 then io_raise MQTTException
       else if resp ! 3 \<noteq> 0 then io_raise MQTTException
       else io_return (resp ! 2 AND 1))) w u (\<lambda>r u. (\<exists>x. r = Return x) \<and> stands bs (pid s) u)"
    if "stands ([0x20, 2, 0, 0] @ bs) (pid s) u" for u
    by (rule run_to_bind_value [OF read_stands [OF w that]]) simp_all
  show ?thesis
    unfolding connect_def
    by (intro run_to_bind_value [OF opened] run_to_bind_value [OF sends_stand(4) [OF w]]
        run_to_bind_value [OF sends_stand(5) [OF w]] run_to_bind_value [OF frame] connack)
qed

definition accepting :: "link_world \<Rightarrow> byte list \<Rightarrow> bool" where
  "accepting w bs \<longleftrightarrow> quiet_wire (wires w) \<and> keepalive w \<le> 65535
   \<and> py_len (command_topic w) \<le> 122 \<and> py_len (info_response_topic w) \<le> 122
   \<and> (\<forall>n. fst (stream_at (wires w) n) = [0x20, 2, 0, 0] @ [0x90, 3, 0, 1, 1] @ [0x90, 3, 0, 2, 1] @ bs)
   \<and> (\<forall>n. close_faults (wires w) n = None)"

lemma await_granted:
  assumes "quiet_wire (wires w)" and "stands ([0x90, 3] @ pack_H (Suc n) @ [1] @ bs) n (client_wire l)"
    and "Suc n \<le> 65535" and "py_len topic \<le> 122"
  shows "run_to (awaiting (\<lambda>n. subscribe n topic)) w l (\<lambda>r l'. r = Return () \<and> (\<exists>s. l' = l\<lparr>client_wire := s\<rparr> \<and> stands bs (Suc n) s))"
  unfolding awaiting_def
  by (simp, rule run_to_mono [OF subscribe_granted [OF assms]]) auto

lemma attempt_connects:
  assumes "accepting w bs" and "\<not> connected l"
  shows "run_to link_attempt w l (\<lambda>r l'. r = Return True \<and> connected l' \<and> stands bs 2 (client_wire l'))"
proof -
  note a = assms(1) [unfolded accepting_def]
  have restored: "run_to (on_client (settimeout None)) w u (\<lambda>r l'. r = Return () \<and> stands bs 2 (client_wire l'))"
    if "stands bs 2 (client_wire u)" for u
    using that a by (auto simp: settimeout_def stands_def quiet_wire_def)
  have "run_to link_handshake w l (\<lambda>r l'. r = Return () \<and> stands bs 2 (client_wire l'))"
  proof -
    have close: "run_to close_old_client w l (\<lambda>r l'. r = Return () \<and> True)"
      using a by (auto simp: close_old_client_def)
    have first: "run_to (awaiting (\<lambda>n. subscribe n (command_topic w))) w u
        (\<lambda>r l'. r = Return () \<and> (\<exists>s. l' = u\<lparr>client_wire := s\<rparr> \<and> stands ([0x90, 3, 0, 2, 1] @ bs) (Suc 0) s))"
      if "stands ([0x90, 3, 0, 1, 1] @ [0x90, 3, 0, 2, 1] @ bs) 0 (client_wire u)" for u
      using that a by (intro await_granted) (simp_all add: pack_H_def)
    have second: "run_to (awaiting (\<lambda>n. subscribe n (info_response_topic w))) w u
        (\<lambda>r l'. r = Return () \<and> (\<exists>s. l' = u\<lparr>client_wire := s\<rparr> \<and> stands bs (Suc (Suc 0)) s))"
      if "stands ([0x90, 3, 0, 2, 1] @ bs) (Suc 0) (client_wire u)" for u
      using that a by (intro await_granted) (simp_all add: pack_H_def)
    have rest: "run_to (io_bind (awaiting (\<lambda>n. subscribe n (command_topic w))) (\<lambda>_.
        io_bind (awaiting (\<lambda>n. subscribe n (info_response_topic w))) (\<lambda>_. on_client (settimeout None)))) w u
        (\<lambda>r l'. r = Return () \<and> stands bs 2 (client_wire l'))"
      if "stands ([0x90, 3, 0, 1, 1] @ [0x90, 3, 0, 2, 1] @ bs) 0 (client_wire u)" for u
      by (rule run_to_bind_value [OF first [OF that]], elim exE conjE, rule run_to_bind_value [OF second], simp,
          elim exE conjE, rule restored) (simp add: numeral_2_eq_2)
    have up: "run_to (io_bind (on_client (connect True name (keepalive w) t)) (\<lambda>_. m)) w u Q"
      if "pid (client_wire u) = 0" and "\<And>v. stands ([0x90, 3, 0, 1, 1] @ [0x90, 3, 0, 2, 1] @ bs) 0 (client_wire v) \<Longrightarrow> run_to m w v Q"
      for name t m u Q
      unfolding run_to_bind run_to_link
      by (rule run_to_mono [OF connect_accepted]) (use a that in auto)
    show ?thesis
      unfolding link_handshake_def run_to_ask new_client_def
      by (rule run_to_bind_value [OF close])
        (simp del: run_to_bind add: run_to_bind [of "io_set f" for f] run_to_bind [of "io_get f" for f],
         intro up rest, simp_all)
  qed
  then show ?thesis
    unfolding link_attempt_def link_touch_def run_to_try
    by simp (elim run_to_mono, auto simp: stands_def)
qed

subsection \<open>Properties\<close>

text \<open>
  C39: the object over the socket is a session as the rest of Core 0 uses it. Whatever a reachable object
  does with its byte-level client (an attempt made while down, a publish, a probe, a poll, a ping, a
  mark), the abstract session of Core 0 with the same books can do: for some answer of its exchange
  the operation has the same outcome and leaves the same connectedness, counters, reason and instant
  of last activity.
\<close>

theorem link_refines_session:
  assumes "link_reachable w l" and "op = Connect_attempt \<Longrightarrow> \<not> is_connected l"
    and "run_link op w l = (r, l')" and "r \<noteq> Cut" and "core_books s = link_books l"
  shows "\<exists>v t. core_op (link_kind op) v s = (r, t) \<and> core_books t = link_books l'"
proof -
  have "sound l" using reachable_balanced [OF assms(1)] by (simp add: link.balanced_def)
  moreover have "link_kind op = Attempt \<Longrightarrow> \<not> is_up (link_books l)" using assms(2) by (cases op) simp_all
  ultimately obtain ans now where step: "session_step (link_kind op) ans now (link_books l) = (r, link_books l')"
    using link.run_step [OF _ _ assms(3,4)] by blast
  obtain q t where t: "core_op (link_kind op) (answering ans now) s = (q, t)" by fastforce
  from run_toD [OF core_steps t] step assms(5) have "q = r" "core_books t = link_books l'" by simp_all
  with t show ?thesis by blast
qed

text \<open>
  C40: a session that counts as connected can be used, and is counted. In every reachable object the
  connected flag means a client with an open socket in blocking mode, as the bounded operations
  assume, whatever faults, corrupt frames and callback failures came before; every connect is matched
  by a disconnect but for the one in force; and under positive timeouts no operation waits forever:
  what does not end was reset by the servicing hook.
\<close>

theorem connected_means_usable:
  assumes "link_reachable w l"
  shows "(connected l \<longrightarrow> has_client l \<and> has_sock l \<and> \<not> sock_closed (client_wire l) \<and> sock_timeout (client_wire l) = None)
    \<and> connect_count l = disconnect_count l + (if connected l then 1 else 0)
    \<and> (0 < ack_timeout_ms w \<and> bounded_op op \<and> (op = Connect_attempt \<longrightarrow> \<not> connected l) \<and> run_link op w l = (Cut, l')
        \<longrightarrow> resettable (wires w))"
proof (intro conjI impI)
  have b: "sound l" "connect_count l = disconnect_count l + (if is_connected l then 1 else 0)"
    using reachable_balanced [OF assms] by (simp_all add: link.balanced_def split: if_splits)
  then have "connected l = is_connected l" by (auto simp: sound_def is_connected_def)
  with b show "connected l \<Longrightarrow> has_client l" "connected l \<Longrightarrow> has_sock l" "connected l \<Longrightarrow> \<not> sock_closed (client_wire l)"
    "connected l \<Longrightarrow> sock_timeout (client_wire l) = None"
    "connect_count l = disconnect_count l + (if connected l then 1 else 0)"
    by (simp_all add: sound_def usable_def)
  assume op: "0 < ack_timeout_ms w \<and> bounded_op op \<and> (op = Connect_attempt \<longrightarrow> \<not> connected l) \<and> run_link op w l = (Cut, l')"
  show "resettable (wires w)"
  proof (cases "op = Connect_attempt")
    case True
    with op show ?thesis using run_toD [OF attempt_kept, of l w Cut l'] by simp
  next
    case False
    with op show ?thesis using run_toD [OF endsD [OF transactions_end], of w op l Cut l'] by simp
  qed
qed


subsection \<open>Witnesses\<close>

text \<open>
  A broker that accepts the connection and both subscriptions, from the first instant on.
\<close>

definition demo_broker :: link_world where
  "demo_broker = \<lparr>wires = demo_wire_world\<lparr>stream_at := (\<lambda>n. ([0x20, 2, 0, 0] @ [0x90, 3, 0, 1, 1]
       @ [0x90, 3, 0, 2, 1] @ [], Quiet))\<rparr>,
     link_ticks_at = (\<lambda>n. int n), unique_id = Inr [0, 1, 2, 3, 4, 5, 6, 255],
     keepalive = 60, ack_timeout_ms = 10000, reconnect_delays = [1], command_topic = ''cmd'',
     info_response_topic = ''info''\<rparr>"

definition demo_link :: mqtt_link where
  "demo_link = unconnected 7 ''pico_040506ff''"

definition demo_up :: mqtt_link where
  "demo_up = snd (link_attempt demo_broker demo_link)"

lemma demo_init: "mqtt_init demo_broker 7 = Inr demo_link"
  by code_simp

lemma demo_down: "\<not> is_connected demo_link"
  by (simp add: demo_link_def unconnected_def is_connected_def)

lemma demo_connects: "link_attempt demo_broker demo_link = (Return True, demo_up)" and demo_connected: "connected demo_up"
proof -
  have "accepting demo_broker []"
    by (simp add: accepting_def demo_broker_def quiet_wire_def undisturbed_def demo_wire_world_def py_len_def
        is_continuation_def)
  then have "run_to link_attempt demo_broker demo_link (\<lambda>r l'. r = Return True \<and> connected l' \<and> stands [] 2 (client_wire l'))"
    by (rule attempt_connects) (simp add: demo_link_def unconnected_def)
  then show "link_attempt demo_broker demo_link = (Return True, demo_up)" "connected demo_up"
    by (auto simp: run_to_def demo_up_def split: prod.splits)
qed

lemma demo_reachable: "link_reachable demo_broker demo_up"
  by (rule link_reachable.operated [OF link_reachable.constructed [OF demo_init], of Connect_attempt "Return True"])
    (simp_all add: demo_connects demo_down)

theorem link_refines_session_witness:
  "\<exists>v t. core_op Attempt v (demo_core0\<lparr>mqtt_connected := False, mqtt_connect_count := 0, mqtt_disconnect_count := 0,
       mqtt_last_reason := None, mqtt_last_activity_ms := 7\<rparr>) = (Return True, t) \<and> mqtt_connected t"
proof -
  have "core_books (demo_core0\<lparr>mqtt_connected := False, mqtt_connect_count := 0, mqtt_disconnect_count := 0,
       mqtt_last_reason := None, mqtt_last_activity_ms := 7\<rparr>) = link_books demo_link"
    by (simp add: core_books_def link_books_def is_connected_def demo_link_def unconnected_def)
  from link_refines_session [OF link_reachable.constructed [OF demo_init], of Connect_attempt "Return True" demo_up, OF _ _ _ this]
  obtain v t where "core_op Attempt v (demo_core0\<lparr>mqtt_connected := False, mqtt_connect_count := 0, mqtt_disconnect_count := 0,
       mqtt_last_reason := None, mqtt_last_activity_ms := 7\<rparr>) = (Return True, t)" "core_books t = link_books demo_up"
    using demo_down by (auto simp: demo_connects)
  moreover have "is_connected demo_up"
    using reachable_balanced [OF demo_reachable] demo_connected
    by (simp add: link.balanced_def sound_def is_connected_def)
  ultimately show ?thesis by (metis core_books_sel(1) link_books_sel(1))
qed

theorem connected_means_usable_witness:
  "connected demo_up \<and> \<not> sock_closed (client_wire demo_up) \<and> sock_timeout (client_wire demo_up) = None
   \<and> connect_count demo_up = disconnect_count demo_up + 1"
  using connected_means_usable [OF demo_reachable] demo_connected by simp
end
