(* ===== verification/DeviceManager.thy ===== *)
theory DeviceManager
  imports Ticks Messages
begin

section \<open>The device manager of Core 1\<close>

text \<open>
  \<open>device_manager.py\<close>: boot initialization with retries, the read of a device and its
  reinitialization after repeated failures, the late retries of devices that failed at boot,
  and the status reports. A driver is what the environment answers to its construction, its
  \<open>initialize\<close> and its \<open>read\<close>; the drivers themselves are in the theories of the sensors.
\<close>

subsection \<open>Configuration, environment and state\<close>

text \<open>A device of the validated configuration.\<close>

record device_def =
  d_id :: string
  d_type :: string
  d_name :: pyval

record dm_world =
  dm_devices :: "device_def list"
  initialization_attempts :: nat
  retry_delay_ms :: int
  read_failure_threshold :: nat
  dm_ticks_at :: "nat \<Rightarrow> int"
  create_at :: "nat \<Rightarrow> exc option"
  initialize_at :: "nat \<Rightarrow> exc option"
  read_at :: "nat \<Rightarrow> pyval res"

datatype device_state = Ready | Reinitialize_pending | Initialization_failed

fun state_name :: "device_state \<Rightarrow> string" where
  "state_name Ready = ''ready''"
| "state_name Reinitialize_pending = ''reinitialize_pending''"
| "state_name Initialization_failed = ''initialization_failed''"

record managed_device =
  device_id :: string
  device_type_name :: string
  device_name :: pyval
  state :: device_state
  initialization_attempts_used :: nat
  consecutive_read_failures :: nat
  total_read_failures :: nat
  read_count :: nat
  successful_read_count :: nat
  last_read_ms :: "int option"
  last_successful_read_ms :: "int option"
  reinitialize_pending :: bool
  reinit_failure_logged :: bool

definition managed_device_init :: "device_def \<Rightarrow> nat \<Rightarrow> managed_device" where
  "managed_device_init d attempts =
     \<lparr>device_id = d_id d, device_type_name = d_type d, device_name = d_name d, state = Ready,
      initialization_attempts_used = attempts, consecutive_read_failures = 0, total_read_failures = 0,
      read_count = 0, successful_read_count = 0, last_read_ms = None, last_successful_read_ms = None,
      reinitialize_pending = False, reinit_failure_logged = False\<rparr>"

definition mark_reinitialize_pending :: "managed_device \<Rightarrow> managed_device" where
  "mark_reinitialize_pending m = m\<lparr>reinitialize_pending := True, state := Reinitialize_pending\<rparr>"

definition clear_reinitialize_pending :: "managed_device \<Rightarrow> managed_device" where
  "clear_reinitialize_pending m =
     m\<lparr>reinitialize_pending := False, state := Ready, consecutive_read_failures := 0,
       reinit_failure_logged := False\<rparr>"

definition record_read_failure :: "managed_device \<Rightarrow> managed_device" where
  "record_read_failure m =
     m\<lparr>consecutive_read_failures := consecutive_read_failures m + 1,
       total_read_failures := total_read_failures m + 1\<rparr>"

text \<open>The record of a device that failed at boot.\<close>

record failed_info =
  f_type :: string
  f_state :: device_state
  f_attempts :: nat
  failure_reason :: "exc option"
  retry_failure_logged :: bool

text \<open>
  The trace records the refreshes of the liveness stamp, the sleeps and the two driver
  operations that talk to the sensor.
\<close>

datatype dm_act = Refresh | Slept int | Initialize string | Read string

record dm =
  active :: "managed_device list"
  failed :: "(string \<times> failed_info) list"
  dm_uptime :: "uptime_state option"
  dm_clock :: nat
  dm_trace :: "dm_act list"

type_synonym 'a dmp = "(dm_world, dm, 'a) prog"

definition dm_sense :: "(dm_world \<Rightarrow> nat \<Rightarrow> 'x) \<Rightarrow> 'x dmp" where
  "dm_sense f w s = (Return (f w (dm_clock s)), s\<lparr>dm_clock := Suc (dm_clock s)\<rparr>)"

definition act :: "dm_act \<Rightarrow> unit dmp" where
  "act a = io_set (\<lambda>s. s\<lparr>dm_trace := dm_trace s @ [a]\<rparr>)"

definition refresh_activity :: "unit dmp" where
  "refresh_activity = act Refresh"

text \<open>\<open>_now_ms\<close>: the shared uptime, or raw ticks when it is not wired.\<close>

definition now_ms :: "int dmp" where
  "now_ms =
     io_bind (dm_sense dm_ticks_at) (\<lambda>ticks. io_bind (io_get dm_uptime) (\<lambda>uptime.
       case uptime of
         None \<Rightarrow> io_return ticks
       | Some u \<Rightarrow> (case current_uptime_ms ticks u of (ms, v) \<Rightarrow>
           io_bind (io_set (\<lambda>s. s\<lparr>dm_uptime := Some v\<rparr>)) (\<lambda>_. io_return ms))))"

fun wait_actions :: "wait_act list \<Rightarrow> unit dmp" where
  "wait_actions [] = io_return ()"
| "wait_actions (Service # rest) = io_bind refresh_activity (\<lambda>_. wait_actions rest)"
| "wait_actions (SleepMs ms # rest) = io_bind (act (Slept ms)) (\<lambda>_. wait_actions rest)"

definition sleep_refreshing :: "int \<Rightarrow> unit dmp" where
  "sleep_refreshing delay_ms = wait_actions (sleep_with_activity_refresh delay_ms)"

subsection \<open>Drivers\<close>

text \<open>\<open>_create_driver\<close>: an \<open>OSError\<close> is an answer, anything else escapes.\<close>

definition create_driver :: "device_def \<Rightarrow> exc option dmp" where
  "create_driver d =
     io_bind (dm_sense create_at) (\<lambda>r.
       case r of
         None \<Rightarrow> io_return None
       | Some e \<Rightarrow> if e = OSError then io_return (Some e) else io_raise e)"

definition driver_initialize :: "string \<Rightarrow> unit dmp" where
  "driver_initialize ident =
     io_bind (act (Initialize ident)) (\<lambda>_. io_bind (dm_sense initialize_at) (\<lambda>r.
       case r of None \<Rightarrow> io_return () | Some e \<Rightarrow> io_raise e))"

definition driver_read :: "string \<Rightarrow> pyval dmp" where
  "driver_read ident = io_bind (act (Read ident)) (\<lambda>_. io_bind (dm_sense read_at) io_res)"

text \<open>\<open>except OSError\<close>: the answer is the error; other exceptions pass.\<close>

definition catch_os_error :: "unit dmp \<Rightarrow> exc option dmp" where
  "catch_os_error m =
     io_try (io_bind m (\<lambda>_. io_return None)) (\<lambda>e. if e = OSError then io_return (Some e) else io_raise e)"

text \<open>
  The attempts loop, shared by the boot path and the reinitialization: \<open>attempt\<close> is the
  number of the next one, \<open>left\<close> how many remain with it. The answer is the attempts used
  and the last error, None for success.
\<close>

fun attempt_initialize :: "string \<Rightarrow> nat \<Rightarrow> nat \<Rightarrow> nat \<Rightarrow> exc option \<Rightarrow> (nat \<times> bool \<times> exc option) dmp" where
  "attempt_initialize ident attempt 0 used last_error = io_return (used, False, last_error)"
| "attempt_initialize ident attempt (Suc left) used last_error =
     io_bind refresh_activity (\<lambda>_.
     io_bind (catch_os_error (driver_initialize ident)) (\<lambda>r.
       case r of
         None \<Rightarrow> io_return (attempt, True, None)
       | Some e \<Rightarrow>
           io_bind (io_ask (\<lambda>w. if left \<noteq> 0 then sleep_refreshing (retry_delay_ms w) else io_return ())) (\<lambda>_.
           attempt_initialize ident (Suc attempt) left attempt (Some e))))"

definition initialize_driver_with_retries :: "string \<Rightarrow> (nat \<times> bool \<times> exc option) dmp" where
  "initialize_driver_with_retries ident =
     io_ask (\<lambda>w. attempt_initialize ident 1 (initialization_attempts w) 0 None)"

subsection \<open>Boot\<close>

text \<open>\<open>self._failed_devices[device_id] = ...\<close>: a new key goes to the end, an old one stays in place.\<close>

fun put_failed :: "string \<Rightarrow> failed_info \<Rightarrow> (string \<times> failed_info) list \<Rightarrow> (string \<times> failed_info) list" where
  "put_failed k v [] = [(k, v)]"
| "put_failed k v ((k', v') # rest) = (if k' = k then (k, v) # rest else (k', v') # put_failed k v rest)"

definition record_failure_of :: "device_def \<Rightarrow> nat \<Rightarrow> exc option \<Rightarrow> bool dmp" where
  "record_failure_of d attempts error =
     io_bind (io_set (\<lambda>s. s\<lparr>failed := put_failed (d_id d)
         \<lparr>f_type = d_type d, f_state = Initialization_failed, f_attempts = attempts,
          failure_reason = error, retry_failure_logged = False\<rparr> (failed s)\<rparr>))
       (\<lambda>_. io_return False)"

definition record_success :: "device_def \<Rightarrow> nat \<Rightarrow> bool dmp" where
  "record_success d attempts =
     io_bind (io_set (\<lambda>s. s\<lparr>active := active s @ [managed_device_init d attempts]\<rparr>)) (\<lambda>_. io_return True)"

definition initialize_single_device :: "device_def \<Rightarrow> bool dmp" where
  "initialize_single_device d =
     io_bind (create_driver d) (\<lambda>error.
       case error of
         Some e \<Rightarrow> record_failure_of d 0 (Some e)
       | None \<Rightarrow>
           io_bind (initialize_driver_with_retries (d_id d)) (\<lambda>(used, initialized, last_error).
             if \<not> initialized then record_failure_of d used last_error else record_success d used))"

fun initialize_each :: "device_def list \<Rightarrow> nat \<Rightarrow> nat dmp" where
  "initialize_each [] count = io_return count"
| "initialize_each (d # rest) count =
     io_bind refresh_activity (\<lambda>_.
     io_bind (initialize_single_device d) (\<lambda>ok.
       initialize_each rest (if ok then count + 1 else count)))"

definition initialize_devices :: "nat dmp" where
  "initialize_devices = io_ask (\<lambda>w. initialize_each (dm_devices w) 0)"

subsection \<open>Processing a device\<close>

datatype device_result =
    Telemetry string string pyval pyval bool nat
  | Read_failed string string exc nat nat bool
  | Reinitialized string string nat
  | Reinitialization_failed string string "exc option" nat nat nat bool
  | Boot_recovered string string nat
  | Boot_recovery_failed string string exc nat bool

text \<open>A managed device is an object of the active list; here, its index in the list.\<close>

definition the_device :: "nat \<Rightarrow> managed_device dmp" where
  "the_device i = io_get (\<lambda>s. active s ! i)"

definition update_device :: "nat \<Rightarrow> (managed_device \<Rightarrow> managed_device) \<Rightarrow> unit dmp" where
  "update_device i f = io_set (\<lambda>s. s\<lparr>active := (active s)[i := f (active s ! i)]\<rparr>)"

definition telemetry_ok :: "pyval \<Rightarrow> bool" where
  "telemetry_ok v \<longleftrightarrow> is_dict v \<and> the_dict v \<noteq> [] \<and> is_json_safe v"

text \<open>The read up to its successful end, with the telemetry.\<close>

definition read_telemetry :: "nat \<Rightarrow> device_result dmp" where
  "read_telemetry i =
     io_bind (update_device i (\<lambda>m. m\<lparr>read_count := read_count m + 1\<rparr>)) (\<lambda>_.
     io_bind now_ms (\<lambda>now.
     io_bind (update_device i (\<lambda>m. m\<lparr>last_read_ms := Some now\<rparr>)) (\<lambda>_.
     io_bind (the_device i) (\<lambda>m.
     io_bind (driver_read (device_id m)) (\<lambda>telemetry.
       if \<not> telemetry_ok telemetry then io_raise TypeError
       else
         io_bind (update_device i (\<lambda>m. m\<lparr>successful_read_count := successful_read_count m + 1\<rparr>)) (\<lambda>_.
         io_bind now_ms (\<lambda>now.
         io_bind (update_device i (\<lambda>m. m\<lparr>last_successful_read_ms := Some now\<rparr>)) (\<lambda>_.
         io_bind (the_device i) (\<lambda>m.
         io_bind (update_device i (\<lambda>m. m\<lparr>consecutive_read_failures := 0\<rparr>)) (\<lambda>_.
         io_return (Telemetry (device_id m) (device_type_name m) (device_name m) telemetry
           (consecutive_read_failures m > 0) (consecutive_read_failures m))))))))))))"

definition process_normal_read :: "nat \<Rightarrow> device_result dmp" where
  "process_normal_read i =
     io_try (read_telemetry i)
       (\<lambda>e. if e \<noteq> OSError then io_raise e
            else
              io_bind (update_device i record_read_failure) (\<lambda>_.
              io_bind (the_device i) (\<lambda>m.
              io_bind (io_ask (\<lambda>w. if consecutive_read_failures m \<ge> read_failure_threshold w
                                   then update_device i mark_reinitialize_pending else io_return ())) (\<lambda>_.
              io_bind (the_device i) (\<lambda>m.
              io_return (Read_failed (device_id m) (device_type_name m) e (consecutive_read_failures m)
                (total_read_failures m) (reinitialize_pending m)))))))"

definition process_reinitialization :: "nat \<Rightarrow> device_result dmp" where
  "process_reinitialization i =
     io_bind (the_device i) (\<lambda>m.
     io_ask (\<lambda>w.
       if device_id m \<notin> d_id ` set (dm_devices w) then io_raise RuntimeError
       else
         io_bind (initialize_driver_with_retries (device_id m)) (\<lambda>(used, initialized, last_error).
           if initialized
           then io_bind (update_device i clear_reinitialize_pending) (\<lambda>_.
                io_return (Reinitialized (device_id m) (device_type_name m) used))
           else
             io_bind (the_device i) (\<lambda>m.
             io_bind (if reinit_failure_logged m then io_return ()
                      else update_device i (\<lambda>m. m\<lparr>reinit_failure_logged := True\<rparr>)) (\<lambda>_.
             io_return (Reinitialization_failed (device_id m) (device_type_name m) last_error
               (consecutive_read_failures m) (total_read_failures m) used (\<not> reinit_failure_logged m)))))))"

definition process_device :: "nat \<Rightarrow> device_result dmp" where
  "process_device i =
     io_bind refresh_activity (\<lambda>_. io_bind (the_device i) (\<lambda>m.
       if reinitialize_pending m then process_reinitialization i else process_normal_read i))"

subsection \<open>Late retries\<close>

definition has_failed_devices :: "dm \<Rightarrow> bool" where
  "has_failed_devices s \<longleftrightarrow> failed s \<noteq> []"

definition update_failed :: "string \<Rightarrow> (failed_info \<Rightarrow> failed_info) \<Rightarrow> unit dmp" where
  "update_failed k f = io_set (\<lambda>s. s\<lparr>failed := map (\<lambda>(k', v). (k', if k' = k then f v else v)) (failed s)\<rparr>)"

definition late_retry_failure_result :: "device_def \<Rightarrow> exc \<Rightarrow> device_result dmp" where
  "late_retry_failure_result d error =
     io_bind (io_get (\<lambda>s. the (map_of (failed s) (d_id d)))) (\<lambda>info.
     io_bind (if retry_failure_logged info then io_return ()
              else update_failed (d_id d) (\<lambda>v. v\<lparr>retry_failure_logged := True\<rparr>)) (\<lambda>_.
     io_return (Boot_recovery_failed (d_id d) (f_type info) error (f_attempts info)
       (\<not> retry_failure_logged info))))"

definition retry_failed_device :: "device_def \<Rightarrow> failed_info \<Rightarrow> device_result dmp" where
  "retry_failed_device d info =
     io_bind refresh_activity (\<lambda>_.
     io_bind (create_driver d) (\<lambda>error.
       case error of
         Some e \<Rightarrow>
           io_bind (update_failed (d_id d) (\<lambda>v. v\<lparr>failure_reason := Some e\<rparr>)) (\<lambda>_.
           late_retry_failure_result d e)
       | None \<Rightarrow>
           io_bind (catch_os_error (driver_initialize (d_id d))) (\<lambda>r.
             case r of
               Some e \<Rightarrow>
                 io_bind (update_failed (d_id d) (\<lambda>v. v\<lparr>f_attempts := f_attempts v + 1, failure_reason := Some e\<rparr>)) (\<lambda>_.
                 late_retry_failure_result d e)
             | None \<Rightarrow>
                 io_bind (io_set (\<lambda>s. s\<lparr>active := active s @ [managed_device_init d (f_attempts info + 1)],
                                       failed := filter (\<lambda>(k, v). k \<noteq> d_id d) (failed s)\<rparr>)) (\<lambda>_.
                 io_return (Boot_recovered (d_id d) (d_type d) (f_attempts info + 1))))))"

fun retry_each :: "device_def list \<Rightarrow> device_result list \<Rightarrow> device_result list dmp" where
  "retry_each [] results = io_return results"
| "retry_each (d # rest) results =
     io_bind (io_get (\<lambda>s. map_of (failed s) (d_id d))) (\<lambda>found.
       case found of
         None \<Rightarrow> retry_each rest results
       | Some info \<Rightarrow> io_bind (retry_failed_device d info) (\<lambda>r. retry_each rest (results @ [r])))"

definition retry_failed_devices :: "device_result list dmp" where
  "retry_failed_devices = io_ask (\<lambda>w. retry_each (dm_devices w) [])"

subsection \<open>Status\<close>

definition get_device_counts :: "dm_world \<Rightarrow> dm \<Rightarrow> pydict" where
  "get_device_counts w s =
     [(PStr ''configured'', PInt (int (length (dm_devices w)))),
      (PStr ''active'', PInt (int (length (filter (\<lambda>m. state m = Ready) (active s))))),
      (PStr ''initialization_failed'',
         PInt (int (length (filter (\<lambda>(k, f). f_state f = Initialization_failed) (failed s)))))]"

definition age :: "int \<Rightarrow> int option \<Rightarrow> pyval" where
  "age now stamp = (case stamp of None \<Rightarrow> PNone | Some t \<Rightarrow> PInt (now - t))"

definition managed_snapshot :: "int option \<Rightarrow> managed_device \<Rightarrow> pydict" where
  "managed_snapshot now m =
     [(PStr ''id'', PStr (device_id m)), (PStr ''device'', PStr (device_type_name m)),
      (PStr ''state'', PStr (state_name (state m))),
      (PStr ''initialization_attempts_used'', PInt (int (initialization_attempts_used m))),
      (PStr ''consecutive_read_failures'', PInt (int (consecutive_read_failures m))),
      (PStr ''total_read_failures'', PInt (int (total_read_failures m))),
      (PStr ''read_count'', PInt (int (read_count m))),
      (PStr ''successful_read_count'', PInt (int (successful_read_count m)))]
     @ (if device_name m \<noteq> PNone then [(PStr ''name'', device_name m)] else [])
     @ (case now of
          None \<Rightarrow> []
        | Some t \<Rightarrow> [(PStr ''last_read_age_ms'', age t (last_read_ms m)),
                     (PStr ''last_successful_read_age_ms'', age t (last_successful_read_ms m))])"

text \<open>The reason is \<open>str(error)\<close>; its text is a parameter.\<close>

definition failed_snapshot :: "(exc \<Rightarrow> string) \<Rightarrow> string \<Rightarrow> failed_info \<Rightarrow> pydict" where
  "failed_snapshot text k f =
     [(PStr ''id'', PStr k), (PStr ''device'', PStr (f_type f)), (PStr ''state'', PStr (state_name (f_state f))),
      (PStr ''initialization_attempts_used'', PInt (int (f_attempts f))),
      (PStr ''consecutive_read_failures'', PInt 0), (PStr ''total_read_failures'', PInt 0),
      (PStr ''read_count'', PInt 0), (PStr ''successful_read_count'', PInt 0),
      (PStr ''failure_reason'', (case failure_reason f of None \<Rightarrow> PStr ''None'' | Some e \<Rightarrow> PStr (text e))),
      (PStr ''last_read_age_ms'', PNone), (PStr ''last_successful_read_age_ms'', PNone)]"

definition device_snapshots :: "(exc \<Rightarrow> string) \<Rightarrow> int option \<Rightarrow> dm \<Rightarrow> string \<Rightarrow> pydict option" where
  "device_snapshots text now s =
     map_of (map (\<lambda>m. (device_id m, managed_snapshot now m)) (rev (active s)))
       ++ map_of (map (\<lambda>(k, f). (k, failed_snapshot text k f)) (failed s))"

definition get_status_snapshot :: "(exc \<Rightarrow> string) \<Rightarrow> bool \<Rightarrow> pydict dmp" where
  "get_status_snapshot text with_ages =
     io_ask (\<lambda>w.
     io_bind (if with_ages then io_bind now_ms (\<lambda>n. io_return (Some n)) else io_return None) (\<lambda>now.
     io_get (\<lambda>s.
       [(PStr ''devices'', PDict (get_device_counts w s)),
        (PStr ''device_status'',
           PList (map PDict (List.map_filter (\<lambda>d. device_snapshots text now s (d_id d)) (dm_devices w))))])))"

subsection \<open>Symbolic execution\<close>

lemma run_to_dm_sense [simp]:
  "run_to (dm_sense f) w s Q = Q (Return (f w (dm_clock s))) (s\<lparr>dm_clock := Suc (dm_clock s)\<rparr>)"
  by (simp add: run_to_def dm_sense_def)

lemma run_to_act [simp]: "run_to (act a) w s Q = Q (Return ()) (s\<lparr>dm_trace := dm_trace s @ [a]\<rparr>)"
  by (simp add: act_def)

lemma run_to_refresh [simp]:
  "run_to refresh_activity w s Q = Q (Return ()) (s\<lparr>dm_trace := dm_trace s @ [Refresh]\<rparr>)"
  by (simp add: refresh_activity_def)

lemma run_to_the_device [simp]: "run_to (the_device i) w s Q = Q (Return (active s ! i)) s"
  by (simp add: the_device_def)

lemma run_to_update_device [simp]:
  "run_to (update_device i f) w s Q = Q (Return ()) (s\<lparr>active := (active s)[i := f (active s ! i)]\<rparr>)"
  by (simp add: update_device_def)

text \<open>Only the clocks, the trace and the uptime changed.\<close>

definition same_devices :: "dm \<Rightarrow> dm \<Rightarrow> bool" where
  "same_devices s t \<longleftrightarrow> active t = active s \<and> failed t = failed s"

lemma same_devices_refl [simp]: "same_devices s s"
  by (simp add: same_devices_def)

lemma same_devices_upd [simp]:
  "same_devices s (t\<lparr>dm_clock := n\<rparr>) = same_devices s t"
  "same_devices s (t\<lparr>dm_trace := tr\<rparr>) = same_devices s t"
  "same_devices s (t\<lparr>dm_uptime := u\<rparr>) = same_devices s t"
  by (simp_all add: same_devices_def)

lemma now_ms_run:
  "run_to now_ms w s (\<lambda>r t. (\<exists>n. r = Return n) \<and> same_devices s t \<and> dm_trace t = dm_trace s)"
  by (auto simp: now_ms_def split: option.splits prod.splits)

text \<open>The acts of a program, and that it leaves the devices alone.\<close>

definition acts :: "(dm_act list \<Rightarrow> bool) \<Rightarrow> dm \<Rightarrow> dm \<Rightarrow> bool" where
  "acts P s t \<longleftrightarrow> (\<exists>ext. dm_trace t = dm_trace s @ ext \<and> P ext)"

lemma wait_actions_run:
  "run_to (wait_actions xs) w s (\<lambda>r t. r = Return () \<and> same_devices s t \<and>
     dm_trace t = dm_trace s @ map (\<lambda>a. case a of Service \<Rightarrow> Refresh | SleepMs d \<Rightarrow> Slept d) xs)"
proof (induction xs arbitrary: s rule: wait_actions.induct)
  case (2 rest)
  show ?case by (auto intro!: run_to_mono [OF "2.IH"] simp: same_devices_def)
next
  case (3 ms rest)
  show ?case by (auto intro!: run_to_mono [OF "3.IH"] simp: same_devices_def)
qed simp

subsection \<open>Pacing of the driver operations\<close>

text \<open>
  \<open>paced p xs\<close>: after each refresh at most one driver operation, then at most one sleep of
  up to 100 ms, before the next refresh. \<open>p\<close> is the phase at the start: just refreshed, an
  operation done, slept.
\<close>

fun paced :: "nat \<Rightarrow> dm_act list \<Rightarrow> bool" where
  "paced p [] = True"
| "paced p (Refresh # xs) = paced 0 xs"
| "paced p (Initialize i # xs) = (p = 0 \<and> paced 1 xs)"
| "paced p (Read i # xs) = (p = 0 \<and> paced 1 xs)"
| "paced p (Slept d # xs) = (p < 2 \<and> d \<le> 100 \<and> paced 2 xs)"

lemma paced_any: "paced 2 xs \<Longrightarrow> paced p xs"
  by (cases xs rule: paced.cases [of "(p, xs)" for p xs, simplified]; cases xs; cases "hd xs") auto

lemma paced_append: "paced p xs \<Longrightarrow> paced 2 ys \<Longrightarrow> paced p (xs @ ys)"
  by (induction p xs rule: paced.induct) (auto intro: paced_any)

lemma paced_sleep:
  "paced 1 (map (\<lambda>a. case a of Service \<Rightarrow> Refresh | SleepMs d \<Rightarrow> Slept d) (sleep_with_activity_refresh d))"
proof -
  have "p < 2 \<Longrightarrow> paced p (map (\<lambda>a. case a of Service \<Rightarrow> Refresh | SleepMs d \<Rightarrow> Slept d) (sleep_with_activity_refresh d))" for p
  proof (induction d arbitrary: p rule: sleep_with_activity_refresh.induct)
    case (1 d)
    then show ?case by (subst sleep_with_activity_refresh.simps) (auto simp: Let_def)
  qed
  then show ?thesis by simp
qed

text \<open>The acts of every run of \<open>m\<close> satisfy \<open>P\<close>.\<close>

definition performs :: "(dm_act list \<Rightarrow> bool) \<Rightarrow> 'a dmp \<Rightarrow> bool" where
  "performs P m \<longleftrightarrow> (\<forall>w s. run_to m w s (\<lambda>r t. acts P s t))"

abbreviation silent :: "'a dmp \<Rightarrow> bool" where
  "silent \<equiv> performs (\<lambda>xs. xs = [])"

abbreviation one_op :: "'a dmp \<Rightarrow> bool" where
  "one_op \<equiv> performs (\<lambda>xs. \<exists>i. xs = [Initialize i] \<or> xs = [Read i])"

named_theorems pace_rules \<open>programs that refresh the liveness stamp between driver operations\<close>

lemma performsD: "performs P m \<Longrightarrow> run_to m w s (\<lambda>r t. acts P s t)"
  by (simp add: performs_def)

lemma performs_bind:
  assumes "performs A m" and "\<And>x. performs B (f x)"
    and "\<And>xs. A xs \<Longrightarrow> C xs" and "\<And>xs ys. A xs \<Longrightarrow> B ys \<Longrightarrow> C (xs @ ys)"
  shows "performs C (io_bind m f)"
  unfolding performs_def
  by (intro allI run_to_bindI [OF performsD [OF assms(1)]] run_to_mono [OF performsD [OF assms(2)]])
    (use assms(3,4) in \<open>force simp: acts_def\<close>)+

lemma performs_mono: "performs A m \<Longrightarrow> (\<And>xs. A xs \<Longrightarrow> B xs) \<Longrightarrow> performs B m"
  unfolding performs_def acts_def by (blast intro: run_to_mono)

lemma silent_basic [pace_rules]:
  "silent (io_return x)" "silent (io_raise e)" "silent (io_get g)" "silent (the_device i)"
  "silent (dm_sense h)" "silent (update_device i f)" "silent (io_res q)"
  by (simp_all add: performs_def acts_def split: sum.splits)

lemma silent_set: "(\<And>s. dm_trace (f s) = dm_trace s) \<Longrightarrow> silent (io_set f)"
  by (simp add: performs_def acts_def)

lemma silent_now [pace_rules]: "silent now_ms"
  unfolding performs_def by (auto intro: run_to_mono [OF now_ms_run] simp: acts_def)

lemma performs_ask: "(\<And>w. performs P (f w)) \<Longrightarrow> performs P (io_ask f)"
  by (simp add: performs_def)

lemma performs_cases:
  "performs P m \<Longrightarrow> performs P n \<Longrightarrow> performs P (if b then m else n)"
  "performs P m \<Longrightarrow> (\<And>y. performs P (f y)) \<Longrightarrow> performs P (case x of None \<Rightarrow> m | Some y \<Rightarrow> f y)"
  "(\<And>a b. performs P (g a b)) \<Longrightarrow> performs P (case p of (a, b) \<Rightarrow> g a b)"
  by (auto split: prod.splits option.splits)

lemma silent_bind: "silent m \<Longrightarrow> (\<And>x. silent (f x)) \<Longrightarrow> silent (io_bind m f)"
  by (erule performs_bind) auto

lemma then_silent:
  assumes "performs P m" and "\<And>x. silent (f x)"
  shows "performs P (io_bind m f)"
  using assms by (rule performs_bind) auto

lemma silent_handler:
  assumes "performs P m" and "\<And>e. silent (h e)"
  shows "performs P (io_try m h)"
  unfolding performs_def run_to_try
  by (intro allI run_to_mono [OF performsD [OF assms(1)]])
    (auto split: outcome.splits intro!: run_to_mono [OF performsD [OF assms(2)]] simp: acts_def)

lemma silent_paced: "silent m \<Longrightarrow> performs (paced p) m"
  by (erule performs_mono) simp

lemma silent_then: "silent m \<Longrightarrow> (\<And>x. performs (paced p) (f x)) \<Longrightarrow> performs (paced p) (io_bind m f)"
  by (erule performs_bind) auto

lemma refresh_then: "performs (paced 0) m \<Longrightarrow> performs (paced p) (io_bind refresh_activity (\<lambda>_. m))"
  by (rule performs_bind [where A = "\<lambda>xs. xs = [Refresh]"]) (auto simp: performs_def acts_def)

lemma op_then: "one_op m \<Longrightarrow> (\<And>x. performs (paced 1) (f x)) \<Longrightarrow> performs (paced 0) (io_bind m f)"
  by (erule performs_bind [where B = "paced 1"]) auto

lemma then_paced: "performs (paced p) m \<Longrightarrow> (\<And>x. performs (paced 2) (f x)) \<Longrightarrow> performs (paced p) (io_bind m f)"
  by (erule performs_bind [where B = "paced 2"]) (auto intro: paced_append)

lemma op_initialize: "one_op (driver_initialize i)" "one_op (catch_os_error (driver_initialize i))"
  by (auto simp: driver_initialize_def catch_os_error_def performs_def acts_def split: option.splits)

lemma op_read: "one_op (driver_read i)"
  by (auto simp: driver_read_def performs_def acts_def split: sum.splits)

lemma paced_sleeping: "performs (paced 1) (sleep_refreshing d)"
  unfolding sleep_refreshing_def performs_def
  by (auto intro!: run_to_mono [OF wait_actions_run] simp: acts_def paced_sleep simp del: One_nat_def)

lemma paced_attempts: "performs (paced p) (attempt_initialize i a n used e)"
proof (induction n arbitrary: a used e p)
  case (Suc n)
  show ?case
    unfolding attempt_initialize.simps
    by (intro refresh_then op_then op_initialize performs_cases silent_paced silent_basic then_paced performs_ask
        paced_sleeping Suc.IH)
qed (simp add: silent_paced silent_basic)

lemma silent_create [pace_rules]: "silent (create_driver d)"
  unfolding create_driver_def by (intro silent_bind silent_basic performs_cases)

lemma silent_records [pace_rules]: "silent (record_failure_of d a e)" "silent (record_success d a)"
  unfolding record_failure_of_def record_success_def by (intro silent_bind silent_set silent_basic; simp)+

lemma silent_update_failed [pace_rules]: "silent (update_failed k f)"
  unfolding update_failed_def by (rule silent_set) simp

lemma silent_result [pace_rules]: "silent (late_retry_failure_result d e)"
  unfolding late_retry_failure_result_def by (intro silent_bind pace_rules performs_cases)

lemma paced_retries: "performs (paced p) (initialize_driver_with_retries i)"
  unfolding initialize_driver_with_retries_def by (intro performs_ask paced_attempts)

lemma paced_single: "performs (paced p) (initialize_single_device d)"
  unfolding initialize_single_device_def
  by (intro silent_then pace_rules performs_cases silent_paced then_silent paced_retries)

lemma paced_initialize_each: "performs (paced p) (initialize_each ds n)"
proof (induction ds arbitrary: n p)
  case (Cons d ds)
  show ?case unfolding initialize_each.simps by (intro refresh_then then_paced paced_single Cons.IH)
qed (simp add: silent_paced silent_basic)

lemma paced_initialize_devices: "performs (paced p) initialize_devices"
  unfolding initialize_devices_def by (intro performs_ask paced_initialize_each)

lemma paced_read: "performs (paced 0) (process_normal_read i)"
  unfolding process_normal_read_def read_telemetry_def
  by (intro silent_handler silent_then op_then op_read pace_rules silent_paced performs_cases silent_bind performs_ask)

lemma paced_reinitialization: "performs (paced p) (process_reinitialization i)"
  unfolding process_reinitialization_def
  by (intro silent_then then_silent paced_retries pace_rules silent_paced performs_cases silent_bind performs_ask)

lemma paced_process: "performs (paced p) (process_device i)"
  unfolding process_device_def
  by (intro refresh_then silent_then pace_rules performs_cases paced_read paced_reinitialization)

lemma paced_retry: "performs (paced p) (retry_failed_device d info)"
  unfolding retry_failed_device_def
  by (intro refresh_then silent_then op_then op_initialize pace_rules silent_paced performs_cases silent_bind
      silent_set; simp)

lemma paced_retry_each: "performs (paced p) (retry_each ds rs)"
proof (induction ds arbitrary: rs p)
  case (Cons d ds)
  show ?case
    unfolding retry_each.simps
    by (intro silent_then pace_rules performs_cases then_paced paced_retry Cons.IH)
qed (simp add: silent_paced silent_basic)

subsection \<open>What the programs do to the devices\<close>

lemma attempts_run:
  "run_to (attempt_initialize i a n used e) w s (\<lambda>r t. same_devices s t
     \<and> (case r of
          Return (u, ok, err) \<Rightarrow> if ok then a \<le> u \<and> u < a + n else u = (if n = 0 then used else a + n - 1)
        | Raise x \<Rightarrow> x \<noteq> OSError
        | Cut \<Rightarrow> False))"
proof (induction n arbitrary: s a used e)
  case (Suc n)
  have wait: "run_to (wait_actions xs) w u (\<lambda>r t. r = Return () \<and> same_devices u t)" for xs u
    by (rule run_to_mono [OF wait_actions_run]) simp
  show ?case
    unfolding attempt_initialize.simps
    by (auto simp: catch_os_error_def driver_initialize_def sleep_refreshing_def same_devices_def
        split: option.splits outcome.splits prod.splits if_splits
        intro!: run_to_mono [OF wait] run_to_mono [OF Suc.IH])
qed simp

lemma retries_run:
  "run_to (initialize_driver_with_retries i) w s (\<lambda>r t. same_devices s t
     \<and> (case r of
          Return (u, ok, err) \<Rightarrow> ok \<longrightarrow> 1 \<le> u \<and> u \<le> initialization_attempts w
        | Raise x \<Rightarrow> x \<noteq> OSError
        | Cut \<Rightarrow> False))"
  unfolding initialize_driver_with_retries_def
  by (auto intro!: run_to_mono [OF attempts_run] split: outcome.splits if_splits)

subsection \<open>Device health: the abstract machine\<close>

text \<open>
  What a device looks like to the manager's policy: healthy with the failed reads since the
  last good one, or down and waiting for a reinitialization.
\<close>

datatype health = Healthy nat | Down

datatype health_event = Read_ok | Read_error | Reinit_ok | Reinit_error | Escaped

inductive health_step :: "nat \<Rightarrow> health \<Rightarrow> health_event \<Rightarrow> health \<Rightarrow> bool" for threshold where
  read_ok: "health_step threshold (Healthy k) Read_ok (Healthy 0)"
| read_error: "Suc k < threshold \<Longrightarrow> health_step threshold (Healthy k) Read_error (Healthy (Suc k))"
| escalates: "threshold \<le> Suc k \<Longrightarrow> health_step threshold (Healthy k) Read_error Down"
| reinit_ok: "health_step threshold Down Reinit_ok (Healthy 0)"
| reinit_error: "health_step threshold Down Reinit_error Down"
| escaped: "health_step threshold h Escaped h"

inductive_cases read_errorE [elim!]: "health_step T (Healthy k) Read_error h"
inductive_cases read_okE [elim!]: "health_step T (Healthy k) Read_ok h"
inductive_cases downE: "health_step T Down e h"

inductive_simps health_step_simps [simp]:
  "health_step T (Healthy k) Read_ok h"
  "health_step T (Healthy k) Read_error h"
  "health_step T Down Reinit_ok h"
  "health_step T Down Reinit_error h"
  "health_step T h Escaped h'"

definition health_of :: "managed_device \<Rightarrow> health" where
  "health_of m = (if reinitialize_pending m then Down else Healthy (consecutive_read_failures m))"

fun event_of :: "device_result outcome \<Rightarrow> health_event" where
  "event_of (Return (Telemetry i d n v b k)) = Read_ok"
| "event_of (Return (Read_failed i d e k n b)) = Read_error"
| "event_of (Return (Reinitialized i d k)) = Reinit_ok"
| "event_of (Return (Reinitialization_failed i d e k n u b)) = Reinit_error"
| "event_of r = Escaped"

text \<open>The counters of a managed device.\<close>

definition device_ok :: "nat \<Rightarrow> managed_device \<Rightarrow> bool" where
  "device_ok threshold m \<longleftrightarrow>
     state m = (if reinitialize_pending m then Reinitialize_pending else Ready)
   \<and> (\<not> reinitialize_pending m \<longrightarrow> consecutive_read_failures m < threshold)
   \<and> (reinit_failure_logged m \<longrightarrow> reinitialize_pending m)
   \<and> consecutive_read_failures m \<le> total_read_failures m
   \<and> successful_read_count m + total_read_failures m \<le> read_count m
   \<and> 1 \<le> initialization_attempts_used m"

text \<open>From the device \<open>m\<close> to \<open>m'\<close> by one pass with the outcome \<open>r\<close>.\<close>

definition device_step :: "nat \<Rightarrow> managed_device \<Rightarrow> device_result outcome \<Rightarrow> managed_device \<Rightarrow> bool" where
  "device_step threshold m r m' \<longleftrightarrow>
     device_id m' = device_id m \<and> device_type_name m' = device_type_name m \<and> device_name m' = device_name m
   \<and> health_step threshold (health_of m) (event_of r) (health_of m')
   \<and> (device_ok threshold m \<longrightarrow> device_ok threshold m')
   \<and> (\<forall>i d n v b k. r = Return (Telemetry i d n v b k) \<longrightarrow> i = device_id m \<and> telemetry_ok v \<and> k = consecutive_read_failures m)"

lemma normal_read_step:
  assumes "i < length (active s)" and "\<not> reinitialize_pending (active s ! i)" and "1 \<le> read_failure_threshold w"
  shows "run_to (process_normal_read i) w s (\<lambda>r t. active t = (active s)[i := active t ! i] \<and> failed t = failed s
           \<and> device_step (read_failure_threshold w) (active s ! i) r (active t ! i))"
proof -
  have now: "run_to now_ms w u (\<lambda>r t. (\<exists>n. r = Return n) \<and> active t = active u \<and> failed t = failed u)" for u
    by (rule run_to_mono [OF now_ms_run]) (auto simp: same_devices_def)
  show ?thesis
    using assms unfolding process_normal_read_def read_telemetry_def driver_read_def
    by (auto intro!: run_to_mono [OF now] split: sum.splits
        simp: device_step_def device_ok_def health_of_def record_read_failure_def mark_reinitialize_pending_def
          Suc_le_eq)
qed

lemma reinitialization_step:
  assumes "i < length (active s)" and "reinitialize_pending (active s ! i)" and "1 \<le> read_failure_threshold w"
  shows "run_to (process_reinitialization i) w s (\<lambda>r t. active t = (active s)[i := active t ! i] \<and> failed t = failed s
           \<and> device_step (read_failure_threshold w) (active s ! i) r (active t ! i))"
proof -
  have retries: "run_to (initialize_driver_with_retries k) w u (\<lambda>r t. active t = active u \<and> failed t = failed u)" for k u
    by (rule run_to_mono [OF retries_run]) (auto simp: same_devices_def)
  show ?thesis
    using assms unfolding process_reinitialization_def
    by (auto intro!: run_to_mono [OF retries] split: outcome.splits
        simp: device_step_def device_ok_def health_of_def clear_reinitialize_pending_def Suc_le_eq)
qed

lemma process_device_step:
  assumes "i < length (active s)" and "1 \<le> read_failure_threshold w"
  shows "run_to (process_device i) w s (\<lambda>r t. active t = (active s)[i := active t ! i] \<and> failed t = failed s
           \<and> device_step (read_failure_threshold w) (active s ! i) r (active t ! i))"
proof -
  let ?u = "s\<lparr>dm_trace := dm_trace s @ [Refresh]\<rparr>"
  have "run_to (if reinitialize_pending (active s ! i) then process_reinitialization i else process_normal_read i) w ?u
      (\<lambda>r t. active t = (active s)[i := active t ! i] \<and> failed t = failed s
           \<and> device_step (read_failure_threshold w) (active s ! i) r (active t ! i))"
    using reinitialization_step [of i ?u w] normal_read_step [of i ?u w] assms by simp
  then show ?thesis by (simp add: process_device_def)
qed

subsection \<open>Every configured device is accounted for once\<close>

definition failed_ok :: "failed_info \<Rightarrow> bool" where
  "failed_ok f \<longleftrightarrow> f_state f = Initialization_failed"

definition accounts :: "string list \<Rightarrow> nat \<Rightarrow> dm \<Rightarrow> bool" where
  "accounts ids threshold s \<longleftrightarrow>
     distinct (map device_id (active s) @ map fst (failed s))
   \<and> set (map device_id (active s) @ map fst (failed s)) = set ids
   \<and> list_all (device_ok threshold) (active s) \<and> list_all (failed_ok \<circ> snd) (failed s)"

lemma accounts_same: "same_devices s t \<Longrightarrow> accounts ids T t = accounts ids T s"
  by (simp add: accounts_def same_devices_def)

lemma accounts_update:
  assumes "accounts ids T s" and "i < length (active s)" and "active t = (active s)[i := active t ! i]"
    and "failed t = failed s" and "device_step T (active s ! i) r (active t ! i)"
  shows "accounts ids T t"
proof -
  have id: "device_id (active t ! i) = device_id (active s ! i)" and ok: "device_ok T (active t ! i)"
    using assms(1,2,5) by (auto simp: device_step_def accounts_def list_all_length)
  have "map device_id (active t) = map device_id (active s)"
    by (subst assms(3), simp only: map_update id) (simp only: map_update [symmetric] list_update_id)
  moreover have "list_all (device_ok T) (active t)"
    using assms(1) ok by (subst assms(3)) (auto simp: accounts_def list_all_iff dest!: set_update_subset_insert [THEN subsetD])
  ultimately show ?thesis using assms(1,4) by (simp add: accounts_def)
qed

lemma put_failed_fresh: "k \<notin> fst ` set fs \<Longrightarrow> put_failed k v fs = fs @ [(k, v)]"
  by (induction k v fs rule: put_failed.induct) auto

lemma managed_init_ok: "1 \<le> T \<Longrightarrow> 1 \<le> a \<Longrightarrow> device_ok T (managed_device_init d a)"
  by (simp add: device_ok_def managed_device_init_def)

lemma managed_init_id [simp]: "device_id (managed_device_init d a) = d_id d"
  by (simp add: managed_device_init_def)

lemma insert_name:
  "distinct (as @ bs) \<Longrightarrow> set (as @ bs) = set ids \<Longrightarrow> k \<notin> set ids \<Longrightarrow>
   distinct (as @ k # bs) \<and> set (as @ k # bs) = set (k # ids)"
  by (simp, blast)

lemma accounts_add_active:
  assumes "accounts ids T s" and "d_id d \<notin> set ids" and "1 \<le> T" "1 \<le> a"
    and "active t = active s @ [managed_device_init d a]" "failed t = failed s"
  shows "accounts (d_id d # ids) T t"
  using assms insert_name [of "map device_id (active s)" "map fst (failed s)" ids "d_id d"]
  unfolding accounts_def by (simp add: managed_init_ok)

lemma accounts_add_failed:
  assumes "accounts ids T s" and "d_id d \<notin> set ids"
    and "failed t = put_failed (d_id d) f (failed s)" "active t = active s" and "failed_ok f"
  shows "accounts (d_id d # ids) T t"
proof -
  have "d_id d \<notin> fst ` set (failed s)" using assms(1,2) by (auto simp: accounts_def)
  then have "failed t = failed s @ [(d_id d, f)]" by (simp add: assms(3) put_failed_fresh)
  with assms(1,2,4,5) insert_name [of "map device_id (active s) @ map fst (failed s)" "[]" ids "d_id d"]
  show ?thesis unfolding accounts_def by simp
qed

lemma single_accounts:
  assumes "accounts ids T s" and "d_id d \<notin> set ids" and "1 \<le> T"
  shows "run_to (initialize_single_device d) w s (\<lambda>r t. r \<noteq> Cut
     \<and> (\<forall>ok. r = Return ok \<longrightarrow> accounts (d_id d # ids) T t
           \<and> length (active t) = length (active s) + (if ok then 1 else 0)))"
proof -
  have retries: "run_to (initialize_driver_with_retries i) w u (\<lambda>r t. active t = active u \<and> failed t = failed u
      \<and> (case r of Return (u, ok, err) \<Rightarrow> ok \<longrightarrow> 1 \<le> u | Raise x \<Rightarrow> True | Cut \<Rightarrow> False))" for i u
    by (rule run_to_mono [OF retries_run]) (auto simp: same_devices_def split: outcome.splits)
  show ?thesis
    unfolding initialize_single_device_def create_driver_def record_failure_of_def record_success_def
    by (auto intro!: run_to_mono [OF retries] split: option.splits outcome.splits prod.splits
        intro: accounts_add_active [OF assms] accounts_add_failed [OF assms(1,2)] simp: failed_ok_def)
qed

lemma initialize_each_accounts:
  assumes "accounts ids T s" and "distinct (map d_id ds)" and "set (map d_id ds) \<inter> set ids = {}" and "1 \<le> T"
  shows "run_to (initialize_each ds n) w s (\<lambda>r t. r \<noteq> Cut
     \<and> (\<forall>m. r = Return m \<longrightarrow> accounts (rev (map d_id ds) @ ids) T t
           \<and> m + length (active s) = n + length (active t)))"
  using assms
proof (induction ds arbitrary: s n ids)
  case (Cons d ds)
  let ?u = "s\<lparr>dm_trace := dm_trace s @ [Refresh]\<rparr>"
  have u: "accounts ids T ?u" using Cons.prems(1) by (simp add: accounts_def)
  have first: "run_to (initialize_single_device d) w ?u (\<lambda>r t. r \<noteq> Cut
     \<and> (\<forall>ok. r = Return ok \<longrightarrow> accounts (d_id d # ids) T t
           \<and> length (active t) = length (active s) + (if ok then 1 else 0)))"
    using single_accounts [OF u, of d w] Cons.prems by simp
  show ?case
    unfolding initialize_each.simps run_to_bind [of refresh_activity] run_to_refresh outcome.case
  proof (rule run_to_bindI [OF first])
    fix ok t
    assume t: "Return ok \<noteq> Cut \<and> (\<forall>ok'. Return ok = Return ok' \<longrightarrow> accounts (d_id d # ids) T t
           \<and> length (active t) = length (active s) + (if ok' then 1 else 0))"
    then have a: "accounts (d_id d # ids) T t" by simp
    show "run_to (initialize_each ds (if ok then n + 1 else n)) w t (\<lambda>r t. r \<noteq> Cut
     \<and> (\<forall>m. r = Return m \<longrightarrow> accounts (rev (map d_id (d # ds)) @ ids) T t
           \<and> m + length (active s) = n + length (active t)))"
      by (rule run_to_mono [OF Cons.IH [OF a]]) (use Cons.prems t in \<open>auto split: if_splits\<close>)
  qed simp_all
qed simp

lemma move_name:
  "distinct (as @ bs) \<Longrightarrow> k \<in> set bs \<Longrightarrow>
   distinct (as @ k # filter (\<lambda>x. x \<noteq> k) bs) \<and> set (as @ k # filter (\<lambda>x. x \<noteq> k) bs) = set (as @ bs)"
  by auto

lemma accounts_move:
  assumes "accounts ids T s" and "d_id d \<in> fst ` set (failed s)" and "1 \<le> T" "1 \<le> a"
    and "active t = active s @ [managed_device_init d a]" "failed t = filter (\<lambda>(k, v). k \<noteq> d_id d) (failed s)"
  shows "accounts ids T t"
proof -
  have names: "map fst (filter (\<lambda>(k, v). k \<noteq> d_id d) (failed s)) = filter (\<lambda>k. k \<noteq> d_id d) (map fst (failed s))"
    by (simp add: filter_map comp_def split_def)
  have "list_all (failed_ok \<circ> snd) (filter (\<lambda>(k, v). k \<noteq> d_id d) (failed s))"
    using assms(1) by (auto simp: accounts_def list_all_iff)
  then show ?thesis
    using assms move_name [of "map device_id (active s)" "map fst (failed s)" "d_id d"]
    unfolding accounts_def by (simp add: managed_init_ok names)
qed

lemma update_failed_accounts:
  assumes "accounts ids T s" and "\<And>v. f_state (f v) = f_state v"
  shows "accounts ids T (s\<lparr>failed := map (\<lambda>(k', v). (k', if k' = k then f v else v)) (failed s)\<rparr>)"
proof -
  have "map fst (map (\<lambda>(k', v). (k', if k' = k then f v else v)) fs) = map fst fs" for fs :: "(string \<times> failed_info) list"
    by (induction fs) auto
  moreover have "list_all (failed_ok \<circ> snd) (map (\<lambda>(k', v). (k', if k' = k then f v else v)) (failed s))"
    using assms by (auto simp: accounts_def failed_ok_def list_all_iff)
  ultimately show ?thesis using assms(1) by (simp add: accounts_def del: map_map)
qed

lemma result_accounts:
  "accounts ids T s \<Longrightarrow> run_to (late_retry_failure_result d e) w s (\<lambda>r t. accounts ids T t)"
  by (auto simp: late_retry_failure_result_def update_failed_def intro!: update_failed_accounts)

lemma update_then_result_accounts:
  assumes "accounts ids T s" and "\<And>v. f_state (f v) = f_state v"
  shows "run_to (io_bind (update_failed k f) (\<lambda>_. late_retry_failure_result d e)) w s (\<lambda>r t. accounts ids T t)"
  unfolding run_to_bind update_failed_def run_to_set outcome.case
  by (intro result_accounts update_failed_accounts assms)

lemma retry_accounts:
  assumes "accounts ids T s" and "map_of (failed s) (d_id d) = Some info" and "1 \<le> T"
  shows "run_to (retry_failed_device d info) w s (\<lambda>r t. accounts ids T t)"
proof -
  have failed: "d_id d \<in> fst ` set (failed s)" using assms(2) by (force dest: map_of_SomeD)
  have create: "run_to (io_bind refresh_activity (\<lambda>_. create_driver d)) w s (\<lambda>r t. same_devices s t)"
    by (auto simp: create_driver_def split: option.splits)
  have init: "run_to (catch_os_error (driver_initialize k)) w u (\<lambda>r t. same_devices s t)" if "same_devices s u" for k u
    using that by (auto simp: catch_os_error_def driver_initialize_def split: option.splits)
  have same: "accounts ids T u" if "same_devices s u" for u
    using that assms(1) by (simp add: accounts_same)
  have promote: "accounts ids T (u\<lparr>active := active u @ [managed_device_init d (Suc (f_attempts info))],
      failed := filter (\<lambda>(k, v). k \<noteq> d_id d) (failed u)\<rparr>)" if "same_devices s u" for u
    by (rule accounts_move [OF assms(1) failed assms(3)]) (use that in \<open>auto simp: same_devices_def\<close>)
  show ?thesis
    unfolding retry_failed_device_def io_bind_assoc [of refresh_activity, symmetric]
    apply (rule run_to_bindI [OF create])
      apply (simp split: option.splits del: run_to_bind)
      apply (intro conjI impI allI)
       apply (rule run_to_bindI [OF init], assumption)
         apply (simp add: update_then_result_accounts same split: option.splits del: run_to_bind)
         apply (simp add: promote)
        apply (simp_all add: same update_then_result_accounts del: run_to_bind)
    done
qed

lemma retry_each_accounts:
  assumes "accounts ids T s" and "1 \<le> T"
  shows "run_to (retry_each ds rs) w s (\<lambda>r t. accounts ids T t)"
  using assms
proof (induction ds arbitrary: s rs)
  case (Cons d ds)
  have first: "run_to (retry_failed_device d info) w s (\<lambda>r t. accounts ids T t)"
    if "map_of (failed s) (d_id d) = Some info" for info
    by (rule retry_accounts [OF Cons.prems(1) that Cons.prems(2)])
  show ?case
    using Cons.prems
    by (auto split: option.splits outcome.splits intro!: Cons.IH run_to_mono [OF first])
qed simp

subsection \<open>Reachable managers\<close>

text \<open>
  A boot, then passes over active devices and late retries, in any order and with any
  outcome, exceptions included.
\<close>

definition fresh_manager :: "uptime_state option \<Rightarrow> dm" where
  "fresh_manager u = \<lparr>active = [], failed = [], dm_uptime = u, dm_clock = 0, dm_trace = []\<rparr>"

inductive dm_reachable :: "dm_world \<Rightarrow> dm \<Rightarrow> bool" for w where
  boot: "initialize_devices w (fresh_manager u) = (Return n, t) \<Longrightarrow> dm_reachable w t"
| process: "dm_reachable w s \<Longrightarrow> i < length (active s) \<Longrightarrow> process_device i w s = (r, t) \<Longrightarrow> dm_reachable w t"
| retry: "dm_reachable w s \<Longrightarrow> retry_failed_devices w s = (r, t) \<Longrightarrow> dm_reachable w t"

definition valid_manager_config :: "dm_world \<Rightarrow> bool" where
  "valid_manager_config w \<longleftrightarrow> distinct (map d_id (dm_devices w)) \<and> 1 \<le> read_failure_threshold w
     \<and> 1 \<le> initialization_attempts w"

lemma reachable_accounts:
  assumes "dm_reachable w s" and "valid_manager_config w"
  shows "accounts (map d_id (dm_devices w)) (read_failure_threshold w) s"
  using assms
proof (induction rule: dm_reachable.induct)
  case (boot u n t)
  let ?T = "read_failure_threshold w"
  have "accounts [] ?T (fresh_manager u)" by (simp add: accounts_def fresh_manager_def)
  then have "run_to (initialize_each (dm_devices w) 0) w (fresh_manager u) (\<lambda>r t. r \<noteq> Cut \<and>
      (\<forall>m. r = Return m \<longrightarrow> accounts (rev (map d_id (dm_devices w)) @ []) ?T t
         \<and> m + length (active (fresh_manager u)) = 0 + length (active t)))"
    by (rule initialize_each_accounts) (use boot.prems in \<open>auto simp: valid_manager_config_def\<close>)
  with boot.hyps have "accounts (rev (map d_id (dm_devices w))) ?T t"
    by (simp add: run_to_def initialize_devices_def io_ask_def)
  then show ?case by (simp add: accounts_def)
next
  case (process s i r t)
  then have a: "accounts (map d_id (dm_devices w)) (read_failure_threshold w) s" and T: "1 \<le> read_failure_threshold w"
    by (simp_all add: valid_manager_config_def)
  from run_toD [OF process_device_step [OF process.hyps(2) T] process.hyps(3)]
  show ?case by (intro accounts_update [OF a process.hyps(2)]) auto
next
  case (retry s r t)
  then have a: "accounts (map d_id (dm_devices w)) (read_failure_threshold w) s" and T: "1 \<le> read_failure_threshold w"
    by (simp_all add: valid_manager_config_def)
  have "run_to retry_failed_devices w s (\<lambda>r t. accounts (map d_id (dm_devices w)) (read_failure_threshold w) t)"
    by (simp add: retry_failed_devices_def retry_each_accounts [OF a T])
  with retry.hyps(2) show ?case by (simp add: run_to_def)
qed

text \<open>
  C28: Every configured device is accounted for exactly once, active or failed, in every
  reachable manager: none is lost by a retry and none is listed twice. Its counters are
  consistent, a device below the failure threshold is ready, and one at it waits for a
  reinitialization.
\<close>

theorem devices_accounted:
  assumes "dm_reachable w s" and "valid_manager_config w"
  shows "accounts (map d_id (dm_devices w)) (read_failure_threshold w) s"
  by (rule reachable_accounts [OF assms])

text \<open>
  C29: The manager refines the health machine. Processing a device takes exactly one step of
  it on that device and touches no other: a good read clears the failures, a failed one
  counts, the threshold takes the device down, a device that is down is only reinitialized,
  and telemetry is handed on only if it is a JSON-safe, non-empty dictionary. Any other
  exception of a driver escapes and leaves the health as it was.
\<close>

theorem process_refines_health:
  assumes "i < length (active s)" and "1 \<le> read_failure_threshold w" and "process_device i w s = (r, t)"
  shows "active t = (active s)[i := active t ! i] \<and> failed t = failed s
       \<and> health_step (read_failure_threshold w) (health_of (active s ! i)) (event_of r) (health_of (active t ! i))
       \<and> (\<forall>j d n v b k. r = Return (Telemetry j d n v b k) \<longrightarrow> j = device_id (active s ! i) \<and> telemetry_ok v)"
  using run_toD [OF process_device_step [OF assms(1,2)] assms(3)] by (auto simp: device_step_def)

text \<open>
  C30: The liveness stamp follows progress. In every run of the boot, of a pass over a device
  and of the late retries, at most one driver operation and at most 100 ms of sleep lie
  between two refreshes of the stamp; only a driver call that hangs lets it age.
\<close>

theorem stamp_follows_progress:
  "run_to initialize_devices w s (\<lambda>r t. acts (paced 2) s t)
   \<and> run_to (process_device i) w s (\<lambda>r t. acts (paced 2) s t)
   \<and> run_to retry_failed_devices w s (\<lambda>r t. acts (paced 2) s t)"
  by (simp add: performsD [OF paced_initialize_devices] performsD [OF paced_process]
      performsD [OF paced_retry_each] retry_failed_devices_def)

subsection \<open>The order of the active list\<close>

text \<open>
  \<open>get_active_devices\<close> promises the configuration order with a membership fixed after the
  boot; a device recovered by a late retry is appended at the end.
\<close>

definition demo_devices :: "device_def list" where
  "demo_devices = [\<lparr>d_id = ''a'', d_type = ''bme280'', d_name = PNone\<rparr>, \<lparr>d_id = ''b'', d_type = ''sht35'', d_name = PNone\<rparr>]"

definition demo_manager_world :: dm_world where
  "demo_manager_world = \<lparr>dm_devices = demo_devices, initialization_attempts = 1, retry_delay_ms = 250,
     read_failure_threshold = 2, dm_ticks_at = \<lambda>n. int n, create_at = \<lambda>n. None,
     initialize_at = \<lambda>n. if n = 1 then Some OSError else None, read_at = \<lambda>n. Inl OSError\<rparr>"

definition demo_booted :: dm where
  "demo_booted = snd (initialize_devices demo_manager_world (fresh_manager None))"

lemma demo_boot: "initialize_devices demo_manager_world (fresh_manager None) = (Return 1, demo_booted)"
  by (simp add: prod_eq_iff demo_booted_def) code_simp

lemma demo_retried:
  "map device_id (active demo_booted) = [''b''] \<and>
   map device_id (active (snd (retry_failed_devices demo_manager_world demo_booted))) = [''b'', ''a'']"
  by code_simp

subsection \<open>Witnesses\<close>

lemma demo_manager_config: "valid_manager_config demo_manager_world"
  by code_simp

lemma devices_accounted_witness:
  "accounts [''a'', ''b''] 2 (snd (retry_failed_devices demo_manager_world demo_booted))"
proof -
  have "dm_reachable demo_manager_world demo_booted" using demo_boot by (rule dm_reachable.boot)
  from dm_reachable.retry [OF this prod.collapse [symmetric]]
  have "dm_reachable demo_manager_world (snd (retry_failed_devices demo_manager_world demo_booted))" .
  from devices_accounted [OF this demo_manager_config] show ?thesis
    by (simp add: demo_manager_world_def demo_devices_def)
qed

lemma process_refines_health_witness:
  "health_step 2 (health_of (active demo_booted ! 0)) Read_error
     (health_of (active (snd (process_device 0 demo_manager_world demo_booted)) ! 0))"
proof -
  have "0 < length (active demo_booted)" "1 \<le> read_failure_threshold demo_manager_world"
    "event_of (fst (process_device 0 demo_manager_world demo_booted)) = Read_error" by code_simp+
  with process_refines_health [of 0 demo_booted demo_manager_world
      "fst (process_device 0 demo_manager_world demo_booted)" "snd (process_device 0 demo_manager_world demo_booted)"]
  show ?thesis by (simp add: demo_manager_world_def [THEN arg_cong [where f = read_failure_threshold]])
qed

end
