(* ===== verification/I2cSensors.thy ===== *)
theory I2cSensors
  imports DeviceValidation Ticks "HOL-Library.Word"
begin

section \<open>The I2C sensors\<close>

text \<open>
  The drivers \<open>sht35_device.py\<close>, \<open>ltr390_device.py\<close> and \<open>bme280_device.py\<close>: detection and
  bring-up, the measurement cycles, the decoding of the raw bytes, and the adapters that
  validate the configuration and apply the user offsets. The bus is what the environment
  answers to each transfer. Physical values are computed exactly, over the rationals; the
  rounding of the port's floats is not modelled.
\<close>

unbundle bit_operations_syntax

subsection \<open>The bus\<close>

text \<open>
  A transfer fails with an exception of the port, or fills the buffer. \<open>transfers\<close> records
  what went over the bus: writes and reads with their address, and the sleeps between.
\<close>

record i2c_world =
  fills_at :: "nat \<Rightarrow> exc + (nat \<Rightarrow> 8 word)"
  write_fault_at :: "nat \<Rightarrow> exc option"
  i2c_ticks_at :: "nat \<Rightarrow> int"

datatype transfer = Wrote int "8 word list" | Filled int "8 word option" nat | Waited int

record i2c_bus =
  i2c_clock :: nat
  transfers :: "transfer list"

type_synonym ('s, 'a) drv = "(i2c_world, 's i2c_bus_scheme, 'a) prog"

definition i2c_sense :: "(i2c_world \<Rightarrow> nat \<Rightarrow> 'x) \<Rightarrow> ('s, 'x) drv" where
  "i2c_sense f w s = (Return (f w (i2c_clock s)), s\<lparr>i2c_clock := Suc (i2c_clock s)\<rparr>)"

definition over_bus :: "transfer \<Rightarrow> ('s, unit) drv" where
  "over_bus t = io_set (\<lambda>s. s\<lparr>transfers := transfers s @ [t]\<rparr>)"

text \<open>\<open>writeto\<close> and \<open>writeto_mem\<close> (the register is the first byte on the wire).\<close>

definition bus_write :: "int \<Rightarrow> 8 word list \<Rightarrow> ('s, unit) drv" where
  "bus_write address bytes =
     io_bind (over_bus (Wrote address bytes)) (\<lambda>_. io_bind (i2c_sense write_fault_at) (\<lambda>fault.
       case fault of None \<Rightarrow> io_return () | Some e \<Rightarrow> io_raise e))"

text \<open>\<open>readfrom_into\<close> and \<open>readfrom_mem_into\<close> a buffer of \<open>n\<close> bytes.\<close>

definition bus_read :: "int \<Rightarrow> 8 word option \<Rightarrow> nat \<Rightarrow> ('s, 8 word list) drv" where
  "bus_read address register n =
     io_bind (over_bus (Filled address register n)) (\<lambda>_. io_bind (i2c_sense fills_at) (\<lambda>r.
       case r of Inl e \<Rightarrow> io_raise e | Inr f \<Rightarrow> io_return (map f [0..<n])))"

definition bus_sleep :: "int \<Rightarrow> ('s, unit) drv" where
  "bus_sleep ms = over_bus (Waited ms)"

text \<open>\<open>except OSError\<close> in a detection loop: the candidate failed.\<close>

definition candidate_fails :: "('s, bool) drv \<Rightarrow> ('s, bool) drv" where
  "candidate_fails m = io_try m (\<lambda>e. if e = OSError then io_return False else io_raise e)"

text \<open>
  The drivers' bounded poll: read the status, give up when the timeout has passed, else sleep
  and poll again. The loop is cut after \<open>polls\<close> rounds and then answers False; \<open>poll_ends\<close>
  below bounds the rounds it needs.
\<close>

fun poll_from :: "('s, bool) drv \<Rightarrow> int \<Rightarrow> int \<Rightarrow> int \<Rightarrow> nat \<Rightarrow> ('s, bool) drv" where
  "poll_from ready step_ms timeout_ms start 0 = io_return False"
| "poll_from ready step_ms timeout_ms start (Suc polls) =
     io_bind ready (\<lambda>ended.
       if ended then io_return True
       else io_bind (i2c_sense i2c_ticks_at) (\<lambda>now.
            if ticks_diff now start \<ge> timeout_ms then io_raise OSError
            else io_bind (bus_sleep step_ms) (\<lambda>_. poll_from ready step_ms timeout_ms start polls)))"

text \<open>The numbers of an \<open>offsets\<close> object, and \<open>tuple(...)\<close> of the configured candidates.\<close>

definition offset_of :: "pyval \<Rightarrow> string \<Rightarrow> rat res" where
  "offset_of offsets key =
     (case offsets of
        PDict d \<Rightarrow> Inr (number_of (dget_or d key (PInt 0)))
      | _ \<Rightarrow> Inl AttributeError)"

definition candidates_of :: "pydict \<Rightarrow> int list \<Rightarrow> int list res" where
  "candidates_of config fallback =
     (case dget config ''i2c_address_candidates'' of
        None \<Rightarrow> Inr fallback
      | Some (PList xs) \<Rightarrow> Inr (map the_int xs)
      | Some v \<Rightarrow> Inl TypeError)"

definition config_offsets :: "pydict \<Rightarrow> pyval" where
  "config_offsets config = dget_or config ''offsets'' (PDict [])"

definition word_be :: "8 word \<Rightarrow> 8 word \<Rightarrow> nat" where
  "word_be hi lo = push_bit 8 (unat hi) OR unat lo"

subsection \<open>SHT35\<close>

definition CMD_BREAK :: nat where "CMD_BREAK = 0x3093"
definition CMD_HEATER_OFF :: nat where "CMD_HEATER_OFF = 0x3066"
definition CMD_SERIAL_NUMBER :: nat where "CMD_SERIAL_NUMBER = 0x3682"

definition SINGLE_SHOT :: "string \<Rightarrow> (nat \<times> int) option" where
  "SINGLE_SHOT = map_of [(''high'', (0x2400, 16)), (''medium'', (0x240B, 7)), (''low'', (0x2416, 5))]"

record sht35 = i2c_bus +
  sht35_address :: int
  sht35_serial :: "nat option"

type_synonym 'a sht = "(i2c_world, sht35, 'a) prog"

text \<open>The Sensirion CRC-8: eight shifts per byte, the polynomial \<open>0x31\<close>, the initial value \<open>0xFF\<close>.\<close>

definition crc_step :: "8 word \<Rightarrow> 8 word" where
  "crc_step crc = (if crc AND 0x80 \<noteq> 0 then push_bit 1 crc XOR 0x31 else push_bit 1 crc)"

definition crc8_from :: "8 word \<Rightarrow> 8 word list \<Rightarrow> 8 word" where
  "crc8_from init bytes = foldl (\<lambda>crc b. (crc_step ^^ 8) (crc XOR b)) init bytes"

definition crc8 :: "8 word list \<Rightarrow> nat \<Rightarrow> nat \<Rightarrow> 8 word" where
  "crc8 bytes offset n = crc8_from 0xFF (take n (drop offset bytes))"

definition convert_temperature_c :: "nat \<Rightarrow> rat" where
  "convert_temperature_c raw = - 45 + 175 * of_nat raw / 65535"

definition convert_humidity_percent :: "nat \<Rightarrow> rat" where
  "convert_humidity_percent raw = 100 * of_nat raw / 65535"

definition sht35_command :: "nat \<Rightarrow> unit sht" where
  "sht35_command command =
     io_bind (io_get sht35_address) (\<lambda>a. bus_write a [of_nat (command div 256), of_nat command])"

definition sht35_read6 :: "8 word list sht" where
  "sht35_read6 = io_bind (io_get sht35_address) (\<lambda>a. bus_read a None 6)"

definition verify_word_crc :: "8 word list \<Rightarrow> nat \<Rightarrow> unit sht" where
  "verify_word_crc bytes offset =
     (if crc8 bytes offset 2 \<noteq> bytes ! (offset + 2) then io_raise OSError else io_return ())"

definition serial_number :: "unit sht" where
  "serial_number =
     io_bind (sht35_command CMD_SERIAL_NUMBER) (\<lambda>_.
     io_bind (bus_sleep 1) (\<lambda>_.
     io_bind sht35_read6 (\<lambda>d.
     io_bind (verify_word_crc d 0) (\<lambda>_.
     io_bind (verify_word_crc d 3) (\<lambda>_.
     io_set (\<lambda>s. s\<lparr>sht35_serial :=
        Some (push_bit 24 (unat (d ! 0)) OR push_bit 16 (unat (d ! 1)) OR push_bit 8 (unat (d ! 3)) OR unat (d ! 4))\<rparr>))))))"

fun sht35_detect :: "int list \<Rightarrow> unit sht" where
  "sht35_detect [] = io_raise OSError"
| "sht35_detect (address # rest) =
     io_bind (io_set (\<lambda>s. s\<lparr>sht35_address := address\<rparr>)) (\<lambda>_.
     io_bind (candidate_fails
       (io_bind (sht35_command CMD_BREAK) (\<lambda>_.
        io_bind (bus_sleep 1) (\<lambda>_.
        io_bind serial_number (\<lambda>_. io_return True))))) (\<lambda>found.
       if found then io_return () else sht35_detect rest))"

definition sht35_init :: "int list \<Rightarrow> unit sht" where
  "sht35_init candidates = io_bind (sht35_detect candidates) (\<lambda>_. sht35_command CMD_HEATER_OFF)"

definition sht35_measure :: "nat \<times> int \<Rightarrow> (rat \<times> rat) sht" where
  "sht35_measure shot =
     io_bind (sht35_command (fst shot)) (\<lambda>_.
     io_bind (bus_sleep (snd shot)) (\<lambda>_.
     io_bind sht35_read6 (\<lambda>d.
     io_bind (verify_word_crc d 0) (\<lambda>_.
     io_bind (verify_word_crc d 3) (\<lambda>_.
     io_return (convert_temperature_c (word_be (d ! 0) (d ! 1)),
                convert_humidity_percent (word_be (d ! 3) (d ! 4))))))))"

text \<open>The adapter: what \<open>initialize\<close> leaves for \<open>read\<close> are the offsets and the shot.\<close>

definition sht35_initialize :: "pyval \<Rightarrow> (rat \<times> rat \<times> (nat \<times> int)) sht" where
  "sht35_initialize v =
     io_bind (io_res (sht35_validate_config v)) (\<lambda>_.
     (let config = the_dict v in
      io_bind (io_res (candidates_of config SHT35_I2C_ADDRESSES)) (\<lambda>candidates.
      io_bind (io_res (offset_of (config_offsets config) ''temperature_c'')) (\<lambda>ot.
      io_bind (io_res (offset_of (config_offsets config) ''humidity_percent'')) (\<lambda>oh.
      io_bind (case SINGLE_SHOT (the_str (dget_or config ''repeatability'' (PStr ''high''))) of
                 None \<Rightarrow> io_raise KeyError | Some shot \<Rightarrow> io_return shot) (\<lambda>shot.
      io_bind (sht35_init candidates) (\<lambda>_. io_return (ot, oh, shot))))))))"

definition sht35_sample :: "(rat \<times> rat \<times> (nat \<times> int)) option \<Rightarrow> pydict sht" where
  "sht35_sample ready =
     (case ready of
        None \<Rightarrow> io_raise RuntimeError
      | Some (ot, oh, shot) \<Rightarrow>
          io_bind (sht35_measure shot) (\<lambda>(t, h). io_return
            [(PStr ''temperature_c'', PFloat (Finite (t + ot))),
             (PStr ''humidity_percent'', PFloat (Finite (h + oh)))]))"

subsection \<open>LTR390\<close>

definition REG_MAIN_CTRL :: "8 word" where "REG_MAIN_CTRL = 0x00"
definition REG_MEAS_RATE :: "8 word" where "REG_MEAS_RATE = 0x04"
definition REG_GAIN :: "8 word" where "REG_GAIN = 0x05"
definition REG_PART_ID :: "8 word" where "REG_PART_ID = 0x06"
definition REG_MAIN_STATUS :: "8 word" where "REG_MAIN_STATUS = 0x07"
definition REG_ALS_DATA :: "8 word" where "REG_ALS_DATA = 0x0D"
definition REG_UVS_DATA :: "8 word" where "REG_UVS_DATA = 0x10"
definition REG_INT_CFG :: "8 word" where "REG_INT_CFG = 0x19"

definition CTRL_STANDBY_ALS :: "8 word" where "CTRL_STANDBY_ALS = 0x00"
definition CTRL_ALS_ACTIVE :: "8 word" where "CTRL_ALS_ACTIVE = 0x02"
definition CTRL_STANDBY_UVS :: "8 word" where "CTRL_STANDBY_UVS = 0x08"
definition CTRL_UVS_ACTIVE :: "8 word" where "CTRL_UVS_ACTIVE = 0x0A"

definition GAIN_CODES :: "int \<Rightarrow> nat option" where
  "GAIN_CODES = map_of [(1, 0), (3, 1), (6, 2), (9, 3), (18, 4)]"
definition RESOLUTION_CODES :: "int \<Rightarrow> nat option" where
  "RESOLUTION_CODES = map_of [(20, 0), (19, 1), (18, 2), (17, 3), (16, 4), (13, 5)]"
definition RATE_CODES :: "int \<Rightarrow> nat option" where
  "RATE_CODES = map_of [(25, 0), (50, 1), (100, 2), (200, 3), (500, 4), (1000, 5), (2000, 6)]"

definition GAIN_FACTORS :: "rat list" where "GAIN_FACTORS = [1, 3, 6, 9, 18]"
definition INTEGRATION_FACTORS :: "rat list" where
  "INTEGRATION_FACTORS = [4, 2, 1, 1 / 2, 1 / 4, 1 / 32]"
definition CONVERSION_TIME_MS :: "rat list" where
  "CONVERSION_TIME_MS = [400, 200, 100, 50, 25, 25 / 2]"

definition LTR_ADDRESS :: int where "LTR_ADDRESS = 0x53"
definition READY_POLL_MS :: int where "READY_POLL_MS = 5"

definition decode_raw20 :: "8 word list \<Rightarrow> nat" where
  "decode_raw20 d =
     unat (d ! 0) OR push_bit 8 (unat (d ! 1)) OR push_bit 16 (unat (d ! 2 AND 0x0F))"

text \<open>\<open>int(10 + t + 50)\<close>.\<close>

definition data_ready_timeout_ms :: "nat \<Rightarrow> int" where
  "data_ready_timeout_ms code = \<lfloor>10 + CONVERSION_TIME_MS ! code + 50\<rfloor>"

record ltr_setup =
  gain_code :: nat
  resolution_code :: nat
  rate_code :: nat
  window_factor :: rat

definition i2c_u8 :: "int \<Rightarrow> 8 word \<Rightarrow> ('s, 8 word) drv" where
  "i2c_u8 address register = io_bind (bus_read address (Some register) 1) (\<lambda>d. io_return (d ! 0))"

definition i2c_put_u8 :: "int \<Rightarrow> 8 word \<Rightarrow> 8 word \<Rightarrow> ('s, unit) drv" where
  "i2c_put_u8 address register v = bus_write address [register, v]"

definition ltr_setup_of :: "int \<Rightarrow> int \<Rightarrow> int \<Rightarrow> rat \<Rightarrow> ltr_setup res" where
  "ltr_setup_of gain resolution_bits rate_ms window =
     (if window < 1 then Inl ValueError
      else case (GAIN_CODES gain, RESOLUTION_CODES resolution_bits, RATE_CODES rate_ms) of
             (Some g, Some r, Some m) \<Rightarrow>
               Inr \<lparr>gain_code = g, resolution_code = r, rate_code = m, window_factor = window\<rparr>
           | _ \<Rightarrow> Inl KeyError)"

definition ltr_detect :: "('s, unit) drv" where
  "ltr_detect =
     io_bind (i2c_u8 LTR_ADDRESS REG_PART_ID) (\<lambda>part_id.
       if drop_bit 4 part_id \<noteq> 0x0B then io_raise OSError else io_return ())"

definition read_raw20 :: "8 word \<Rightarrow> ('s, nat) drv" where
  "read_raw20 register = io_bind (bus_read LTR_ADDRESS (Some register) 3) (\<lambda>d. io_return (decode_raw20 d))"

definition clear_data_ready :: "('s, unit) drv" where
  "clear_data_ready =
     io_bind (i2c_put_u8 LTR_ADDRESS REG_MAIN_CTRL CTRL_STANDBY_ALS) (\<lambda>_.
     io_bind (read_raw20 REG_ALS_DATA) (\<lambda>_.
     io_bind (i2c_put_u8 LTR_ADDRESS REG_MAIN_CTRL CTRL_STANDBY_UVS) (\<lambda>_.
     io_bind (read_raw20 REG_UVS_DATA) (\<lambda>_. io_return ()))))"

definition ltr_init :: "ltr_setup \<Rightarrow> ('s, unit) drv" where
  "ltr_init c =
     io_bind ltr_detect (\<lambda>_.
     io_bind clear_data_ready (\<lambda>_.
     io_bind (i2c_put_u8 LTR_ADDRESS REG_MAIN_CTRL CTRL_STANDBY_ALS) (\<lambda>_.
     io_bind (i2c_put_u8 LTR_ADDRESS REG_MEAS_RATE (of_nat (push_bit 4 (resolution_code c) OR rate_code c))) (\<lambda>_.
     io_bind (i2c_put_u8 LTR_ADDRESS REG_GAIN (of_nat (gain_code c))) (\<lambda>_.
     i2c_put_u8 LTR_ADDRESS REG_INT_CFG 0x00)))))"

definition wait_for_data_ready :: "int \<Rightarrow> nat \<Rightarrow> ('s, bool) drv" where
  "wait_for_data_ready timeout_ms polls =
     io_bind (i2c_sense i2c_ticks_at) (\<lambda>start.
     poll_from (io_bind (i2c_u8 LTR_ADDRESS REG_MAIN_STATUS) (\<lambda>status. io_return (status AND 0x08 \<noteq> 0)))
       READY_POLL_MS timeout_ms start polls)"

definition read_channel :: "nat \<Rightarrow> int \<Rightarrow> 8 word \<Rightarrow> 8 word \<Rightarrow> ('s, nat option) drv" where
  "read_channel polls timeout_ms ctrl register =
     io_bind (i2c_put_u8 LTR_ADDRESS REG_MAIN_CTRL ctrl) (\<lambda>_.
     io_bind (wait_for_data_ready timeout_ms polls) (\<lambda>ended.
       if \<not> ended then io_return None
       else io_bind (read_raw20 register) (\<lambda>raw. io_return (Some raw))))"

definition calculate_lux :: "ltr_setup \<Rightarrow> nat \<Rightarrow> rat" where
  "calculate_lux c raw =
     6 / 10 * of_nat raw / (GAIN_FACTORS ! gain_code c * INTEGRATION_FACTORS ! resolution_code c) * window_factor c"

definition calculate_uvi :: "ltr_setup \<Rightarrow> nat \<Rightarrow> rat option" where
  "calculate_uvi c raw =
     (let counts_per_uvi = 1400 * (GAIN_FACTORS ! gain_code c / 18) * (INTEGRATION_FACTORS ! resolution_code c / 4)
      in if counts_per_uvi \<le> 0 then None else Some (of_nat raw / counts_per_uvi * window_factor c))"

text \<open>A measurement whose poll did not end within \<open>polls\<close> has the result \<open>None\<close>.\<close>

definition ltr_measure :: "nat \<Rightarrow> ltr_setup \<Rightarrow> ('s, (nat \<times> nat \<times> rat \<times> rat) option) drv" where
  "ltr_measure polls c =
     (let timeout = data_ready_timeout_ms (resolution_code c) in
      io_bind (read_channel polls timeout CTRL_ALS_ACTIVE REG_ALS_DATA) (\<lambda>als.
      case als of None \<Rightarrow> io_return None | Some als_raw \<Rightarrow>
      io_bind (read_channel polls timeout CTRL_UVS_ACTIVE REG_UVS_DATA) (\<lambda>uv.
      case uv of None \<Rightarrow> io_return None | Some uv_raw \<Rightarrow>
      io_bind (i2c_put_u8 LTR_ADDRESS REG_MAIN_CTRL CTRL_STANDBY_ALS) (\<lambda>_.
      case calculate_uvi c uv_raw of
        None \<Rightarrow> io_raise ArithmeticError
      | Some uvi \<Rightarrow> io_return (Some (als_raw, uv_raw, calculate_lux c als_raw, uvi))))))"

text \<open>The adapter: the offsets and the operating point are what \<open>read\<close> uses.\<close>

definition ltr_initialize :: "pyval \<Rightarrow> ('s, rat \<times> rat \<times> ltr_setup) drv" where
  "ltr_initialize v =
     io_bind (io_res (ltr390_validate_config v)) (\<lambda>_.
     (let config = the_dict v in
      io_bind (io_res (offset_of (config_offsets config) ''lux'')) (\<lambda>ol.
      io_bind (io_res (offset_of (config_offsets config) ''uv_index'')) (\<lambda>ou.
      io_bind (io_res (ltr_setup_of (the_int (dget_or config ''gain'' (PInt 3)))
                 (the_int (dget_or config ''resolution_bits'' (PInt 18)))
                 (the_int (dget_or config ''measurement_rate_ms'' (PInt 200)))
                 (number_of (dget_or config ''window_factor'' (PFloat (Finite 1)))))) (\<lambda>c.
      io_bind (ltr_init c) (\<lambda>_. io_return (ol, ou, c)))))))"

definition ltr_sample :: "nat \<Rightarrow> (rat \<times> rat \<times> ltr_setup) option \<Rightarrow> ('s, pydict option) drv" where
  "ltr_sample polls ready =
     (case ready of
        None \<Rightarrow> io_raise RuntimeError
      | Some (ol, ou, c) \<Rightarrow>
          io_bind (ltr_measure polls c) (\<lambda>r. io_return (map_option (\<lambda>(als_raw, uv_raw, lux, uvi).
            [(PStr ''lux'', PFloat (Finite (lux + ol))),
             (PStr ''uv_index'', PFloat (Finite (uvi + ou))),
             (PStr ''als_raw'', PInt (int als_raw)),
             (PStr ''uv_raw'', PInt (int uv_raw))]) r)))"

subsection \<open>BME280\<close>

definition REG_CALIB_0 :: "8 word" where "REG_CALIB_0 = 0x88"
definition REG_CHIP_ID :: "8 word" where "REG_CHIP_ID = 0xD0"
definition REG_RESET :: "8 word" where "REG_RESET = 0xE0"
definition REG_CALIB_26 :: "8 word" where "REG_CALIB_26 = 0xE1"
definition REG_CTRL_HUM :: "8 word" where "REG_CTRL_HUM = 0xF2"
definition REG_STATUS :: "8 word" where "REG_STATUS = 0xF3"
definition REG_CTRL_MEAS :: "8 word" where "REG_CTRL_MEAS = 0xF4"
definition REG_CONFIG :: "8 word" where "REG_CONFIG = 0xF5"
definition REG_DATA :: "8 word" where "REG_DATA = 0xF7"

definition CHIP_ID :: "8 word" where "CHIP_ID = 0x60"
definition RESET_COMMAND :: "8 word" where "RESET_COMMAND = 0xB6"
definition MODE_SLEEP :: nat where "MODE_SLEEP = 0"
definition MODE_FORCED :: nat where "MODE_FORCED = 1"

definition OVERSAMPLING_MULTIPLIER :: "rat list" where
  "OVERSAMPLING_MULTIPLIER = [0, 1, 2, 4, 8, 16]"

definition SENTINEL_20 :: nat where "SENTINEL_20 = 0x80000"
definition SENTINEL_16 :: nat where "SENTINEL_16 = 0x8000"
definition NVM_WAIT_TIMEOUT_MS :: int where "NVM_WAIT_TIMEOUT_MS = 100"

text \<open>\<open>_u16_le\<close>, \<open>_s16_le\<close>, \<open>_s8\<close>, \<open>_s12\<close>.\<close>

definition u16_le :: "8 word list \<Rightarrow> nat \<Rightarrow> int" where
  "u16_le d i = uint (d ! i) OR push_bit 8 (uint (d ! (i + 1)))"

definition s16_le :: "8 word list \<Rightarrow> nat \<Rightarrow> int" where
  "s16_le d i = (let v = u16_le d i in if v AND 0x8000 \<noteq> 0 then v - 0x10000 else v)"

definition s8_of :: "int \<Rightarrow> int" where
  "s8_of v = (if v AND 0x80 \<noteq> 0 then v - 0x100 else v)"

definition s12_of :: "int \<Rightarrow> int" where
  "s12_of v = (if v AND 0x800 \<noteq> 0 then v - 0x1000 else v)"

definition clamp_humidity :: "rat \<Rightarrow> rat" where
  "clamp_humidity v = (if v > 100 then 100 else if v < 0 then 0 else v)"

record calibration =
  dig_t1 :: int   dig_t2 :: int   dig_t3 :: int
  dig_p1 :: int   dig_p2 :: int   dig_p3 :: int
  dig_p4 :: int   dig_p5 :: int   dig_p6 :: int
  dig_p7 :: int   dig_p8 :: int   dig_p9 :: int
  dig_h1 :: int   dig_h2 :: int   dig_h3 :: int
  dig_h4 :: int   dig_h5 :: int   dig_h6 :: int

definition calibration_zero :: calibration where
  "calibration_zero =
     \<lparr>dig_t1 = 0, dig_t2 = 0, dig_t3 = 0, dig_p1 = 0, dig_p2 = 0, dig_p3 = 0, dig_p4 = 0,
      dig_p5 = 0, dig_p6 = 0, dig_p7 = 0, dig_p8 = 0, dig_p9 = 0, dig_h1 = 0, dig_h2 = 0,
      dig_h3 = 0, dig_h4 = 0, dig_h5 = 0, dig_h6 = 0\<rparr>"

text \<open>The decode of the two calibration blocks; \<open>0xE5\<close> carries half of \<open>dig_H4\<close> and of \<open>dig_H5\<close>.\<close>

definition decode_calibration :: "8 word list \<Rightarrow> 8 word list \<Rightarrow> calibration" where
  "decode_calibration b1 b2 =
     (let e4 = uint (b2 ! 3); e5 = uint (b2 ! 4); e6 = uint (b2 ! 5) in
      \<lparr>dig_t1 = u16_le b1 0, dig_t2 = s16_le b1 2, dig_t3 = s16_le b1 4,
       dig_p1 = u16_le b1 6, dig_p2 = s16_le b1 8, dig_p3 = s16_le b1 10,
       dig_p4 = s16_le b1 12, dig_p5 = s16_le b1 14, dig_p6 = s16_le b1 16,
       dig_p7 = s16_le b1 18, dig_p8 = s16_le b1 20, dig_p9 = s16_le b1 22,
       dig_h1 = uint (b1 ! 25),
       dig_h2 = s16_le b2 0, dig_h3 = uint (b2 ! 2),
       dig_h4 = s12_of (push_bit 4 e4 OR (e5 AND 0x0F)),
       dig_h5 = s12_of (push_bit 4 e6 OR drop_bit 4 e5),
       dig_h6 = s8_of (uint (b2 ! 6))\<rparr>)"

record bme_setup =
  osrs_t :: nat
  osrs_p :: nat
  osrs_h :: nat
  filter_code :: nat

record bme280 = i2c_bus +
  bme_address :: int
  dig :: calibration
  t_fine :: int

type_synonym 'a bme = "(i2c_world, bme280, 'a) prog"

definition bme_u8 :: "8 word \<Rightarrow> 8 word bme" where
  "bme_u8 register = io_bind (io_get bme_address) (\<lambda>a. i2c_u8 a register)"

definition bme_put_u8 :: "8 word \<Rightarrow> 8 word \<Rightarrow> unit bme" where
  "bme_put_u8 register v = io_bind (io_get bme_address) (\<lambda>a. i2c_put_u8 a register v)"

fun bme_detect :: "int list \<Rightarrow> unit bme" where
  "bme_detect [] = io_raise OSError"
| "bme_detect (address # rest) =
     io_bind (io_set (\<lambda>s. s\<lparr>bme_address := address\<rparr>)) (\<lambda>_.
     io_bind (candidate_fails (io_bind (bme_u8 REG_CHIP_ID) (\<lambda>chip_id. io_return (chip_id = CHIP_ID)))) (\<lambda>found.
       if found then io_return () else bme_detect rest))"

definition bme_reset :: "unit bme" where
  "bme_reset = io_bind (bme_put_u8 REG_RESET RESET_COMMAND) (\<lambda>_. bus_sleep 2)"

definition wait_for_nvm :: "nat \<Rightarrow> bool bme" where
  "wait_for_nvm polls =
     io_bind (i2c_sense i2c_ticks_at) (\<lambda>start.
     poll_from (io_bind (bme_u8 REG_STATUS) (\<lambda>status. io_return (status AND 0x01 = 0)))
       2 NVM_WAIT_TIMEOUT_MS start polls)"

definition read_calibration :: "unit bme" where
  "read_calibration =
     io_bind (io_get bme_address) (\<lambda>a.
     io_bind (bus_read a (Some REG_CALIB_0) 26) (\<lambda>b1.
     io_bind (bus_read a (Some REG_CALIB_26) 7) (\<lambda>b2.
     io_set (\<lambda>s. s\<lparr>dig := decode_calibration b1 b2\<rparr>))))"

definition validate_calibration :: "unit bme" where
  "validate_calibration =
     io_bind (io_get dig) (\<lambda>c. if dig_p1 c = 0 then io_raise OSError else io_return ())"

definition ctrl_meas_value :: "bme_setup \<Rightarrow> nat \<Rightarrow> 8 word" where
  "ctrl_meas_value c mode = of_nat ((push_bit 5 (osrs_t c) OR push_bit 2 (osrs_p c) OR mode) AND 0xFF)"

definition bme_configure :: "bme_setup \<Rightarrow> nat \<Rightarrow> unit bme" where
  "bme_configure c mode =
     io_bind (bme_put_u8 REG_CTRL_HUM (of_nat (osrs_h c AND 0x07))) (\<lambda>_.
     io_bind (bme_put_u8 REG_CONFIG (of_nat (push_bit 2 (filter_code c) AND 0x3C))) (\<lambda>_.
     bme_put_u8 REG_CTRL_MEAS (ctrl_meas_value c mode)))"

text \<open>The answer is whether the NVM poll ended within \<open>polls\<close>.\<close>

definition bme_init :: "nat \<Rightarrow> int list \<Rightarrow> bme_setup \<Rightarrow> bool bme" where
  "bme_init polls candidates c =
     io_bind (bme_detect candidates) (\<lambda>_.
     io_bind bme_reset (\<lambda>_.
     io_bind (wait_for_nvm polls) (\<lambda>ended.
     if \<not> ended then io_return False
     else io_bind read_calibration (\<lambda>_.
          io_bind validate_calibration (\<lambda>_.
          io_bind (bme_configure c MODE_SLEEP) (\<lambda>_. io_return True))))))"

text \<open>The Bosch maximum conversion time; \<open>int(delay + 0.999) + 1\<close>.\<close>

definition channel_time :: "nat \<Rightarrow> rat" where
  "channel_time code = 23 / 10 * OVERSAMPLING_MULTIPLIER ! code"

definition measurement_time_ms :: "bme_setup \<Rightarrow> int" where
  "measurement_time_ms c =
     \<lfloor>5 / 4 + (if osrs_t c \<noteq> 0 then channel_time (osrs_t c) else 0)
       + (if osrs_p c \<noteq> 0 then channel_time (osrs_p c) + 575 / 1000 else 0)
       + (if osrs_h c \<noteq> 0 then channel_time (osrs_h c) + 575 / 1000 else 0) + 999 / 1000\<rfloor> + 1"

text \<open>\<open>int(x)\<close> of a float truncates towards zero.\<close>

definition py_trunc :: "rat \<Rightarrow> int" where
  "py_trunc x = (if x \<ge> 0 then \<lfloor>x\<rfloor> else \<lceil>x\<rceil>)"

definition temperature_sum :: "calibration \<Rightarrow> nat \<Rightarrow> rat" where
  "temperature_sum c adc_t =
     (let x = of_nat adc_t / 131072 - of_int (dig_t1 c) / 8192 in
      (of_nat adc_t / 16384 - of_int (dig_t1 c) / 1024) * of_int (dig_t2 c) + x * x * of_int (dig_t3 c))"

definition compensate_temperature :: "nat \<Rightarrow> rat bme" where
  "compensate_temperature adc_t =
     io_bind (io_get dig) (\<lambda>c.
     io_bind (io_set (\<lambda>s. s\<lparr>t_fine := py_trunc (temperature_sum c adc_t)\<rparr>)) (\<lambda>_.
     io_return (temperature_sum c adc_t / 5120)))"

text \<open>The divisor of the pressure equation, and the equation.\<close>

definition pressure_divisor :: "calibration \<Rightarrow> int \<Rightarrow> rat" where
  "pressure_divisor c t =
     (let v = of_int t / 2 - 64000;
          w = (of_int (dig_p3 c) * v * v / 524288 + of_int (dig_p2 c) * v) / 524288
      in (1 + w / 32768) * of_int (dig_p1 c))"

definition pressure_of :: "calibration \<Rightarrow> int \<Rightarrow> nat \<Rightarrow> rat res" where
  "pressure_of c t adc_p =
     (let v = of_int t / 2 - 64000;
          u = v * v * of_int (dig_p6 c) / 32768;
          u = u + v * of_int (dig_p5 c) * 2;
          u = u / 4 + of_int (dig_p4 c) * 65536
      in if pressure_divisor c t = 0 then Inl ArithmeticError
         else (let p = 1048576 - of_nat adc_p;
                   p = (p - u / 4096) * 6250 / pressure_divisor c t;
                   v = of_int (dig_p9 c) * p * p / 2147483648;
                   u = p * of_int (dig_p8 c) / 32768
               in Inr (p + (v + u + of_int (dig_p7 c)) / 16)))"

definition compensate_pressure :: "nat \<Rightarrow> rat bme" where
  "compensate_pressure adc_p =
     io_bind (io_get dig) (\<lambda>c. io_bind (io_get t_fine) (\<lambda>t. io_res (pressure_of c t adc_p)))"

definition humidity_of :: "calibration \<Rightarrow> int \<Rightarrow> nat \<Rightarrow> rat" where
  "humidity_of c t adc_h =
     (let h = of_int t - 76800;
          h = (of_nat adc_h - (of_int (dig_h4 c) * 64 + of_int (dig_h5 c) / 16384 * h))
              * (of_int (dig_h2 c) / 65536
                 * (1 + of_int (dig_h6 c) / 67108864 * h * (1 + of_int (dig_h3 c) / 67108864 * h)));
          h = h * (1 - of_int (dig_h1 c) * h / 524288)
      in clamp_humidity h)"

definition compensate_humidity :: "nat \<Rightarrow> rat bme" where
  "compensate_humidity adc_h =
     io_bind (io_get dig) (\<lambda>c. io_bind (io_get t_fine) (\<lambda>t. io_return (humidity_of c t adc_h)))"

definition adc20 :: "8 word list \<Rightarrow> nat \<Rightarrow> nat" where
  "adc20 d i = push_bit 12 (unat (d ! i)) OR push_bit 4 (unat (d ! (i + 1))) OR drop_bit 4 (unat (d ! (i + 2)))"

text \<open>A channel: skipped, or the compensation of its raw value.\<close>

definition channel :: "bool \<Rightarrow> 'a bme \<Rightarrow> 'a option bme" where
  "channel skipped m = (if skipped then io_return None else io_bind m (\<lambda>x. io_return (Some x)))"

definition bme_measure :: "bme_setup \<Rightarrow> (rat option \<times> rat option \<times> rat option) bme" where
  "bme_measure c =
     io_bind (bme_put_u8 REG_CTRL_MEAS (ctrl_meas_value c MODE_FORCED)) (\<lambda>_.
     io_bind (bus_sleep (measurement_time_ms c)) (\<lambda>_.
     io_bind (io_get bme_address) (\<lambda>a.
     io_bind (bus_read a (Some REG_DATA) 8) (\<lambda>d.
     (let adc_p = adc20 d 0; adc_t = adc20 d 3; adc_h = word_be (d ! 6) (d ! 7) in
      io_bind (channel (adc_t = SENTINEL_20) (compensate_temperature adc_t)) (\<lambda>t.
      io_bind (channel (adc_p = SENTINEL_20 \<or> t = None) (compensate_pressure adc_p)) (\<lambda>p.
      io_bind (channel (adc_h = SENTINEL_16 \<or> t = None) (compensate_humidity adc_h)) (\<lambda>h.
      io_return (t, p, h)))))))))"

text \<open>The adapter. \<open>pow\<close> stands for the float power \<open>x ** 0.1903\<close>.\<close>

record bme_policy =
  offset_t :: rat
  offset_p :: rat
  offset_h :: rat
  sea_level_pa :: rat
  bme_profile :: bme_setup

definition oversampling :: "pydict \<Rightarrow> string \<Rightarrow> int \<Rightarrow> nat" where
  "oversampling config key fallback = nat (the_int (dget_or config key (PInt fallback)))"

definition bme_initialize :: "nat \<Rightarrow> pyval \<Rightarrow> bme_policy option bme" where
  "bme_initialize polls v =
     io_bind (io_res (bme280_validate_config v)) (\<lambda>_.
     (let config = the_dict v in
      io_bind (io_res (candidates_of config BME280_I2C_ADDRESSES)) (\<lambda>candidates.
      io_bind (io_res (offset_of (config_offsets config) ''temperature_c'')) (\<lambda>ot.
      io_bind (io_res (offset_of (config_offsets config) ''pressure_pascal'')) (\<lambda>op.
      io_bind (io_res (offset_of (config_offsets config) ''humidity_percent'')) (\<lambda>oh.
      io_bind (io_res (dindex config ''sea_level_pressure_pa'')) (\<lambda>sea.
      (let c = \<lparr>osrs_t = oversampling config ''temperature_oversampling'' 1,
                osrs_p = oversampling config ''pressure_oversampling'' 1,
                osrs_h = oversampling config ''humidity_oversampling'' 1,
                filter_code = oversampling config ''iir_filter'' 0\<rparr> in
      io_bind (io_set (\<lambda>s. s\<lparr>dig := calibration_zero, t_fine := 0\<rparr>)) (\<lambda>_.
      io_bind (bme_init polls candidates c) (\<lambda>ended.
      io_return (if ended
        then Some \<lparr>offset_t = ot, offset_p = op, offset_h = oh, sea_level_pa = number_of sea, bme_profile = c\<rparr>
        else None)))))))))))"

definition altitude_of :: "(rat \<Rightarrow> rat) \<Rightarrow> rat \<Rightarrow> rat option \<Rightarrow> rat option" where
  "altitude_of pow sea_level pressure =
     (case pressure of
        Some p \<Rightarrow> if p > 0 then Some (44330 * (1 - pow (p / sea_level))) else None
      | None \<Rightarrow> None)"

definition float_or_none :: "rat option \<Rightarrow> pyval" where
  "float_or_none v = (case v of None \<Rightarrow> PNone | Some x \<Rightarrow> PFloat (Finite x))"

definition bme_sample :: "(rat \<Rightarrow> rat) \<Rightarrow> bme_policy option \<Rightarrow> pydict bme" where
  "bme_sample pow ready =
     (case ready of
        None \<Rightarrow> io_raise RuntimeError
      | Some k \<Rightarrow>
          io_bind (bme_measure (bme_profile k)) (\<lambda>(t, p, h).
          (let t = map_option (\<lambda>x. x + offset_t k) t;
               p = map_option (\<lambda>x. x + offset_p k) p;
               h = map_option (\<lambda>x. x + offset_h k) h in
           io_return
             [(PStr ''temperature_c'', float_or_none t),
              (PStr ''pressure_pa'', float_or_none p),
              (PStr ''humidity_percent'', float_or_none h),
              (PStr ''altitude_m'', float_or_none (altitude_of pow (sea_level_pa k) p))])))"

subsection \<open>The error code of a word\<close>

text \<open>
  The CRC is linear over XOR, so only the difference between what was sent and what arrived
  matters. \<open>syndrome a b c\<close> is what damage \<open>a\<close>, \<open>b\<close>, \<open>c\<close> to the two data bytes and the CRC byte
  leaves of the comparison; the damage of the bit at position \<open>p\<close>, counted from the last bit of
  the CRC, leaves \<open>p\<close> CRC steps of 1.
\<close>

lemma crc_step_alt: "crc_step z = push_bit 1 z XOR (if bit z 7 then 0x31 else 0)"
proof -
  have "z AND 0x80 \<noteq> 0 \<longleftrightarrow> bit z 7"
    using and_exp_eq_0_iff_not_bit [of z 7] by simp
  then show ?thesis by (simp add: crc_step_def)
qed

lemma crc_step_xor: "crc_step (x XOR y) = crc_step x XOR crc_step y"
  by (cases "bit x 7"; cases "bit y 7")
    (simp_all only: crc_step_alt bit_xor_iff push_bit_xor if_True if_False simp_thms xor.assoc
      xor.left_commute xor_self_eq xor.left_neutral xor.right_neutral xor.commute)

lemma crc_step_zero [simp]: "crc_step 0 = 0"
  by (simp add: crc_step_def)

lemma crc_steps_xor: "(crc_step ^^ n) (x XOR y) = (crc_step ^^ n) x XOR (crc_step ^^ n) y"
  by (induction n) (simp_all add: crc_step_xor)

lemma crc_steps_zero [simp]: "(crc_step ^^ n) 0 = 0"
  by (induction n) simp_all

lemma xor_eq_zero: "a XOR b = 0 \<longleftrightarrow> a = (b :: 8 word)"
  by (metis xor.assoc xor.left_neutral xor.right_neutral xor_self_eq)

lemma xor_cancel: "a XOR b = a XOR c \<longleftrightarrow> b = (c :: 8 word)"
  by (metis xor.assoc xor.left_neutral xor.right_neutral xor_self_eq)

definition syndrome :: "8 word \<Rightarrow> 8 word \<Rightarrow> 8 word \<Rightarrow> 8 word" where
  "syndrome a b c = ((crc_step ^^ 16) a XOR (crc_step ^^ 8) b) XOR c"

lemma crc8_word: "crc8_from x [a, b] = (crc_step ^^ 16) (x XOR a) XOR (crc_step ^^ 8) b"
proof -
  have "crc8_from x [a, b] = (crc_step ^^ 8) ((crc_step ^^ 8) (x XOR a) XOR b)"
    by (simp only: crc8_from_def foldl.simps)
  also have "\<dots> = (crc_step ^^ 8) ((crc_step ^^ 8) (x XOR a)) XOR (crc_step ^^ 8) b"
    by (simp only: crc_steps_xor)
  also have "(crc_step ^^ 8) ((crc_step ^^ 8) (x XOR a)) = (crc_step ^^ 16) (x XOR a)"
    using funpow_add [of 8 8 crc_step] by (simp add: fun_eq_iff)
  finally show ?thesis .
qed

lemma crc_damaged:
  assumes "crc8_from x [a, b] = c"
  shows "crc8_from x [a XOR i, b XOR j] = c XOR k \<longleftrightarrow> syndrome i j k = 0"
proof -
  have "crc8_from x [a XOR i, b XOR j] = c XOR ((crc_step ^^ 16) i XOR (crc_step ^^ 8) j)"
    unfolding assms [symmetric]
    by (simp only: crc8_word crc_steps_xor xor.assoc xor.left_commute xor.commute)
  then show ?thesis by (simp only: syndrome_def xor_cancel xor_eq_zero)
qed

lemma crc_chain:
  "crc_step 1 = 2"
  "crc_step 2 = 4"
  "crc_step 4 = 8"
  "crc_step 8 = 16"
  "crc_step 16 = 32"
  "crc_step 32 = 64"
  "crc_step 64 = 128"
  "crc_step 128 = 49"
  "crc_step 49 = 98"
  "crc_step 98 = 196"
  "crc_step 196 = 185"
  "crc_step 185 = 67"
  "crc_step 67 = 134"
  "crc_step 134 = 61"
  "crc_step 61 = 122"
  "crc_step 122 = 244"
  "crc_step 244 = 217"
  "crc_step 217 = 131"
  "crc_step 131 = 55"
  "crc_step 55 = 110"
  "crc_step 110 = 220"
  "crc_step 220 = 137"
  "crc_step 137 = 35"
  by (simp_all add: crc_step_def push_bit_eq_mult)

definition bit_syndromes :: "8 word list" where
  "bit_syndromes = [1, 2, 4, 8, 16, 32, 64, 128, 49, 98, 196, 185, 67, 134, 61, 122, 244, 217, 131, 55, 110, 220, 137, 35]"


lemma bit_syndrome: "k < 24 \<Longrightarrow> (crc_step ^^ k) 1 = bit_syndromes ! k"
proof -
  have step: "bit_syndromes ! Suc n = crc_step (bit_syndromes ! n)" if "Suc n < 24" for n
    using that by (simp only: less_Suc_eq_le [symmetric] numeral_eq_Suc pred_numeral_simps less_Suc_eq_0_disj) 
      (auto simp: bit_syndromes_def crc_chain less_Suc_eq eval_nat_numeral)
  show "k < 24 \<Longrightarrow> ?thesis"
    by (induction k) (simp_all add: step, simp add: bit_syndromes_def)
qed

definition xor_sum :: "8 word list \<Rightarrow> 8 word" where
  "xor_sum xs = foldr (XOR) xs 0"

lemma xor_sum_simps [simp]: "xor_sum [] = 0" "xor_sum (x # xs) = x XOR xor_sum xs"
  by (simp_all add: xor_sum_def)

lemma xor_sum_append [simp]: "xor_sum (xs @ ys) = xor_sum xs XOR xor_sum ys"
  by (induction xs) (simp_all add: xor.assoc)

lemma crc_steps_sum: "(crc_step ^^ n) (xor_sum xs) = xor_sum (map (crc_step ^^ n) xs)"
  by (induction xs) (simp_all add: crc_steps_xor)

definition ones :: "8 word \<Rightarrow> nat list" where
  "ones e = filter (bit e) [0..<8]"

lemma bit_power: "bit (2 ^ a :: 8 word) n \<longleftrightarrow> n = a \<and> n < 8"
  by (auto simp: bit_exp_iff possible_bit_word)

lemma bit_xor_sum: "bit (xor_sum (map ((^) 2) bs)) n \<longleftrightarrow> n < 8 \<and> odd (count_list bs n)"
  by (induction bs) (auto simp: bit_xor_iff bit_power)

lemma byte_sum: "e = xor_sum (map ((^) 2) (ones e))"
proof (rule bit_word_eqI)
  fix n assume n: "n < LENGTH(8)"
  have "count_list (filter P [0..<8]) n = (if P n then 1 else 0)" for P
    using n by (simp add: upt_rec eval_nat_numeral less_Suc_eq) auto
  then show "bit e n = bit (xor_sum (map ((^) 2) (ones e))) n"
    using n by (simp only: bit_xor_sum ones_def) simp
qed

lemma low_bit_step: "b < 8 \<Longrightarrow> 2 ^ b = (crc_step ^^ b) (1 :: 8 word)"
  by (simp add: bit_syndrome) (auto simp: less_Suc_eq eval_nat_numeral bit_syndromes_def)

lemma byte_syndrome: "(crc_step ^^ n) e = xor_sum (map (\<lambda>b. (crc_step ^^ (n + b)) 1) (ones e))"
proof -
  have "(crc_step ^^ n) e = xor_sum (map (crc_step ^^ n) (map ((^) 2) (ones e)))"
    by (subst byte_sum) (simp only: crc_steps_sum)
  also have "map (crc_step ^^ n) (map ((^) 2) (ones e)) = map (\<lambda>b. (crc_step ^^ (n + b)) 1) (ones e)"
    unfolding map_map comp_def by (intro map_cong refl) (simp only: ones_def set_filter set_upt mem_Collect_eq atLeastLessThan_iff low_bit_step funpow_add comp_apply)
  finally show ?thesis .
qed

definition damage :: "8 word \<Rightarrow> 8 word \<Rightarrow> 8 word \<Rightarrow> nat list" where
  "damage a b c = map ((+) 16) (ones a) @ map ((+) 8) (ones b) @ ones c"

lemma syndrome_sum: "syndrome a b c = xor_sum (map (\<lambda>p. (crc_step ^^ p) 1) (damage a b c))"
  using byte_syndrome [of 0 c]
  by (simp add: syndrome_def damage_def byte_syndrome [of 16 a] byte_syndrome [of 8 b] comp_def xor.assoc)

lemma damage_positions: "distinct (damage a b c)" "p \<in> set (damage a b c) \<Longrightarrow> p < 24"
  by (auto simp: damage_def ones_def distinct_map inj_on_def)

definition odd_weight :: "8 word \<Rightarrow> bool" where
  "odd_weight x = odd (length (ones x))"

lemma odd_weight_xor: "odd_weight (x XOR y) \<longleftrightarrow> odd_weight x \<noteq> odd_weight y"
proof -
  have "odd (length (filter (bit (x XOR y)) ns))
      \<longleftrightarrow> odd (length (filter (bit x) ns)) \<noteq> odd (length (filter (bit y) ns))" for ns
    by (induction ns) (auto simp: bit_xor_iff)
  then show ?thesis by (simp add: odd_weight_def ones_def)
qed

lemma syndromes_odd: "p < 24 \<Longrightarrow> odd_weight ((crc_step ^^ p) 1)"
proof -
  have "list_all odd_weight bit_syndromes"
    by (simp add: bit_syndromes_def odd_weight_def ones_def upt_rec)
  then show "p < 24 \<Longrightarrow> ?thesis"
    by (simp add: bit_syndrome list_all_length bit_syndromes_def)
qed

lemma syndromes_distinct:
  assumes "p < 24" "q < 24" "p \<noteq> q"
  shows "(crc_step ^^ p) 1 \<noteq> (crc_step ^^ q) (1 :: 8 word)"
proof -
  have "distinct bit_syndromes" by (simp add: bit_syndromes_def)
  moreover have "length bit_syndromes = 24" by (simp add: bit_syndromes_def)
  ultimately show ?thesis using assms by (simp add: bit_syndrome nth_eq_iff_index_eq)
qed

lemma damage_detected:
  assumes "damage a b c \<noteq> []" and "length (damage a b c) \<le> 3"
  shows "syndrome a b c \<noteq> 0"
proof -
  have zero: "\<not> odd_weight 0" by (simp add: odd_weight_def ones_def)
  let ?S = "\<lambda>p. (crc_step ^^ p) (1 :: 8 word)"
  consider (one) p where "damage a b c = [p]" | (two) p q where "damage a b c = [p, q]"
    | (three) p q r where "damage a b c = [p, q, r]"
    using assms by (cases "damage a b c" rule: list.exhaust) (auto simp: length_Suc_conv le_Suc_eq eval_nat_numeral)
  then show ?thesis
  proof cases
    case one
    then have "odd_weight (syndrome a b c)"
      using damage_positions(2) [of p a b c] by (simp add: syndrome_sum syndromes_odd)
    with zero show ?thesis by metis
  next
    case two
    then show ?thesis
      using damage_positions(1) [of a b c] damage_positions(2) [of _ a b c] syndromes_distinct [of p q]
      by (simp add: syndrome_sum xor_eq_zero)
  next
    case three
    then have "odd_weight (syndrome a b c)"
      using damage_positions(2) [of _ a b c] by (simp add: syndrome_sum odd_weight_xor syndromes_odd zero)
    with zero show ?thesis by metis
  qed
qed

subsection \<open>What the drivers may raise\<close>

text \<open>
  The device manager handles \<open>OSError\<close>; \<open>MemoryError\<close> belongs to the heap boundary. Every other
  exception of a driver ends Core 1. \<open>raises_within P m\<close>: on a bus that fails only with these two,
  what \<open>m\<close> raises satisfies \<open>P\<close>.
\<close>

definition operational :: "exc \<Rightarrow> bool" where
  "operational e \<longleftrightarrow> e = OSError \<or> e = MemoryError"

definition operational_bus :: "i2c_world \<Rightarrow> bool" where
  "operational_bus w \<longleftrightarrow>
     (\<forall>n e. write_fault_at w n = Some e \<longrightarrow> operational e) \<and>
     (\<forall>n e. fills_at w n = Inl e \<longrightarrow> operational e)"

definition raises_within :: "(exc \<Rightarrow> bool) \<Rightarrow> ('s, 'a) drv \<Rightarrow> bool" where
  "raises_within P m \<longleftrightarrow>
     (\<forall>w s e t. operational_bus w \<longrightarrow> m w s = (Raise e, t) \<longrightarrow> P e)"

named_theorems raises_within_rules \<open>what programs on the bus may raise\<close>

lemma raises_within_return [raises_within_rules]: "raises_within P (io_return x)"
  by (simp add: raises_within_def io_return_def)

lemma raises_within_set [raises_within_rules]: "raises_within P (io_set f)"
  by (simp add: raises_within_def io_set_def)

lemma raises_within_get [raises_within_rules]: "raises_within P (io_get f)"
  by (simp add: raises_within_def io_get_def)

lemma raises_within_sense [raises_within_rules]: "raises_within P (i2c_sense f)"
  by (simp add: raises_within_def i2c_sense_def)

lemma raises_within_sleep [raises_within_rules]: "raises_within P (bus_sleep ms)" "raises_within P (over_bus u)"
  by (simp_all add: bus_sleep_def over_bus_def raises_within_set)

lemma raises_within_raise [raises_within_rules]: "P e \<Longrightarrow> raises_within P (io_raise e)"
  by (simp add: raises_within_def io_raise_def)

lemma raises_within_bind [raises_within_rules]:
  assumes "raises_within P m" and "\<And>x. raises_within P (f x)"
  shows "raises_within P (io_bind m f)"
  unfolding raises_within_def
proof (intro allI impI)
  fix w s e t assume w: "operational_bus w" and run: "io_bind m f w s = (Raise e, t)"
  obtain r u where m: "m w s = (r, u)" by fastforce
  with run assms w show "P e"
    by (cases r) (auto simp: io_bind_def raises_within_def, blast)
qed

lemma raises_within_try:
  assumes "raises_within Q m" and "\<And>e. Q e \<Longrightarrow> raises_within P (h e)"
  shows "raises_within P (io_try m h)"
  unfolding raises_within_def
proof (intro allI impI)
  fix w s e t assume w: "operational_bus w" and run: "io_try m h w s = (Raise e, t)"
  obtain r u where m: "m w s = (r, u)" by fastforce
  with run assms w show "P e"
    by (cases r) (auto simp: io_try_def raises_within_def, blast)
qed

lemma raises_within_res [raises_within_rules]: "raises_only P r \<Longrightarrow> raises_within P (io_res r)"
  by (cases r) (auto simp: io_res_def raises_within_def io_raise_def io_return_def)

lemma raises_within_res_bind:
  "(\<And>e. r = Inl e \<Longrightarrow> P e) \<Longrightarrow> (\<And>x. r = Inr x \<Longrightarrow> raises_within P (f x)) \<Longrightarrow> raises_within P (io_bind (io_res r) f)"
  by (cases r) (auto simp: io_res_def raises_within_def io_raise_def io_return_def io_bind_def)

lemma raises_within_if [raises_within_rules]:
  "(c \<Longrightarrow> raises_within P m) \<Longrightarrow> (\<not> c \<Longrightarrow> raises_within P m') \<Longrightarrow> raises_within P (if c then m else m')"
  by simp

lemma raises_within_option [raises_within_rules]:
  "raises_within P m \<Longrightarrow> (\<And>x. raises_within P (f x)) \<Longrightarrow> raises_within P (case v of None \<Rightarrow> m | Some x \<Rightarrow> f x)"
  by (cases v) simp_all

lemma raises_within_mono: "raises_within P m \<Longrightarrow> (\<And>e. P e \<Longrightarrow> Q e) \<Longrightarrow> raises_within Q m"
  by (auto simp: raises_within_def)

lemma raises_within_bus [raises_within_rules]:
  "raises_within operational (bus_write a bs)" "raises_within operational (bus_read a reg n)"
proof -
  have fault: "raises_within operational (io_bind (i2c_sense write_fault_at) (\<lambda>fault.
      case fault of None \<Rightarrow> io_return () | Some e \<Rightarrow> io_raise e))"
    by (auto simp: raises_within_def operational_bus_def io_bind_def i2c_sense_def io_return_def io_raise_def
        split: option.splits)
  then show "raises_within operational (bus_write a bs)"
    unfolding bus_write_def by (intro raises_within_bind raises_within_sleep fault)
  have filled: "raises_within operational (io_bind (i2c_sense fills_at) (\<lambda>r.
      case r of Inl e \<Rightarrow> io_raise e | Inr f \<Rightarrow> io_return (map f [0..<n])))"
    by (auto simp: raises_within_def operational_bus_def io_bind_def i2c_sense_def io_return_def io_raise_def
        split: sum.splits)
  then show "raises_within operational (bus_read a reg n)"
    unfolding bus_read_def by (intro raises_within_bind raises_within_sleep filled)
qed

lemma operational_cases [simp]: "operational OSError" "operational MemoryError"
  by (simp_all add: operational_def)

lemma raises_within_candidate [raises_within_rules]:
  assumes "raises_within operational m"
  shows "raises_within operational (candidate_fails m)"
  unfolding candidate_fails_def
  by (rule raises_within_try [OF assms]) (auto intro!: raises_within_rules)

lemma raises_within_poll [raises_within_rules]:
  "raises_within operational ready \<Longrightarrow> raises_within operational (poll_from ready step_ms timeout_ms start polls)"
  by (induction polls) (auto intro!: raises_within_rules)

lemma operational_crc [raises_within_rules]: "raises_within operational (verify_word_crc d offset)"
  by (auto simp: verify_word_crc_def intro!: raises_within_rules)

lemma operational_sht35:
  "raises_within operational (sht35_command c)" "raises_within operational sht35_read6"
  "raises_within operational serial_number"
  by (auto simp: sht35_command_def sht35_read6_def serial_number_def intro!: raises_within_rules)

lemma operational_sht35_detect: "raises_within operational (sht35_detect candidates)"
  by (induction candidates) (auto intro!: raises_within_rules operational_sht35)

lemma operational_sht35_init: "raises_within operational (sht35_init candidates)"
  unfolding sht35_init_def by (intro raises_within_rules operational_sht35 operational_sht35_detect)

lemma operational_sht35_sample: "raises_within operational (sht35_sample (Some k))"
  unfolding sht35_sample_def sht35_measure_def
  by (auto split: prod.splits intro!: raises_within_rules operational_sht35)

lemma operational_u8 [raises_within_rules]:
  "raises_within operational (i2c_u8 a r)" "raises_within operational (i2c_put_u8 a r v)"
  "raises_within operational (read_raw20 r)"
  by (auto simp: i2c_u8_def i2c_put_u8_def read_raw20_def intro!: raises_within_rules)

lemma operational_ltr_init: "raises_within operational (ltr_init c)"
  unfolding ltr_init_def ltr_detect_def clear_data_ready_def by (intro raises_within_rules) simp

definition ltr_setup_ok :: "ltr_setup \<Rightarrow> bool" where
  "ltr_setup_ok c \<longleftrightarrow> gain_code c < 5 \<and> resolution_code c < 6 \<and> 1 \<le> window_factor c"

lemma ltr_setup_of_ok: "ltr_setup_of g r m win = Inr c \<Longrightarrow> ltr_setup_ok c"
  by (auto simp: ltr_setup_of_def ltr_setup_ok_def GAIN_CODES_def RESOLUTION_CODES_def
      split: if_splits option.splits)

lemma ltr_scaling_positive:
  assumes "ltr_setup_ok c"
  shows "GAIN_FACTORS ! gain_code c > 0" "INTEGRATION_FACTORS ! resolution_code c > 0"
  using assms
  by (auto simp: ltr_setup_ok_def GAIN_FACTORS_def INTEGRATION_FACTORS_def less_Suc_eq eval_nat_numeral)

lemma calculate_uvi_defined:
  assumes "ltr_setup_ok c"
  shows "calculate_uvi c raw \<noteq> None"
  using ltr_scaling_positive [OF assms]
  by (simp add: calculate_uvi_def Let_def not_le)

lemma raises_within_some:
  "v \<noteq> None \<Longrightarrow> (\<And>x. raises_within P (f x)) \<Longrightarrow> raises_within P (case v of None \<Rightarrow> m | Some x \<Rightarrow> f x)"
  by (cases v) simp_all

lemma operational_read_channel: "raises_within operational (read_channel polls t ctrl r)"
  unfolding read_channel_def wait_for_data_ready_def by (intro raises_within_rules)

lemma operational_ltr_sample:
  assumes "ltr_setup_ok c"
  shows "raises_within operational (ltr_sample polls (Some (ol, ou, c)))"
proof -
  have "raises_within operational (ltr_measure polls c)"
    unfolding ltr_measure_def Let_def
    by (intro raises_within_bind raises_within_option raises_within_return operational_read_channel
        operational_u8 raises_within_some calculate_uvi_defined assms)
  then show ?thesis by (auto simp: ltr_sample_def intro!: raises_within_rules)
qed

text \<open>The BME280 adds one: the pressure equation refuses a zero divisor.\<close>

definition operational_or_arithmetic :: "exc \<Rightarrow> bool" where
  "operational_or_arithmetic e \<longleftrightarrow> operational e \<or> e = ArithmeticError"

lemma operational_bme [raises_within_rules]:
  "raises_within operational (bme_u8 r)" "raises_within operational (bme_put_u8 r v)"
  by (auto simp: bme_u8_def bme_put_u8_def intro!: raises_within_rules)

lemma operational_bme_detect: "raises_within operational (bme_detect candidates)"
  by (induction candidates) (auto intro!: raises_within_rules)

lemma operational_bme_init: "raises_within operational (bme_init polls candidates c)"
  unfolding bme_init_def bme_reset_def wait_for_nvm_def read_calibration_def validate_calibration_def
    bme_configure_def
  by (intro raises_within_rules operational_bme_detect) simp_all

lemma within_arithmetic:
  "raises_within operational m \<Longrightarrow> raises_within operational_or_arithmetic m"
  unfolding operational_or_arithmetic_def by (erule raises_within_mono) (rule disjI1)

lemma bme_measure_raises: "raises_within operational_or_arithmetic (bme_measure c)"
proof -
  have t: "raises_within operational_or_arithmetic (compensate_temperature n)" for n
    unfolding compensate_temperature_def by (intro raises_within_rules)
  have p: "raises_within operational_or_arithmetic (compensate_pressure n)" for n
    unfolding compensate_pressure_def pressure_of_def Let_def
    by (intro raises_within_rules) (simp add: raises_only_def operational_or_arithmetic_def)
  have h: "raises_within operational_or_arithmetic (compensate_humidity n)" for n
    unfolding compensate_humidity_def by (intro raises_within_rules)
  have ch: "raises_within operational_or_arithmetic m \<Longrightarrow> raises_within operational_or_arithmetic (channel b m)"
    for b and m :: "rat bme"
    unfolding channel_def by (intro raises_within_rules)
  show ?thesis
    unfolding bme_measure_def Let_def
    by (intro raises_within_bind ch t p h raises_within_return raises_within_sleep raises_within_get
        operational_bme [THEN within_arithmetic] raises_within_bus [THEN within_arithmetic])
qed

text \<open>
  The adapters. The validators accept an explicit \<open>null\<close> for an optional field, the adapters do
  not: \<open>config.get(key, default)\<close> returns the \<open>None\<close> that is there.
\<close>

definition null_option :: "pydict \<Rightarrow> bool" where
  "null_option config \<longleftrightarrow>
     dget config ''offsets'' = Some PNone \<or> dget config ''i2c_address_candidates'' = Some PNone"

lemma is_dict_iff: "is_dict v \<longleftrightarrow> (\<exists>d. v = PDict d)"
  by (cases v) auto

lemma is_list_iff: "is_list v \<longleftrightarrow> (\<exists>xs. v = PList xs)"
  by (cases v) auto

lemma validated_offsets:
  assumes "validate_offsets bounds config = Inr ()" and "\<not> null_option config"
  shows "raises_only operational (offset_of (config_offsets config) key)"
proof (cases "dget config ''offsets''")
  case None
  then show ?thesis by (simp add: config_offsets_def dget_or_def offset_of_def)
next
  case (Some x)
  with assms have "is_dict x"
    by (auto simp: validate_offsets_def null_option_def dget_none_def Let_def res_simps split: if_splits)
  with Some show ?thesis by (auto simp: config_offsets_def dget_or_def offset_of_def is_dict_iff)
qed

lemma validated_candidates:
  assumes "validate_candidates valid config = Inr ()" and "\<not> null_option config"
  shows "\<exists>xs. candidates_of config fallback = Inr xs"
proof (cases "dget config ''i2c_address_candidates''")
  case None
  then show ?thesis by (simp add: candidates_of_def)
next
  case (Some x)
  with assms have "is_list x"
    by (auto simp: validate_candidates_def null_option_def dget_none_def Let_def res_simps split: if_splits)
  with Some show ?thesis by (auto simp: candidates_of_def is_list_iff)
qed

lemma operational_sht35_initialize:
  assumes "sht35_validate_config v = Inr ()" and "\<not> null_option (the_dict v)"
  shows "raises_within operational (sht35_initialize v)"
proof -
  let ?c = "the_dict v"
  from assms(1) have valid: "validate_candidates SHT35_I2C_ADDRESSES ?c = Inr ()"
      "validate_offsets sht35_offset_bounds ?c = Inr ()"
      "the_str (dget_or ?c ''repeatability'' (PStr ''high'')) \<in> set SHT35_VALID_REPEATABILITIES"
    by (auto simp: sht35_validate_config_def Let_def res_simps)
  from valid(3) obtain shot where
    shot: "SINGLE_SHOT (the_str (dget_or ?c ''repeatability'' (PStr ''high''))) = Some shot"
    by (auto simp: SHT35_VALID_REPEATABILITIES_def SINGLE_SHOT_def)
  obtain xs where xs: "candidates_of ?c SHT35_I2C_ADDRESSES = Inr xs"
    using validated_candidates [OF valid(1) assms(2)] by blast
  have offs: "raises_only operational (offset_of (config_offsets ?c) key)" for key
    using validated_offsets [OF valid(2) assms(2)] .
  show ?thesis
    unfolding sht35_initialize_def Let_def assms(1) xs shot
    by (intro raises_within_bind raises_within_res raises_within_return offs operational_sht35_init)
        (simp_all add: raises_within_return)
qed

lemma operational_ltr_initialize:
  assumes "ltr390_validate_config v = Inr ()" and "\<not> null_option (the_dict v)"
  shows "raises_within operational (ltr_initialize v)"
proof -
  let ?c = "the_dict v"
  let ?w = "dget_or ?c ''window_factor'' (PFloat (Finite 1))"
  from assms(1) have valid: "validate_offsets ltr390_offset_bounds ?c = Inr ()" "ltr390_timing ?c = Inr ()"
      "number_in_range 1 100 ?w"
    by (auto simp: ltr390_validate_config_def Let_def res_simps)
  have "\<exists>c. ltr_setup_of (the_int (dget_or ?c ''gain'' (PInt 3)))
      (the_int (dget_or ?c ''resolution_bits'' (PInt 18)))
      (the_int (dget_or ?c ''measurement_rate_ms'' (PInt 200))) (number_of ?w) = Inr c"
    using valid(2,3)
    by (auto simp: ltr390_timing_def Let_def res_simps int_among_def number_in_range_def ltr_setup_of_def
        LTR390_VALID_GAINS_def LTR390_VALID_RESOLUTIONS_def LTR390_VALID_MEASUREMENT_RATES_def
        GAIN_CODES_def RESOLUTION_CODES_def RATE_CODES_def)
  then obtain c where c: "ltr_setup_of (the_int (dget_or ?c ''gain'' (PInt 3)))
      (the_int (dget_or ?c ''resolution_bits'' (PInt 18)))
      (the_int (dget_or ?c ''measurement_rate_ms'' (PInt 200))) (number_of ?w) = Inr c" ..
  have offs: "raises_only operational (offset_of (config_offsets ?c) key)" for key
    using validated_offsets [OF valid(1) assms(2)] .
  show ?thesis
    unfolding ltr_initialize_def Let_def assms(1) c
    by (intro raises_within_bind raises_within_res raises_within_return offs operational_ltr_init)
        (simp_all add: raises_within_return)
qed

lemma ltr_initialize_ok:
  "ltr_initialize v w s = (Return k, t) \<Longrightarrow> ltr_setup_ok (snd (snd k))"
  by (auto simp: ltr_initialize_def Let_def io_bind_def io_res_def io_return_def io_raise_def
      dest: ltr_setup_of_ok split: sum.splits outcome.splits prod.splits)

lemma operational_bme_initialize:
  assumes "bme280_validate_config v = Inr ()" and "\<not> null_option (the_dict v)"
  shows "raises_within operational (bme_initialize polls v)"
proof -
  let ?c = "the_dict v"
  from assms(1) have valid: "validate_candidates BME280_I2C_ADDRESSES ?c = Inr ()"
      "validate_offsets bme280_offset_bounds ?c = Inr ()" "dhas ?c ''sea_level_pressure_pa''"
    by (auto simp: bme280_validate_config_def bme280_sea_level_def Let_def res_simps)
  obtain xs where xs: "candidates_of ?c BME280_I2C_ADDRESSES = Inr xs"
    using validated_candidates [OF valid(1) assms(2)] by blast
  have offs: "raises_only operational (offset_of (config_offsets ?c) key)" for key
    using validated_offsets [OF valid(2) assms(2)] .
  show ?thesis
    unfolding bme_initialize_def Let_def assms(1) xs dindex_dhas [OF valid(3)]
    by (intro raises_within_bind raises_within_res raises_within_return raises_within_set offs operational_bme_init)
        (simp_all add: raises_within_return)
qed

lemma bme_sample_raises:
  assumes "operational_bus w" and "bme_sample pow (Some k) w s = (Raise e, t)"
  shows "operational e \<or> e = ArithmeticError"
proof -
  have "raises_within operational_or_arithmetic (bme_sample pow (Some k))"
    unfolding bme_sample_def by (auto simp: Let_def split: prod.splits intro!: raises_within_rules bme_measure_raises)
  with assms show ?thesis by (auto simp: raises_within_def operational_or_arithmetic_def)
qed

text \<open>An explicit \<open>null\<close> for the offsets passes validation and ends the bring-up at once.\<close>

lemma null_offsets_raise:
  assumes "sht35_validate_config v = Inr ()" and "dget (the_dict v) ''offsets'' = Some PNone"
    and "dget (the_dict v) ''i2c_address_candidates'' = None"
  shows "sht35_initialize v w s = (Raise AttributeError, s)"
  using assms
  by (simp add: sht35_initialize_def candidates_of_def config_offsets_def dget_or_def offset_of_def
      io_bind_def io_res_def io_return_def io_raise_def)

lemma null_offsets_accepted:
  "sht35_validate_config (PDict [(PStr ''i2c_bus'', PInt 0), (PStr ''offsets'', PNone)]) = Inr ()"
  by (simp add: sht35_validate_config_def sht35_allowed_keys_def reject_unknown_def only_keys_def
      validate_i2c_keys_def dhas_def dget_def dget_none_def dget_or_def int_in_range_def MAX_I2C_BUS_def
      validate_rp2_i2c_pins_def DEFAULT_I2C_FREQ_HZ_def MIN_FREQ_HZ_def validate_candidates_def
      SHT35_VALID_REPEATABILITIES_def validate_offsets_def require_def)

subsection \<open>The polls end\<close>

text \<open>
  A clock that advances by at least the sleep between two polls ends the poll within
  \<open>1 + timeout / step\<close> rounds: the fuel of \<open>poll_from\<close> is then never used up. Each round takes
  one answer of the status register and one of the clock.
\<close>

lemma poll_ends:
  assumes ready: "\<And>u r t. ready w u = (r, t) \<Longrightarrow> i2c_clock t = Suc (i2c_clock u)"
    and clock: "\<And>k. k < polls \<Longrightarrow>
      step_ms * int (j + k) \<le> ticks_diff (i2c_ticks_at w (i2c_clock s + 2 * k + 1)) start"
    and enough: "0 < polls" "timeout_ms \<le> step_ms * int (j + polls - 1)"
  shows "fst (poll_from ready step_ms timeout_ms start polls w s) \<noteq> Return False"
  using clock enough
proof (induction polls arbitrary: j s)
  case 0
  then show ?case by simp
next
  case (Suc polls)
  obtain r t where run: "ready w s = (r, t)" by fastforce
  note t = ready [OF run]
  have now: "step_ms * int j \<le> ticks_diff (i2c_ticks_at w (i2c_clock t)) start"
    using Suc.prems(1) [of 0] by (simp add: t)
  let ?u = "t\<lparr>i2c_clock := Suc (i2c_clock t), transfers := transfers t @ [Waited step_ms]\<rparr>"
  have later: "fst (poll_from ready step_ms timeout_ms start polls w ?u) \<noteq> Return False"
    if "ticks_diff (i2c_ticks_at w (i2c_clock t)) start < timeout_ms"
  proof (rule Suc.IH [of "Suc j"])
    fix k assume "k < polls"
    then show "step_ms * int (Suc j + k) \<le> ticks_diff (i2c_ticks_at w (i2c_clock ?u + 2 * k + 1)) start"
      using Suc.prems(1) [of "Suc k"] by (simp add: t)
  next
    show "0 < polls" using that now Suc.prems(3) by (cases polls) simp_all
  next
    show "timeout_ms \<le> step_ms * int (Suc j + polls - 1)" using Suc.prems(3) by simp
  qed
  show ?case
    by (cases r) (use later in \<open>auto simp: io_bind_def run io_return_def io_raise_def i2c_sense_def
      bus_sleep_def over_bus_def io_set_def\<close>)
qed

lemma u8_takes_one:
  "i2c_u8 a reg w u = (r, t) \<Longrightarrow> i2c_clock t = Suc (i2c_clock u)"
  by (auto simp: i2c_u8_def bus_read_def over_bus_def io_bind_def i2c_sense_def io_set_def io_return_def
      io_raise_def split: sum.splits outcome.splits prod.splits)

lemma status_takes_one:
  "io_bind (i2c_u8 a reg) (\<lambda>x. io_return (f x)) w u = (r, t) \<Longrightarrow> i2c_clock t = Suc (i2c_clock u)"
  using u8_takes_one [of a reg w u]
  by (auto simp: io_bind_def io_return_def split: outcome.splits prod.splits)

text \<open>101 rounds are enough for every conversion time of the LTR390, 51 for the NVM of the BME280.\<close>

lemma data_ready_timeout_bound: "c < 6 \<Longrightarrow> data_ready_timeout_ms c \<le> 460"
  by (auto simp: data_ready_timeout_ms_def CONVERSION_TIME_MS_def less_Suc_eq eval_nat_numeral)

lemma data_ready_poll_ends:
  assumes "c < 6" and "\<And>k. k < 101 \<Longrightarrow>
      5 * int k \<le> ticks_diff (i2c_ticks_at w (i2c_clock s + 2 + 2 * k)) (i2c_ticks_at w (i2c_clock s))"
  shows "fst (wait_for_data_ready (data_ready_timeout_ms c) 101 w s) \<noteq> Return False"
proof -
  have "fst (poll_from (io_bind (i2c_u8 LTR_ADDRESS REG_MAIN_STATUS) (\<lambda>status. io_return (status AND 0x08 \<noteq> 0)))
      READY_POLL_MS (data_ready_timeout_ms c) (i2c_ticks_at w (i2c_clock s)) 101 w
      (s\<lparr>i2c_clock := Suc (i2c_clock s)\<rparr>)) \<noteq> Return False"
    by (rule poll_ends [where j = 0])
      (use assms data_ready_timeout_bound [of c] in \<open>auto simp: READY_POLL_MS_def dest: status_takes_one\<close>)
  then show ?thesis
    by (simp add: wait_for_data_ready_def io_bind_def i2c_sense_def)
qed

subsection \<open>Calibration and compensation of the BME280\<close>

text \<open>The coefficients are the little-endian two's complement words of the blocks.\<close>

lemma u16_le_word: "u16_le d i = uint (word_cat (d ! (i + 1)) (d ! i) :: 16 word)"
  by (rule bit_eqI) (auto simp: u16_le_def bit_or_iff bit_push_bit_iff bit_uint_iff bit_word_cat_iff)

lemma s16_le_word: "s16_le d i = sint (word_cat (d ! (i + 1)) (d ! i) :: 16 word)"
proof -
  have "v AND 0x8000 \<noteq> 0 \<longleftrightarrow> bit v 15" for v :: int
    using and_exp_eq_0_iff_not_bit [of v 15] by simp
  moreover have "take_bit 16 (uint x) = uint x" for x :: "16 word"
    by (rule take_bit_int_eq_self) (use uint_lt2p [of x] in simp_all)
  ultimately show ?thesis
    by (simp add: s16_le_def Let_def u16_le_word sint_uint signed_take_bit_eq_take_bit_minus)
qed

lemma clamp_bounds: "0 \<le> clamp_humidity v" "clamp_humidity v \<le> 100"
  by (simp_all add: clamp_humidity_def)

lemma clamped_humidity: "0 \<le> humidity_of c t adc" "humidity_of c t adc \<le> 100"
  unfolding humidity_of_def Let_def by (rule clamp_bounds)+

text \<open>The configuration writes \<open>ctrl_hum\<close> before \<open>ctrl_meas\<close>, whose write latches it.\<close>

lemma configure_order:
  assumes "\<And>n. write_fault_at w n = None"
  shows "\<exists>t. bme_configure c mode w s = (Return (), t) \<and>
    transfers t = transfers s @
      [Wrote (bme_address s) [REG_CTRL_HUM, of_nat (osrs_h c AND 0x07)],
       Wrote (bme_address s) [REG_CONFIG, of_nat (push_bit 2 (filter_code c) AND 0x3C)],
       Wrote (bme_address s) [REG_CTRL_MEAS, ctrl_meas_value c mode]]"
  using assms
  by (simp add: bme_configure_def bme_put_u8_def i2c_put_u8_def bus_write_def over_bus_def io_bind_def
      io_get_def io_set_def i2c_sense_def io_return_def)

text \<open>
  A calibration for which the pressure equation has a zero divisor, although \<open>dig_P1\<close> is not
  zero: the driver then raises \<open>ArithmeticError\<close>, which is outside the operational domain.
\<close>

lemma pressure_divisor_zero:
  "pressure_divisor (calibration_zero\<lparr>dig_p1 := 36477, dig_p2 := - 32768\<rparr>) 1176576 = 0"
  by (simp add: pressure_divisor_def calibration_zero_def)

subsection \<open>Properties\<close>

definition word_intact :: "8 word list \<Rightarrow> nat \<Rightarrow> bool" where
  "word_intact d offset \<longleftrightarrow> crc8 d offset 2 = d ! (offset + 2)"

definition word_damage :: "8 word list \<Rightarrow> nat \<Rightarrow> nat" where
  "word_damage e i = length (damage (e ! i) (e ! (i + 1)) (e ! (i + 2)))"

lemma crc8_two:
  assumes "offset + 2 \<le> length d"
  shows "crc8 d offset 2 = crc8_from 0xFF [d ! offset, d ! (offset + 1)]"
proof -
  have "take 2 (drop offset d) = [d ! offset, d ! (offset + 1)]"
    using assms by (simp add: numeral_2_eq_2 Cons_nth_drop_Suc [symmetric])
  then show ?thesis by (simp only: crc8_def)
qed

lemma damage_Nil: "damage a b c = [] \<longleftrightarrow> a = 0 \<and> b = 0 \<and> c = 0"
proof -
  have "ones e = [] \<longleftrightarrow> e = 0" for e
  proof
    assume "ones e = []"
    then show "e = 0" using byte_sum [of e] by simp
  qed (simp add: ones_def)
  then show ?thesis by (simp add: damage_def)
qed

lemma received_intact:
  assumes "length d = 6" "length e = 6" "word_intact d i" "word_damage e i \<le> 3" "i \<le> 3"
  shows "word_intact (map2 (XOR) d e) i \<longleftrightarrow> word_damage e i = 0"
proof -
  let ?a = "e ! i" and ?b = "e ! (i + 1)" and ?c = "e ! (i + 2)"
  have "crc8_from 0xFF [d ! i, d ! (i + 1)] = d ! (i + 2)"
    using assms by (simp add: word_intact_def crc8_two)
  then have "word_intact (map2 (XOR) d e) i \<longleftrightarrow> syndrome ?a ?b ?c = 0"
    using assms crc_damaged [of "0xFF" "d ! i" "d ! (i + 1)" "d ! (i + 2)" ?a ?b ?c]
    by (simp add: word_intact_def crc8_two)
  moreover have "word_damage e i = 0 \<longleftrightarrow> damage ?a ?b ?c = []" by (simp add: word_damage_def)
  moreover have "syndrome 0 0 0 = 0" by (simp add: syndrome_def)
  ultimately show ?thesis
    using damage_detected [of ?a ?b ?c] assms(4) by (auto simp: word_damage_def damage_Nil)
qed

lemma sht35_measure_run:
  assumes "write_fault_at w (i2c_clock s) = None"
    and "fills_at w (Suc (i2c_clock s)) = Inr ((!) d)" and "length d = 6"
  shows "fst (sht35_measure shot w s) =
    (if word_intact d 0 \<and> word_intact d 3
     then Return (convert_temperature_c (word_be (d ! 0) (d ! 1)),
                  convert_humidity_percent (word_be (d ! 3) (d ! 4)))
     else Raise OSError)"
proof -
  have "map ((!) d) [0..<6] = d" using map_nth [of d] assms(3) by simp
  with assms show ?thesis
    by (simp add: sht35_measure_def sht35_command_def sht35_read6_def bus_write_def bus_read_def bus_sleep_def
        over_bus_def io_bind_def io_get_def io_set_def i2c_sense_def io_return_def io_raise_def
        verify_word_crc_def word_intact_def numeral_3_eq_3)
qed

text \<open>
  C31: The SHT35 reports only what the sensor measured. Let \<open>sent\<close> be a response with valid
  checksums and \<open>err\<close> the bits the bus inverts, at most three in each of the two words. The
  measurement returns a sample exactly when nothing was inverted, and then it is the
  conversion of the words sent; otherwise it raises \<open>OSError\<close>.
\<close>

theorem sht35_reports_intact:
  assumes "length sent = 6" "length err = 6" "word_intact sent 0" "word_intact sent 3"
    and "word_damage err 0 \<le> 3" "word_damage err 3 \<le> 3"
    and "write_fault_at w (i2c_clock s) = None"
    and "fills_at w (Suc (i2c_clock s)) = Inr ((!) (map2 (XOR) sent err))"
  shows "fst (sht35_measure shot w s) =
    (if err = replicate 6 0
     then Return (convert_temperature_c (word_be (sent ! 0) (sent ! 1)),
                  convert_humidity_percent (word_be (sent ! 3) (sent ! 4)))
     else Raise OSError)"
proof -
  have "err = [err ! 0, err ! 1, err ! 2, err ! 3, err ! 4, err ! 5]"
    using assms(2) by (intro nth_equalityI) (auto simp: less_Suc_eq eval_nat_numeral)
  then have zero: "err = replicate 6 0 \<longleftrightarrow> word_damage err 0 = 0 \<and> word_damage err 3 = 0"
    by (simp add: word_damage_def damage_Nil eval_nat_numeral) (metis nth_Cons_0 nth_Cons_Suc)
  have xor0: "map2 (XOR) sent (replicate 6 0) = sent"
    using assms(1) by (intro nth_equalityI) simp_all
  show ?thesis
    using sht35_measure_run [OF assms(7,8)] assms(1,2)
      received_intact [OF assms(1,2,3,5)] received_intact [OF assms(1,2,4,6)] zero xor0
    by (cases "err = replicate 6 0") simp_all
qed

definition flipped_world :: i2c_world where
  "flipped_world = \<lparr>fills_at = (\<lambda>n. Inr ((!) [0xBE, 0xEE, 0x92, 0xBE, 0xEF, 0x92])),
     write_fault_at = (\<lambda>n. None), i2c_ticks_at = int\<rparr>"

definition bound_sht35 :: sht35 where
  "bound_sht35 = \<lparr>i2c_clock = 0, transfers = [], sht35_address = 0x44, sht35_serial = None\<rparr>"

lemma beef_intact: "crc8_from 0xFF [0xBE, 0xEF] = 0x92"
proof -
  have "ones 0x41 = [0, 6]" "ones 0xEF = [0, 1, 2, 3, 5, 6, 7]" by (simp_all add: ones_def upt_rec)
  then have "(crc_step ^^ 16) 0x41 = 125" "(crc_step ^^ 8) 0xEF = 239"
    using byte_syndrome [of 16 "0x41"] byte_syndrome [of 8 "0xEF"]
    by (simp_all add: bit_syndrome bit_syndromes_def)
  then show ?thesis by (simp add: crc8_word)
qed

theorem sht35_reports_intact_witness:
  "fst (sht35_measure (0x2400, 16) flipped_world bound_sht35) = Raise OSError"
proof -
  let ?sent = "[0xBE, 0xEF, 0x92, 0xBE, 0xEF, 0x92] :: 8 word list"
  let ?err = "[0, 1, 0, 0, 0, 0] :: 8 word list"
  have intact: "word_intact ?sent 0" "word_intact ?sent 3"
    using beef_intact by (simp_all add: word_intact_def crc8_two)
  have damage: "word_damage ?err 0 \<le> 3" "word_damage ?err 3 \<le> 3"
    by (simp_all add: word_damage_def damage_def ones_def upt_rec)
  show ?thesis
    using sht35_reports_intact [OF _ _ intact damage, of flipped_world bound_sht35 "(0x2400, 16)"]
    by (simp add: flipped_world_def bound_sht35_def eval_nat_numeral)
qed

text \<open>
  On a bus that fails only with \<open>OSError\<close> or \<open>MemoryError\<close>, the bring-up of an accepted
  configuration without explicit nulls raises only these two, for the three sensors, and so do
  the reads of the SHT35 and, at the operating point the bring-up computed, of the LTR390: no
  code table, offset or scaling of an accepted configuration raises. The reads of the BME280
  can add \<open>ArithmeticError\<close>, nothing else.
\<close>

theorem drivers_raise_operational:
  assumes "operational_bus w" and "\<not> null_option (the_dict v)"
  shows "(sht35_validate_config v = Inr () \<longrightarrow>
           (\<forall>s e t. sht35_initialize v w s = (Raise e, t) \<longrightarrow> operational e)) \<and>
    (ltr390_validate_config v = Inr () \<longrightarrow>
           (\<forall>(s :: i2c_bus) e t. ltr_initialize v w s = (Raise e, t) \<longrightarrow> operational e) \<and>
           (\<forall>(s :: i2c_bus) k t polls u e t'. ltr_initialize v w s = (Return k, t) \<longrightarrow>
              ltr_sample polls (Some k) w u = (Raise e, t' :: i2c_bus) \<longrightarrow> operational e)) \<and>
    (bme280_validate_config v = Inr () \<longrightarrow>
           (\<forall>polls s e t. bme_initialize polls v w s = (Raise e, t) \<longrightarrow> operational e)) \<and>
    (\<forall>k s e t. sht35_sample (Some k) w s = (Raise e, t) \<longrightarrow> operational e) \<and>
    (\<forall>pow k s e t. bme_sample pow (Some k) w s = (Raise e, t) \<longrightarrow> operational e \<or> e = ArithmeticError)"
proof (intro conjI impI allI)
  fix s e t assume "sht35_validate_config v = Inr ()" "sht35_initialize v w s = (Raise e, t)"
  then show "operational e"
    using operational_sht35_initialize [of v] assms unfolding raises_within_def by blast
next
  fix s :: i2c_bus and e t assume "ltr390_validate_config v = Inr ()" "ltr_initialize v w s = (Raise e, t)"
  then show "operational e"
    using operational_ltr_initialize [of v] assms unfolding raises_within_def by blast
next
  fix s t u t' :: i2c_bus and k polls e
  assume "ltr_initialize v w s = (Return k, t)" and run: "ltr_sample polls (Some k) w u = (Raise e, t')"
  then have "ltr_setup_ok (snd (snd k))" by (rule_tac ltr_initialize_ok)
  then have "raises_within operational (ltr_sample polls (Some k))"
    using operational_ltr_sample [of "snd (snd k)" polls "fst k" "fst (snd k)"] by simp
  with run assms(1) show "operational e" unfolding raises_within_def by blast
next
  fix polls s e t assume "bme280_validate_config v = Inr ()" "bme_initialize polls v w s = (Raise e, t)"
  then show "operational e"
    using operational_bme_initialize [of v polls] assms unfolding raises_within_def by blast
next
  fix k s e t assume "sht35_sample (Some k) w s = (Raise e, t)"
  then show "operational e"
    using operational_sht35_sample [of k] assms(1) unfolding raises_within_def by blast
next
  fix pow k s e t assume "bme_sample pow (Some k) w s = (Raise e, t)"
  then show "operational e \<or> e = ArithmeticError" using bme_sample_raises [OF assms(1)] by blast
qed

definition absent_world :: i2c_world where
  "absent_world = \<lparr>fills_at = (\<lambda>n. Inl OSError), write_fault_at = (\<lambda>n. Some OSError), i2c_ticks_at = int\<rparr>"

lemma absent_bus: "operational_bus absent_world"
  by (simp add: operational_bus_def absent_world_def)

lemma plain_sht35_accepted: "sht35_validate_config (PDict [(PStr ''i2c_bus'', PInt 0)]) = Inr ()"
  by (simp add: sht35_validate_config_def sht35_allowed_keys_def reject_unknown_def only_keys_def
      validate_i2c_keys_def dhas_def dget_def dget_none_def dget_or_def int_in_range_def MAX_I2C_BUS_def
      validate_rp2_i2c_pins_def DEFAULT_I2C_FREQ_HZ_def MIN_FREQ_HZ_def validate_candidates_def
      SHT35_VALID_REPEATABILITIES_def validate_offsets_def require_def)

theorem drivers_raise_operational_witness:
  "case sht35_initialize (PDict [(PStr ''i2c_bus'', PInt 0)]) absent_world bound_sht35 of
     (Raise e, t) \<Rightarrow> operational e
   | _ \<Rightarrow> False"
proof -
  let ?v = "PDict [(PStr ''i2c_bus'', PInt 0)]"
  have nulls: "\<not> null_option (the_dict ?v)" by (simp add: null_option_def dget_def)
  have init: "\<exists>e t. sht35_initialize ?v absent_world bound_sht35 = (Raise e, t)"
    by (simp add: sht35_initialize_def plain_sht35_accepted candidates_of_def SHT35_I2C_ADDRESSES_def
        config_offsets_def offset_of_def dget_or_def dget_def SINGLE_SHOT_def sht35_init_def
        candidate_fails_def sht35_command_def bus_write_def over_bus_def io_bind_def io_try_def io_res_def
        io_get_def io_set_def i2c_sense_def io_return_def io_raise_def absent_world_def)
  have "\<forall>s e t. sht35_initialize ?v absent_world s = (Raise e, t) \<longrightarrow> operational e"
    using drivers_raise_operational [OF absent_bus nulls, THEN conjunct1] plain_sht35_accepted by (rule mp)
  with init show ?thesis by fastforce
qed

end
