(* ===== verification/PinSensors.thy ===== *)
theory PinSensors
  imports DeviceValidation "HOL-Library.Multiset"
begin

section \<open>The sensors on single pins\<close>

text \<open>
  \<open>yl69_fc28_device.py\<close> (soil probe: switched power, an ADC, a comparator line) and
  \<open>ds18b20_device.py\<close> (1-Wire thermometer). What the pins, the ADC and the bus driver answer is
  the environment; a failed pin write leaves the line as it was. Numbers are exact.
\<close>

subsection \<open>Pins, ADC and 1-Wire bus\<close>

record pin_world =
  adc_at :: "nat \<Rightarrow> int res"
  digital_at :: "nat \<Rightarrow> int res"
  pin_fault_at :: "nat \<Rightarrow> exc option"
  scan_at :: "nat \<Rightarrow> nat list list res"
  convert_at :: "nat \<Rightarrow> exc option"
  temperature_at :: "nat \<Rightarrow> pyfloat option res"

datatype wire_event = Converted | Slept int | Scratchpad "nat list option"

text \<open>\<open>line\<close> is the level of the power pin, \<open>switches\<close> the attempted writes and their success.\<close>

record pin_state =
  pin_clock :: nat
  line :: int
  switches :: "(int \<times> bool) list"
  wire_events :: "wire_event list"
  matched_rom :: "nat list option"

type_synonym 'a pin_prog = "(pin_world, pin_state, 'a) prog"

definition pin_sense :: "(pin_world \<Rightarrow> nat \<Rightarrow> 'x) \<Rightarrow> 'x pin_prog" where
  "pin_sense f w s = (Return (f w (pin_clock s)), s\<lparr>pin_clock := Suc (pin_clock s)\<rparr>)"

text \<open>\<open>except MemoryError: raise; except Exception: raise OSError\<close>.\<close>

definition to_os_error :: "exc \<Rightarrow> exc" where
  "to_os_error e = (if e = MemoryError then MemoryError else OSError)"

definition ask_device :: "(pin_world \<Rightarrow> nat \<Rightarrow> 'x res) \<Rightarrow> 'x pin_prog" where
  "ask_device f = io_bind (pin_sense f) (\<lambda>r.
     case r of Inl e \<Rightarrow> io_raise (to_os_error e) | Inr x \<Rightarrow> io_return x)"

text \<open>\<open>try: m finally: cleanup\<close>. What the cleanup raises replaces the outcome of \<open>m\<close>.\<close>

definition io_finally :: "'a pin_prog \<Rightarrow> unit pin_prog \<Rightarrow> 'a pin_prog" where
  "io_finally m cleanup w s =
     (case m w s of
        (Cut, t) \<Rightarrow> (Cut, t)
      | (r, t) \<Rightarrow> (case cleanup w t of (Return u, t') \<Rightarrow> (r, t') | (Raise e, t') \<Rightarrow> (Raise e, t') | (Cut, t') \<Rightarrow> (Cut, t')))"

subsection \<open>YL-69 / FC-28\<close>

definition relative_moisture_percent :: "int \<Rightarrow> int \<Rightarrow> int \<Rightarrow> rat" where
  "relative_moisture_percent raw dry wet =
     (let percent = of_int (raw - dry) * 100 / of_int (wet - dry) in
      if percent < 0 then 0 else if percent > 100 then 100 else percent)"

record yl69 =
  has_digital :: bool
  has_power :: bool
  power_active_low :: bool
  dry_raw :: int
  wet_raw :: int
  settle_ms :: int
  sample_count :: nat
  sample_delay_ms :: int

definition power_level :: "yl69 \<Rightarrow> bool \<Rightarrow> int" where
  "power_level c enabled = (if power_active_low c then (if enabled then 0 else 1) else if enabled then 1 else 0)"

definition write_line :: "int \<Rightarrow> unit pin_prog" where
  "write_line v = io_bind (pin_sense pin_fault_at) (\<lambda>fault.
     case fault of
       None \<Rightarrow> io_set (\<lambda>s. s\<lparr>line := v, switches := switches s @ [(v, True)]\<rparr>)
     | Some e \<Rightarrow> io_bind (io_set (\<lambda>s. s\<lparr>switches := switches s @ [(v, False)]\<rparr>)) (\<lambda>_. io_raise (to_os_error e)))"

definition set_power :: "yl69 \<Rightarrow> bool \<Rightarrow> unit pin_prog" where
  "set_power c enabled = (if has_power c then write_line (power_level c enabled) else io_return ())"

definition read_adc :: "int pin_prog" where
  "read_adc = ask_device adc_at"

definition pin_sleep :: "int \<Rightarrow> unit pin_prog" where
  "pin_sleep ms = io_set (\<lambda>s. s\<lparr>wire_events := wire_events s @ [Slept ms]\<rparr>)"

fun take_samples :: "yl69 \<Rightarrow> nat \<Rightarrow> int list pin_prog" where
  "take_samples c 0 = io_return []"
| "take_samples c (Suc n) =
     io_bind read_adc (\<lambda>x.
     io_bind (if sample_delay_ms c \<noteq> 0 then pin_sleep (sample_delay_ms c) else io_return ()) (\<lambda>_.
     io_bind (take_samples c n) (\<lambda>xs. io_return (x # xs))))"

definition median_of :: "int list \<Rightarrow> int" where
  "median_of xs = sort xs ! (length xs div 2)"

text \<open>The first conversion is discarded.\<close>

definition read_filtered_raw :: "yl69 \<Rightarrow> int pin_prog" where
  "read_filtered_raw c =
     io_bind read_adc (\<lambda>_. io_bind (take_samples c (sample_count c)) (\<lambda>xs. io_return (median_of xs)))"

definition yl_measure :: "yl69 \<Rightarrow> (int \<times> int option) pin_prog" where
  "yl_measure c =
     io_bind (if has_power c \<and> settle_ms c \<noteq> 0 then pin_sleep (settle_ms c) else io_return ()) (\<lambda>_.
     io_bind (read_filtered_raw c) (\<lambda>raw.
     io_bind (if has_digital c then io_bind (ask_device digital_at) (\<lambda>d. io_return (Some d)) else io_return None) (\<lambda>digital.
     io_return (raw, digital))))"

definition yl_read :: "yl69 \<Rightarrow> (int \<times> rat \<times> int option) pin_prog" where
  "yl_read c =
     io_bind (set_power c True) (\<lambda>_.
     io_bind (io_finally (yl_measure c) (set_power c False)) (\<lambda>(raw, digital).
     io_return (raw, relative_moisture_percent raw (dry_raw c) (wet_raw c), digital)))"

text \<open>
  The adapter: the pins are built from the configuration, the power pin in the off state. A
  failure of the pin's constructor is not converted.
\<close>

definition make_pin :: "unit pin_prog" where
  "make_pin = io_bind (pin_sense pin_fault_at) (\<lambda>fault.
     case fault of None \<Rightarrow> io_return () | Some e \<Rightarrow> io_raise e)"

definition yl_initialize :: "pyval \<Rightarrow> yl69 pin_prog" where
  "yl_initialize v =
     io_bind (io_res (yl69_validate_config v)) (\<lambda>_.
     (let config = the_dict v;
          c = \<lparr>has_digital = dhas config ''digital_pin'', has_power = dhas config ''power_pin'',
               power_active_low = (dget_or config ''power_active_low'' (PBool True) = PBool True),
               dry_raw = the_int (dget_none config ''dry_raw''),
               wet_raw = the_int (dget_none config ''wet_raw''),
               settle_ms = the_int (dget_or config ''settle_ms'' (PInt 200)),
               sample_count = nat (the_int (dget_or config ''sample_count'' (PInt 9))),
               sample_delay_ms = the_int (dget_or config ''sample_delay_ms'' (PInt 2))\<rparr> in
      io_bind (if has_digital c then make_pin else io_return ()) (\<lambda>_.
      io_bind (if has_power c
               then io_bind make_pin (\<lambda>_. io_set (\<lambda>s. s\<lparr>line := power_level c False\<rparr>))
               else io_return ()) (\<lambda>_.
      io_bind (set_power c False) (\<lambda>_. io_return c)))))"

definition yl_sample :: "yl69 option \<Rightarrow> pydict pin_prog" where
  "yl_sample ready =
     (case ready of
        None \<Rightarrow> io_raise RuntimeError
      | Some c \<Rightarrow> io_bind (yl_read c) (\<lambda>(raw, percent, digital). io_return
          [(PStr ''raw'', PInt raw),
           (PStr ''relative_moisture_percent'', PFloat (Finite percent)),
           (PStr ''digital_state'', case digital of None \<Rightarrow> PNone | Some d \<Rightarrow> PInt d)]))"

subsection \<open>DS18B20\<close>

text \<open>\<open>bytes.fromhex\<close> of the lowered ROM text.\<close>

definition hex_digit :: "char \<Rightarrow> nat" where
  "hex_digit c = (let n = (of_char c :: nat) in if n \<ge> 97 then n - 87 else n - 48)"

fun from_hex :: "string \<Rightarrow> nat list" where
  "from_hex (a # b # rest) = (16 * hex_digit a + hex_digit b) # from_hex rest"
| "from_hex xs = []"

definition ds_scan :: "nat list list pin_prog" where
  "ds_scan = io_bind (pin_sense scan_at) (\<lambda>r. io_res r)"

text \<open>\<open>init\<close>: the scan's entry that equals the configured ROM. A new driver object starts unmatched.\<close>

definition ds_init :: "nat list \<Rightarrow> unit pin_prog" where
  "ds_init rom =
     io_bind (io_set (\<lambda>s. s\<lparr>matched_rom := None\<rparr>)) (\<lambda>_.
     io_bind ds_scan (\<lambda>roms.
       if rom \<in> set roms then io_set (\<lambda>s. s\<lparr>matched_rom := Some rom\<rparr>) else io_raise OSError))"

definition put_wire :: "wire_event \<Rightarrow> unit pin_prog" where
  "put_wire e = io_set (\<lambda>s. s\<lparr>wire_events := wire_events s @ [e]\<rparr>)"

text \<open>The range gate: NaN and the infinities fail the comparison.\<close>

definition in_documented_range :: "pyfloat \<Rightarrow> bool" where
  "in_documented_range v = (case v of Finite x \<Rightarrow> - 55 \<le> x \<and> x \<le> 125 | _ \<Rightarrow> False)"

definition finite_part :: "pyfloat \<Rightarrow> rat" where
  "finite_part v = (case v of Finite x \<Rightarrow> x | _ \<Rightarrow> 0)"

definition ds_convert :: "unit pin_prog" where
  "ds_convert =
     io_bind (pin_sense convert_at) (\<lambda>fault.
       case fault of None \<Rightarrow> put_wire Converted | Some e \<Rightarrow> io_raise (to_os_error e))"

definition ds_read :: "int \<Rightarrow> rat pin_prog" where
  "ds_read conversion_ms =
     io_bind ds_convert (\<lambda>_.
     io_bind (put_wire (Slept conversion_ms)) (\<lambda>_.
     io_bind (io_get matched_rom) (\<lambda>rom.
     io_bind (put_wire (Scratchpad rom)) (\<lambda>_.
     io_bind (ask_device temperature_at) (\<lambda>value.
       case value of
         None \<Rightarrow> io_raise OSError
       | Some v \<Rightarrow> if in_documented_range v then io_return (finite_part v) else io_raise OSError)))))"

definition ds_offset :: "pydict \<Rightarrow> rat res" where
  "ds_offset config =
     (case dget_or config ''offsets'' (PDict []) of
        PDict d \<Rightarrow> Inr (number_of (dget_or d ''temperature_c'' (PInt 0)))
      | _ \<Rightarrow> Inl AttributeError)"

definition ds_initialize :: "pyval \<Rightarrow> (rat \<times> int) pin_prog" where
  "ds_initialize v =
     io_bind (io_res (ds18b20_validate_config v)) (\<lambda>_.
     (let config = the_dict v in
      io_bind (io_res (ds_offset config)) (\<lambda>offset.
      io_bind (io_res (dindex config ''rom'')) (\<lambda>rom.
      io_bind (ds_init (from_hex (py_lower (the_str rom)))) (\<lambda>_.
      io_return (offset, the_int (dget_or config ''conversion_ms'' (PInt 750))))))))"

definition ds_sample :: "(rat \<times> int) option \<Rightarrow> pydict pin_prog" where
  "ds_sample ready =
     (case ready of
        None \<Rightarrow> io_raise RuntimeError
      | Some (offset, conversion_ms) \<Rightarrow>
          io_bind (ds_read conversion_ms) (\<lambda>t. io_return
            [(PStr ''temperature_c'', PFloat (Finite (t + offset)))]))"

subsection \<open>The soil probe's arithmetic\<close>

lemma moisture_percent_range:
  "0 \<le> relative_moisture_percent raw dry wet" "relative_moisture_percent raw dry wet \<le> 100"
  by (simp_all add: relative_moisture_percent_def Let_def)

lemma moisture_endpoints:
  assumes "dry \<noteq> wet"
  shows "relative_moisture_percent dry dry wet = 0" "relative_moisture_percent wet dry wet = 100"
proof -
  have "of_int (wet - dry) * 100 / of_int (wet - dry) = (100 :: rat)"
    using assms by (simp del: of_int_diff)
  then show "relative_moisture_percent wet dry wet = 100"
    by (simp only: relative_moisture_percent_def Let_def) simp
qed (simp add: relative_moisture_percent_def Let_def)

text \<open>Either board polarity: closer to the wet point is never drier.\<close>

lemma moisture_monotone:
  assumes "(raw - dry) * (wet - dry) \<le> (raw' - dry) * (wet - dry)" "dry \<noteq> wet"
  shows "relative_moisture_percent raw dry wet \<le> relative_moisture_percent raw' dry wet"
proof -
  have "of_int (raw - dry) * 100 / of_int (wet - dry) \<le> (of_int (raw' - dry) * 100 / of_int (wet - dry) :: rat)"
  proof (cases "wet > dry")
    case True
    with assms(1) have "raw - dry \<le> raw' - dry" by (simp only: mult_le_cancel_right)
    with True show ?thesis by (intro divide_right_mono mult_right_mono) simp_all
  next
    case False
    with assms have neg: "wet - dry < 0" by simp
    with assms(1) have "raw' - dry \<le> raw - dry" by (simp add: mult_le_cancel_right)
    with neg show ?thesis by (intro divide_right_mono_neg mult_right_mono) simp_all
  qed
  then show ?thesis by (auto simp: relative_moisture_percent_def Let_def)
qed

text \<open>Fewer than half of the samples outside a range cannot move the median out of it.\<close>

lemma sorted_count_below:
  assumes "sorted xs" "i < length xs" "xs ! i < (lo :: int)"
  shows "i < length (filter (\<lambda>x. x < lo) xs)"
proof -
  have "filter (\<lambda>x. x < lo) (take (Suc i) xs) = take (Suc i) xs"
    using assms sorted_nth_mono [OF assms(1) _ assms(2)]
    by (intro filter_True) (fastforce simp: in_set_conv_nth less_Suc_eq_le)
  then have "length (filter (\<lambda>x. x < lo) (take (Suc i) xs)) = Suc i" using assms by simp
  moreover have "length (filter (\<lambda>x. x < lo) xs) \<ge> length (filter (\<lambda>x. x < lo) (take (Suc i) xs))"
    by (subst (2) append_take_drop_id [of "Suc i" xs, symmetric]) (simp only: filter_append length_append)
  ultimately show ?thesis by simp
qed

lemma sorted_count_above:
  assumes "sorted xs" "i < length xs" "xs ! i > (hi :: int)"
  shows "length xs - i \<le> length (filter (\<lambda>x. x > hi) xs)"
proof -
  have "hi < x" if "x \<in> set (drop i xs)" for x
  proof -
    from that obtain j where "j < length xs - i" "x = xs ! (i + j)" by (auto simp: in_set_conv_nth)
    then have j: "i + j < length xs" "x = xs ! (i + j)" by simp_all
    have "xs ! i \<le> xs ! (i + j)" by (rule sorted_nth_mono [OF assms(1) _ j(1)]) simp
    with assms j show ?thesis by simp
  qed
  then have "filter (\<lambda>x. x > hi) (drop i xs) = drop i xs" by (intro filter_True) blast
  then have "length (filter (\<lambda>x. x > hi) (drop i xs)) = length xs - i" by simp
  moreover have "length (filter (\<lambda>x. x > hi) xs) \<ge> length (filter (\<lambda>x. x > hi) (drop i xs))"
    by (subst (2) append_take_drop_id [of i xs, symmetric]) (simp only: filter_append length_append)
  ultimately show ?thesis by simp
qed

lemma filter_sort_length: "length (filter P (sort xs)) = length (filter P xs)"
  by (metis mset_filter mset_sort size_mset)

lemma median_rejects_spikes:
  assumes "2 * length (filter (\<lambda>x. x < lo \<or> hi < x) xs) < length xs"
  shows "lo \<le> median_of xs" "median_of xs \<le> hi"
proof -
  have mono: "length (filter P xs) \<le> length (filter Q xs)" if "\<And>x. P x \<Longrightarrow> Q x" for P Q :: "int \<Rightarrow> bool"
    using that by (induction xs) (auto simp: le_Suc_eq)
  have i: "length xs div 2 < length (sort xs)" using assms by auto
  show "lo \<le> median_of xs"
  proof (rule ccontr)
    assume "\<not> ?thesis"
    then have "length xs div 2 < length (filter (\<lambda>x. x < lo) xs)"
      using sorted_count_below [OF sorted_sort i, of lo] by (simp add: median_of_def filter_sort_length)
    also have "\<dots> \<le> length (filter (\<lambda>x. x < lo \<or> hi < x) xs)" by (rule mono) simp
    finally show False using assms by linarith
  qed
  show "median_of xs \<le> hi"
  proof (rule ccontr)
    assume "\<not> ?thesis"
    then have "length xs - length xs div 2 \<le> length (filter (\<lambda>x. x > hi) xs)"
      using sorted_count_above [OF sorted_sort i, of hi] by (simp add: median_of_def filter_sort_length)
    also have "\<dots> \<le> length (filter (\<lambda>x. x < lo \<or> hi < x) xs)" by (rule mono) simp
    finally show False using assms by linarith
  qed
qed

subsection \<open>Properties\<close>

definition pin_operational :: "'a pin_prog \<Rightarrow> bool" where
  "pin_operational m \<longleftrightarrow> (\<forall>w s e t. m w s = (Raise e, t) \<longrightarrow> e = OSError \<or> e = MemoryError)"

named_theorems pin_rules \<open>programs on pins that raise operational exceptions only\<close>

lemma pin_operational_base [pin_rules]:
  "pin_operational (io_return x)" "pin_operational (io_set f)" "pin_operational (io_get g)"
  "pin_operational (pin_sense h)" "pin_operational (pin_sleep ms)" "pin_operational (put_wire e)"
  "pin_operational (io_raise OSError)" "pin_operational (io_raise (to_os_error ex))"
  by (simp_all add: pin_operational_def io_return_def io_set_def io_get_def pin_sense_def pin_sleep_def
      put_wire_def io_raise_def to_os_error_def)

lemma pin_operational_bind [pin_rules]:
  assumes "pin_operational m" and "\<And>x. pin_operational (f x)"
  shows "pin_operational (io_bind m f)"
  unfolding pin_operational_def
proof (intro allI impI)
  fix w s e t assume run: "io_bind m f w s = (Raise e, t)"
  obtain r u where "m w s = (r, u)" by fastforce
  with run assms show "e = OSError \<or> e = MemoryError"
    by (cases r) (auto simp: io_bind_def pin_operational_def, blast)
qed

lemma pin_operational_if [pin_rules]:
  "pin_operational m \<Longrightarrow> pin_operational m' \<Longrightarrow> pin_operational (if c then m else m')"
  by simp

lemma pin_operational_option [pin_rules]:
  "pin_operational m \<Longrightarrow> (\<And>x. pin_operational (f x)) \<Longrightarrow>
     pin_operational (case v of None \<Rightarrow> m | Some x \<Rightarrow> f x)"
  by (cases v) simp_all

lemma pin_operational_ask [pin_rules]: "pin_operational (ask_device f)"
  unfolding ask_device_def by (intro pin_rules) (auto intro: pin_rules split: sum.splits)

lemma pin_operational_finally [pin_rules]:
  assumes "pin_operational m" "pin_operational cleanup"
  shows "pin_operational (io_finally m cleanup)"
  unfolding pin_operational_def
proof (intro allI impI)
  fix w s e t assume run: "io_finally m cleanup w s = (Raise e, t)"
  obtain r u where m: "m w s = (r, u)" by fastforce
  obtain q v where "cleanup w u = (q, v)" by fastforce
  with run m assms show "e = OSError \<or> e = MemoryError"
    unfolding pin_operational_def by (cases r; cases q) (simp_all add: io_finally_def, blast+)
qed

lemma pin_operational_power [pin_rules]: "pin_operational (set_power c b)"
  unfolding set_power_def write_line_def by (intro pin_rules)

lemma pin_operational_samples [pin_rules]: "pin_operational (take_samples c n)"
  by (induction n) (auto simp: read_adc_def intro!: pin_rules)

lemma pin_operational_measure [pin_rules]: "pin_operational (yl_measure c)"
  unfolding yl_measure_def read_filtered_raw_def read_adc_def by (intro pin_rules)

lemma pin_operational_yl_read: "pin_operational (yl_read c)"
  unfolding yl_read_def by (intro pin_rules) (auto intro: pin_rules)

lemma pin_operational_ds_read: "pin_operational (ds_read ms)"
  unfolding ds_read_def ds_convert_def by (intro pin_rules)

text \<open>Only the power switch touches the power line.\<close>

definition keeps_line :: "'a pin_prog \<Rightarrow> bool" where
  "keeps_line m \<longleftrightarrow> (\<forall>w s r t. m w s = (r, t) \<longrightarrow> line t = line s \<and> switches t = switches s \<and> r \<noteq> Cut)"

lemma keeps_line_base [pin_rules]:
  "keeps_line (io_return x)" "keeps_line (io_raise e)" "keeps_line (pin_sense h)" "keeps_line (pin_sleep ms)"
  by (simp_all add: keeps_line_def io_return_def io_raise_def pin_sense_def pin_sleep_def io_set_def)

lemma keeps_line_bind [pin_rules]:
  assumes "keeps_line m" and "\<And>x. keeps_line (f x)"
  shows "keeps_line (io_bind m f)"
  unfolding keeps_line_def
proof (intro allI impI)
  fix w s r t assume run: "io_bind m f w s = (r, t)"
  obtain q u where m: "m w s = (q, u)" by fastforce
  show "line t = line s \<and> switches t = switches s \<and> r \<noteq> Cut"
  proof (cases q)
    case (Return x)
    with run m have "f x w u = (r, t)" by (simp add: io_bind_def)
    with m assms show ?thesis unfolding keeps_line_def by metis
  qed (use run m assms(1) in \<open>auto simp: io_bind_def keeps_line_def\<close>)
qed

lemma keeps_line_if [pin_rules]: "keeps_line m \<Longrightarrow> keeps_line m' \<Longrightarrow> keeps_line (if c then m else m')"
  by simp

lemma keeps_line_ask [pin_rules]: "keeps_line (ask_device f)"
  unfolding ask_device_def by (intro pin_rules) (auto intro: pin_rules split: sum.splits)

lemma keeps_line_samples [pin_rules]: "keeps_line (take_samples c n)"
  by (induction n) (auto simp: read_adc_def intro!: pin_rules)

lemma keeps_line_measure: "keeps_line (yl_measure c)"
  unfolding yl_measure_def read_filtered_raw_def read_adc_def by (intro pin_rules)

lemma set_power_run:
  assumes "has_power c" "set_power c b w s = (r, t)"
  shows "(r = Return () \<and> line t = power_level c b \<and> switches t = switches s @ [(power_level c b, True)]) \<or>
    ((\<exists>e. r = Raise e) \<and> line t = line s \<and> switches t = switches s @ [(power_level c b, False)])"
  using assms
  by (auto simp: set_power_def write_line_def io_bind_def pin_sense_def io_set_def io_raise_def
      split: option.splits)

text \<open>
  C32: A read of the soil probe never leaves the electrodes energized: from a line that is off,
  whatever the ADC, the comparator and the pins answer and whether the read returns or raises,
  the line is off afterwards, unless the very write that switches it off failed. A successful
  read switched on and off once; whatever it raises is \<open>OSError\<close> or \<open>MemoryError\<close>; the
  percentage it returns lies between 0 and 100.
\<close>

theorem probe_never_left_energized:
  assumes "has_power c" and "line s = power_level c False" and "yl_read c w s = (r, t)"
  shows "(line t = power_level c False \<or> (\<exists>h. switches t = h @ [(power_level c False, False)])) \<and>
    (\<forall>e. r = Raise e \<longrightarrow> e = OSError \<or> e = MemoryError) \<and>
    (\<forall>raw percent digital. r = Return (raw, percent, digital) \<longrightarrow> 0 \<le> percent \<and> percent \<le> 100 \<and>
      switches t = switches s @ [(power_level c True, True), (power_level c False, True)])"
proof -
  have raises: "\<forall>e. r = Raise e \<longrightarrow> e = OSError \<or> e = MemoryError"
    using pin_operational_yl_read [of c] assms(3) unfolding pin_operational_def by blast
  obtain q u where on: "set_power c True w s = (q, u)" by fastforce
  show ?thesis
  proof (cases "q = Return ()")
    case False
    with set_power_run [OF assms(1) on] obtain e where "q = Raise e" "line u = line s" by auto
    with on assms raises show ?thesis by (auto simp: yl_read_def io_bind_def)
  next
    case True
    with set_power_run [OF assms(1) on] have
      u: "switches u = switches s @ [(power_level c True, True)]" by simp
    obtain p v where m: "yl_measure c w u = (p, v)" by fastforce
    with keeps_line_measure [of c] have v: "switches v = switches u" "p \<noteq> Cut"
      unfolding keeps_line_def by blast+
    obtain k x where off: "set_power c False w v = (k, x)" by fastforce
    note off_run = set_power_run [OF assms(1) off]
    have fin: "io_finally (yl_measure c) (set_power c False) w u = ((case k of Return _ \<Rightarrow> p | Raise e \<Rightarrow> Raise e | Cut \<Rightarrow> Cut), x)"
      using m off v(2) by (cases p; cases k) (simp_all add: io_finally_def)
    then have t: "t = x" using assms(3) on True
      by (cases k; cases p) (auto simp: yl_read_def io_bind_def io_return_def)
    have returned: "k = Return ()" if "r = Return y" for y
      using that assms(3) on True fin off_run by (auto simp: yl_read_def io_bind_def)
    have percent: "0 \<le> percent \<and> percent \<le> 100" if "r = Return (raw, percent, digital)" for raw percent digital
      using that assms(3) on True fin moisture_percent_range
      by (auto simp: yl_read_def io_bind_def io_return_def split: outcome.splits prod.splits)
    show ?thesis using off_run t u v(1) returned percent raises by fastforce
  qed
qed

definition spiky_world :: pin_world where
  "spiky_world = \<lparr>adc_at = (\<lambda>n. if n = 4 then Inl ValueError else Inr 30000), digital_at = (\<lambda>n. Inr 1),
     pin_fault_at = (\<lambda>n. None), scan_at = (\<lambda>n. Inr []), convert_at = (\<lambda>n. None),
     temperature_at = (\<lambda>n. Inr None)\<rparr>"

definition switched_probe :: yl69 where
  "switched_probe = \<lparr>has_digital = False, has_power = True, power_active_low = True, dry_raw = 50000,
     wet_raw = 20000, settle_ms = 200, sample_count = 3, sample_delay_ms = 2\<rparr>"

definition quiet_pins :: pin_state where
  "quiet_pins = \<lparr>pin_clock = 0, line = 1, switches = [], wire_events = [], matched_rom = None\<rparr>"

theorem probe_never_left_energized_witness:
  "case yl_read switched_probe spiky_world quiet_pins of (r, t) \<Rightarrow> line t = 1 \<or> (\<exists>h. switches t = h @ [(1, False)])"
proof -
  obtain r t where run: "yl_read switched_probe spiky_world quiet_pins = (r, t)" by fastforce
  have "has_power switched_probe" "line quiet_pins = power_level switched_probe False"
    by (simp_all add: switched_probe_def quiet_pins_def power_level_def)
  from probe_never_left_energized [OF this run] run show ?thesis
    by (simp add: power_level_def switched_probe_def)
qed

text \<open>
  C33: A temperature is published only from a fresh conversion of the configured sensor: after
  a successful \<open>initialize\<close>, a sample that is returned comes from exactly one conversion, an
  uninterrupted wait of at least 750 ms, and then one read of the scratchpad of the sensor
  whose ROM the configuration names; the reading lies in the documented range of -55 to 125
  degrees (so it is neither NaN nor infinite) and the offset is added to it.
\<close>

theorem ds18b20_fresh_reading:
  assumes "ds_initialize v w s\<^sub>0 = (Return (offset, ms), s)"
    and "ds_sample (Some (offset, ms)) w s = (Return sample, t)"
  shows "750 \<le> ms \<and>
    wire_events t = wire_events s @ [Converted, Slept ms,
      Scratchpad (Some (from_hex (py_lower (the_str (dget_none (the_dict v) ''rom'')))))] \<and>
    (\<exists>x. - 55 \<le> x \<and> x \<le> 125 \<and> sample = [(PStr ''temperature_c'', PFloat (Finite (x + offset)))])"
proof -
  let ?rom = "from_hex (py_lower (the_str (dget_none (the_dict v) ''rom'')))"
  from assms(1) have valid: "ds18b20_validate_config v = Inr ()"
    by (auto simp: ds_initialize_def io_bind_def io_res_def io_return_def io_raise_def split: sum.splits)
  then have rom: "dindex (the_dict v) ''rom'' = Inr (dget_none (the_dict v) ''rom'')"
      and conv: "750 \<le> the_int (dget_or (the_dict v) ''conversion_ms'' (PInt 750))"
    by (auto simp: ds18b20_validate_config_def ds18b20_rom_def Let_def res_simps int_in_range_def dindex_dhas)
  from assms(1) valid rom have init: "matched_rom s = Some ?rom"
      "ms = the_int (dget_or (the_dict v) ''conversion_ms'' (PInt 750))"
    by (auto simp: ds_initialize_def Let_def ds_init_def ds_scan_def pin_sense_def io_bind_def io_res_def
        io_set_def io_return_def io_raise_def split: sum.splits if_splits outcome.splits prod.splits)
  from assms(2) init(1) show ?thesis
    using conv init(2)
    by (auto simp: ds_sample_def ds_read_def ds_convert_def ask_device_def put_wire_def pin_sense_def
        io_bind_def io_set_def io_get_def io_return_def io_raise_def in_documented_range_def finite_part_def
        split: option.splits sum.splits pyfloat.splits if_splits)
qed

definition warm_world :: pin_world where
  "warm_world = spiky_world\<lparr>scan_at := (\<lambda>n. Inr [[16], [40, 1, 2, 3, 4, 5, 6, 7]]),
     temperature_at := (\<lambda>n. Inr (Some (Finite 85)))\<rparr>"

definition ds_config :: pyval where
  "ds_config = PDict [(PStr ''pin'', PInt 2), (PStr ''rom'', PStr ''2801020304050607'')]"

theorem ds18b20_fresh_reading_witness:
  "\<exists>s t sample. ds_initialize ds_config warm_world quiet_pins = (Return (0, 750), s) \<and>
     ds_sample (Some (0, 750)) warm_world s = (Return sample, t) \<and>
     wire_events t = wire_events s @ [Converted, Slept 750,
       Scratchpad (Some (from_hex (py_lower (the_str (dget_none (the_dict ds_config) ''rom'')))))]"
proof -
  have "ds18b20_validate_config ds_config = Inr ()" by code_simp
  moreover have "from_hex (py_lower ''2801020304050607'') = [40, 1, 2, 3, 4, 5, 6, 7]" by code_simp
  ultimately have init: "ds_initialize ds_config warm_world quiet_pins =
      (Return (0, 750), quiet_pins\<lparr>pin_clock := 1, matched_rom := Some [40, 1, 2, 3, 4, 5, 6, 7]\<rparr>)"
    by (simp add: ds_initialize_def ds_config_def ds_offset_def ds_init_def ds_scan_def warm_world_def
        spiky_world_def quiet_pins_def dget_or_def dindex_def dget_def pin_sense_def io_bind_def io_res_def
        io_set_def io_return_def)
  obtain t sample where
    run: "ds_sample (Some (0, 750)) warm_world
      (quiet_pins\<lparr>pin_clock := 1, matched_rom := Some [40, 1, 2, 3, 4, 5, 6, 7]\<rparr>) = (Return sample, t)"
    by (simp add: ds_sample_def ds_read_def ds_convert_def ask_device_def put_wire_def pin_sense_def
        io_bind_def io_set_def io_get_def io_return_def in_documented_range_def warm_world_def
        spiky_world_def quiet_pins_def)
  show ?thesis using init run ds18b20_fresh_reading [OF init run] by blast
qed

end
