(* ===== verification/Drivers.thy ===== *)
theory Drivers
  imports DeviceManager I2cSensors PinSensors
begin

section \<open>Drivers and their manager\<close>

text \<open>
  The interface between the device manager and the five drivers (\<open>devices/device.py\<close>: \<open>initialize\<close>
  and \<open>read\<close>) as a locale, its interpretation by each driver, and what the manager makes of it: as
  long as the drivers keep to their contract, no sensor fault ends Core 1.
\<close>

subsection \<open>The contract of a driver\<close>

text \<open>
  \<open>ready w\<close>: the configuration is an accepted one and the bus of \<open>w\<close> fails only with \<open>OSError\<close> or
  \<open>MemoryError\<close>. \<open>beyond\<close> are the exceptions a read may add to these two.
\<close>

locale sensor_driver =
  fixes ready :: "'w \<Rightarrow> bool" and bring_up :: "('w, 's, 'd) prog" and sample :: "'d \<Rightarrow> ('w, 's, pydict) prog"
    and beyond :: "exc \<Rightarrow> bool"
  assumes bring_up_raises: "ready w \<Longrightarrow> bring_up w s = (Raise e, t) \<Longrightarrow> operational e"
    and sample_raises: "ready w \<Longrightarrow> bring_up w s = (Return d, t) \<Longrightarrow> sample d w u = (Raise e, v)
      \<Longrightarrow> operational e \<or> beyond e"
    and sample_ok: "sample d w u = (Return x, v) \<Longrightarrow> telemetry_ok (PDict x)"
begin

text \<open>What the manager can see of a call: success, or the exception.\<close>

definition initialize_answers :: "exc option \<Rightarrow> bool" where
  "initialize_answers r \<longleftrightarrow>
     (\<exists>w s t. ready w \<and> (case r of
        None \<Rightarrow> \<exists>d. bring_up w s = (Return d, t)
      | Some e \<Rightarrow> bring_up w s = (Raise e, t)))"

definition read_answers :: "pyval res \<Rightarrow> bool" where
  "read_answers r \<longleftrightarrow>
     (\<exists>w s d t u v. ready w \<and> bring_up w s = (Return d, t) \<and> (case r of
        Inl e \<Rightarrow> sample d w u = (Raise e, v)
      | Inr x \<Rightarrow> \<exists>y. x = PDict y \<and> sample d w u = (Return y, v)))"

lemma initialize_answer: "initialize_answers r \<Longrightarrow> r = Some e \<Longrightarrow> operational e"
  by (auto simp: initialize_answers_def dest: bring_up_raises)

lemma read_error: "read_answers (Inl e) \<Longrightarrow> operational e \<or> beyond e"
  by (auto simp: read_answers_def dest: sample_raises)

lemma read_value: "read_answers (Inr x) \<Longrightarrow> telemetry_ok x"
  by (auto simp: read_answers_def dest: sample_ok)

end

text \<open>A driver that stays within the two classes the manager and the heap boundary handle.\<close>

locale operational_driver = sensor_driver +
  assumes nothing_beyond: "\<not> beyond e"
begin

lemma read_answer: "read_answers r \<Longrightarrow> (case r of Inl e \<Rightarrow> operational e | Inr x \<Rightarrow> telemetry_ok x)"
  using read_error read_value nothing_beyond by (cases r) auto

end

subsection \<open>The five drivers keep it\<close>

text \<open>
  The reads and the bring-ups with their fuel: running out of it is no answer (\<open>Cut\<close>), and
  \<open>poll_ends\<close> shows that 101 and 51 rounds are enough.
\<close>

definition no_answer :: "('w, 's, 'a) prog" where
  "no_answer w s = (Cut, s)"

definition answered :: "'a option \<Rightarrow> ('w, 's, 'a) prog" where
  "answered r = (case r of None \<Rightarrow> no_answer | Some x \<Rightarrow> io_return x)"

definition ltr_reading :: "nat \<Rightarrow> rat \<times> rat \<times> ltr_setup \<Rightarrow> (i2c_world, i2c_bus, pydict) prog" where
  "ltr_reading polls k = io_bind (ltr_sample polls (Some k)) answered"

definition bme_bring_up :: "nat \<Rightarrow> pyval \<Rightarrow> bme_policy bme" where
  "bme_bring_up polls v = io_bind (bme_initialize polls v) answered"

definition accepted_on :: "(pyval \<Rightarrow> unit res) \<Rightarrow> pyval \<Rightarrow> i2c_world \<Rightarrow> bool" where
  "accepted_on validate v w \<longleftrightarrow> operational_bus w \<and> validate v = Inr () \<and> \<not> null_option (the_dict v)"

lemma bound_Raise:
  "io_bind m answered w s = (Raise e, t) \<longleftrightarrow> m w s = (Raise e, t)"
  by (auto simp: io_bind_def answered_def no_answer_def io_return_def
      split: outcome.splits option.splits prod.splits)

lemma bound_Return:
  "io_bind m answered w s = (Return x, t) \<longleftrightarrow> m w s = (Return (Some x), t)"
  by (auto simp: io_bind_def answered_def no_answer_def io_return_def
      split: outcome.splits option.splits prod.splits)

lemma numbers_safe [simp]: "is_json_safe (float_or_none x)"
  by (simp add: float_or_none_def split: option.splits)

lemma sht35_telemetry: "sht35_sample (Some d) w u = (Return x, t) \<Longrightarrow> telemetry_ok (PDict x)"
  by (auto simp: sht35_sample_def io_bind_def io_return_def telemetry_ok_def split: outcome.splits prod.splits)

lemma ltr_telemetry: "ltr_reading polls d w u = (Return x, t) \<Longrightarrow> telemetry_ok (PDict x)"
  by (auto simp: ltr_reading_def bound_Return ltr_sample_def telemetry_ok_def io_bind_def [of "ltr_measure p c" for p c]
      io_return_def split: outcome.splits prod.splits)

lemma bme_telemetry: "bme_sample pow (Some d) w u = (Return x, t) \<Longrightarrow> telemetry_ok (PDict x)"
  by (auto simp: bme_sample_def io_bind_def io_return_def telemetry_ok_def Let_def split: outcome.splits prod.splits)

interpretation sht35: operational_driver "accepted_on sht35_validate_config v" "sht35_initialize v"
  "\<lambda>d. sht35_sample (Some d)" "\<lambda>e. False" for v
proof unfold_locales
  show "accepted_on sht35_validate_config v w \<Longrightarrow> sht35_initialize v w s = (Raise e, t) \<Longrightarrow> operational e" for w s e t
    using operational_sht35_initialize [of v] by (auto simp: accepted_on_def raises_within_def)
  show "accepted_on sht35_validate_config v w \<Longrightarrow> sht35_initialize v w s = (Return d, t) \<Longrightarrow>
      sht35_sample (Some d) w u = (Raise e, q) \<Longrightarrow> operational e \<or> False" for w s d t u e q
    using operational_sht35_sample [of d] by (auto simp: accepted_on_def raises_within_def)
qed (auto intro: sht35_telemetry)

interpretation ltr390: operational_driver "accepted_on ltr390_validate_config v" "ltr_initialize v"
  "ltr_reading polls" "\<lambda>e. False" for v polls
proof unfold_locales
  show "accepted_on ltr390_validate_config v w \<Longrightarrow> ltr_initialize v w s = (Raise e, t) \<Longrightarrow> operational e"
    for w e and s t :: i2c_bus
    using operational_ltr_initialize [of v] by (auto simp: accepted_on_def raises_within_def)
  show "operational e \<or> False" if "accepted_on ltr390_validate_config v w" "ltr_initialize v w s = (Return d, t)"
      "ltr_reading polls d w u = (Raise e, q)" for w d e and s t u q :: i2c_bus
    using that ltr_initialize_ok [OF that(2)] operational_ltr_sample [of "snd (snd d)" polls "fst d" "fst (snd d)"]
    by (auto simp: accepted_on_def raises_within_def ltr_reading_def bound_Raise)
qed (auto intro: ltr_telemetry)

interpretation bme280: sensor_driver "accepted_on bme280_validate_config v" "bme_bring_up polls v"
  "\<lambda>d. bme_sample pow (Some d)" "\<lambda>e. e = ArithmeticError" for v polls pow
proof unfold_locales
  show "accepted_on bme280_validate_config v w \<Longrightarrow> bme_bring_up polls v w s = (Raise e, t) \<Longrightarrow> operational e" for w s e t
    using operational_bme_initialize [of v polls] by (auto simp: accepted_on_def raises_within_def bme_bring_up_def bound_Raise)
  show "accepted_on bme280_validate_config v w \<Longrightarrow> bme_bring_up polls v w s = (Return d, t) \<Longrightarrow>
      bme_sample pow (Some d) w u = (Raise e, q) \<Longrightarrow> operational e \<or> e = ArithmeticError" for w s d t u e q
    by (auto simp: accepted_on_def dest: bme_sample_raises)
qed (auto intro: bme_telemetry)

subsection \<open>What programs raise in a class of worlds\<close>

definition raises_in :: "('w \<Rightarrow> bool) \<Rightarrow> (exc \<Rightarrow> bool) \<Rightarrow> ('w, 's, 'a) prog \<Rightarrow> bool" where
  "raises_in A P m \<longleftrightarrow> (\<forall>w s e t. A w \<longrightarrow> m w s = (Raise e, t) \<longrightarrow> P e)"

lemma raises_inD: "raises_in A P m \<Longrightarrow> A w \<Longrightarrow> m w s = (Raise e, t) \<Longrightarrow> P e"
  by (auto simp: raises_in_def)

named_theorems in_rules \<open>what programs raise in a class of worlds\<close>

lemma raises_in_base [in_rules]:
  "raises_in A P (io_return x)" "raises_in A P (io_set f)" "raises_in A P (io_get g)"
  by (simp_all add: raises_in_def io_return_def io_set_def io_get_def)

lemma raises_in_raise [in_rules]: "P e \<Longrightarrow> raises_in A P (io_raise e)"
  by (simp add: raises_in_def io_raise_def)

lemma raises_in_bind_where:
  assumes "raises_in A P m" and "\<And>w s x t. A w \<Longrightarrow> m w s = (Return x, t) \<Longrightarrow> Q x"
    and "\<And>x. Q x \<Longrightarrow> raises_in A P (f x)"
  shows "raises_in A P (io_bind m f)"
  unfolding raises_in_def
proof (intro allI impI)
  fix w s e t assume w: "A w" and run: "io_bind m f w s = (Raise e, t)"
  obtain r u where m: "m w s = (r, u)" by fastforce
  with run w assms show "P e"
    by (cases r) (auto simp: io_bind_def raises_in_def, blast)
qed

lemma raises_in_bind [in_rules]:
  "raises_in A P m \<Longrightarrow> (\<And>x. raises_in A P (f x)) \<Longrightarrow> raises_in A P (io_bind m f)"
  by (rule raises_in_bind_where [where Q = "\<lambda>x. True"]) simp_all

lemma raises_in_try:
  assumes "raises_in A Q m" and "\<And>e. Q e \<Longrightarrow> raises_in A P (h e)"
  shows "raises_in A P (io_try m h)"
  unfolding raises_in_def
proof (intro allI impI)
  fix w s e t assume w: "A w" and run: "io_try m h w s = (Raise e, t)"
  obtain r u where m: "m w s = (r, u)" by fastforce
  with run w assms show "P e"
    by (cases r) (auto simp: io_try_def raises_in_def, blast)
qed

lemma raises_in_ask [in_rules]: "(\<And>w. A w \<Longrightarrow> raises_in A P (f w)) \<Longrightarrow> raises_in A P (io_ask f)"
  by (simp add: raises_in_def io_ask_def)

lemma raises_in_cases [in_rules]:
  "(c \<Longrightarrow> raises_in A P m) \<Longrightarrow> (\<not> c \<Longrightarrow> raises_in A P m') \<Longrightarrow> raises_in A P (if c then m else m')"
  "raises_in A P m \<Longrightarrow> (\<And>x. raises_in A P (h x)) \<Longrightarrow> raises_in A P (case v of None \<Rightarrow> m | Some x \<Rightarrow> h x)"
  "(\<And>x y. raises_in A P (k x y)) \<Longrightarrow> raises_in A P (case p of (x, y) \<Rightarrow> k x y)"
  by (auto split: option.splits prod.splits)

lemma raises_in_mono: "raises_in A P m \<Longrightarrow> (\<And>e. P e \<Longrightarrow> Q e) \<Longrightarrow> raises_in A Q m"
  by (auto simp: raises_in_def)

subsection \<open>The drivers on pins\<close>

text \<open>The scan of the 1-Wire bus and the construction of a pin pass their exceptions on.\<close>

definition operational_pins :: "pin_world \<Rightarrow> bool" where
  "operational_pins w \<longleftrightarrow>
     (\<forall>n e. scan_at w n = Inl e \<longrightarrow> operational e) \<and> (\<forall>n e. pin_fault_at w n = Some e \<longrightarrow> operational e)"

definition accepted_pins :: "(pyval \<Rightarrow> unit res) \<Rightarrow> pyval \<Rightarrow> pin_world \<Rightarrow> bool" where
  "accepted_pins validate v w \<longleftrightarrow> operational_pins w \<and> validate v = Inr () \<and> \<not> null_option (the_dict v)"

lemma pins_within: "pin_operational m \<Longrightarrow> raises_in A operational m"
  by (auto simp: pin_operational_def raises_in_def operational_def)

lemma pins_make [in_rules]: "raises_in (accepted_pins f v) operational make_pin"
  by (auto simp: raises_in_def make_pin_def io_bind_def pin_sense_def io_return_def io_raise_def
      accepted_pins_def operational_pins_def split: option.splits)

lemma pins_scan [in_rules]: "raises_in (accepted_pins f v) operational ds_scan"
  by (auto simp: raises_in_def ds_scan_def io_bind_def pin_sense_def io_res_def io_return_def io_raise_def
      accepted_pins_def operational_pins_def split: sum.splits)

lemma pins_validated [in_rules]: "raises_in (accepted_pins validate v) P (io_res (validate v))"
  by (auto simp: raises_in_def accepted_pins_def io_res_def io_return_def)

lemma pins_ds_init [in_rules]: "raises_in (accepted_pins f v) operational (ds_init rom)"
  unfolding ds_init_def by (intro in_rules) simp

lemma yl_bring_up: "raises_in (accepted_pins yl69_validate_config v) operational (yl_initialize v)"
  unfolding yl_initialize_def Let_def
  by (intro in_rules pins_within [OF pin_operational_power])

lemma ds_known:
  assumes "accepted_pins ds18b20_validate_config v w"
  shows "\<exists>x. ds_offset (the_dict v) = Inr x" and "\<exists>rom. dindex (the_dict v) ''rom'' = Inr rom"
proof -
  have v: "validate_offsets ds18b20_offset_bounds (the_dict v) = Inr ()" "ds18b20_rom (the_dict v) = Inr ()"
    "\<not> null_option (the_dict v)"
    using assms by (auto simp: accepted_pins_def ds18b20_validate_config_def Let_def res_simps)
  show "\<exists>x. ds_offset (the_dict v) = Inr x"
  proof (cases "dget (the_dict v) ''offsets''")
    case None
    then show ?thesis by (simp add: ds_offset_def dget_or_def)
  next
    case (Some o')
    with v(1,3) show ?thesis
      by (cases o') (auto simp: ds_offset_def dget_or_def validate_offsets_def null_option_def dget_none_def
          dhas_def Let_def res_simps split: if_splits)
  qed
  show "\<exists>rom. dindex (the_dict v) ''rom'' = Inr rom"
    using v(2) by (auto simp: ds18b20_rom_def dhas_def Let_def res_simps)
qed

lemma ds_bring_up: "raises_in (accepted_pins ds18b20_validate_config v) operational (ds_initialize v)"
proof (cases "\<exists>w. accepted_pins ds18b20_validate_config v w")
  case True
  then obtain w where w: "accepted_pins ds18b20_validate_config v w" ..
  from ds_known [OF w] obtain x rom where "ds_offset (the_dict v) = Inr x" "dindex (the_dict v) ''rom'' = Inr rom"
    by blast
  then show ?thesis
    unfolding ds_initialize_def Let_def
    by (auto simp: io_res_def [of "Inr y" for y] simp del: dindex_eq_Inr intro!: in_rules)
next
  case False
  then show ?thesis by (auto simp: raises_in_def)
qed

lemma yl_telemetry: "yl_sample (Some d) w u = (Return x, t) \<Longrightarrow> telemetry_ok (PDict x)"
  by (auto simp: yl_sample_def io_bind_def io_return_def telemetry_ok_def split: outcome.splits prod.splits option.splits)

lemma ds_telemetry: "ds_sample (Some d) w u = (Return x, t) \<Longrightarrow> telemetry_ok (PDict x)"
  by (auto simp: ds_sample_def io_bind_def io_return_def telemetry_ok_def split: outcome.splits prod.splits)

lemma pin_samples:
  "raises_in A operational (yl_sample (Some c))" "raises_in A operational (ds_sample (Some d))"
  unfolding yl_sample_def ds_sample_def option.case
  by (intro in_rules pins_within pin_operational_yl_read pin_operational_ds_read)+

interpretation yl69: operational_driver "accepted_pins yl69_validate_config v" "yl_initialize v"
  "\<lambda>d. yl_sample (Some d)" "\<lambda>e. False" for v
proof unfold_locales
  show "accepted_pins yl69_validate_config v w \<Longrightarrow> yl_initialize v w s = (Raise e, t) \<Longrightarrow> operational e" for w s e t
    using yl_bring_up [of v] by (auto simp: raises_in_def)
  show "yl_sample (Some d) w u = (Raise e, q) \<Longrightarrow> operational e \<or> False" for d w u e q
    using pin_samples(1) [of "\<lambda>w. True" d] by (auto simp: raises_in_def)
qed (auto intro: yl_telemetry)

interpretation ds18b20: operational_driver "accepted_pins ds18b20_validate_config v" "ds_initialize v"
  "\<lambda>d. ds_sample (Some d)" "\<lambda>e. False" for v
proof unfold_locales
  show "accepted_pins ds18b20_validate_config v w \<Longrightarrow> ds_initialize v w s = (Raise e, t) \<Longrightarrow> operational e" for w s e t
    using ds_bring_up [of v] by (auto simp: raises_in_def)
  show "ds_sample (Some d) w u = (Raise e, q) \<Longrightarrow> operational e \<or> False" for d w u e q
    using pin_samples(2) [of "\<lambda>w. True" d] by (auto simp: raises_in_def)
qed (auto intro: ds_telemetry)

subsection \<open>The manager over such drivers\<close>

text \<open>
  \<open>served w\<close>: the factory fails only with the two classes, and every answer the manager gets of an
  \<open>initialize\<close> or a \<open>read\<close> is one that a driver of the library can give. Of the BME280, whose pressure
  equation can divide by zero, the answers without that \<open>ArithmeticError\<close>.
\<close>

definition driver_initializes :: "exc option \<Rightarrow> bool" where
  "driver_initializes r \<longleftrightarrow>
     (\<exists>v. sht35.initialize_answers v r \<or> yl69.initialize_answers v r \<or> ds18b20.initialize_answers v r
        \<or> ltr390.initialize_answers v r \<or> (\<exists>polls. bme280.initialize_answers v polls r))"

definition driver_reads :: "pyval res \<Rightarrow> bool" where
  "driver_reads r \<longleftrightarrow>
     (\<exists>v. sht35.read_answers v r \<or> yl69.read_answers v r \<or> ds18b20.read_answers v r
        \<or> (\<exists>polls. ltr390.read_answers v polls r)
        \<or> (\<exists>polls pow. bme280.read_answers v polls pow r \<and> r \<noteq> Inl ArithmeticError))"

definition served :: "dm_world \<Rightarrow> bool" where
  "served w \<longleftrightarrow> (\<forall>n e. create_at w n = Some e \<longrightarrow> operational e)
     \<and> (\<forall>n. driver_initializes (initialize_at w n)) \<and> (\<forall>n. driver_reads (read_at w n))"

lemma initializes_operational: "driver_initializes (Some e) \<Longrightarrow> operational e"
  unfolding driver_initializes_def
  using sht35.initialize_answer yl69.initialize_answer ds18b20.initialize_answer ltr390.initialize_answer
    bme280.initialize_answer by blast

lemma reads_operational: "driver_reads r \<Longrightarrow> (case r of Inl e \<Rightarrow> operational e | Inr x \<Rightarrow> telemetry_ok x)"
proof -
  have bme: "case r of Inl e \<Rightarrow> operational e | Inr x \<Rightarrow> telemetry_ok x"
    if "bme280.read_answers v polls pow r" "r \<noteq> Inl ArithmeticError" for v polls pow
    using that bme280.read_error [of v polls pow] bme280.read_value [of v polls pow] by (cases r) auto
  show "driver_reads r \<Longrightarrow> (case r of Inl e \<Rightarrow> operational e | Inr x \<Rightarrow> telemetry_ok x)"
    unfolding driver_reads_def
    by (elim exE disjE conjE)
      (rule sht35.read_answer yl69.read_answer ds18b20.read_answer ltr390.read_answer bme, assumption+)+
qed

abbreviation only_memory :: "'a dmp \<Rightarrow> bool" where
  "only_memory \<equiv> raises_in served (\<lambda>e. e = MemoryError)"

lemma silent_sense [in_rules]: "raises_in A P (dm_sense f)"
  by (simp add: raises_in_def dm_sense_def)

lemma silent_manager [in_rules]:
  "raises_in A P (act a)" "raises_in A P refresh_activity"
  "raises_in A P (the_device i)" "raises_in A P (update_device i g)" "raises_in A P (update_failed k h)"
  "raises_in A P now_ms" "raises_in A P (record_failure_of d n x)" "raises_in A P (record_success d n)"
  by (auto simp: act_def refresh_activity_def the_device_def update_device_def update_failed_def
      now_ms_def record_failure_of_def record_success_def intro!: in_rules)

lemma silent_wait [in_rules]: "raises_in A P (wait_actions xs)"
  by (induction xs rule: wait_actions.induct) (auto intro!: in_rules)

lemma silent_sleep [in_rules]: "raises_in A P (sleep_refreshing d)"
  unfolding sleep_refreshing_def by (rule silent_wait)

lemma create_contained [in_rules]: "only_memory (create_driver d)"
  by (auto simp: raises_in_def create_driver_def io_bind_def dm_sense_def io_return_def io_raise_def served_def
      operational_def split: option.splits if_splits)

lemma initialize_within: "raises_in served operational (driver_initialize i)"
proof -
  have inner: "raises_in served operational (io_bind (dm_sense initialize_at) (\<lambda>r.
      case r of None \<Rightarrow> io_return () | Some e \<Rightarrow> io_raise e))"
  proof (rule raises_in_bind_where [where Q = driver_initializes, OF silent_sense])
    show "served w \<Longrightarrow> dm_sense initialize_at w s = (Return x, t) \<Longrightarrow> driver_initializes x" for w s x t
      by (auto simp: dm_sense_def served_def)
    show "driver_initializes x \<Longrightarrow> raises_in served operational (case x of None \<Rightarrow> io_return () | Some e \<Rightarrow> io_raise e)" for x
      using initializes_operational by (cases x) (auto intro!: in_rules)
  qed
  show ?thesis unfolding driver_initialize_def by (rule raises_in_bind [OF silent_manager(1) inner])
qed

lemma read_within: "raises_in served operational (driver_read i)"
  and read_answers_telemetry: "served w \<Longrightarrow> driver_read i w s = (Return x, t) \<Longrightarrow> telemetry_ok x"
proof -
  have "read_at w n = Inl e \<Longrightarrow> operational e" "read_at w n = Inr x \<Longrightarrow> telemetry_ok x" if "served w" for w n e x
  proof -
    from that have "driver_reads (read_at w n)" by (simp add: served_def)
    from reads_operational [OF this] show "read_at w n = Inl e \<Longrightarrow> operational e" "read_at w n = Inr x \<Longrightarrow> telemetry_ok x"
      by simp_all
  qed
  then show "raises_in served operational (driver_read i)"
    "served w \<Longrightarrow> driver_read i w s = (Return x, t) \<Longrightarrow> telemetry_ok x"
    by (auto simp: raises_in_def driver_read_def io_bind_def act_def io_set_def dm_sense_def io_res_def
        io_return_def io_raise_def split: sum.splits)
qed

lemma caught_contained [in_rules]: "raises_in served operational m \<Longrightarrow> only_memory (catch_os_error m)"
  unfolding catch_os_error_def
  by (rule raises_in_try [where Q = operational]) (auto simp: operational_def intro!: in_rules)

lemma attempts_contained [in_rules]: "only_memory (attempt_initialize i a n used err)"
  by (induction n arbitrary: a used err) (auto intro!: in_rules initialize_within)

lemma retries_contained [in_rules]: "only_memory (initialize_driver_with_retries i)"
  unfolding initialize_driver_with_retries_def by (intro in_rules)

lemma single_contained [in_rules]: "only_memory (initialize_single_device d)"
  unfolding initialize_single_device_def by (intro in_rules)

lemma initialize_contained: "only_memory initialize_devices"
proof -
  have "only_memory (initialize_each ds n)" for ds n
    by (induction ds arbitrary: n) (auto intro!: in_rules)
  then show ?thesis unfolding initialize_devices_def by (intro in_rules)
qed

lemma telemetry_within: "raises_in served operational (read_telemetry i)"
proof -
  have read: "raises_in served operational (io_bind (driver_read j) f)"
    if "\<And>x. telemetry_ok x \<Longrightarrow> raises_in served operational (f x)" for j and f :: "pyval \<Rightarrow> device_result dmp"
    by (rule raises_in_bind_where [OF read_within read_answers_telemetry that])
  show ?thesis unfolding read_telemetry_def by (intro in_rules read) simp
qed

lemma read_contained [in_rules]: "only_memory (process_normal_read i)"
  unfolding process_normal_read_def
  by (rule raises_in_try [OF telemetry_within]) (auto simp: operational_def intro!: in_rules)

lemma retry_contained: "only_memory retry_failed_devices"
proof -
  have "only_memory (retry_failed_device d info)" for d info
    unfolding retry_failed_device_def late_retry_failure_result_def
    by (intro in_rules initialize_within)
  then have "only_memory (retry_each ds rs)" for ds rs
    by (induction ds arbitrary: rs) (auto intro!: in_rules)
  then show ?thesis unfolding retry_failed_devices_def by (intro in_rules)
qed

lemma reachable_known:
  assumes "dm_reachable w s" and "valid_manager_config w" and "i < length (active s)"
  shows "device_id (active s ! i) \<in> d_id ` set (dm_devices w)"
proof -
  have "set (map device_id (active s)) \<subseteq> set (map d_id (dm_devices w))"
    using reachable_accounts [OF assms(1,2)] by (auto simp: accounts_def dest!: arg_cong [where f = set_mset])
  with assms(3) show ?thesis by (metis (no_types, lifting) image_set in_set_conv_nth length_map nth_map subsetD)
qed

text \<open>Reinitializing a configured device: the guard against an unknown identifier does not fire.\<close>

lemma reinitialization_contained:
  assumes "served w" and "device_id (active s ! i) \<in> d_id ` set (dm_devices w)"
    and "process_reinitialization i w s = (Raise e, t)"
  shows "e = MemoryError"
proof -
  let ?m = "active s ! i"
  let ?rest = "io_bind (initialize_driver_with_retries (device_id ?m)) (\<lambda>(used, initialized, last_error).
          if initialized
          then io_bind (update_device i clear_reinitialize_pending) (\<lambda>_.
               io_return (Reinitialized (device_id ?m) (device_type_name ?m) used))
          else
            io_bind (the_device i) (\<lambda>m.
            io_bind (if reinit_failure_logged m then io_return ()
                     else update_device i (\<lambda>m. m\<lparr>reinit_failure_logged := True\<rparr>)) (\<lambda>_.
            io_return (Reinitialization_failed (device_id m) (device_type_name m) last_error
              (consecutive_read_failures m) (total_read_failures m) used (\<not> reinit_failure_logged m)))))"
  have rest: "only_memory ?rest" by (intro in_rules)
  have "?rest w s = (Raise e, t)"
    using assms(2,3) by (simp add: process_reinitialization_def the_device_def [of i] io_bind_def [of "io_get g" for g]
        io_get_def [of "\<lambda>s. active s ! i"] io_ask_def)
  then show ?thesis using raises_inD [OF rest assms(1)] by blast
qed

lemma process_contained:
  assumes "served w" and "device_id (active s ! i) \<in> d_id ` set (dm_devices w)"
    and "process_device i w s = (Raise e, t)"
  shows "e = MemoryError"
proof -
  let ?u = "s\<lparr>dm_trace := dm_trace s @ [Refresh]\<rparr>"
  have step: "process_device i w s =
      (if reinitialize_pending (active s ! i) then process_reinitialization i else process_normal_read i) w ?u"
    by (simp add: process_device_def refresh_activity_def act_def the_device_def io_bind_def io_set_def io_get_def)
  show ?thesis
  proof (cases "reinitialize_pending (active s ! i)")
    case True
    with step assms show ?thesis using reinitialization_contained [of w ?u i e t] by simp
  next
    case False
    with step assms(3) have "process_normal_read i w ?u = (Raise e, t)" by simp
    then show ?thesis using raises_inD [OF read_contained assms(1)] by blast
  qed
qed

subsection \<open>Properties\<close>


text \<open>A soil probe without switched power, whose converter answers once and then finds no memory.\<close>

definition plain_probe :: pyval where
  "plain_probe = PDict [(PStr ''adc_pin'', PInt 26), (PStr ''dry_raw'', PInt 50000), (PStr ''wet_raw'', PInt 20000)]"

definition starved_pins :: pin_world where
  "starved_pins = spiky_world\<lparr>adc_at := (\<lambda>n. Inl MemoryError)\<rparr>"

definition starved_manager_world :: dm_world where
  "starved_manager_world = demo_manager_world\<lparr>initialize_at := (\<lambda>n. None), read_at := (\<lambda>n. Inl MemoryError)\<rparr>"

definition starved_manager :: dm where
  "starved_manager = snd (initialize_devices starved_manager_world (fresh_manager None))"

lemma starved_served: "served starved_manager_world"
proof -
  have ok: "accepted_pins yl69_validate_config plain_probe starved_pins"
  proof -
    have "yl69_validate_config plain_probe = Inr ()" by code_simp
    moreover have "\<not> null_option (the_dict plain_probe)" by (simp add: plain_probe_def null_option_def dget_def)
    ultimately show ?thesis
      by (simp add: accepted_pins_def operational_pins_def starved_pins_def spiky_world_def)
  qed
  obtain c where up: "yl_initialize plain_probe starved_pins quiet_pins = (Return c, quiet_pins)" "has_power c = False"
    using ok by (simp add: yl_initialize_def accepted_pins_def io_bind_def io_res_def io_return_def Let_def
        plain_probe_def dhas_def dget_def set_power_def)
  have down: "\<exists>t. yl_sample (Some c) starved_pins quiet_pins = (Raise MemoryError, t)"
    using up(2) by (simp add: yl_sample_def yl_read_def yl_measure_def set_power_def io_bind_def io_return_def
        io_finally_def read_filtered_raw_def read_adc_def ask_device_def pin_sense_def io_raise_def to_os_error_def
        starved_pins_def)
  have "driver_initializes None" "driver_reads (Inl MemoryError)"
    using ok up down
    unfolding driver_initializes_def driver_reads_def yl69.initialize_answers_def yl69.read_answers_def
    by fastforce+
  then show ?thesis by (simp add: served_def starved_manager_world_def demo_manager_world_def)
qed


end
