(* ===== verification/SystemInformation.thy ===== *)
theory SystemInformation
  imports DeviceManager Commands
begin

section \<open>Core 1's state and its system information\<close>

text \<open>
  The state and the environment of Core 1, the board policy of \<open>hardware.py\<close>, and the reporting
  sections of \<open>system_information.py\<close> with their collection in \<open>core1.py\<close>. Core 1 owns the device
  manager and is the only producer of the outbound queue, so both are part of its state; what
  Core 0 writes (events, the network and UTC snapshots) is what the environment answers.
\<close>

subsection \<open>Environment and state\<close>

record c1_world =
  manager_world :: dm_world
  queue_env :: env
  c1_ticks_at :: "nat \<Rightarrow> int"
  taken_at :: "nat \<Rightarrow> pydict option"
  network_at :: "nat \<Rightarrow> pydict option"
  utc_at :: "nat \<Rightarrow> (int \<times> int) option"
  events_status_at :: "nat \<Rightarrow> int \<times> int \<times> int"
  heap_free_at :: "nat \<Rightarrow> int res"
  heap_alloc_at :: "nat \<Rightarrow> int res"
  uname_at :: "nat \<Rightarrow> (string \<times> string) res"
  reset_cause_at :: "nat \<Rightarrow> int res"
  freq_at :: "nat \<Rightarrow> int res"
  adc_fault_at :: "nat \<Rightarrow> exc option"
  adc_raw_at :: "nat \<Rightarrow> int res"
  no_memory_at :: "nat \<Rightarrow> bool"
  reset_constants :: "string \<Rightarrow> int option"
  implementation_name :: string
  error_text :: "exc \<Rightarrow> string"
  read_loop_sec :: int
  health_interval_sec :: int
  initialization_retry_delay_ms :: int

text \<open>\<open>utc_at\<close> answers the runtime start (epoch ms) and the uptime of the synchronization.\<close>

record c1 =
  manager :: dm
  outbound :: outq
  boxes :: mailboxes
  reset_label :: "string option"
  adc_built :: bool
  c1_clock :: nat

type_synonym 'a c1p = "(c1_world, c1, 'a) prog"

definition c1_sense :: "(c1_world \<Rightarrow> nat \<Rightarrow> 'x) \<Rightarrow> 'x c1p" where
  "c1_sense f w s = (Return (f w (c1_clock s)), s\<lparr>c1_clock := Suc (c1_clock s)\<rparr>)"

text \<open>A call of the device manager, and a call of the outbound queue (whose calls all return).\<close>

definition on_manager :: "'a dmp \<Rightarrow> 'a c1p" where
  "on_manager m w s = (case m (manager_world w) (manager s) of (r, t) \<Rightarrow> (r, s\<lparr>manager := t\<rparr>))"

definition on_outbound :: "(env \<Rightarrow> outq \<Rightarrow> ('a res \<times> outq) option) \<Rightarrow> 'a c1p" where
  "on_outbound call w s =
     (case call (queue_env w) (outbound s) of
        None \<Rightarrow> (Cut, s)
      | Some (Inl e, q) \<Rightarrow> (Raise e, s\<lparr>outbound := q\<rparr>)
      | Some (Inr x, q) \<Rightarrow> (Return x, s\<lparr>outbound := q\<rparr>))"

text \<open>\<open>except MemoryError: raise; except Exception: ...\<close>.\<close>

definition unless_memory :: "'a c1p \<Rightarrow> (exc \<Rightarrow> 'a c1p) \<Rightarrow> 'a c1p" where
  "unless_memory m handler = io_try m (\<lambda>e. if e = MemoryError then io_raise e else handler e)"

definition ask_port :: "(c1_world \<Rightarrow> nat \<Rightarrow> 'x res) \<Rightarrow> 'x c1p" where
  "ask_port f = io_bind (c1_sense f) io_res"

definition opt_str :: "string option \<Rightarrow> pyval" where
  "opt_str v = (case v of None \<Rightarrow> PNone | Some t \<Rightarrow> PStr t)"

definition opt_int :: "int option \<Rightarrow> pyval" where
  "opt_int v = (case v of None \<Rightarrow> PNone | Some i \<Rightarrow> PInt i)"

text \<open>\<open>bool(v)\<close>.\<close>

fun truthy :: "pyval \<Rightarrow> bool" where
  "truthy PNone = False"
| "truthy (PBool b) = b"
| "truthy (PInt i) = (i \<noteq> 0)"
| "truthy (PFloat f) = (f \<noteq> Finite 0)"
| "truthy (PStr t) = (t \<noteq> [])"
| "truthy (PList xs) = (xs \<noteq> [])"
| "truthy (PTuple xs) = (xs \<noteq> [])"
| "truthy (PDict d) = (d \<noteq> [])"
| "truthy (PObj n) = True"

subsection \<open>The board policy\<close>

definition PICO_W_PREFERRED_FREE_HEAP_BYTES :: int where
  "PICO_W_PREFERRED_FREE_HEAP_BYTES = 60 * 1024"
definition PICO_W_MIN_FREE_HEAP_BYTES :: int where
  "PICO_W_MIN_FREE_HEAP_BYTES = 48 * 1024"
definition PICO_2_W_PREFERRED_FREE_HEAP_BYTES :: int where
  "PICO_2_W_PREFERRED_FREE_HEAP_BYTES = 144 * 1024"
definition PICO_2_W_MIN_FREE_HEAP_BYTES :: int where
  "PICO_2_W_MIN_FREE_HEAP_BYTES = 128 * 1024"

definition PICO_W_MACHINE_PATTERNS :: "string list" where
  "PICO_W_MACHINE_PATTERNS = [''Raspberry Pi Pico W with RP2040'', ''RPI_PICO_W with RP2040'']"
definition PICO_2_W_MACHINE_PATTERNS :: "string list" where
  "PICO_2_W_MACHINE_PATTERNS = [''Raspberry Pi Pico 2 W with RP2350'', ''RPI_PICO2_W with RP2350'']"

record board =
  hardware_type :: string
  preferred_bytes :: "int option"
  minimum_bytes :: "int option"

definition classify_machine :: "string \<Rightarrow> board" where
  "classify_machine name =
     (if name \<in> set PICO_W_MACHINE_PATTERNS
      then \<lparr>hardware_type = ''pico_w'', preferred_bytes = Some PICO_W_PREFERRED_FREE_HEAP_BYTES,
            minimum_bytes = Some PICO_W_MIN_FREE_HEAP_BYTES\<rparr>
      else if name \<in> set PICO_2_W_MACHINE_PATTERNS
      then \<lparr>hardware_type = ''pico_2_w'', preferred_bytes = Some PICO_2_W_PREFERRED_FREE_HEAP_BYTES,
            minimum_bytes = Some PICO_2_W_MIN_FREE_HEAP_BYTES\<rparr>
      else \<lparr>hardware_type = ''unknown'', preferred_bytes = None, minimum_bytes = None\<rparr>)"

definition detect_hardware :: "(string \<times> string) res \<Rightarrow> (board \<times> string) res" where
  "detect_hardware uname =
     (case uname of
        Inl e \<Rightarrow> if e = MemoryError then Inl e else Inl RuntimeError
      | Inr (machine, _) \<Rightarrow>
          (let b = classify_machine machine in
           if hardware_type b = ''unknown'' then Inl RuntimeError else Inr (b, machine)))"

text \<open>What the detection lets through is what the queues require of their reserves.\<close>

lemma detected_reserves:
  assumes "detect_hardware uname = Inr (b, machine)"
  shows "\<exists>p m. preferred_bytes b = Some p \<and> minimum_bytes b = Some m \<and> 0 < m \<and> m < p"
  using assms
  by (auto simp: detect_hardware_def classify_machine_def Let_def PICO_W_PREFERRED_FREE_HEAP_BYTES_def
      PICO_W_MIN_FREE_HEAP_BYTES_def PICO_2_W_PREFERRED_FREE_HEAP_BYTES_def
      PICO_2_W_MIN_FREE_HEAP_BYTES_def split: sum.splits if_splits prod.splits)

lemma detected_board_starts:
  assumes "detect_hardware uname = Inr (b, machine)" and "preferred_bytes b = Some p" "minimum_bytes b = Some m"
  shows "\<exists>ic. intercore_init (PInt m) (PInt p) PNone = Inr ic"
  using detected_reserves [OF assms(1)] assms(2,3)
  by (auto simp: intercore_init_def outq_init_def evq_init_def require_positive_integer_def Let_def require_def)

subsection \<open>The sections\<close>

definition SYSTEM_INFORMATION_SECTIONS :: "string list" where
  "SYSTEM_INFORMATION_SECTIONS =
     [''network'', ''memory'', ''runtime'', ''devices'', ''cpu'', ''machine'', ''communications'',
      ''queues'', ''device_status'']"

definition RESET_CAUSE_LABELS :: "(string \<times> string) list" where
  "RESET_CAUSE_LABELS = [(''WDT_RESET'', ''wdt''), (''PWRON_RESET'', ''poweron'')]"

definition reset_cause_label :: "(string \<Rightarrow> int option) \<Rightarrow> int option \<Rightarrow> string" where
  "reset_cause_label constants cause =
     (case cause of
        None \<Rightarrow> ''unknown''
      | Some c \<Rightarrow> (case List.find (\<lambda>(name, label). constants name = Some c) RESET_CAUSE_LABELS of
                    None \<Rightarrow> ''unknown'' | Some (name, label) \<Rightarrow> label))"

definition get_reset_cause :: "string c1p" where
  "get_reset_cause =
     io_bind (io_get reset_label) (\<lambda>cached.
     case cached of
       Some label \<Rightarrow> io_return label
     | None \<Rightarrow>
         io_bind (unless_memory (io_bind (ask_port reset_cause_at) (\<lambda>c. io_return (Some c))) (\<lambda>_. io_return None)) (\<lambda>cause.
         io_ask (\<lambda>w. let label = reset_cause_label (reset_constants w) cause in
           io_bind (io_set (\<lambda>s. s\<lparr>reset_label := Some label\<rparr>)) (\<lambda>_. io_return label))))"

definition network_snapshot_of :: "pydict c1p" where
  "network_snapshot_of = io_bind (c1_sense network_at) (\<lambda>snapshot.
     case snapshot of None \<Rightarrow> io_raise RuntimeError | Some d \<Rightarrow> io_return d)"

definition pick_fields :: "pydict \<Rightarrow> string list \<Rightarrow> pydict" where
  "pick_fields d keys = map (\<lambda>k. (PStr k, dget_none d k)) keys"

definition get_network :: "pydict c1p" where
  "get_network = io_bind network_snapshot_of (\<lambda>d.
     io_return (pick_fields d [''ssid'', ''ip_address'', ''rssi'', ''netmask'', ''gateway'', ''dns'']))"

definition get_memory :: "pydict c1p" where
  "get_memory =
     io_bind (unless_memory
       (io_bind (ask_port heap_alloc_at) (\<lambda>allocated. io_bind (ask_port heap_free_at) (\<lambda>free.
          io_return (Some (allocated, free)))))
       (\<lambda>_. io_return None)) (\<lambda>r.
     io_return
       [(PStr ''heap_alloc_bytes'', opt_int (map_option fst r)),
        (PStr ''heap_free_bytes'', opt_int (map_option snd r)),
        (PStr ''heap_total_bytes'', opt_int (map_option (\<lambda>(a, f). a + f) r))])"

definition get_runtime :: "pydict c1p" where
  "get_runtime =
     io_bind (c1_sense utc_at) (\<lambda>utc. io_ask (\<lambda>w. io_return
       [(PStr ''read_loop_sec'', PInt (read_loop_sec w)),
        (PStr ''start_time'', opt_str (format_utc_epoch_ms (map_option fst utc)))]))"

text \<open>Both device sections, from one snapshot; the tick of the argument is read first.\<close>

definition get_device_sections :: "pydict c1p" where
  "get_device_sections =
     io_ask (\<lambda>w. io_bind (c1_sense c1_ticks_at) (\<lambda>_.
       on_manager (get_status_snapshot (error_text w) True)))"

definition device_counts :: "pydict c1p" where
  "device_counts = io_ask (\<lambda>w. io_get (\<lambda>s. get_device_counts (manager_world w) (manager s)))"

text \<open>\<open>round(x, 1)\<close>, half to even.\<close>

definition round_tenth :: "rat \<Rightarrow> rat" where
  "round_tenth x =
     (let y = 10 * x; f = \<lfloor>y\<rfloor>; d = y - of_int f in
      of_int (if d < 1 / 2 then f else if d > 1 / 2 then f + 1 else if even f then f else f + 1) / 10)"

definition die_temperature :: "int \<Rightarrow> rat" where
  "die_temperature read =
     (let voltage = of_int (read div 16) * (33 / 10) / 4096
      in round_tenth (27 - (voltage - 706 / 1000) / (1721 / 1000000)))"

definition get_cpu_temperature :: "rat option c1p" where
  "get_cpu_temperature =
     io_bind (io_get adc_built) (\<lambda>built.
     io_bind (if built then io_return True
              else io_bind (c1_sense adc_fault_at) (\<lambda>fault.
                case fault of
                  None \<Rightarrow> io_bind (io_set (\<lambda>s. s\<lparr>adc_built := True\<rparr>)) (\<lambda>_. io_return True)
                | Some e \<Rightarrow> if e = MemoryError then io_raise e else io_return False)) (\<lambda>ready.
     if \<not> ready then io_return None
     else unless_memory (io_bind (ask_port adc_raw_at) (\<lambda>r. io_return (Some (die_temperature r))))
            (\<lambda>_. io_return None)))"

definition temperature_value :: "rat option \<Rightarrow> pyval" where
  "temperature_value t = (case t of None \<Rightarrow> PNone | Some x \<Rightarrow> PFloat (Finite x))"

definition get_cpu :: "pydict c1p" where
  "get_cpu =
     io_bind (unless_memory (io_bind (ask_port freq_at) (\<lambda>f. io_return (Some f))) (\<lambda>_. io_return None)) (\<lambda>f.
     io_bind get_cpu_temperature (\<lambda>t. io_return
       [(PStr ''frequency_hz'', opt_int f), (PStr ''temperature_c'', temperature_value t)]))"

definition FIRMWARE_NAME :: string where "FIRMWARE_NAME = ''Bronze Owl''"

definition get_machine :: "pydict c1p" where
  "get_machine =
     io_bind (unless_memory (ask_port uname_at) (\<lambda>_. io_return (''unknown'', ''unknown''))) (\<lambda>(name, version).
     io_bind get_reset_cause (\<lambda>cause. io_ask (\<lambda>w.
       (let b = classify_machine name in
        io_return
          [(PStr ''hardware_type'', PStr (hardware_type b)), (PStr ''machine'', PStr name),
           (PStr ''firmware_name'', PStr FIRMWARE_NAME), (PStr ''version'', PStr version),
           (PStr ''implementation'', PStr (implementation_name w)),
           (PStr ''preferred_free_heap_bytes'', opt_int (preferred_bytes b)),
           (PStr ''minimum_free_heap_bytes'', opt_int (minimum_bytes b)),
           (PStr ''reset_cause'', PStr cause)]))))"

definition get_communications :: "pydict c1p" where
  "get_communications = io_bind network_snapshot_of (\<lambda>d. io_return
     ([(PStr ''wifi_connected'', PBool (truthy (dget_none d ''wifi_connected''))),
       (PStr ''mqtt_connected'', PBool (truthy (dget_none d ''mqtt_connected'')))]
      @ map (\<lambda>k. (PStr k, dget_or d k (PInt 0)))
          [''wifi_connect_count'', ''wifi_disconnect_count'', ''mqtt_connect_count'', ''mqtt_disconnect_count'']
      @ pick_fields d [''mqtt_last_disconnect_reason'']))"

definition get_queues :: "pydict c1p" where
  "get_queues =
     io_bind (io_get (\<lambda>s. outbound s)) (\<lambda>q.
     io_bind (c1_sense events_status_at) (\<lambda>(pending, high, rejected). io_return
       [(PStr ''outbound_pending'', PInt (int (length (queue q)))),
        (PStr ''outbound_high_watermark'', PInt (high_watermark q)),
        (PStr ''outbound_high_watermark_bytes'', PInt (high_watermark_bytes q)),
        (PStr ''outbound_evicted'', PInt (messages_evicted q)),
        (PStr ''telemetry_evicted'', PInt (telemetry_evicted q)),
        (PStr ''outbound_rejected'', PInt (messages_rejected q)),
        (PStr ''outbound_queued_bytes'', PInt (queued_bytes q)),
        (PStr ''intercore_events_pending'', PInt pending),
        (PStr ''intercore_events_high_watermark'', PInt high),
        (PStr ''intercore_events_rejected'', PInt rejected)]))"

subsection \<open>Collecting the sections\<close>

definition error_section :: "string \<Rightarrow> pyval" where
  "error_section text = PDict [(PStr ''error'', PStr text)]"

text \<open>The getter of a section that is not a device section.\<close>

definition section_getter :: "string \<Rightarrow> pydict c1p option" where
  "section_getter = map_of
     [(''network'', get_network), (''memory'', get_memory), (''runtime'', get_runtime), (''cpu'', get_cpu),
      (''machine'', get_machine), (''communications'', get_communications), (''queues'', get_queues)]"

definition device_sections_or_errors :: "pydict c1p" where
  "device_sections_or_errors =
     io_ask (\<lambda>w. unless_memory get_device_sections (\<lambda>e. io_return
       [(PStr ''devices'', error_section (error_text w e)), (PStr ''device_status'', error_section (error_text w e))]))"

text \<open>One section: what it adds to the answer, nothing when it is not JSON-safe.\<close>

definition collect_section :: "pydict \<Rightarrow> string \<Rightarrow> pydict c1p" where
  "collect_section sections name =
     (case dget sections name of
        Some v \<Rightarrow> io_return (if is_json_safe v then [(PStr name, v)] else [])
      | None \<Rightarrow>
         (case section_getter name of
            None \<Rightarrow> io_return []
          | Some getter \<Rightarrow> io_ask (\<lambda>w. unless_memory
              (io_bind getter (\<lambda>d. io_return (if is_json_safe (PDict d) then [(PStr name, PDict d)] else [])))
              (\<lambda>e. io_return [(PStr name, error_section (error_text w e))]))))"

fun collect_sections :: "pydict \<Rightarrow> string list \<Rightarrow> pydict c1p" where
  "collect_sections sections [] = io_return []"
| "collect_sections sections (name # rest) =
     io_bind (collect_section sections name) (\<lambda>d.
     io_bind (collect_sections sections rest) (\<lambda>ds. io_return (d @ ds)))"

definition collect_system_information_full :: "pydict c1p" where
  "collect_system_information_full =
     io_bind device_sections_or_errors (\<lambda>sections. collect_sections sections SYSTEM_INFORMATION_SECTIONS)"
end
