(* ===== verification/Core1.thy ===== *)
theory Core1
  imports SystemInformation
begin

section \<open>Core 1\<close>

text \<open>
  \<open>core1.py\<close>: the startup record and its bounded fallback, the admission of command responses
  with their reduced and substitute forms, telemetry and health reporting, the bus factories,
  and the worker itself with its schedulers.
\<close>

subsection \<open>Shared pieces\<close>

text \<open>\<open>except ValueError\<close>: the class and its subclasses.\<close>

fun is_value_error :: "exc \<Rightarrow> bool" where
  "is_value_error ValueError = True"
| "is_value_error OutboundMessageTooLargeError = True"
| "is_value_error StartupLogTooLargeError = True"
| "is_value_error (DeviceValidationError code) = True"
| "is_value_error e = False"

definition c1_uptime :: "int c1p" where
  "c1_uptime =
     io_bind (c1_sense c1_ticks_at) (\<lambda>now. io_bind (io_get (\<lambda>s. dm_uptime (manager s))) (\<lambda>u.
       case u of
         None \<Rightarrow> io_return now
       | Some v \<Rightarrow> (case current_uptime_ms now v of (ms, v') \<Rightarrow>
           io_bind (io_set (\<lambda>s. s\<lparr>manager := (manager s)\<lparr>dm_uptime := Some v'\<rparr>\<rparr>)) (\<lambda>_. io_return ms))))"

definition utc_timestamp_now :: "int \<Rightarrow> pyval c1p" where
  "utc_timestamp_now uptime =
     io_bind (c1_sense utc_at) (\<lambda>utc. io_return (case utc of
         None \<Rightarrow> PNone
       | Some (start, sync) \<Rightarrow> opt_str (format_utc_epoch_ms (Some (start + uptime)))))"

definition message_time :: "(int \<times> pyval) c1p" where
  "message_time = io_bind c1_uptime (\<lambda>u. io_bind (utc_timestamp_now u) (\<lambda>ts. io_return (u, ts)))"

definition stamp_activity :: "unit c1p" where
  "stamp_activity = io_bind (c1_sense c1_ticks_at) (\<lambda>now.
     io_set (\<lambda>s. s\<lparr>boxes := (boxes s)\<lparr>core_1_activity_ms := Some now\<rparr>\<rparr>))"

text \<open>A call of the manager whose refreshes reach the liveness stamp (\<open>activity_refresh\<close>).\<close>

definition stamping :: "'a dmp \<Rightarrow> 'a c1p" where
  "stamping m w s =
     (case on_manager m w s of (r, t) \<Rightarrow>
        if Refresh \<in> set (drop (length (dm_trace (manager s))) (dm_trace (manager t)))
        then (r, snd (stamp_activity w t)) else (r, t))"

text \<open>Message serialization on Core 1's own account: it may find no memory.\<close>

definition serialize_message :: "pyval \<Rightarrow> string c1p" where
  "serialize_message message =
     io_ask (\<lambda>w. io_bind (c1_sense no_memory_at) (\<lambda>exhausted.
       if exhausted then io_raise MemoryError
       else io_res (serialize_and_validate_message (float_repr (queue_env w)) message)))"

definition queue_bytes :: "string \<Rightarrow> string \<Rightarrow> int \<Rightarrow> bool c1p" where
  "queue_bytes kind payload priority = on_outbound (\<lambda>e. put_with_kind e kind (Some payload) (PInt priority))"

definition queue_message :: "string \<Rightarrow> pydict \<Rightarrow> int \<Rightarrow> bool c1p" where
  "queue_message kind message priority = on_outbound (\<lambda>e. put e kind (PDict message) (PInt priority))"

subsection \<open>The startup record\<close>

definition status_entry :: "string \<Rightarrow> string \<Rightarrow> pyval \<times> pyval" where
  "status_entry part word = (PStr part, PDict [(PStr ''status'', PStr word)])"

definition startup_summary :: "pydict \<Rightarrow> int \<Rightarrow> string \<Rightarrow> pydict" where
  "startup_summary device_status duration cause =
     (let devices = the_dict (dget_none device_status ''devices'') in
      [(PStr ''duration_ms'', PInt duration), (PStr ''reset_cause'', PStr cause),
       status_entry ''hardware'' ''ready'', status_entry ''wifi'' ''ready'', status_entry ''mqtt'' ''ready'',
       status_entry ''subscriptions'' ''ready'', status_entry ''utc'' ''synchronized'',
       status_entry ''core_0'' ''running'', status_entry ''core_1'' ''running'',
       (PStr ''devices_configured'', dget_none devices ''configured''),
       (PStr ''devices_ready'', dget_none devices ''active''),
       (PStr ''devices_failed'', dget_or devices ''initialization_failed'' (PInt 0))])"

definition startup_log_message :: "int \<Rightarrow> pydict \<Rightarrow> pydict c1p" where
  "startup_log_message duration summary =
     io_bind (utc_timestamp_now duration) (\<lambda>ts. io_return
       [(PStr ''message_type'', PStr ''log''), (PStr ''uptime_ms'', PInt duration), (PStr ''timestamp'', ts),
        (PStr ''payload'', PDict
          [(PStr ''level'', PStr ''info''), (PStr ''event'', PStr ''system_startup_completed''),
           (PStr ''module'', PStr ''system''), (PStr ''message'', PStr ''System startup completed''),
           (PStr ''data'', PDict [(PStr ''startup'', PDict summary)])])])"

definition device_info :: "pydict \<Rightarrow> pydict" where
  "device_info d =
     [(PStr ''device'', dget_or d ''device'' (PStr ''unknown'')),
      (PStr ''name'', (let n = dget_none d ''name'' in
         if truthy n then n else dget_or d ''id'' (PStr ''unknown'')))]"

definition ready_devices :: "pydict list \<Rightarrow> pydict list" where
  "ready_devices statuses =
     map device_info (filter (\<lambda>d. dget d ''state'' = Some (PStr (state_name Ready))) statuses)"

definition failed_devices :: "pydict list \<Rightarrow> pydict list" where
  "failed_devices statuses =
     map (\<lambda>d. device_info d @ [(PStr ''failure_reason'', dget_none d ''failure_reason'')])
       (filter (\<lambda>d. dget d ''state'' = Some (PStr (state_name Initialization_failed))) statuses)"

definition device_status :: "pydict c1p" where
  "device_status = get_device_sections"

definition build_startup_log :: "int \<Rightarrow> string \<Rightarrow> pydict c1p" where
  "build_startup_log duration cause =
     io_bind device_status (\<lambda>st.
     (let statuses = map the_dict (the_list (dget_none st ''device_status'')) in
      startup_log_message duration
        (startup_summary st duration cause
         @ [(PStr ''ready_devices'', PList (map PDict (ready_devices statuses))),
            (PStr ''failed_devices'', PList (map PDict (failed_devices statuses)))])))"

definition build_startup_log_bounded :: "int \<Rightarrow> string \<Rightarrow> pydict c1p" where
  "build_startup_log_bounded duration cause =
     io_bind device_status (\<lambda>st. startup_log_message duration (startup_summary st duration cause))"

definition try_queue_startup_log :: "pydict \<Rightarrow> int \<Rightarrow> bool c1p" where
  "try_queue_startup_log message priority =
     io_bind (io_try (serialize_message (PDict message)) (\<lambda>e.
        if e = MessageTooLargeError then io_raise StartupLogTooLargeError
        else if e = MemoryError then io_raise MemoryError
        else io_raise ValueError)) (\<lambda>payload.
     queue_bytes ''log'' payload priority)"

definition c1_sleep :: "int \<Rightarrow> unit c1p" where
  "c1_sleep ms = io_bind (c1_sense c1_ticks_at) (\<lambda>_. io_return ())"

definition admit_startup_log :: "pydict \<Rightarrow> bool c1p" where
  "admit_startup_log message =
     io_bind (try_queue_startup_log message RETENTION_PRIORITY_INFO) (\<lambda>admitted.
       if admitted then io_return True
       else io_bind (c1_sleep 100) (\<lambda>_. try_queue_startup_log message RETENTION_PRIORITY_INFO))"

definition admit_startup_log_with_fallback :: "pydict \<Rightarrow> pydict c1p \<Rightarrow> bool c1p" where
  "admit_startup_log_with_fallback message fallback =
     io_try (admit_startup_log message) (\<lambda>e.
       if e = StartupLogTooLargeError \<or> e = MemoryError
       then io_bind fallback admit_startup_log else io_raise e)"

subsection \<open>Command responses\<close>

text \<open>\<open>_build_command_response\<close>: the \<open>message\<close> of the response; its kind is always the same.\<close>

definition answer_payload :: "pydict \<Rightarrow> bool \<Rightarrow> pyval \<Rightarrow> pydict" where
  "answer_payload event success body =
     [(PStr ''command_id'', dget_none event ''command_id''), (PStr ''command'', dget_none event ''command''),
      (PStr ''targeted'', dget_or event ''targeted'' (PBool False)), (PStr ''success'', PBool success),
      (PStr (if success then ''data'' else ''error''), body)]"

definition build_command_response :: "pydict \<Rightarrow> bool \<Rightarrow> pyval \<Rightarrow> pydict c1p" where
  "build_command_response event success body =
     io_bind message_time (\<lambda>(u, ts). io_return
       [(PStr ''message_type'', PStr ''command_response''), (PStr ''uptime_ms'', PInt u),
        (PStr ''timestamp'', ts), (PStr ''payload'', PDict (answer_payload event success body))])"

definition message_payload :: "pydict \<Rightarrow> pydict" where
  "message_payload response = the_dict (dget_none response ''payload'')"

definition try_queue_response :: "pydict \<Rightarrow> bool c1p" where
  "try_queue_response response = queue_message ''command_response'' response RETENTION_PRIORITY_CRITICAL"

definition error_body :: "string \<Rightarrow> string \<Rightarrow> pyval" where
  "error_body code message = PDict [(PStr ''code'', PStr code), (PStr ''message'', PStr message)]"

definition build_substitute_error_response :: "pydict \<Rightarrow> string \<Rightarrow> string \<Rightarrow> pydict c1p" where
  "build_substitute_error_response response code message =
     build_command_response (message_payload response) False (error_body code message)"

definition admit_substitute :: "pydict \<Rightarrow> string \<Rightarrow> string \<Rightarrow> pydict option c1p" where
  "admit_substitute response code message =
     io_bind (build_substitute_error_response response code message) (\<lambda>substitute.
     io_bind (try_queue_response substitute) (\<lambda>admitted.
     io_return (if admitted then None else Some substitute)))"

definition too_large_text :: string where
  "too_large_text = ''Command response exceeded the per-message size limit''"

definition invalid_text :: string where
  "invalid_text = ''Command response could not be serialized for transmission''"

text \<open>\<open>del data[k]\<close> and \<open>data[k] = v\<close>.\<close>

definition ddel :: "pydict \<Rightarrow> string \<Rightarrow> pydict" where
  "ddel d k = filter (\<lambda>(x, v). x \<noteq> PStr k) d"

definition dput :: "pydict \<Rightarrow> string \<Rightarrow> pyval \<Rightarrow> pydict" where
  "dput d k v = (if dhas d k then map (\<lambda>(x, w). (x, if x = PStr k then v else w)) d else d @ [(PStr k, v)])"

definition data_without :: "pydict \<Rightarrow> string \<Rightarrow> pydict" where
  "data_without data section =
     (let omitted = dget_none data ''omitted_sections'' in
      dput (ddel data section) ''omitted_sections''
        (PList ((if truthy omitted then the_list omitted else []) @ [PStr section])))"

definition build_get_details_response_without :: "pydict \<Rightarrow> string \<Rightarrow> pydict c1p" where
  "build_get_details_response_without response section =
     build_command_response (message_payload response) True
       (PDict (data_without (the_dict (dget_none (message_payload response) ''data'')) section))"

definition GET_DETAILS_FALLBACK_DROP_ORDER :: "string list" where
  "GET_DETAILS_FALLBACK_DROP_ORDER = [''device_status'', ''devices'']"

text \<open>The reduced forms of a get-details answer: \<open>None\<close> when every form exhausted the memory.\<close>

fun admit_reduced :: "string list \<Rightarrow> pydict \<Rightarrow> pydict option option c1p" where
  "admit_reduced [] candidate = io_return None"
| "admit_reduced (section # rest) candidate =
     (if \<not> dhas (the_dict (dget_none (message_payload candidate) ''data'')) section
      then admit_reduced rest candidate
      else io_bind (build_get_details_response_without candidate section) (\<lambda>smaller.
           io_try
             (io_bind (try_queue_response smaller) (\<lambda>admitted.
                io_return (Some (if admitted then None else Some smaller))))
             (\<lambda>e.
                if e = MemoryError then admit_reduced rest smaller
                else if e = OutboundMessageTooLargeError
                then io_bind (admit_substitute smaller ''response_too_large'' too_large_text) (\<lambda>p. io_return (Some p))
                else if is_value_error e
                then io_bind (admit_substitute smaller ''response_invalid'' invalid_text) (\<lambda>p. io_return (Some p))
                else io_raise e)))"

definition admit_after_serialization_memory_error :: "pydict \<Rightarrow> pydict option c1p" where
  "admit_after_serialization_memory_error response =
     io_bind (if dget (message_payload response) ''command'' = Some (PStr COMMAND_GET_DETAILS)
              then admit_reduced GET_DETAILS_FALLBACK_DROP_ORDER response else io_return None) (\<lambda>r.
     case r of
       Some p \<Rightarrow> io_return p
     | None \<Rightarrow> admit_substitute response ''response_invalid'' invalid_text)"

definition admit_or_substitute_command_response :: "pydict \<Rightarrow> pydict option c1p" where
  "admit_or_substitute_command_response response =
     io_try
       (io_bind (try_queue_response response) (\<lambda>admitted. io_return (if admitted then None else Some response)))
       (\<lambda>e.
          if e = OutboundMessageTooLargeError
          then admit_substitute response ''response_too_large'' too_large_text
          else if is_value_error e then admit_substitute response ''response_invalid'' invalid_text
          else if e = MemoryError then admit_after_serialization_memory_error response
          else io_raise e)"

text \<open>\<open>_process_intercore_event\<close>: only a get-details event is answered here.\<close>

definition process_intercore_event :: "pydict option c1p" where
  "process_intercore_event =
     io_bind (c1_sense taken_at) (\<lambda>taken.
     case taken of
       None \<Rightarrow> io_return None
     | Some event \<Rightarrow>
         if dget event ''command'' \<noteq> Some (PStr COMMAND_GET_DETAILS) then io_return None
         else io_bind collect_system_information_full (\<lambda>data.
              io_bind (build_command_response event True (PDict data)) (\<lambda>r. io_return (Some r))))"

subsection \<open>Telemetry\<close>

definition telemetry_message :: "int \<Rightarrow> pyval \<Rightarrow> string \<Rightarrow> string \<Rightarrow> pyval \<Rightarrow> pyval \<Rightarrow> pydict" where
  "telemetry_message u ts ident device name telemetry =
     [(PStr ''message_type'', PStr ''telemetry''), (PStr ''uptime_ms'', PInt u), (PStr ''timestamp'', ts),
      (PStr ''device_id'', PStr ident), (PStr ''device'', PStr device), (PStr ''name'', name),
      (PStr ''payload'', telemetry)]"

text \<open>Every other result is only printed.\<close>

definition handle_device_result :: "device_result \<Rightarrow> unit c1p" where
  "handle_device_result result =
     (case result of
        Telemetry ident device name telemetry recovered failures \<Rightarrow>
          io_bind message_time (\<lambda>(u, ts).
          io_try (io_bind (queue_message ''telemetry'' (telemetry_message u ts ident device name telemetry)
                             RETENTION_PRIORITY_TELEMETRY) (\<lambda>_. io_return ()))
            (\<lambda>e. if is_value_error e then io_return () else io_raise e))
      | _ \<Rightarrow> io_return ())"

fun process_devices :: "nat list \<Rightarrow> unit c1p" where
  "process_devices [] = io_return ()"
| "process_devices (i # rest) =
     io_bind (stamping (process_device i)) (\<lambda>r.
     io_bind (handle_device_result r) (\<lambda>_. process_devices rest))"

definition run_telemetry_read_pass :: "unit c1p" where
  "run_telemetry_read_pass =
     io_bind (io_get (\<lambda>s. length (active (manager s)))) (\<lambda>n. process_devices [0..<n])"

fun handle_results :: "device_result list \<Rightarrow> unit c1p" where
  "handle_results [] = io_return ()"
| "handle_results (r # rest) = io_bind (handle_device_result r) (\<lambda>_. handle_results rest)"

subsection \<open>Health\<close>

definition FALLBACK_MIN_FREE_HEAP_BYTES :: int where
  "FALLBACK_MIN_FREE_HEAP_BYTES = 60 * 1024"

text \<open>Three read periods, at least a minute, clamped to what the tick arithmetic can compare.\<close>

definition activity_threshold_ms :: "int \<Rightarrow> int" where
  "activity_threshold_ms read_sec =
     (let period = read_sec * 1000 in
      if period > MAX_TICKS_SAFE_INTERVAL_MS div 3 then MAX_TICKS_SAFE_INTERVAL_MS
      else max (period * 3) 60000)"

text \<open>What the report rests on.\<close>

record health_inputs =
  h_stack_ready :: bool
  h_wifi :: bool
  h_mqtt :: bool
  h_active :: bool
  h_free :: int
  h_minimum :: int
  h_devices_active :: pyval
  h_devices_configured :: pyval
  h_utc :: bool

definition degraded_reasons :: "health_inputs \<Rightarrow> string list" where
  "degraded_reasons h =
     (if \<not> h_stack_ready h then [''network_stack_not_ready''] else [])
     @ (if \<not> h_wifi h then [''wifi_not_connected''] else [])
     @ (if \<not> h_mqtt h then [''mqtt_not_connected''] else [])
     @ (if \<not> h_active h then [''core_1_inactive''] else [])
     @ (if h_free h < h_minimum h then [''low_free_heap''] else [])
     @ (if h_devices_active h \<noteq> h_devices_configured h then [''device_count_mismatch''] else [])
     @ (if \<not> h_utc h then [''utc_not_valid''] else [])"

text \<open>
  \<open>hardware.get("minimum_free_heap_bytes") if hardware else ...\<close>; comparing with a \<open>None\<close> that
  is stored there would raise.
\<close>

definition minimum_free_heap :: "pyval \<Rightarrow> int res" where
  "minimum_free_heap box =
     (if \<not> truthy box then Inr FALLBACK_MIN_FREE_HEAP_BYTES
      else (case dget_none (the_dict box) ''minimum_free_heap_bytes'' of
              PInt m \<Rightarrow> Inr m | _ \<Rightarrow> Inl TypeError))"

definition core_1_active :: "int \<Rightarrow> int \<Rightarrow> int option \<Rightarrow> bool" where
  "core_1_active read_sec now stamp =
     (case stamp of None \<Rightarrow> False | Some a \<Rightarrow> ticks_diff now a \<le> activity_threshold_ms read_sec)"

definition health_message :: "health_inputs \<Rightarrow> int \<Rightarrow> pyval \<Rightarrow> rat option \<Rightarrow> pyval \<Rightarrow> outq \<Rightarrow> int option \<Rightarrow> pydict" where
  "health_message h u ts cpu rssi q sync_age =
     [(PStr ''uptime_ms'', PInt u), (PStr ''timestamp'', ts), (PStr ''message_type'', PStr ''health''),
      (PStr ''payload'', PDict
        [(PStr ''status'', PStr (if degraded_reasons h = [] then ''healthy'' else ''degraded'')),
         (PStr ''degraded_reasons'', PList (map PStr (degraded_reasons h))),
         (PStr ''cpu_temperature_c'', temperature_value cpu),
         (PStr ''network_stack_ready'', PBool (h_stack_ready h)),
         (PStr ''wifi_connected'', PBool (h_wifi h)), (PStr ''wifi_rssi_dbm'', rssi),
         (PStr ''mqtt_connected'', PBool (h_mqtt h)), (PStr ''core_1_active'', PBool (h_active h)),
         (PStr ''free_heap_bytes'', PInt (h_free h)), (PStr ''minimum_free_heap_bytes'', PInt (h_minimum h)),
         (PStr ''devices_configured'', h_devices_configured h), (PStr ''devices_active'', h_devices_active h),
         (PStr ''outbound_queue_depth'', PInt (depth_of q)), (PStr ''outbound_evicted'', PInt (messages_evicted q)),
         (PStr ''outbound_rejected'', PInt (messages_rejected q)), (PStr ''utc_valid'', PBool (h_utc h)),
         (PStr ''utc_sync_age_sec'', opt_int sync_age)])]"

definition build_health_payload :: "pydict option c1p" where
  "build_health_payload =
     io_ask (\<lambda>w.
     io_bind (c1_sense c1_ticks_at) (\<lambda>now.
     io_bind c1_uptime (\<lambda>u.
     io_bind (c1_sense network_at) (\<lambda>network.
     case network of None \<Rightarrow> io_return None | Some net \<Rightarrow>
     io_bind (c1_sense utc_at) (\<lambda>utc.
     io_bind (io_get (\<lambda>s. core_1_activity_ms (boxes s))) (\<lambda>stamp.
     io_bind device_counts (\<lambda>devices.
     io_bind get_cpu_temperature (\<lambda>cpu.
     io_bind (io_get outbound) (\<lambda>q.
     io_bind (unless_memory (ask_port heap_free_at) (\<lambda>_. io_return 0)) (\<lambda>free.
     io_bind (io_get (\<lambda>s. hardware (boxes s))) (\<lambda>box.
     io_bind (io_res (minimum_free_heap box)) (\<lambda>minimum.
     (let h = \<lparr>h_stack_ready = truthy (dget_none net ''network_stack_ready''),
               h_wifi = truthy (dget_none net ''wifi_connected''),
               h_mqtt = truthy (dget_none net ''mqtt_connected''),
               h_active = core_1_active (read_loop_sec w) now stamp, h_free = free, h_minimum = minimum,
               h_devices_active = dget_none devices ''active'',
               h_devices_configured = dget_none devices ''configured'', h_utc = (utc \<noteq> None)\<rparr>;
          ts = (case utc of None \<Rightarrow> PNone | Some (start, sync) \<Rightarrow> opt_str (format_utc_epoch_ms (Some (start + u))));
          sync_age = map_option (\<lambda>(start, sync). (u - sync) div 1000) utc in
      io_return (Some (health_message h u ts cpu (dget_none net ''rssi'') q sync_age)))))))))))))))"

definition try_queue_health_message :: "pydict \<Rightarrow> bool c1p" where
  "try_queue_health_message message =
     io_bind (io_try (io_bind (serialize_message (PDict message)) (\<lambda>b. io_return (Some b)))
        (\<lambda>e. if e = MemoryError then io_raise e else io_return None)) (\<lambda>payload.
     case payload of
       None \<Rightarrow> io_return False
     | Some b \<Rightarrow> io_try (queue_bytes ''health'' b RETENTION_PRIORITY_HEALTH)
         (\<lambda>e. if is_value_error e then io_return False else io_raise e))"

definition try_queue_health_message_intercore :: "unit c1p" where
  "try_queue_health_message_intercore =
     io_bind (c1_sense network_at) (\<lambda>network.
     case network of
       None \<Rightarrow> io_return ()
     | Some net \<Rightarrow>
         if \<not> truthy (dget_none net ''network_stack_ready'') \<or> \<not> truthy (dget_none net ''mqtt_connected'')
         then io_return ()
         else io_bind build_health_payload (\<lambda>h.
           case h of None \<Rightarrow> io_return ()
           | Some m \<Rightarrow> io_bind (try_queue_health_message m) (\<lambda>_. io_return ())))"

subsection \<open>Bus factories\<close>

text \<open>
  The caches: a controller with its (sda, scl, freq) and object; a pin with its object.
  \<open>build\<close> is what the port's constructors answer.
\<close>

type_synonym 'o i2c_cache = "(int \<times> (pyval \<times> pyval \<times> int) \<times> 'o) list"

definition i2c_bus_create ::
  "(int \<Rightarrow> pyval \<times> pyval \<times> int \<Rightarrow> 'o res) \<Rightarrow> int \<Rightarrow> pyval \<times> pyval \<times> int \<Rightarrow> 'o i2c_cache \<Rightarrow> 'o res \<times> 'o i2c_cache" where
  "i2c_bus_create build bus setting cache =
     (case map_of cache bus of
        Some (cached, i2c) \<Rightarrow> (if cached = setting then Inr i2c else Inl ValueError, cache)
      | None \<Rightarrow>
          (case build bus setting of
             Inl e \<Rightarrow> (Inl e, cache)
           | Inr i2c \<Rightarrow> (Inr i2c, (bus, setting, i2c) # cache)))"

definition pin_bus_create :: "(int \<Rightarrow> 'o res) \<Rightarrow> int \<Rightarrow> (int \<times> 'o) list \<Rightarrow> 'o res \<times> (int \<times> 'o) list" where
  "pin_bus_create build pin cache =
     (case map_of cache pin of
        Some obj \<Rightarrow> (Inr obj, cache)
      | None \<Rightarrow>
          (case build pin of
             Inl e \<Rightarrow> (Inl e, cache)
           | Inr obj \<Rightarrow> (Inr obj, (pin, obj) # cache)))"

definition onewire_bus_create :: "(int \<Rightarrow> 'o res) \<Rightarrow> int \<Rightarrow> (int \<times> 'o) list \<Rightarrow> 'o res \<times> (int \<times> 'o) list" where
  "onewire_bus_create = pin_bus_create"

definition adc_bus_create :: "(int \<Rightarrow> 'o res) \<Rightarrow> int \<Rightarrow> (int \<times> 'o) list \<Rightarrow> 'o res \<times> (int \<times> 'o) list" where
  "adc_bus_create = pin_bus_create"

fun i2c_requests ::
  "(int \<Rightarrow> pyval \<times> pyval \<times> int \<Rightarrow> 'o res) \<Rightarrow> (int \<times> pyval \<times> pyval \<times> int) list \<Rightarrow> 'o i2c_cache \<Rightarrow>
     'o res list \<times> 'o i2c_cache" where
  "i2c_requests build [] cache = ([], cache)"
| "i2c_requests build ((bus, setting) # rest) cache =
     (case i2c_bus_create build bus setting cache of
        (r, c) \<Rightarrow> (case i2c_requests build rest c of (rs, c') \<Rightarrow> (r # rs, c')))"

subsection \<open>The worker\<close>

record schedulers =
  read_loop_ms :: int
  health_interval_ms :: int
  failed_reinit_interval_ms :: int
  next_read_ms :: int
  next_health_ms :: int
  next_failed_reinit_ms :: int
  next_activity_ms :: int

definition ACTIVITY_INTERVAL_MS :: int where "ACTIVITY_INTERVAL_MS = 5000"

definition c1_now :: "int c1p" where
  "c1_now = c1_sense c1_ticks_at"

text \<open>An advance loop, which may raise from the tick arithmetic.\<close>

definition advance :: "int \<Rightarrow> int \<Rightarrow> int \<Rightarrow> int c1p" where
  "advance now boundary interval =
     (case skip_elapsed now boundary interval of None \<Rightarrow> (\<lambda>w s. (Cut, s)) | Some r \<Rightarrow> io_res r)"

text \<open>From the registration of the stamp to the admission of the startup record.\<close>

definition core1_startup :: "int \<Rightarrow> unit c1p" where
  "core1_startup boot_ticks =
     io_bind stamp_activity (\<lambda>_.
     io_bind (io_set (\<lambda>s. s\<lparr>manager := (manager s)\<lparr>dm_uptime := Some (create_uptime_state boot_ticks)\<rparr>\<rparr>)) (\<lambda>_.
     io_bind (stamping initialize_devices) (\<lambda>_.
     io_bind c1_uptime (\<lambda>duration.
     io_bind get_reset_cause (\<lambda>cause.
     io_bind (build_startup_log duration cause) (\<lambda>message.
     io_bind (io_try (admit_startup_log_with_fallback message (build_startup_log_bounded duration cause))
        (\<lambda>e. if is_value_error e then io_raise RuntimeError else io_raise e)) (\<lambda>admitted.
     if admitted then io_return () else io_raise RuntimeError)))))))"

definition store_hardware :: "unit c1p" where
  "store_hardware =
     unless_memory (io_bind get_machine (\<lambda>d. io_set (\<lambda>s. s\<lparr>boxes := (boxes s)\<lparr>hardware := PDict d\<rparr>\<rparr>)))
       (\<lambda>_. io_return ())"

definition create_schedulers :: "int \<Rightarrow> schedulers c1p" where
  "create_schedulers anchor =
     io_ask (\<lambda>w.
     (let read = read_loop_sec w * 1000;
          health = health_interval_sec w * 1000;
          reinit = max (initialization_retry_delay_ms w) 1000 in
      io_bind c1_now (\<lambda>now.
      io_bind (io_res (regrid_next_boundary anchor now read)) (\<lambda>r.
      io_bind (io_res (regrid_next_boundary anchor now health)) (\<lambda>h.
      io_bind (io_res (regrid_next_boundary anchor now reinit)) (\<lambda>f.
      io_bind (io_res (ticks_add now ACTIVITY_INTERVAL_MS)) (\<lambda>a.
      io_return \<lparr>read_loop_ms = read, health_interval_ms = health, failed_reinit_interval_ms = reinit,
        next_read_ms = r, next_health_ms = h, next_failed_reinit_ms = f, next_activity_ms = a\<rparr>)))))))"

text \<open>Up to the loop: the anchor, the hardware mailbox, the schedulers, the sample at the anchor.\<close>

definition core1_enter_runtime :: "schedulers c1p" where
  "core1_enter_runtime =
     io_bind c1_now (\<lambda>anchor.
     io_bind store_hardware (\<lambda>_.
     io_bind stamp_activity (\<lambda>_.
     io_bind (create_schedulers anchor) (\<lambda>k.
     io_bind run_telemetry_read_pass (\<lambda>_.
     io_bind try_queue_health_message_intercore (\<lambda>_. io_return k))))))"

definition serve_commands :: "pydict option \<Rightarrow> pydict option c1p" where
  "serve_commands pending =
     (case pending of
        Some r \<Rightarrow> admit_or_substitute_command_response r
      | None \<Rightarrow> io_bind process_intercore_event (\<lambda>response.
          case response of None \<Rightarrow> io_return None | Some r \<Rightarrow> admit_or_substitute_command_response r))"

definition serve_reads :: "int \<Rightarrow> schedulers \<Rightarrow> schedulers c1p" where
  "serve_reads now k =
     (if ticks_diff now (next_read_ms k) \<ge> 0
      then io_bind run_telemetry_read_pass (\<lambda>_.
           io_bind c1_now (\<lambda>skip_now.
           io_bind (advance skip_now (next_read_ms k) (read_loop_ms k)) (\<lambda>n.
           io_return (k\<lparr>next_read_ms := n\<rparr>))))
      else io_return k)"

definition serve_retries :: "int \<Rightarrow> schedulers \<Rightarrow> schedulers c1p" where
  "serve_retries now k =
     io_bind (io_get (\<lambda>s. has_failed_devices (manager s))) (\<lambda>some_failed.
     if some_failed \<and> ticks_diff now (next_failed_reinit_ms k) \<ge> 0
     then io_bind (stamping retry_failed_devices) (\<lambda>results.
          io_bind (handle_results results) (\<lambda>_.
          io_bind c1_now (\<lambda>retry_now.
          io_bind (advance retry_now (next_failed_reinit_ms k) (failed_reinit_interval_ms k)) (\<lambda>n.
          io_return (k\<lparr>next_failed_reinit_ms := n\<rparr>)))))
     else io_return k)"

definition serve_activity :: "schedulers \<Rightarrow> schedulers c1p" where
  "serve_activity k =
     io_bind c1_now (\<lambda>now.
     if ticks_diff now (next_activity_ms k) \<ge> 0
     then io_bind (io_set (\<lambda>s. s\<lparr>boxes := (boxes s)\<lparr>core_1_activity_ms := Some now\<rparr>\<rparr>)) (\<lambda>_.
          io_bind (io_res (ticks_add now ACTIVITY_INTERVAL_MS)) (\<lambda>n. io_return (k\<lparr>next_activity_ms := n\<rparr>)))
     else io_return k)"

definition serve_health :: "int \<Rightarrow> schedulers \<Rightarrow> schedulers c1p" where
  "serve_health now k =
     (if ticks_diff now (next_health_ms k) \<ge> 0
      then io_bind try_queue_health_message_intercore (\<lambda>_.
           io_bind (advance now (next_health_ms k) (health_interval_ms k)) (\<lambda>n.
           io_return (k\<lparr>next_health_ms := n\<rparr>)))
      else io_return k)"

text \<open>One pass of the loop, with the pending response it starts and ends with.\<close>

definition core1_pass :: "pydict option \<times> schedulers \<Rightarrow> (pydict option \<times> schedulers) c1p" where
  "core1_pass st =
     (case st of (pending, k) \<Rightarrow>
        io_bind (serve_commands pending) (\<lambda>pending'.
        io_bind c1_now (\<lambda>now.
        io_bind (serve_reads now k) (\<lambda>k.
        io_bind (serve_retries now k) (\<lambda>k.
        io_bind (serve_activity k) (\<lambda>k.
        io_bind (serve_health now k) (\<lambda>k.
        io_bind (c1_sleep 20) (\<lambda>_. io_return (pending', k)))))))))"

text \<open>The worker over a number of passes of its endless loop; the handlers only print and re-raise.\<close>

fun core1_passes :: "nat \<Rightarrow> pydict option \<times> schedulers \<Rightarrow> (pydict option \<times> schedulers) c1p" where
  "core1_passes 0 st = io_return st"
| "core1_passes (Suc n) st = io_bind (core1_pass st) (core1_passes n)"

definition core1_main :: "int \<Rightarrow> nat \<Rightarrow> (pydict option \<times> schedulers) c1p" where
  "core1_main boot_ticks passes =
     io_bind (core1_startup boot_ticks) (\<lambda>_.
     io_bind core1_enter_runtime (\<lambda>k. core1_passes passes (None, k)))"

subsection \<open>What a program does to the outbound queue\<close>

text \<open>\<open>leaves_queue m\<close>: it leaves the queue alone. \<open>grows m\<close>: it only admits to a reachable queue.\<close>

definition leaves_queue :: "'a c1p \<Rightarrow> bool" where
  "leaves_queue m \<longleftrightarrow> (\<forall>w s r t. m w s = (r, t) \<longrightarrow> outbound t = outbound s)"

definition grown :: "c1 \<Rightarrow> entry list \<Rightarrow> c1 \<Rightarrow> bool" where
  "grown s es t \<longleftrightarrow> outq_reachable (outbound t) \<and> accounted (outbound t) = accounted (outbound s) + mset es"

definition grows :: "'a c1p \<Rightarrow> bool" where
  "grows m \<longleftrightarrow> (\<forall>w s r t. outq_reachable (outbound s) \<longrightarrow> m w s = (r, t) \<longrightarrow> (\<exists>es. grown s es t))"

named_theorems leaves_rules \<open>programs that leave the outbound queue alone\<close>
named_theorems grows_rules \<open>programs that only admit to the outbound queue\<close>

lemma grown_refl: "outq_reachable (outbound s) \<Longrightarrow> outbound t = outbound s \<Longrightarrow> grown s [] t"
  by (simp add: grown_def)

lemma grown_trans: "grown s es u \<Longrightarrow> grown u fs t \<Longrightarrow> grown s (es @ fs) t"
  by (simp add: grown_def)

lemma leaves_base [leaves_rules]:
  "leaves_queue (io_return x)" "leaves_queue (io_raise e)" "leaves_queue (io_get g)" "leaves_queue (c1_sense f)" "leaves_queue (io_res v)"
  by (auto simp: leaves_queue_def io_return_def io_raise_def io_get_def c1_sense_def io_res_def split: sum.splits)

lemma leaves_bind [leaves_rules]:
  assumes "leaves_queue m" and "\<And>x. leaves_queue (f x)"
  shows "leaves_queue (io_bind m f)"
  unfolding leaves_queue_def
proof (intro allI impI)
  fix w s r t assume run: "io_bind m f w s = (r, t)"
  obtain q u where m: "m w s = (q, u)" by fastforce
  with assms(1) have u: "outbound u = outbound s" by (simp add: leaves_queue_def)
  show "outbound t = outbound s"
  proof (cases q)
    case (Return x)
    with run m have "f x w u = (r, t)" by (simp add: io_bind_def)
    with assms(2) u show ?thesis by (metis leaves_queue_def)
  qed (use run m u in \<open>auto simp: io_bind_def\<close>)
qed

lemma leaves_try [leaves_rules]:
  assumes "leaves_queue m" and "\<And>e. leaves_queue (h e)"
  shows "leaves_queue (io_try m h)"
  unfolding leaves_queue_def
proof (intro allI impI)
  fix w s r t assume run: "io_try m h w s = (r, t)"
  obtain q u where m: "m w s = (q, u)" by fastforce
  with assms(1) have u: "outbound u = outbound s" by (simp add: leaves_queue_def)
  show "outbound t = outbound s"
  proof (cases q)
    case (Raise e)
    with run m have "h e w u = (r, t)" by (simp add: io_try_def)
    with assms(2) u show ?thesis by (metis leaves_queue_def)
  qed (use run m u in \<open>auto simp: io_try_def\<close>)
qed

lemma leaves_ask [leaves_rules]: "(\<And>w. leaves_queue (f w)) \<Longrightarrow> leaves_queue (io_ask f)"
  by (simp add: leaves_queue_def io_ask_def)

lemma leaves_if [leaves_rules]: "leaves_queue m \<Longrightarrow> leaves_queue m' \<Longrightarrow> leaves_queue (if c then m else m')"
  by simp

lemma leaves_option [leaves_rules]:
  "leaves_queue m \<Longrightarrow> (\<And>x. leaves_queue (f x)) \<Longrightarrow> leaves_queue (case v of None \<Rightarrow> m | Some x \<Rightarrow> f x)"
  by (cases v) simp_all

lemma leaves_pair [leaves_rules]: "(\<And>x y. leaves_queue (f x y)) \<Longrightarrow> leaves_queue (case p of (x, y) \<Rightarrow> f x y)"
  by (cases p) simp

lemma leaves_let [leaves_rules]: "leaves_queue (f v) \<Longrightarrow> leaves_queue (let x = v in f x)"
  by simp

lemma leaves_set [leaves_rules]:
  "leaves_queue (io_set (\<lambda>s. s\<lparr>boxes := F s\<rparr>))" "leaves_queue (io_set (\<lambda>s. s\<lparr>manager := G s\<rparr>))"
  "leaves_queue (io_set (\<lambda>s. s\<lparr>reset_label := H s\<rparr>))" "leaves_queue (io_set (\<lambda>s. s\<lparr>adc_built := B s\<rparr>))"
  by (simp_all add: leaves_queue_def io_set_def)

lemma leaves_manager [leaves_rules]: "leaves_queue (on_manager m)"
  by (auto simp: leaves_queue_def on_manager_def split: prod.splits)

lemma leaves_port [leaves_rules]:
  "leaves_queue (ask_port f)" "leaves_queue m \<Longrightarrow> (\<And>e. leaves_queue (h e)) \<Longrightarrow> leaves_queue (unless_memory m h)"
  unfolding ask_port_def unless_memory_def by (intro leaves_rules; assumption)+

lemma leaves_clock [leaves_rules]:
  "leaves_queue c1_uptime" "leaves_queue (utc_timestamp_now u)" "leaves_queue stamp_activity" "leaves_queue c1_now" "leaves_queue (c1_sleep n)"
  unfolding c1_uptime_def utc_timestamp_now_def stamp_activity_def c1_now_def c1_sleep_def
  by (intro leaves_rules)+

lemma leaves_stamping [leaves_rules]: "leaves_queue (stamping m)"
  unfolding leaves_queue_def
proof (intro allI impI)
  fix w s r t assume run: "stamping m w s = (r, t)"
  obtain q u where m: "on_manager m w s = (q, u)" by fastforce
  with leaves_manager [of m] have u: "outbound u = outbound s" by (simp add: leaves_queue_def)
  obtain q' v where "stamp_activity w u = (q', v)" by fastforce
  with run m u leaves_clock(3) show "outbound t = outbound s"
    unfolding leaves_queue_def stamping_def by (auto split: if_splits)
qed

lemma leaves_message [leaves_rules]:
  "leaves_queue message_time" "leaves_queue (serialize_message v)" "leaves_queue (build_command_response ev b body)"
  unfolding message_time_def serialize_message_def build_command_response_def
  by (intro leaves_rules)+

lemma leaves_sections [leaves_rules]:
  "leaves_queue get_reset_cause" "leaves_queue network_snapshot_of" "leaves_queue get_memory" "leaves_queue get_runtime"
  "leaves_queue get_device_sections" "leaves_queue device_counts" "leaves_queue get_cpu_temperature"
  unfolding get_reset_cause_def network_snapshot_of_def get_memory_def get_runtime_def
    get_device_sections_def device_counts_def get_cpu_temperature_def Let_def
  by (intro leaves_rules)+

lemma leaves_getters [leaves_rules]:
  "leaves_queue get_network" "leaves_queue get_cpu" "leaves_queue get_machine" "leaves_queue get_communications" "leaves_queue get_queues"
  unfolding get_network_def get_cpu_def get_machine_def get_communications_def get_queues_def Let_def
  by (intro leaves_rules)+

lemma section_getter_leaves: "section_getter name = Some g \<Longrightarrow> leaves_queue g"
  by (auto simp: section_getter_def split: if_splits intro: leaves_rules)

lemma leaves_collect_section: "leaves_queue (collect_section sections name)"
  by (cases "dget sections name"; cases "section_getter name")
    (auto simp: collect_section_def intro!: leaves_rules dest: section_getter_leaves)

lemma leaves_collect [leaves_rules]: "leaves_queue collect_system_information_full"
proof -
  have "leaves_queue (collect_sections sections names)" for sections names
    by (induction names) (auto intro!: leaves_rules leaves_collect_section)
  then show ?thesis
    unfolding collect_system_information_full_def device_sections_or_errors_def
    by (intro leaves_rules)
qed

lemma leaves_event [leaves_rules]: "leaves_queue process_intercore_event"
  unfolding process_intercore_event_def by (intro leaves_rules)

lemma leaves_startup_builders [leaves_rules]:
  "leaves_queue (startup_log_message d sm)" "leaves_queue device_status" "leaves_queue (build_startup_log d c)"
  "leaves_queue (build_startup_log_bounded d c)"
  unfolding startup_log_message_def device_status_def build_startup_log_def build_startup_log_bounded_def Let_def
  by (intro leaves_rules)+

lemma leaves_health [leaves_rules]: "leaves_queue build_health_payload"
  unfolding build_health_payload_def Let_def by (intro leaves_rules)

lemma leaves_runtime [leaves_rules]:
  "leaves_queue store_hardware" "leaves_queue (create_schedulers a)" "leaves_queue (serve_activity k)"
  unfolding store_hardware_def create_schedulers_def serve_activity_def Let_def by (intro leaves_rules)+

text \<open>Sequencing what only admits.\<close>

lemma leaves_grows [grows_rules]: "leaves_queue m \<Longrightarrow> grows m"
  unfolding grows_def leaves_queue_def using grown_refl by blast

lemma grows_bind [grows_rules]:
  assumes "grows m" and "\<And>x. grows (f x)"
  shows "grows (io_bind m f)"
  unfolding grows_def
proof (intro allI impI)
  fix w s r t assume reach: "outq_reachable (outbound s)" and run: "io_bind m f w s = (r, t)"
  obtain q u where m: "m w s = (q, u)" by fastforce
  with assms(1) reach obtain es where es: "grown s es u" unfolding grows_def by blast
  show "\<exists>es. grown s es t"
  proof (cases q)
    case (Return x)
    with run m have "f x w u = (r, t)" by (simp add: io_bind_def)
    moreover have "outq_reachable (outbound u)" using es by (simp add: grown_def)
    ultimately obtain fs where "grown u fs t" using assms(2) unfolding grows_def by blast
    with es show ?thesis using grown_trans by blast
  qed (use run m es in \<open>auto simp: io_bind_def\<close>)
qed

lemma grows_try [grows_rules]:
  assumes "grows m" and "\<And>e. grows (h e)"
  shows "grows (io_try m h)"
  unfolding grows_def
proof (intro allI impI)
  fix w s r t assume reach: "outq_reachable (outbound s)" and run: "io_try m h w s = (r, t)"
  obtain q u where m: "m w s = (q, u)" by fastforce
  with assms(1) reach obtain es where es: "grown s es u" unfolding grows_def by blast
  show "\<exists>es. grown s es t"
  proof (cases q)
    case (Raise e)
    with run m have "h e w u = (r, t)" by (simp add: io_try_def)
    moreover have "outq_reachable (outbound u)" using es by (simp add: grown_def)
    ultimately obtain fs where "grown u fs t" using assms(2) unfolding grows_def by blast
    with es show ?thesis using grown_trans by blast
  qed (use run m es in \<open>auto simp: io_try_def\<close>)
qed

lemma grows_if [grows_rules]: "grows m \<Longrightarrow> grows m' \<Longrightarrow> grows (if c then m else m')"
  by simp

lemma grows_option [grows_rules]:
  "grows m \<Longrightarrow> (\<And>x. grows (f x)) \<Longrightarrow> grows (case v of None \<Rightarrow> m | Some x \<Rightarrow> f x)"
  by (cases v) simp_all

lemma grows_pair [grows_rules]: "(\<And>x y. grows (f x y)) \<Longrightarrow> grows (case p of (x, y) \<Rightarrow> f x y)"
  by (cases p) simp

lemma accounted_rejected [simp]: "accounted (u\<lparr>messages_rejected := n\<rparr>) = accounted u"
  by (simp add: accounted_def retained_def)

text \<open>The two ways into the queue, both to a reachable queue.\<close>

definition queue_spec :: "string \<Rightarrow> int \<Rightarrow> (string \<Rightarrow> bool) \<Rightarrow> (exc \<Rightarrow> bool) \<Rightarrow> c1 \<Rightarrow> bool outcome \<Rightarrow> c1 \<Rightarrow> bool" where
  "queue_spec kind priority bytes_ok perm s r t \<longleftrightarrow>
     (case r of
        Return True \<Rightarrow> (\<exists>e. grown s [e] t \<and> Some (e_kind e) = kind_of kind \<and> retention_priority e = priority
           \<and> bytes_ok (payload_bytes e))
      | Return False \<Rightarrow> grown s [] t
      | Raise x \<Rightarrow> grown s [] t \<and> (x = MemoryError \<or> perm x)
      | Cut \<Rightarrow> False)"

lemma put_outcome_spec:
  assumes "put_outcome e kind (PInt priority) bytes_ok perm (outbound s) r q" and "outq_reachable q"
  shows "queue_spec kind priority bytes_ok perm s (case r of Inl x \<Rightarrow> Raise x | Inr b \<Rightarrow> Return b) (s\<lparr>outbound := q\<rparr>)"
proof (cases r)
  case (Inr b)
  with assms show ?thesis
    by (cases b) (auto simp: put_outcome_def queue_spec_def grown_def produces_def admitted_as_def)
qed (use assms in \<open>auto simp: put_outcome_def queue_spec_def grown_def produces_def\<close>)

lemma queue_message_spec:
  assumes "outq_reachable (outbound s)" and "queue_message kind message priority w s = (r, t)"
  shows "queue_spec kind priority
      (\<lambda>b. serialize_and_validate_message (float_repr (queue_env w)) (PDict message) = Inr b)
      (\<lambda>x. x = ValueError \<or> x = OutboundMessageTooLargeError) s r t"
proof -
  let ?p = "put (queue_env w) kind (PDict message) (PInt priority) (outbound s)"
  obtain b q where b: "?p = Some (b, q)"
    and out: "put_outcome (queue_env w) kind (PInt priority)
        (\<lambda>b. serialize_and_validate_message (float_repr (queue_env w)) (PDict message) = Inr b)
        (message_fault (queue_env w) kind (PInt priority) (PDict message)) (outbound s) b q"
    using put_returns [of "outbound s"] outq_reachable_healthy [OF assms(1)] unfolding healthy_def by meson
  have "outq_reachable q" by (rule outq_reachable.reach_call [OF assms(1) outq_call.call_put [OF b]])
  from put_outcome_spec [OF out this] have
    "queue_spec kind priority
      (\<lambda>b. serialize_and_validate_message (float_repr (queue_env w)) (PDict message) = Inr b)
      (message_fault (queue_env w) kind (PInt priority) (PDict message)) s
      (case b of Inl x \<Rightarrow> Raise x | Inr b \<Rightarrow> Return b) (s\<lparr>outbound := q\<rparr>)" .
  moreover have "r = (case b of Inl x \<Rightarrow> Raise x | Inr b \<Rightarrow> Return b)" "t = s\<lparr>outbound := q\<rparr>"
    using assms(2) b by (auto simp: queue_message_def on_outbound_def split: sum.splits)
  ultimately show ?thesis
    by (auto simp: queue_spec_def message_fault_def split: outcome.splits bool.splits)
qed

lemma queue_bytes_spec:
  assumes "outq_reachable (outbound s)" and "queue_bytes kind payload priority w s = (r, t)"
  shows "queue_spec kind priority (\<lambda>b. b = payload) (\<lambda>x. x = ValueError \<or> x = OutboundMessageTooLargeError) s r t"
proof -
  let ?p = "put_with_kind (queue_env w) kind (Some payload) (PInt priority) (outbound s)"
  obtain b q where b: "?p = Some (b, q)"
    and out: "put_outcome (queue_env w) kind (PInt priority)
        (\<lambda>bs. Some payload = Some bs \<and> length bs \<le> MAX_OUTBOUND_MESSAGE_BYTES)
        (\<lambda>x. x = ValueError \<or> x = OutboundMessageTooLargeError) (outbound s) b q"
    using put_with_kind_returns [of "outbound s"] outq_reachable_healthy [OF assms(1)]
    unfolding healthy_def by meson
  have "outq_reachable q" by (rule outq_reachable.reach_call [OF assms(1) outq_call.call_put_with_kind [OF b]])
  note spec = put_outcome_spec [OF out this]
  have "r = (case b of Inl x \<Rightarrow> Raise x | Inr b \<Rightarrow> Return b)" "t = s\<lparr>outbound := q\<rparr>"
    using assms(2) b by (auto simp: queue_bytes_def on_outbound_def split: sum.splits)
  with spec show ?thesis
    by (auto simp: queue_spec_def split: outcome.splits bool.splits)
qed

lemma queue_spec_grown: "queue_spec kind priority bytes_ok perm s r t \<Longrightarrow> \<exists>es. grown s es t"
  by (auto simp: queue_spec_def split: outcome.splits bool.splits)

lemma grows_message [grows_rules]: "grows (queue_message k m p)"
  unfolding grows_def using queue_message_spec queue_spec_grown by blast

lemma grows_bytes [grows_rules]: "grows (queue_bytes k b p)"
  unfolding grows_def using queue_bytes_spec queue_spec_grown by blast

subsection \<open>What becomes of a command response\<close>

text \<open>The fields that tell which command a response answers.\<close>

definition identity_of :: "pydict \<Rightarrow> pyval \<times> pyval \<times> pyval" where
  "identity_of p = (dget_none p ''command_id'', dget_none p ''command'', dget_or p ''targeted'' (PBool False))"

definition omitted :: "pydict \<Rightarrow> pyval list" where
  "omitted data = (let v = dget_none data ''omitted_sections'' in if truthy v then the_list v else [])"

text \<open>Sections of \<open>d\<close> are in \<open>d'\<close> as they were, or named as omitted there.\<close>

definition reduces :: "pydict \<Rightarrow> pydict \<Rightarrow> bool" where
  "reduces d d' \<longleftrightarrow>
     (\<forall>k. k \<noteq> ''omitted_sections'' \<longrightarrow>
        dget d' k = dget d k \<or> dget d' k = None \<and> PStr k \<in> set (omitted d'))
     \<and> set (omitted d) \<subseteq> set (omitted d')"

definition data_of :: "pydict \<Rightarrow> pydict" where
  "data_of p = the_dict (dget_none p ''data'')"

text \<open>\<open>p'\<close> answers for \<open>p\<close>: the same payload, a reduced success, or a coded error.\<close>

definition stands_for :: "pydict \<Rightarrow> pydict \<Rightarrow> bool" where
  "stands_for p p' \<longleftrightarrow> identity_of p' = identity_of p \<and>
     (p' = p
      \<or> dget p' ''success'' = Some (PBool True) \<and> reduces (data_of p) (data_of p')
      \<or> dget p' ''success'' = Some (PBool False) \<and>
          (\<exists>code text. dget p' ''error'' = Some (error_body code text) \<and>
             code \<in> {''response_too_large'', ''response_invalid''}))"

lemma dget_simps [simp]:
  "dget [] k = None" "dget ((PStr j, v) # d) k = (if j = k then Some v else dget d k)"
  by (simp_all add: dget_def)

lemma dget_ddel: "dget (ddel d j) k = (if k = j then None else dget d k)"
  by (induction d) (auto simp: ddel_def dget_def)

lemma dget_dput: "dget (dput d j v) k = (if k = j then Some v else dget d k)"
proof -
  have "dget (map (\<lambda>(x, w). (x, if x = PStr j then v else w)) d) k =
      (if k = j \<and> dhas d j then Some v else dget d k)"
    by (induction d) (auto simp: dget_def dhas_def)
  moreover have "dget (d @ [(PStr j, v)]) k = (case dget d k of None \<Rightarrow> if k = j then Some v else None | Some w \<Rightarrow> Some w)"
    by (induction d) (auto simp: dget_def)
  ultimately show ?thesis by (auto simp: dput_def dhas_def split: option.splits)
qed

lemma omitted_data_without: "omitted (data_without d j) = omitted d @ [PStr j]"
  by (simp add: omitted_def data_without_def Let_def dget_none_def dget_dput)

lemma reduces_data_without: "j \<noteq> ''omitted_sections'' \<Longrightarrow> reduces d (data_without d j)"
  unfolding reduces_def omitted_data_without
  by (auto simp: data_without_def Let_def dget_dput dget_ddel)

lemma reduces_refl: "reduces d d"
  by (simp add: reduces_def)

lemma reduces_trans: "reduces d d' \<Longrightarrow> reduces d' d'' \<Longrightarrow> reduces d d''"
  unfolding reduces_def
proof (intro conjI allI impI; elim conjE)
  fix k assume k: "k \<noteq> ''omitted_sections''"
    and one: "\<forall>k. k \<noteq> ''omitted_sections'' \<longrightarrow> dget d' k = dget d k \<or> dget d' k = None \<and> PStr k \<in> set (omitted d')"
    and two: "\<forall>k. k \<noteq> ''omitted_sections'' \<longrightarrow> dget d'' k = dget d' k \<or> dget d'' k = None \<and> PStr k \<in> set (omitted d'')"
    and sub: "set (omitted d') \<subseteq> set (omitted d'')"
  show "dget d'' k = dget d k \<or> dget d'' k = None \<and> PStr k \<in> set (omitted d'')"
    using one [rule_format, OF k] two [rule_format, OF k] sub by auto
qed auto

lemma payload_fields:
  "identity_of (answer_payload ev b body) = identity_of ev"
  "dget (answer_payload ev b body) ''success'' = Some (PBool b)"
  "b \<Longrightarrow> data_of (answer_payload ev b body) = the_dict body"
  "\<not> b \<Longrightarrow> dget (answer_payload ev b body) ''error'' = Some body"
  by (simp_all add: answer_payload_def identity_of_def data_of_def dget_none_def dget_or_def)

lemma built_response:
  assumes "build_command_response ev b body w s = (r, t)"
  shows "outbound t = outbound s \<and> (\<exists>m. r = Return m \<and> message_payload m = answer_payload ev b body)"
proof -
  have "outbound t = outbound s" using assms leaves_message(3) unfolding leaves_queue_def by blast
  moreover have "case r of Return m \<Rightarrow> message_payload m = answer_payload ev b body | _ \<Rightarrow> False"
    using assms
    by (auto simp: build_command_response_def message_time_def c1_uptime_def utc_timestamp_now_def
        c1_sense_def io_bind_def io_get_def io_set_def io_return_def message_payload_def dget_none_def
        split: option.splits prod.splits)
  ultimately show ?thesis by (cases r) auto
qed

text \<open>What an admission attempt, with its substitutes, may leave for a response \<open>p\<close> begun in \<open>s\<close>.\<close>

definition response_spec :: "c1_world \<Rightarrow> pydict \<Rightarrow> c1 \<Rightarrow> pydict option outcome \<Rightarrow> c1 \<Rightarrow> bool" where
  "response_spec w p s r t \<longleftrightarrow>
     (case r of
        Return None \<Rightarrow> (\<exists>e m. grown s [e] t \<and> e_kind e = KIND_COMMAND_RESPONSE
           \<and> retention_priority e = RETENTION_PRIORITY_CRITICAL
           \<and> payload_bytes e = json_text (float_repr (queue_env w)) (PDict m)
           \<and> stands_for p (message_payload m))
      | Return (Some m) \<Rightarrow> grown s [] t \<and> stands_for p (message_payload m)
      | Raise x \<Rightarrow> grown s [] t \<and> (x = MemoryError \<or> x = ValueError \<or> x = OutboundMessageTooLargeError)
      | Cut \<Rightarrow> False)"

lemma grown_Nil_trans: "grown s [] u \<Longrightarrow> grown u es t \<Longrightarrow> grown s es t"
  using grown_trans [of s "[]"] by simp

lemma response_spec_later:
  "grown s [] u \<Longrightarrow> response_spec w p u r t \<Longrightarrow> response_spec w p s r t"
  by (fastforce simp: response_spec_def intro: grown_Nil_trans split: outcome.splits option.splits)

lemma response_queued:
  assumes "outq_reachable (outbound s)" and "try_queue_response m w s = (r, t)"
  shows "case r of
      Return True \<Rightarrow> \<exists>e. grown s [e] t \<and> e_kind e = KIND_COMMAND_RESPONSE
        \<and> retention_priority e = RETENTION_PRIORITY_CRITICAL
        \<and> payload_bytes e = json_text (float_repr (queue_env w)) (PDict m)
    | Return False \<Rightarrow> grown s [] t
    | Raise x \<Rightarrow> grown s [] t \<and> (x = MemoryError \<or> x = ValueError \<or> x = OutboundMessageTooLargeError)
    | Cut \<Rightarrow> False"
proof -
  have "queue_message ''command_response'' m RETENTION_PRIORITY_CRITICAL w s = (r, t)"
    using assms(2) by (simp add: try_queue_response_def)
  from queue_message_spec [OF assms(1) this] show ?thesis
    by (auto simp: queue_spec_def kind_of_def serialize_ok_iff split: outcome.splits bool.splits)
qed

lemma substitute_admitted:
  assumes "outq_reachable (outbound s)" and "admit_substitute m code text w s = (r, t)"
    and "identity_of (message_payload m) = identity_of p" "code \<in> {''response_too_large'', ''response_invalid''}"
  shows "response_spec w p s r t"
proof -
  obtain q u where b: "build_substitute_error_response m code text w s = (q, u)" by fastforce
  then obtain sub where sub: "q = Return sub" "outbound u = outbound s"
      "message_payload sub = answer_payload (message_payload m) False (error_body code text)"
    using built_response unfolding build_substitute_error_response_def by blast
  have stands: "stands_for p (message_payload sub)"
    using assms(3,4) payload_fields [where ev = "message_payload m" and b = False and body = "error_body code text"]
    by (auto simp: stands_for_def sub(3))
  have u: "grown s [] u" by (rule grown_refl [OF assms(1) sub(2)])
  obtain a v where a: "try_queue_response sub w u = (a, v)" by fastforce
  have "outq_reachable (outbound u)" using assms(1) sub(2) by simp
  note spec = response_queued [OF this a]
  have "(r, t) = (case a of Return b \<Rightarrow> (Return (if b then None else Some sub), v)
      | Raise e \<Rightarrow> (Raise e, v) | Cut \<Rightarrow> (Cut, v))"
    using assms(2) b sub(1) a by (auto simp: admit_substitute_def io_bind_def io_return_def split: outcome.splits)
  with spec stands have "response_spec w p u r t"
    by (cases a) (auto simp: response_spec_def split: bool.splits if_splits)
  with u show ?thesis by (rule response_spec_later)
qed

lemma stands_for_refl: "stands_for p p"
  by (simp add: stands_for_def)

lemma attempt_spec:
  assumes "outq_reachable (outbound s)" and "try_queue_response m w s = (Return b, t)"
    and "stands_for p (message_payload m)"
  shows "response_spec w p s (Return (if b then None else Some m)) t"
proof (cases b)
  case True
  with response_queued [OF assms(1,2)] assms(3) show ?thesis
    unfolding response_spec_def by auto
next
  case False
  with response_queued [OF assms(1,2)] assms(3) show ?thesis by (simp add: response_spec_def)
qed

text \<open>One reduced form, tried, and what follows its failure.\<close>

lemma reduced_admitted:
  assumes "outq_reachable (outbound s)" and "admit_reduced sections c w s = (r, t)"
    and "identity_of (message_payload c) = identity_of p" and "reduces (data_of p) (data_of (message_payload c))"
    and "''omitted_sections'' \<notin> set sections"
  shows "case r of Return None \<Rightarrow> grown s [] t | Return (Some x) \<Rightarrow> response_spec w p s (Return x) t
    | Raise e \<Rightarrow> response_spec w p s (Raise e) t | Cut \<Rightarrow> False"
  using assms
proof (induction sections arbitrary: c s)
  case Nil
  then show ?case by (auto simp: io_return_def intro: grown_refl)
next
  case (Cons sec rest)
  have dom: "the_dict (dget_none (message_payload c) ''data'') = data_of (message_payload c)" by (simp add: data_of_def)
  show ?case
  proof (cases "dhas (data_of (message_payload c)) sec")
    case False
    with Cons.prems Cons.IH [of s c] show ?thesis by (simp add: dom)
  next
    case True
    obtain q u where b: "build_get_details_response_without c sec w s = (q, u)" by fastforce
    then obtain sm where sm: "q = Return sm" "outbound u = outbound s"
        "message_payload sm = answer_payload (message_payload c) True (PDict (data_without (data_of (message_payload c)) sec))"
      using built_response unfolding build_get_details_response_without_def dom by blast
    note fields = payload_fields [where ev = "message_payload c" and b = True and
        body = "PDict (data_without (data_of (message_payload c)) sec)", folded sm(3)]
    have red: "reduces (data_of p) (data_of (message_payload sm))"
      using reduces_trans [OF Cons.prems(4) reduces_data_without] Cons.prems(5) fields(3) by auto
    have ident: "identity_of (message_payload sm) = identity_of p" using fields(1) Cons.prems(3) by simp
    have stands: "stands_for p (message_payload sm)" using ident red fields(2) by (simp add: stands_for_def)
    have u: "grown s [] u" "outq_reachable (outbound u)"
      using grown_refl [OF Cons.prems(1) sm(2)] Cons.prems(1) sm(2) by simp_all
    obtain a v where a: "try_queue_response sm w u = (a, v)" by fastforce
    note spec = response_queued [OF u(2) a]
    have run: "(case a of
        Return b \<Rightarrow> (Return (Some (if b then None else Some sm)), v)
      | Cut \<Rightarrow> (Cut, v)
      | Raise e \<Rightarrow>
          (if e = MemoryError then admit_reduced rest sm
           else if e = OutboundMessageTooLargeError
           then io_bind (admit_substitute sm ''response_too_large'' too_large_text) (\<lambda>p. io_return (Some p))
           else if is_value_error e
           then io_bind (admit_substitute sm ''response_invalid'' invalid_text) (\<lambda>p. io_return (Some p))
           else io_raise e) w v) = (r, t)"
      using Cons.prems(2) True b sm(1) a
      by (auto simp: dom io_bind_def io_try_def io_return_def split: outcome.splits)
    show ?thesis
    proof (cases a)
      case (Return b)
      with run have res: "r = Return (Some (if b then None else Some sm))" "t = v" by auto
      have "response_spec w p u (Return (if b then None else Some sm)) v"
        by (rule attempt_spec [OF u(2) a [unfolded Return] stands])
      with u(1) res show ?thesis by (auto intro: response_spec_later)
    next
      case (Raise e)
      with spec have "grown u [] v" by auto
      then have v: "grown s [] v" "outq_reachable (outbound v)"
        using grown_Nil_trans [OF u(1), of "[]" v] by (simp_all add: grown_def)
      have sub: "case r of Return None \<Rightarrow> grown s [] t | Return (Some x) \<Rightarrow> response_spec w p s (Return x) t
          | Raise e \<Rightarrow> response_spec w p s (Raise e) t | Cut \<Rightarrow> False"
        if "io_bind (admit_substitute sm code words) (\<lambda>p. io_return (Some p)) w v = (r, t)"
          and code: "code \<in> {''response_too_large'', ''response_invalid''}" for code words
      proof -
        obtain x y where x: "admit_substitute sm code words w v = (x, y)" by fastforce
        note rs = response_spec_later [OF v(1) substitute_admitted [OF v(2) x ident code]]
        from that(1) x rs show ?thesis
          by (cases x) (auto simp: io_bind_def io_return_def response_spec_def)
      qed
      from run Raise spec consider (mem) "admit_reduced rest sm w v = (r, t)"
        | (large) "io_bind (admit_substitute sm ''response_too_large'' too_large_text) (\<lambda>p. io_return (Some p)) w v = (r, t)"
        | (invalid) "io_bind (admit_substitute sm ''response_invalid'' invalid_text) (\<lambda>p. io_return (Some p)) w v = (r, t)"
        by (auto split: if_splits)
      then show ?thesis
      proof cases
        case mem
        from Cons.IH [OF v(2) mem ident red] Cons.prems(5) v(1) show ?thesis
          by (auto intro: grown_Nil_trans response_spec_later split: outcome.splits option.splits)
      next
        case large
        then show ?thesis by (rule sub) simp
      next
        case invalid
        then show ?thesis by (rule sub) simp
      qed
    qed (use spec in simp)
  qed
qed

lemma response_admitted:
  assumes "outq_reachable (outbound s)" and "admit_or_substitute_command_response m w s = (r, t)"
  shows "response_spec w (message_payload m) s r t"
proof -
  let ?p = "message_payload m"
  obtain a u where a: "try_queue_response m w s = (a, u)" by fastforce
  note spec = response_queued [OF assms(1) a]
  have stands: "stands_for ?p (message_payload m)" by (rule stands_for_refl)
  show ?thesis
  proof (cases a)
    case (Return b)
    with assms(2) a have run: "r = Return (if b then None else Some m)" "t = u"
      by (simp_all add: admit_or_substitute_command_response_def io_bind_def io_try_def io_return_def)
    from attempt_spec [OF assms(1) a [unfolded Return] stands] run show ?thesis by simp
  next
    case (Raise e)
    with spec have u: "grown s [] u" "outq_reachable (outbound u)" by (auto simp: grown_def)
    note sub = response_spec_later [OF u(1) substitute_admitted [OF u(2)], OF _ refl]
    from assms(2) a Raise spec consider
        (large) "admit_substitute m ''response_too_large'' too_large_text w u = (r, t)"
      | (invalid) "admit_substitute m ''response_invalid'' invalid_text w u = (r, t)"
      | (memory) "admit_after_serialization_memory_error m w u = (r, t)"
      by (auto simp: admit_or_substitute_command_response_def io_bind_def io_try_def split: if_splits)
    then show ?thesis
    proof cases
      case large
      then show ?thesis by (rule sub) simp
    next
      case invalid
      then show ?thesis by (rule sub) simp
    next
      case memory
      obtain q v where q: "(if dget ?p ''command'' = Some (PStr COMMAND_GET_DETAILS)
          then admit_reduced GET_DETAILS_FALLBACK_DROP_ORDER m else io_return None) w u = (q, v)" by fastforce
      have "case q of Return None \<Rightarrow> grown u [] v | Return (Some x) \<Rightarrow> response_spec w ?p u (Return x) v
          | Raise e \<Rightarrow> response_spec w ?p u (Raise e) v | Cut \<Rightarrow> False"
      proof (cases "dget ?p ''command'' = Some (PStr COMMAND_GET_DETAILS)")
        case True
        with q have "admit_reduced GET_DETAILS_FALLBACK_DROP_ORDER m w u = (q, v)"
          by (simp only: if_True simp_thms)
        then show ?thesis
          by (rule reduced_admitted [OF u(2) _ refl]) (simp_all add: reduces_refl GET_DETAILS_FALLBACK_DROP_ORDER_def)
      next
        case False
        with q grown_refl [OF u(2) refl] show ?thesis by (auto simp: io_return_def)
      qed
      note rs = this
      show ?thesis
      proof (cases "q = Return None")
        case True
        with rs have v: "grown u [] v" "outq_reachable (outbound v)" by (auto simp: grown_def)
        from True memory q have "admit_substitute m ''response_invalid'' invalid_text w v = (r, t)"
          by (auto simp: admit_after_serialization_memory_error_def io_bind_def)
        from substitute_admitted [OF v(2) this refl] u(1) v(1) show ?thesis
          by (auto intro: response_spec_later)
      next
        case False
        with memory q rs have "response_spec w ?p u r t"
          by (auto simp: admit_after_serialization_memory_error_def io_bind_def io_return_def
              split: outcome.splits option.splits)
        with u(1) show ?thesis by (rule response_spec_later)
      qed
    qed
  qed (use spec in simp)
qed

lemma grows_response [grows_rules]: "grows (admit_or_substitute_command_response m)"
  unfolding grows_def
proof (intro allI impI)
  fix w s r t assume "outq_reachable (outbound s)" "admit_or_substitute_command_response m w s = (r, t)"
  from response_admitted [OF this] show "\<exists>es. grown s es t"
    by (auto simp: response_spec_def split: outcome.splits option.splits)
qed

subsection \<open>The startup record comes first\<close>

definition startup_record :: "pydict \<Rightarrow> bool" where
  "startup_record m \<longleftrightarrow> dget_none (message_payload m) ''event'' = PStr ''system_startup_completed''"

definition startup_entry :: "c1_world \<Rightarrow> entry \<Rightarrow> bool" where
  "startup_entry w e \<longleftrightarrow> e_kind e = KIND_LOG \<and> retention_priority e = RETENTION_PRIORITY_INFO \<and>
     (\<exists>m. payload_bytes e = json_text (float_repr (queue_env w)) (PDict m) \<and> startup_record m)"

definition startup_spec :: "c1_world \<Rightarrow> c1 \<Rightarrow> bool outcome \<Rightarrow> c1 \<Rightarrow> bool" where
  "startup_spec w s r t \<longleftrightarrow>
     (if r = Return True then \<exists>e. grown s [e] t \<and> startup_entry w e else grown s [] t)"

lemma startup_spec_later: "grown s [] u \<Longrightarrow> startup_spec w u r t \<Longrightarrow> startup_spec w s r t"
  by (auto simp: startup_spec_def intro: grown_Nil_trans split: if_splits)

lemma startup_log_queued:
  assumes "outq_reachable (outbound s)" and "startup_record m"
    and "try_queue_startup_log m RETENTION_PRIORITY_INFO w s = (r, t)"
  shows "startup_spec w s r t"
proof -
  let ?ser = "io_try (serialize_message (PDict m)) (\<lambda>e. if e = MessageTooLargeError then io_raise StartupLogTooLargeError
        else if e = MemoryError then io_raise MemoryError else io_raise ValueError)"
  obtain q u where q: "?ser w s = (q, u)" by fastforce
  have "leaves_queue ?ser" by (intro leaves_rules)
  with q assms(1) have u: "grown s [] u" "outq_reachable (outbound u)"
    using grown_refl by (simp_all add: leaves_queue_def)
  show ?thesis
  proof (cases q)
    case (Return payload)
    with q have payload: "payload = json_text (float_repr (queue_env w)) (PDict m)"
      by (auto simp: serialize_message_def io_try_def io_ask_def io_bind_def c1_sense_def io_res_def io_return_def
          io_raise_def serialize_ok_iff simp del: json_text.simps split: if_splits sum.splits)
    from Return q assms(3) have "queue_bytes ''log'' payload RETENTION_PRIORITY_INFO w u = (r, t)"
      by (simp add: try_queue_startup_log_def io_bind_def)
    from queue_bytes_spec [OF u(2) this] have "startup_spec w u r t"
      using assms(2) unfolding payload startup_spec_def queue_spec_def startup_entry_def
      by (auto simp: kind_of_def simp del: json_text.simps split: outcome.splits bool.splits)
    with u(1) show ?thesis by (rule startup_spec_later)
  qed (use q assms(3) u in \<open>auto simp: try_queue_startup_log_def io_bind_def startup_spec_def\<close>)
qed

lemma startup_log_admitted:
  assumes "outq_reachable (outbound s)" and "startup_record m" and "admit_startup_log m w s = (r, t)"
  shows "startup_spec w s r t"
proof -
  obtain q u where q: "try_queue_startup_log m RETENTION_PRIORITY_INFO w s = (q, u)" by fastforce
  note first = startup_log_queued [OF assms(1,2) q]
  show ?thesis
  proof (cases "q = Return False")
    case True
    with first have u: "grown s [] u" by (simp add: startup_spec_def)
    let ?v = "u\<lparr>c1_clock := Suc (c1_clock u)\<rparr>"
    from True assms(3) q have "try_queue_startup_log m RETENTION_PRIORITY_INFO w ?v = (r, t)"
      by (simp add: admit_startup_log_def io_bind_def c1_sleep_def c1_sense_def io_return_def)
    moreover have "outq_reachable (outbound ?v)" "grown s [] ?v" using u by (simp_all add: grown_def)
    ultimately show ?thesis using startup_log_queued [OF _ assms(2)] startup_spec_later by blast
  next
    case False
    with assms(3) q have "r = q \<and> t = u"
      by (auto simp: admit_startup_log_def io_bind_def io_return_def split: outcome.splits)
    with first show ?thesis by simp
  qed
qed

lemma built_startup_log:
  assumes "startup_log_message d sm w s = (r, t)"
  shows "case r of Return m \<Rightarrow> startup_record m | _ \<Rightarrow> True"
  using assms
  by (auto simp: startup_log_message_def utc_timestamp_now_def c1_sense_def io_bind_def io_return_def
      startup_record_def message_payload_def dget_none_def)

lemma startup_builders_record:
  "build_startup_log d c w s = (Return m, t) \<Longrightarrow> startup_record m"
  "build_startup_log_bounded d c w s = (Return m, t) \<Longrightarrow> startup_record m"
  using built_startup_log
  by (fastforce simp: build_startup_log_def build_startup_log_bounded_def io_bind_def Let_def split: outcome.splits prod.splits)+

lemma startup_fallback_admitted:
  assumes "outq_reachable (outbound s)" and "startup_record m"
    and "admit_startup_log_with_fallback m (build_startup_log_bounded d c) w s = (r, t)"
  shows "startup_spec w s r t"
proof -
  obtain q u where q: "admit_startup_log m w s = (q, u)" by fastforce
  note first = startup_log_admitted [OF assms(1,2) q]
  show ?thesis
  proof (cases "q = Raise StartupLogTooLargeError \<or> q = Raise MemoryError")
    case True
    with first have u: "grown s [] u" "outq_reachable (outbound u)" by (auto simp: startup_spec_def grown_def)
    obtain b v where b: "build_startup_log_bounded d c w u = (b, v)" by fastforce
    with leaves_startup_builders(4) have "outbound v = outbound u" unfolding leaves_queue_def by blast
    with u have v: "grown s [] v" "outq_reachable (outbound v)" by (simp_all add: grown_def)
    from True assms(3) q have run: "io_bind (build_startup_log_bounded d c) admit_startup_log w u = (r, t)"
      by (auto simp: admit_startup_log_with_fallback_def io_try_def)
    show ?thesis
    proof (cases b)
      case (Return m')
      with run b have "admit_startup_log m' w v = (r, t)" by (simp add: io_bind_def)
      from startup_log_admitted [OF v(2) startup_builders_record(2) [OF b [unfolded Return]] this] v(1)
      show ?thesis by (blast intro: startup_spec_later)
    qed (use run b v in \<open>auto simp: io_bind_def startup_spec_def\<close>)
  next
    case False
    with assms(3) q have "r = q \<and> t = u"
      by (auto simp: admit_startup_log_with_fallback_def io_try_def io_raise_def split: outcome.splits if_splits)
    with first show ?thesis by simp
  qed
qed

text \<open>The part before the record leaves the queue alone.\<close>

lemma core1_startup_spec:
  assumes "outq_reachable (outbound s)" and "core1_startup boot w s = (r, t)"
  shows "if r = Return () then \<exists>e. grown s [e] t \<and> startup_entry w e else grown s [] t"
proof -
  let ?prep = "io_bind stamp_activity (\<lambda>_.
     io_bind (io_set (\<lambda>s. s\<lparr>manager := (manager s)\<lparr>dm_uptime := Some (create_uptime_state boot)\<rparr>\<rparr>)) (\<lambda>_.
     io_bind (stamping initialize_devices) (\<lambda>_.
     io_bind c1_uptime (\<lambda>d.
     io_bind get_reset_cause (\<lambda>c.
     io_bind (build_startup_log d c) (\<lambda>m. io_return (d, c, m)))))))"
  let ?admit = "\<lambda>(d, c, m). io_bind (io_try (admit_startup_log_with_fallback m (build_startup_log_bounded d c))
        (\<lambda>e. if is_value_error e then io_raise RuntimeError else io_raise e)) (\<lambda>admitted.
     if admitted then io_return () else io_raise RuntimeError)"
  have split: "core1_startup boot = io_bind ?prep ?admit"
    by (simp add: core1_startup_def io_bind_assoc io_return_bind)
  obtain q u where q: "?prep w s = (q, u)" by fastforce
  have "leaves_queue ?prep" by (intro leaves_rules)
  with q assms(1) have u: "grown s [] u" "outq_reachable (outbound u)"
    using grown_refl by (simp_all add: leaves_queue_def)
  show ?thesis
  proof (cases q)
    case (Return x)
    obtain d c m where x: "x = (d, c, m)" by (cases x) auto
    with Return q have "startup_record m"
      by (auto simp: io_bind_def io_return_def dest: startup_builders_record split: outcome.splits prod.splits)
    obtain a v where a: "admit_startup_log_with_fallback m (build_startup_log_bounded d c) w u = (a, v)" by fastforce
    note spec = startup_spec_later [OF u(1) startup_fallback_admitted [OF u(2) \<open>startup_record m\<close> a]]
    have "(r, t) = (case a of Return b \<Rightarrow> (if b then Return () else Raise RuntimeError, v)
        | Raise e \<Rightarrow> (Raise (if is_value_error e then RuntimeError else e), v) | Cut \<Rightarrow> (Cut, v))"
      using assms(2) q Return x a
      by (auto simp: split io_bind_def io_try_def io_return_def io_raise_def split: outcome.splits)
    with spec show ?thesis by (auto simp: startup_spec_def split: outcome.splits if_splits)
  qed (use assms(2) q u split in \<open>auto simp: io_bind_def\<close>)
qed

subsection \<open>Everything after it only admits\<close>

lemma grows_results [grows_rules]: "grows (handle_device_result result)"
  unfolding handle_device_result_def
  by (cases result; simp only: device_result.case;
      intro grows_bind grows_pair grows_try grows_if grows_message leaves_grows leaves_rules)

lemma grows_pass_parts [grows_rules]:
  "grows run_telemetry_read_pass" "grows (handle_results results)"
  "grows try_queue_health_message_intercore"
proof -
  have devices: "grows (process_devices ns)" for ns
    by (induction ns) (auto intro!: grows_bind grows_results intro: leaves_rules leaves_grows)
  show "grows run_telemetry_read_pass"
    unfolding run_telemetry_read_pass_def by (intro grows_bind devices leaves_grows leaves_base)
  show "grows (handle_results results)"
    by (induction results) (auto intro!: grows_bind grows_results intro: leaves_rules leaves_grows)
  have health: "grows (try_queue_health_message h)" for h
    unfolding try_queue_health_message_def
    by (intro grows_bind grows_option grows_try grows_if grows_bytes leaves_grows leaves_rules)
  show "grows try_queue_health_message_intercore"
    unfolding try_queue_health_message_intercore_def
    by (intro grows_bind grows_option grows_if health leaves_grows leaves_rules)
qed

lemma grows_advance [grows_rules]: "grows (advance now boundary interval)"
proof -
  have "leaves_queue (advance now boundary interval)"
    unfolding advance_def
    by (cases "skip_elapsed now boundary interval") (simp_all add: leaves_base, simp add: leaves_queue_def)
  then show ?thesis by (rule leaves_grows)
qed

lemma grows_pass: "grows (core1_pass st)"
  unfolding core1_pass_def serve_commands_def serve_reads_def serve_retries_def serve_health_def
  by (intro grows_pair grows_bind grows_option grows_if grows_response grows_pass_parts grows_advance
      leaves_grows leaves_rules)

lemma grows_passes: "grows (core1_passes n st)"
  by (induction n arbitrary: st) (auto intro: grows_bind grows_pass leaves_grows leaves_rules)

lemma grows_enter: "grows core1_enter_runtime"
  unfolding core1_enter_runtime_def by (intro grows_bind grows_pass_parts leaves_grows leaves_rules)

subsection \<open>What may escape from the reports\<close>

text \<open>
  \<open>safe P m\<close>: where the mailboxes satisfy \<open>P\<close>, \<open>m\<close> raises nothing but \<open>MemoryError\<close> and leaves
  them satisfying \<open>P\<close>.
\<close>

definition safe :: "(mailboxes \<Rightarrow> bool) \<Rightarrow> 'a c1p \<Rightarrow> bool" where
  "safe P m \<longleftrightarrow> (\<forall>w s r t. P (boxes s) \<longrightarrow> m w s = (r, t) \<longrightarrow>
     P (boxes t) \<and> (\<forall>e. r = Raise e \<longrightarrow> e = MemoryError))"

named_theorems safe_rules \<open>programs that raise nothing but MemoryError\<close>

lemma safe_base [safe_rules]:
  "safe P (io_return x)" "safe P (io_get g)" "safe P (c1_sense f)" "safe P (io_raise MemoryError)"
  "safe P (io_set (\<lambda>s. s\<lparr>manager := G s\<rparr>))" "safe P (io_set (\<lambda>s. s\<lparr>reset_label := L s\<rparr>))"
  "safe P (io_set (\<lambda>s. s\<lparr>adc_built := B s\<rparr>))"
  by (simp_all add: safe_def io_return_def io_get_def c1_sense_def io_raise_def io_set_def)

lemma safe_bind [safe_rules]:
  assumes "safe P m" and "\<And>x. safe P (f x)"
  shows "safe P (io_bind m f)"
  unfolding safe_def
proof (intro allI impI)
  fix w s r t assume s: "P (boxes s)" and run: "io_bind m f w s = (r, t)"
  obtain q u where m: "m w s = (q, u)" by fastforce
  with assms(1) s have u: "P (boxes u)" "\<forall>e. q = Raise e \<longrightarrow> e = MemoryError" unfolding safe_def by blast+
  show "P (boxes t) \<and> (\<forall>e. r = Raise e \<longrightarrow> e = MemoryError)"
  proof (cases q)
    case (Return x)
    with run m have "f x w u = (r, t)" by (simp add: io_bind_def)
    with assms(2) u(1) show ?thesis unfolding safe_def by blast
  qed (use run m u in \<open>auto simp: io_bind_def\<close>)
qed

lemma safe_ask [safe_rules]: "(\<And>w. safe P (f w)) \<Longrightarrow> safe P (io_ask f)"
  by (simp add: safe_def io_ask_def)

lemma safe_if [safe_rules]: "safe P m \<Longrightarrow> safe P m' \<Longrightarrow> safe P (if c then m else m')"
  by simp

lemma safe_option [safe_rules]:
  "safe P m \<Longrightarrow> (\<And>x. safe P (f x)) \<Longrightarrow> safe P (case v of None \<Rightarrow> m | Some x \<Rightarrow> f x)"
  by (cases v) simp_all

lemma safe_pair [safe_rules]: "(\<And>x y. safe P (f x y)) \<Longrightarrow> safe P (case p of (x, y) \<Rightarrow> f x y)"
  by (cases p) simp

lemma safe_unless:
  assumes "\<And>w s r t. P (boxes s) \<Longrightarrow> m w s = (r, t) \<Longrightarrow> P (boxes t)" and "\<And>e. safe P (h e)"
  shows "safe P (unless_memory m h)"
  unfolding safe_def
proof (intro allI impI)
  fix w s r t assume s: "P (boxes s)" and run: "unless_memory m h w s = (r, t)"
  obtain q u where m: "m w s = (q, u)" by fastforce
  note u = assms(1) [OF s m]
  show "P (boxes t) \<and> (\<forall>e. r = Raise e \<longrightarrow> e = MemoryError)"
  proof (cases "\<exists>e. q = Raise e \<and> e \<noteq> MemoryError")
    case True
    then obtain e where "q = Raise e" "e \<noteq> MemoryError" by blast
    with run m have "h e w u = (r, t)" by (simp add: unless_memory_def io_try_def)
    with assms(2) u show ?thesis unfolding safe_def by blast
  next
    case False
    with run m u show ?thesis
      by (cases q) (auto simp: unless_memory_def io_try_def io_raise_def)
  qed
qed

text \<open>A port call with a value for its failure.\<close>

lemma safe_ask_port [safe_rules]: "(\<And>e. safe P (h e)) \<Longrightarrow> safe P (unless_memory (ask_port f) h)"
  by (rule safe_unless)
    (auto simp: ask_port_def c1_sense_def io_bind_def io_res_def io_return_def io_raise_def split: sum.splits)

lemma safe_ask_port_map [safe_rules]:
  "(\<And>e. safe P (h e)) \<Longrightarrow> safe P (unless_memory (io_bind (ask_port f) (\<lambda>x. io_return (g x))) h)"
  by (rule safe_unless)
    (auto simp: ask_port_def c1_sense_def io_bind_def io_res_def io_return_def io_raise_def split: sum.splits)

lemma safe_clock [safe_rules]: "safe P c1_uptime" "safe P get_reset_cause" "safe P device_counts"
  unfolding c1_uptime_def get_reset_cause_def device_counts_def Let_def by (intro safe_rules)+

lemma safe_temperature [safe_rules]: "safe P get_cpu_temperature"
proof -
  have fault: "safe P (if e = MemoryError then io_raise e else io_return False)" for e
    by (cases "e = MemoryError") (simp_all add: safe_base)
  show ?thesis
    unfolding get_cpu_temperature_def by (intro fault safe_rules)
qed

text \<open>Collecting the sections of get-details, and what it answers is JSON-safe.\<close>

lemma safe_collect: "safe (\<lambda>b. True) collect_system_information_full"
proof -
  have one: "safe (\<lambda>b. True) (collect_section sections name)" for sections name
    by (cases "dget sections name"; cases "section_getter name")
      (auto simp: collect_section_def intro!: safe_base safe_ask safe_unless)
  have "safe (\<lambda>b. True) (collect_sections sections names)" for sections names
    by (induction names) (auto intro!: safe_base safe_bind one)
  then show ?thesis
    unfolding collect_system_information_full_def device_sections_or_errors_def
    by (intro safe_bind safe_ask safe_unless safe_base) simp_all
qed

lemma section_json_safe:
  "collect_section sections name w s = (Return d, t) \<Longrightarrow> is_json_safe (PDict d)"
  by (auto simp: collect_section_def unless_memory_def io_try_def io_ask_def io_bind_def io_return_def
      io_raise_def error_section_def
      split: option.splits if_splits outcome.splits prod.splits)

lemma sections_json_safe:
  "collect_sections sections names w s = (Return d, t) \<Longrightarrow> is_json_safe (PDict d)"
proof (induction names arbitrary: s d t)
  case (Cons name rest)
  then obtain d1 d2 u where "collect_section sections name w s = (Return d1, u)"
      "collect_sections sections rest w u = (Return d2, t)" "d = d1 @ d2"
    by (auto simp: io_bind_def io_return_def split: outcome.splits prod.splits)
  with Cons.IH section_json_safe show ?case by fastforce
qed (simp add: io_return_def)

subsection \<open>Health\<close>

lemma healthy_iff:
  "degraded_reasons h = [] \<longleftrightarrow>
     h_stack_ready h \<and> h_wifi h \<and> h_mqtt h \<and> h_active h \<and> h_minimum h \<le> h_free h
     \<and> h_devices_active h = h_devices_configured h \<and> h_utc h"
  by (auto simp: degraded_reasons_def)

text \<open>The threshold is one that \<open>ticks_diff\<close> can reach, and never less than a minute.\<close>

lemma activity_threshold_bounds:
  "60000 \<le> activity_threshold_ms sec" "activity_threshold_ms sec < ticks_half"
  by (auto simp: activity_threshold_ms_def Let_def MAX_TICKS_SAFE_INTERVAL_MS_def ticks_half_def)

definition minimum_typed :: "mailboxes \<Rightarrow> bool" where
  "minimum_typed b \<longleftrightarrow> (\<exists>m. minimum_free_heap (hardware b) = Inr m)"

lemma safe_minimum:
  assumes "\<And>x. safe minimum_typed (f x)"
  shows "safe minimum_typed (io_bind (io_get (\<lambda>s. hardware (boxes s))) (\<lambda>box. io_bind (io_res (minimum_free_heap box)) f))"
  unfolding safe_def
proof (intro allI impI)
  fix w s r t
  assume s: "minimum_typed (boxes s)"
    and run: "io_bind (io_get (\<lambda>s. hardware (boxes s))) (\<lambda>box. io_bind (io_res (minimum_free_heap box)) f) w s = (r, t)"
  from s obtain m where "minimum_free_heap (hardware (boxes s)) = Inr m" by (auto simp: minimum_typed_def)
  with run have "f m w s = (r, t)" by (simp add: io_bind_def io_get_def io_res_def io_return_def)
  with assms s show "minimum_typed (boxes t) \<and> (\<forall>e. r = Raise e \<longrightarrow> e = MemoryError)"
    unfolding safe_def by blast
qed

lemma safe_health: "safe minimum_typed build_health_payload"
  unfolding build_health_payload_def Let_def
  by (intro safe_minimum safe_rules)

lemma known_board_minimum:
  "hardware_type (classify_machine name) \<noteq> ''unknown'' \<Longrightarrow> \<exists>m. minimum_bytes (classify_machine name) = Some m"
  by (auto simp: classify_machine_def split: if_splits)

lemma known_board_stored:
  assumes "\<And>n. \<exists>name v. uname_at w n = Inr (name, v) \<and> hardware_type (classify_machine name) \<noteq> ''unknown''"
    and "store_hardware w s = (Return (), t)"
  shows "minimum_typed (boxes t)"
proof -
  obtain name v where uname: "uname_at w (c1_clock s) = Inr (name, v)" "hardware_type (classify_machine name) \<noteq> ''unknown''"
    using assms(1) by blast
  obtain m where m: "minimum_bytes (classify_machine name) = Some m"
    using known_board_minimum [OF uname(2)] by blast
  obtain q u where q: "get_reset_cause w (s\<lparr>c1_clock := Suc (c1_clock s)\<rparr>) = (q, u)" by fastforce
  have "\<forall>e. q = Raise e \<longrightarrow> e = MemoryError"
    using safe_clock(2) [of "\<lambda>b. True"] q unfolding safe_def by blast
  with assms(2) uname m q show ?thesis
    by (cases q)
      (auto simp: store_hardware_def get_machine_def unless_memory_def ask_port_def io_try_def io_bind_def
        io_ask_def c1_sense_def io_res_def io_return_def io_set_def io_raise_def minimum_typed_def
        minimum_free_heap_def opt_int_def dget_none_def Let_def)
qed

text \<open>When the machine string cannot be read, the stored minimum is \<open>None\<close>, which no number compares with.\<close>

lemma unreadable_machine_untyped:
  assumes "uname_at w (c1_clock s) = Inl OSError" and "store_hardware w s = (Return (), t)"
  shows "minimum_free_heap (hardware (boxes t)) = Inl TypeError"
proof -
  obtain q u where q: "get_reset_cause w (s\<lparr>c1_clock := Suc (c1_clock s)\<rparr>) = (q, u)" by fastforce
  have "\<forall>e. q = Raise e \<longrightarrow> e = MemoryError"
    using safe_clock(2) [of "\<lambda>b. True"] q unfolding safe_def by blast
  with assms q show ?thesis
    by (cases q)
      (auto simp: store_hardware_def get_machine_def unless_memory_def ask_port_def io_try_def io_bind_def
        io_ask_def c1_sense_def io_res_def io_return_def io_set_def io_raise_def
        minimum_free_heap_def opt_int_def dget_none_def Let_def classify_machine_def
        PICO_W_MACHINE_PATTERNS_def PICO_2_W_MACHINE_PATTERNS_def)
qed

subsection \<open>One controller, one setting\<close>

lemma i2c_create_cached:
  assumes "i2c_bus_create build bus setting cache = (r, cache')"
  shows "(\<forall>b x. map_of cache b = Some x \<longrightarrow> map_of cache' b = Some x)
    \<and> (\<forall>obj. r = Inr obj \<longrightarrow> map_of cache' bus = Some (setting, obj))"
  using assms by (auto simp: i2c_bus_create_def split: option.splits sum.splits if_splits)

lemma i2c_requests_cached:
  "i2c_requests build reqs cache = (rs, cache') \<Longrightarrow>
     length rs = length reqs \<and> (\<forall>b x. map_of cache b = Some x \<longrightarrow> map_of cache' b = Some x)
     \<and> (\<forall>i < length reqs. \<forall>obj. rs ! i = Inr obj \<longrightarrow>
          map_of cache' (fst (reqs ! i)) = Some (snd (reqs ! i), obj))"
proof (induction reqs arbitrary: cache rs)
  case (Cons req rest)
  obtain bus setting where req: "req = (bus, setting)" by (cases req) auto
  obtain r c where c: "i2c_bus_create build bus setting cache = (r, c)" by fastforce
  obtain rs' where rs': "i2c_requests build rest c = (rs', cache')" "rs = r # rs'"
    using Cons.prems req c by (auto split: prod.splits)
  note made = i2c_create_cached [OF c] and later = Cons.IH [OF rs'(1)]
  have keep: "map_of c b = Some x \<Longrightarrow> map_of cache' b = Some x" for b x using later by blast
  show ?case
  proof (intro conjI allI impI)
    show "length rs = length (req # rest)" using later rs'(2) by simp
  next
    fix b x assume "map_of cache b = Some x"
    with made keep show "map_of cache' b = Some x" by blast
  next
    fix i obj assume i: "i < length (req # rest)" "rs ! i = Inr obj"
    show "map_of cache' (fst ((req # rest) ! i)) = Some (snd ((req # rest) ! i), obj)"
    proof (cases i)
      case 0
      with i made have "map_of c bus = Some (setting, obj)" by (simp add: rs'(2))
      from keep [OF this] 0 show ?thesis by (simp add: req)
    next
      case (Suc k)
      with i later show ?thesis by (simp add: rs'(2))
    qed
  qed
qed simp

lemma i2c_controller_never_reconfigured:
  assumes "i2c_requests build reqs [] = (rs, cache)" and "i < length reqs" "j < length reqs"
    and "fst (reqs ! i) = fst (reqs ! j)" and "rs ! i = Inr a" "rs ! j = Inr b"
  shows "snd (reqs ! i) = snd (reqs ! j) \<and> a = b"
proof -
  from i2c_requests_cached [OF assms(1)] assms(2-)
  have "map_of cache (fst (reqs ! i)) = Some (snd (reqs ! i), a)"
    "map_of cache (fst (reqs ! j)) = Some (snd (reqs ! j), b)" by blast+
  with assms(4) show ?thesis by simp
qed

subsection \<open>Properties\<close>

text \<open>
  C34: no command response is lost on its way into the outbound queue. Whatever Core 0, the
  heap and the serializer do to an admission attempt on a reachable queue: it ends; \<open>None\<close> means
  that exactly one entry was added, CRITICAL, of the response kind, whose bytes are the JSON text
  of an answer to the same command; a returned response is still pending with nothing added and
  answers the same command; an exception (\<open>MemoryError\<close>, or a permanent rejection of the
  substitute itself) adds nothing. The answer is the response itself, or a success whose sections
  are unchanged or named in \<open>omitted_sections\<close>, or an error with one of the two codes.
\<close>

theorem response_kept:
  assumes "outq_reachable (outbound s)" and "admit_or_substitute_command_response m w s = (r, t)"
  shows "outq_reachable (outbound t) \<and>
    (case r of
       Return None \<Rightarrow> (\<exists>e m'. accounted (outbound t) = add_mset e (accounted (outbound s))
          \<and> e_kind e = KIND_COMMAND_RESPONSE \<and> retention_priority e = RETENTION_PRIORITY_CRITICAL
          \<and> payload_bytes e = json_text (float_repr (queue_env w)) (PDict m')
          \<and> stands_for (message_payload m) (message_payload m'))
     | Return (Some m') \<Rightarrow> accounted (outbound t) = accounted (outbound s)
          \<and> stands_for (message_payload m) (message_payload m')
     | Raise e \<Rightarrow> accounted (outbound t) = accounted (outbound s)
          \<and> (e = MemoryError \<or> e = ValueError \<or> e = OutboundMessageTooLargeError)
     | Cut \<Rightarrow> False)"
  using response_admitted [OF assms]
  by (auto simp: response_spec_def grown_def simp del: json_text.simps split: outcome.splits option.splits) 

definition demo_core1_world :: c1_world where
  "demo_core1_world = \<lparr>manager_world = demo_manager_world, queue_env = demo_env, c1_ticks_at = int,
     taken_at = (\<lambda>n. None), network_at = (\<lambda>n. None), utc_at = (\<lambda>n. None), events_status_at = (\<lambda>n. (0, 0, 0)),
     heap_free_at = (\<lambda>n. Inr 100000), heap_alloc_at = (\<lambda>n. Inr 50000),
     uname_at = (\<lambda>n. Inr (''RPI_PICO_W with RP2040'', ''v1'')), reset_cause_at = (\<lambda>n. Inr 3),
     freq_at = (\<lambda>n. Inr 125000000), adc_fault_at = (\<lambda>n. None), adc_raw_at = (\<lambda>n. Inr 14000),
     no_memory_at = (\<lambda>n. False), reset_constants = (\<lambda>c. None), implementation_name = ''micropython'',
     error_text = (\<lambda>e. ''error''), read_loop_sec = 60, health_interval_sec = 60,
     initialization_retry_delay_ms = 1000\<rparr>"

definition demo_core1 :: c1 where
  "demo_core1 = \<lparr>manager = fresh_manager None, outbound = demo_queue, boxes = mailboxes_init,
     reset_label = None, adc_built = False, c1_clock = 0\<rparr>"

definition demo_answer :: pydict where
  "demo_answer = [(PStr ''payload'', PDict (answer_payload
     [(PStr ''command_id'', PStr ''c''), (PStr ''command'', PStr COMMAND_GET_DETAILS)] True (PDict [])))]"

theorem response_kept_witness:
  "\<exists>t e m'. admit_or_substitute_command_response demo_answer demo_core1_world demo_core1 = (Return None, t)
     \<and> accounted (outbound t) = {#e#} \<and> payload_bytes e = json_text (float_repr demo_env) (PDict m')
     \<and> stands_for (message_payload demo_answer) (message_payload m')"
proof -
  have "fst (admit_or_substitute_command_response demo_answer demo_core1_world demo_core1) = Return None"
    by code_simp
  then obtain t where t: "admit_or_substitute_command_response demo_answer demo_core1_world demo_core1 = (Return None, t)"
    by (metis prod.collapse)
  have reach: "outq_reachable (outbound demo_core1)" by (simp add: demo_core1_def demo_queue_reachable)
  have "accounted (outbound demo_core1) = {#}"
  proof -
    have "in_flight demo_queue = None" "queue demo_queue = []" "displaced demo_queue = []" "released demo_queue = []"
      by code_simp+
    then show ?thesis by (simp add: demo_core1_def accounted_def retained_def)
  qed
  with response_kept [OF reach t] t show ?thesis
    by (auto simp: demo_core1_world_def simp del: json_text.simps)
qed




definition starved_core1_world :: c1_world where
  "starved_core1_world = demo_core1_world\<lparr>network_at := (\<lambda>n. Some []), heap_free_at := (\<lambda>n. Inl MemoryError)\<rparr>"


end
