(* ===== verification/Boot.thy ===== *)
theory Boot
  imports Core1 Session
begin

section \<open>Boot: the entry point and the LED\<close>

text \<open>
  \<open>main.py\<close>: everything from the tick of the boot to the construction of Core 0, the worker's wait
  for the network stack, and the recovery boundary around the operational phase; \<open>led_manager.py\<close>:
  the indications of the onboard LED. This theory joins the others: the configuration that the
  recovery of the store returns is what both cores run with.
\<close>

subsection \<open>The LED\<close>

definition LED_TICK_MS :: nat where "LED_TICK_MS = 50"
definition TELEMETRY_PULSE_MS :: nat where "TELEMETRY_PULSE_MS = 1000"
definition TELEMETRY_PULSE_TICKS :: nat where "TELEMETRY_PULSE_TICKS = TELEMETRY_PULSE_MS div LED_TICK_MS"

record led =
  connecting :: bool
  pulse_left :: nat
  connecting_on :: bool
  led_output :: int

definition led_init :: led where
  "led_init = \<lparr>connecting = False, pulse_left = 0, connecting_on = False, led_output = 0\<rparr>"

definition led_set_connecting :: "bool \<Rightarrow> led \<Rightarrow> led" where
  "led_set_connecting c l =
     (if c \<and> \<not> connecting l then l\<lparr>connecting_on := True\<rparr> else l)\<lparr>connecting := c\<rparr>"

definition telemetry_sent :: "led \<Rightarrow> led" where
  "telemetry_sent l = l\<lparr>pulse_left := TELEMETRY_PULSE_TICKS\<rparr>"

text \<open>\<open>contended\<close>: the other core holds the lock at this tick.\<close>

definition next_output :: "bool \<Rightarrow> led \<Rightarrow> int option \<times> led" where
  "next_output contended l =
     (if contended then (None, l)
      else let out = (if connecting l then (if connecting_on l then 1 else 0)
                      else if pulse_left l > 0 then 1 else 0);
               l1 = (if connecting l then l\<lparr>connecting_on := \<not> connecting_on l\<rparr> else l)
           in (Some out, l1\<lparr>pulse_left := pulse_left l1 - 1\<rparr>))"

text \<open>The timer callback, with the value it writes to the pin, if any.\<close>

definition led_tick :: "bool \<Rightarrow> led \<Rightarrow> int option \<times> led" where
  "led_tick contended l =
     (case next_output contended l of
        (None, l1) \<Rightarrow> (None, l1)
      | (Some out, l1) \<Rightarrow> if out \<noteq> led_output l1 then (Some out, l1\<lparr>led_output := out\<rparr>) else (None, l1))"

fun led_ticks :: "bool list \<Rightarrow> led \<Rightarrow> led" where
  "led_ticks [] l = l"
| "led_ticks (c # cs) l = led_ticks cs (snd (led_tick c l))"

lemma led_tick_free:
  "snd (led_tick False l) =
     l\<lparr>connecting_on := (if connecting l then \<not> connecting_on l else connecting_on l),
       pulse_left := pulse_left l - 1,
       led_output := (if connecting l then (if connecting_on l then 1 else 0) else if pulse_left l > 0 then 1 else 0)\<rparr>"
  by (simp add: led_tick_def next_output_def Let_def)

lemma led_tick_contended [simp]: "led_tick True l = (None, l)"
  by (simp add: led_tick_def next_output_def)

lemma led_ticks_idle:
  assumes "\<not> connecting l" and "filter Not cs \<noteq> []"
  shows "led_output (led_ticks cs l) = (if length (filter Not cs) \<le> pulse_left l then 1 else 0)"
  using assms
proof (induction cs arbitrary: l)
  case (Cons c cs)
  have none: "led_ticks cs k = k" if "filter Not cs = []" for k
    using that by (induction cs) (auto split: if_splits)
  from Cons none show ?case
    by (cases c; cases "filter Not cs") (auto simp: led_tick_free split: if_splits)
qed simp

text \<open>
  A pulse lasts exactly its second: without a connection attempt the LED is on at each of the
  first twenty ticks that get the lock and off at the next one, however many ticks were contended.
\<close>

lemma led_pulse_exact:
  assumes "\<not> connecting l" and "filter Not cs \<noteq> []"
  shows "led_output (led_ticks cs (telemetry_sent l)) = (if length (filter Not cs) \<le> 20 then 1 else 0)"
  using led_ticks_idle [of "telemetry_sent l" cs] assms
  by (simp add: telemetry_sent_def TELEMETRY_PULSE_TICKS_def TELEMETRY_PULSE_MS_def LED_TICK_MS_def)

text \<open>While connecting, the LED starts on and changes at every tick that gets the lock.\<close>

lemma led_ticks_connecting:
  assumes "connecting l" and "n = length (filter Not cs)"
  shows "connecting (led_ticks cs l) \<and> connecting_on (led_ticks cs l) = (connecting_on l = even n)"
  using assms
proof (induction cs arbitrary: l n)
  case (Cons c cs)
  then show ?case
    by (cases c) (auto simp: led_tick_free)
qed simp

lemma led_flashes:
  assumes "\<not> connecting l" and "n = length (filter Not cs)"
  shows "led_output (snd (led_tick False (led_ticks cs (led_set_connecting True l)))) = (if even n then 1 else 0)"
  using led_ticks_connecting [of "led_set_connecting True l" n cs] assms
  by (simp add: led_tick_free led_set_connecting_def)

subsection \<open>Environment and result of the boot\<close>

text \<open>
  What the port, the storage and the secrets file answer. \<open>late_faults\<close> are the thread start and
  the two imports of the core modules, in order.
\<close>

record boot_world =
  uname :: "(string \<times> string) res"
  led_fault :: "unit res"
  boot_storage :: "nat \<Rightarrow> fate"
  secrets :: "pyval res"
  unique_id :: "nat list res"
  random_bytes :: "nat list res"
  id_ticks :: int
  late_faults :: "unit res list"

record booted =
  b_board :: board
  b_wifi :: "string \<times> string"
  b_core0_config :: pydict
  b_core1_config :: pydict
  b_intercore :: intercore
  b_runtime_id :: string

type_synonym 'a bootp = "(boot_world, store, 'a) prog"

definition run_store :: "'a io \<Rightarrow> 'a bootp" where
  "run_store m w s = m (boot_storage w) s"

definition boot_ask :: "(boot_world \<Rightarrow> 'a res) \<Rightarrow> 'a bootp" where
  "boot_ask f = io_ask (\<lambda>w. io_res (f w))"

subsection \<open>The runtime id\<close>

definition id_part :: "nat list res \<Rightarrow> string \<Rightarrow> string res" where
  "id_part reply fallback =
     (case reply of
        Inr bs \<Rightarrow> Inr (hex_bytes bs)
      | Inl e \<Rightarrow> if e = MemoryError then Inl e else Inr fallback)"

definition make_runtime_id :: "nat list res \<Rightarrow> nat list res \<Rightarrow> int \<Rightarrow> string res" where
  "make_runtime_id uid nonce now =
     andthen (id_part uid ''unknown'') (\<lambda>u.
     andthen (id_part nonce (hex_digits 8 (nat (now mod 2 ^ 32)))) (\<lambda>n.
     Inr (''runtime_'' @ u @ n)))"

text \<open>Two boots of one board share their id only with the same nonce.\<close>

lemma runtime_ids_differ:
  assumes "make_runtime_id (Inr uid) (Inr a) now = Inr i" and "make_runtime_id (Inr uid) (Inr b) now' = Inr i"
    and "list_all (\<lambda>x. x < 256) a" "list_all (\<lambda>x. x < 256) b"
  shows "a = b"
proof (rule hex_bytes_inject [OF assms(3,4)])
  show "hex_bytes a = hex_bytes b"
    using assms(1,2) by (auto simp: make_runtime_id_def id_part_def andthen_def simp del: hex_digits.simps)
qed

subsection \<open>The startup of the program\<close>

definition board_intercore :: "board \<Rightarrow> pyval \<Rightarrow> intercore res" where
  "board_intercore b limit = intercore_init (opt_int (minimum_bytes b)) (opt_int (preferred_bytes b)) limit"

text \<open>From the detection of the board to the runtime id: everything here fails fast.\<close>

definition main_prepare :: "booted bootp" where
  "main_prepare =
     io_bind (boot_ask (\<lambda>w. detect_hardware (uname w))) (\<lambda>(b, machine).
     io_bind (boot_ask led_fault) (\<lambda>_.
     io_bind (run_store recover) (\<lambda>doc.
     io_bind (boot_ask (\<lambda>w. load_wifi_config (secrets w))) (\<lambda>wifi.
     io_bind (io_res (dindex (the_dict doc) ''outbound_queue_max_messages'')) (\<lambda>limit.
     io_bind (io_res (split_config (the_dict doc))) (\<lambda>(core0, core1).
     io_bind (io_res (board_intercore b limit)) (\<lambda>ic.
     io_bind (boot_ask (\<lambda>w. make_runtime_id (unique_id w) (random_bytes w) (id_ticks w))) (\<lambda>rid.
     io_return \<lparr>b_board = b, b_wifi = wifi, b_core0_config = core0, b_core1_config = core1,
                b_intercore = ic, b_runtime_id = rid\<rparr>))))))))"

text \<open>The spawn of the worker and the imports.\<close>

definition main_startup :: "booted bootp" where
  "main_startup =
     io_bind main_prepare (\<lambda>k.
     io_bind (boot_ask (\<lambda>w. for_each (\<lambda>r. r) (late_faults w))) (\<lambda>_. io_return k))"

subsection \<open>The worker's wait\<close>

text \<open>
  \<open>_core1_thread_entry\<close>: stamp, then wait for a snapshot that reports the network stack ready,
  stamping every 100 ms; \<open>rounds\<close> bounds the waiting, and running out of it is not an outcome of
  the code (\<open>Cut\<close>).
\<close>

definition stack_ready :: "pydict option \<Rightarrow> bool" where
  "stack_ready snapshot = (case snapshot of None \<Rightarrow> False | Some d \<Rightarrow> truthy (dget_none d ''network_stack_ready''))"

fun worker_wait :: "nat \<Rightarrow> unit c1p" where
  "worker_wait 0 = (\<lambda>w s. (Cut, s))"
| "worker_wait (Suc rounds) =
     io_bind (c1_sense network_at) (\<lambda>snapshot.
     if stack_ready snapshot then io_return ()
     else io_bind (c1_sleep 100) (\<lambda>_. io_bind stamp_activity (\<lambda>_. worker_wait rounds)))"

definition core1_thread_entry :: "nat \<Rightarrow> int \<Rightarrow> nat \<Rightarrow> (pydict option \<times> schedulers) c1p" where
  "core1_thread_entry rounds boot passes =
     io_bind stamp_activity (\<lambda>_. io_bind (worker_wait rounds) (\<lambda>_. core1_main boot passes))"

subsection \<open>Core 0 and the recovery boundary\<close>

text \<open>What \<open>Core0.__init__\<close> reads from its half of the configuration, and the state it starts with.\<close>

definition ints_of :: "pyval \<Rightarrow> int list" where
  "ints_of v = map the_int (the_list v)"

definition core0_settings :: "pydict \<Rightarrow> c0_config" where
  "core0_settings c =
     (let str = (\<lambda>k. the_str (dget_none c k)); int = (\<lambda>k. the_int (dget_none c k)) in
     \<lparr>c_source = str ''source'', c_topic_command = str ''mqtt_topic_command'',
      c_topic_info_response = str ''mqtt_topic_info_response'', c_topic_info_request = str ''mqtt_topic_info_request'',
      c_topic_command_response = str ''mqtt_topic_command_response'', c_topic_telemetry = str ''mqtt_topic_telemetry'',
      c_topic_health = str ''mqtt_topic_health'', c_topic_log = str ''mqtt_topic_log'',
      c_publish_delay_ms = int ''mqtt_outbound_publish_delay_ms'', c_command_poll_ms = int ''mqtt_command_poll_ms'',
      c_broker_timeout_sec = int ''mqtt_broker_response_timeout_sec'',
      c_sync_interval_min = int ''datetime_sync_interval_min''\<rparr>)"

definition core0_world_of :: "booted \<Rightarrow> c0_world \<Rightarrow> c0_world" where
  "core0_world_of k w0 =
     (let c = b_core0_config k in
      w0\<lparr>config := core0_settings c, c0_world.runtime_id := b_runtime_id k, wifi_ssid := fst (b_wifi k),
         wifi_delays_sec := ints_of (dget_none c ''wifi_reconnect_delays_sec''),
         mqtt_delays_sec := ints_of (dget_none c ''mqtt_reconnect_delays_sec''),
         snapshot_interval_sec := the_int (dget_none c ''network_snapshot_interval_sec''),
         keepalive_sec := the_int (dget_none c ''mqtt_keepalive_sec''),
         probe_timeout_sec := the_int (dget_none c ''network_probe_timeout_sec'')\<rparr>)"

definition create_core0 :: "booted \<Rightarrow> store \<Rightarrow> int \<Rightarrow> int \<Rightarrow> int \<Rightarrow> core0" where
  "create_core0 k st boot_ticks at_mqtt at_poll =
     \<lparr>c0_clock = 0, recent_command_ids = [], pending_core0_responses = [], pending_reboot = None,
      c0_events = event_queue (b_intercore k), c0_outbound = outbound_queue (b_intercore k),
      c0_mailboxes = state_mailboxes (b_intercore k), c0_store = st, c0_uptime = create_uptime_state boot_ticks,
      utc_request_counter = 0, pending_utc_request_id = None, utc_request_deadline_ms = None,
      utc_last_attempt_ms = None, c0_utc_snapshot = None, last_publish_completed_ms = None,
      last_command_poll_ms = at_poll, last_network_snapshot_ms = None, next_sequence = 0,
      network_stack_ready = False, mqtt_connected = False, mqtt_connect_count = 0, mqtt_disconnect_count = 0,
      mqtt_last_reason = None, mqtt_last_activity_ms = at_mqtt, wlan_active = False, wifi_was_connected = False,
      wifi_connect_count = 0, wifi_disconnect_count = 0, led_connecting = True, wdt_armed = False,
      claimed = [], sent = [], acked = [], resets = [], feeds = 0\<rparr>"

text \<open>
  How a run of the program ends: down with an exception of the startup; in a reset by the recovery
  boundary; without power or in a reset that Core 0 asked for; or not within the passes considered.
\<close>

datatype main_end = Down exc | Boundary_reset exc | Stopped | Still_running

definition recovery_boundary :: "'a outcome \<Rightarrow> main_end" where
  "recovery_boundary r = (case r of Raise e \<Rightarrow> Boundary_reset e | Cut \<Rightarrow> Stopped | Return x \<Rightarrow> Still_running)"

definition main_program ::
  "(string \<Rightarrow> pyval res) \<Rightarrow> nat \<Rightarrow> nat \<Rightarrow> int \<Rightarrow> int \<Rightarrow> int \<Rightarrow> c0_world \<Rightarrow> boot_world \<Rightarrow> store \<Rightarrow> main_end" where
  "main_program loads bound passes boot_ticks at_mqtt at_poll w0 w s =
     (case main_startup w s of
        (Raise e, t) \<Rightarrow> Down e
      | (Cut, t) \<Rightarrow> Stopped
      | (Return k, t) \<Rightarrow>
          recovery_boundary (fst (core0_thread loads bound passes (core0_world_of k w0) (create_core0 k t boot_ticks at_mqtt at_poll))))"

subsection \<open>What an accepted configuration gives to the cores\<close>

lemma pick_ok:
  assumes "\<forall>k \<in> set ks. dhas cfg k"
  obtains d where "pick cfg ks = Inr d" and "\<forall>k. dget d k = (if k \<in> set ks then dget cfg k else None)"
proof -
  have "\<exists>d. pick cfg ks = Inr d \<and> (\<forall>k. dget d k = (if k \<in> set ks then dget cfg k else None))"
    using assms
  proof (induction ks)
    case Nil
    then show ?case by (simp add: dget_def)
  next
    case (Cons k ks)
    then obtain d where d: "pick cfg ks = Inr d" "\<forall>k. dget d k = (if k \<in> set ks then dget cfg k else None)"
      by auto
    from Cons.prems have at: "dget cfg k = Some (dget_none cfg k)" by (auto simp: dhas_def dget_none_def)
    with d(1) have "pick cfg (k # ks) = Inr ((PStr k, dget_none cfg k) # d)" by (simp add: dindex_def)
    moreover have "dget ((PStr k, dget_none cfg k) # d) j = (if j = k then Some (dget_none cfg k) else dget d j)" for j
      by (simp add: dget_def)
    ultimately show ?case using at d(2) by auto
  qed
  with that show thesis by blast
qed

definition takes_keys :: "string list \<Rightarrow> pydict \<Rightarrow> pydict \<Rightarrow> bool" where
  "takes_keys ks cfg half \<longleftrightarrow> (\<forall>k. dget half k = (if k \<in> set ks then dget cfg k else None))"

lemma core_keys_required: "set CORE0_KEYS \<subseteq> set REQUIRED_KEYS" "set CORE1_KEYS \<subseteq> set REQUIRED_KEYS"
  by code_simp+

lemma accepted_splits:
  assumes "validate_config v = Inr r"
  obtains cfg core0 core1 where "v = PDict cfg" and "split_config cfg = Inr (core0, core1)"
    and "takes_keys CORE0_KEYS cfg core0" "takes_keys CORE1_KEYS cfg core1"
proof -
  obtain cfg where c: "v = PDict cfg" "\<forall>k \<in> set REQUIRED_KEYS. dhas cfg k"
    by (rule validate_config_ok [OF assms])
  with core_keys_required have "\<forall>k \<in> set CORE0_KEYS. dhas cfg k" "\<forall>k \<in> set CORE1_KEYS. dhas cfg k" by blast+
  then obtain core0 core1 where "pick cfg CORE0_KEYS = Inr core0" "takes_keys CORE0_KEYS cfg core0"
    "pick cfg CORE1_KEYS = Inr core1" "takes_keys CORE1_KEYS cfg core1"
    using pick_ok [of CORE0_KEYS cfg] pick_ok [of CORE1_KEYS cfg] unfolding takes_keys_def by metis
  then show thesis by (intro that [OF c(1)]) (simp_all add: split_config_def)
qed

lemma accepted_limit:
  assumes "validate_config (PDict cfg) = Inr r"
  shows "\<exists>n. dget cfg ''outbound_queue_max_messages'' = Some (PInt n) \<and> 1 \<le> n \<and> n \<le> 256"
proof -
  have "int_field cfg ''outbound_queue_max_messages'' 1 256"
    by (rule positive_at_most [OF validate_config_parts(2) [OF assms]]) code_simp+
  then show ?thesis by (auto simp: int_field_def int_in_range_def dget_none_def is_int_iff split: option.splits)
qed

text \<open>What a boot has joined when it succeeds.\<close>

definition joined :: "boot_world \<Rightarrow> pyval \<Rightarrow> booted \<Rightarrow> bool" where
  "joined w v k \<longleftrightarrow>
     (\<exists>cfg. v = PDict cfg \<and> takes_keys CORE0_KEYS cfg (b_core0_config k)
        \<and> takes_keys CORE1_KEYS cfg (b_core1_config k)
        \<and> dget cfg ''outbound_queue_max_messages'' =
            map_option PInt (max_messages (outbound_queue (b_intercore k))))
   \<and> outq_reachable (outbound_queue (b_intercore k)) \<and> evq_inv (event_queue (b_intercore k))
   \<and> Some (minimum_free_heap_bytes (outbound_queue (b_intercore k))) = minimum_bytes (b_board k)
   \<and> Some (preferred_free_heap_bytes (outbound_queue (b_intercore k))) = preferred_bytes (b_board k)
   \<and> ev_minimum (event_queue (b_intercore k)) = minimum_free_heap_bytes (outbound_queue (b_intercore k))
   \<and> state_mailboxes (b_intercore k) = mailboxes_init
   \<and> load_wifi_config (secrets w) = Inr (b_wifi k)
   \<and> (\<exists>machine. detect_hardware (uname w) = Inr (b_board k, machine))
   \<and> make_runtime_id (unique_id w) (random_bytes w) (id_ticks w) = Inr (b_runtime_id k)"

definition board_answers :: "boot_world \<Rightarrow> bool" where
  "board_answers w \<longleftrightarrow>
     (\<exists>b machine. detect_hardware (uname w) = Inr (b, machine)) \<and> led_fault w = Inr ()
   \<and> (\<exists>wifi. load_wifi_config (secrets w) = Inr wifi)
   \<and> unique_id w \<noteq> Inl MemoryError \<and> random_bytes w \<noteq> Inl MemoryError \<and> (\<forall>r \<in> set (late_faults w). r = Inr ())"

lemma board_intercore_ok:
  assumes "detect_hardware u = Inr (b, machine)" and "1 \<le> n"
  obtains ic where "board_intercore b (PInt n) = Inr ic"
    and "max_messages (outbound_queue ic) = Some n" "state_mailboxes ic = mailboxes_init"
    and "Some (minimum_free_heap_bytes (outbound_queue ic)) = minimum_bytes b"
    and "Some (preferred_free_heap_bytes (outbound_queue ic)) = preferred_bytes b"
proof -
  from detected_reserves [OF assms(1)] obtain p m where "preferred_bytes b = Some p" "minimum_bytes b = Some m"
    "0 < m" "m < p" by auto
  with assms(2) show thesis
    by (intro that)
      (auto simp: board_intercore_def intercore_init_def outq_init_def evq_init_def require_positive_integer_def
        Let_def require_def opt_int_def)
qed

lemma intercore_fresh:
  assumes "intercore_init minimum preferred maxm = Inr ic"
  shows "healthy (outbound_queue ic) \<and> in_flight (outbound_queue ic) = None"
  using assms
  by (auto simp: intercore_init_def Let_def res_simps split: if_splits dest: outq_init_healthy)
    (auto simp: outq_init_def Let_def res_simps split: if_splits)

lemma id_part_answers: "reply \<noteq> Inl MemoryError \<Longrightarrow> \<exists>t. id_part reply fallback = Inr t"
  by (auto simp: id_part_def split: sum.splits)

lemma startup_joins:
  assumes "board_answers w" and "validate_config v = Inr u" and "recover (boot_storage w) s = (Return v, t)"
  obtains k where "main_startup w s = (Return k, t)" and "joined w v k"
    and "healthy (outbound_queue (b_intercore k))" "in_flight (outbound_queue (b_intercore k)) = None"
proof -
  obtain cfg core0 core1 where c: "v = PDict cfg" "split_config cfg = Inr (core0, core1)"
    "takes_keys CORE0_KEYS cfg core0" "takes_keys CORE1_KEYS cfg core1"
    by (rule accepted_splits [OF assms(2)])
  obtain n where n: "dget cfg ''outbound_queue_max_messages'' = Some (PInt n)" "1 \<le> n"
    using accepted_limit [OF assms(2) [unfolded c(1)]] by blast
  obtain b machine wifi where a: "detect_hardware (uname w) = Inr (b, machine)" "led_fault w = Inr ()"
    "load_wifi_config (secrets w) = Inr wifi" "unique_id w \<noteq> Inl MemoryError" "random_bytes w \<noteq> Inl MemoryError"
    "\<forall>r \<in> set (late_faults w). r = Inr ()"
    using assms(1) by (auto simp: board_answers_def)
  obtain ic where ic: "board_intercore b (PInt n) = Inr ic" "max_messages (outbound_queue ic) = Some n"
    "state_mailboxes ic = mailboxes_init"
    "Some (minimum_free_heap_bytes (outbound_queue ic)) = minimum_bytes b"
    "Some (preferred_free_heap_bytes (outbound_queue ic)) = preferred_bytes b"
    by (rule board_intercore_ok [OF a(1) n(2)])
  note made = ic(1) [unfolded board_intercore_def]
  obtain rid where rid: "make_runtime_id (unique_id w) (random_bytes w) (id_ticks w) = Inr rid"
    using id_part_answers [OF a(4), of "''unknown''"]
      id_part_answers [OF a(5), of "hex_digits 8 (nat (id_ticks w mod 2 ^ 32))"]
    by (auto simp: make_runtime_id_def simp del: hex_digits.simps)
  have late: "for_each (\<lambda>r. r) (late_faults w) = Inr ()" using a(6) by (simp add: for_each_eq_Inr)
  let ?k = "\<lparr>b_board = b, b_wifi = wifi, b_core0_config = core0, b_core1_config = core1, b_intercore = ic,
    b_runtime_id = rid\<rparr>"
  have "main_startup w s = (Return ?k, t)"
    using a(1-3) assms(3) n(1) c(1,2) ic(1) rid
    by (simp add: late main_startup_def main_prepare_def boot_ask_def run_store_def io_bind_def io_ask_def io_res_def
        io_return_def dindex_def)
  moreover have "joined w v ?k"
    using c n(1) ic(2-5) a(1,3) rid intercore_init_ok [OF made] by (auto simp: joined_def)
  moreover have "healthy (outbound_queue (b_intercore ?k))" "in_flight (outbound_queue (b_intercore ?k)) = None"
    using intercore_fresh [OF made] by simp_all
  ultimately show thesis by (rule that)
qed

lemma create_core0_fresh:
  assumes "healthy (outbound_queue (b_intercore k))" and "in_flight (outbound_queue (b_intercore k)) = None"
  shows "fresh_core0 (create_core0 k t boot at_mqtt at_poll)"
  using assms by (simp add: fresh_core0_def create_core0_def)

lemma startup_without_board:
  assumes "board_answers w"
  shows "fst (recover (boot_storage w) s) = Cut \<Longrightarrow> main_startup w s = (Cut, snd (recover (boot_storage w) s))"
  using assms
  by (cases "recover (boot_storage w) s")
    (auto simp: board_answers_def main_startup_def main_prepare_def boot_ask_def run_store_def io_bind_def
      io_ask_def io_res_def io_return_def)

subsection \<open>The worker starts with its startup record\<close>

lemma grows_wait: "grows (worker_wait rounds)"
proof (induction rounds)
  case 0
  show ?case by (rule leaves_grows) (simp add: leaves_queue_def)
next
  case (Suc rounds)
  have base: "grows (c1_sense network_at)" "grows (c1_sleep 100)" "grows stamp_activity" "grows (io_return ())"
    by (intro leaves_grows leaves_rules)+
  show ?case
    by (simp only: worker_wait.simps) (intro grows_bind grows_if base Suc)
qed

text \<open>The wait ends with the first ready snapshot, and every round before it stamped the liveness.\<close>

lemma wait_ends:
  assumes "stack_ready (network_at w (c1_clock s + 3 * n))" and "\<And>i. i < n \<Longrightarrow> \<not> stack_ready (network_at w (c1_clock s + 3 * i))"
    and "n < rounds"
  shows "\<exists>t. worker_wait rounds w s = (Return (), t) \<and> outbound t = outbound s \<and> manager t = manager s
    \<and> (0 < n \<longrightarrow> core_1_activity_ms (boxes t) = Some (c1_ticks_at w (c1_clock s + 3 * n - 1)))"
  using assms
proof (induction n arbitrary: s rounds)
  case 0
  then obtain m where "rounds = Suc m" by (cases rounds) auto
  with 0 show ?case by (simp add: io_bind_def c1_sense_def io_return_def)
next
  case (Suc n)
  then obtain m where m: "rounds = Suc m" by (cases rounds) auto
  let ?u = "s\<lparr>c1_clock := c1_clock s + 3, boxes := (boxes s)\<lparr>core_1_activity_ms := Some (c1_ticks_at w (c1_clock s + 2))\<rparr>\<rparr>"
  have shift: "c1_clock ?u + 3 * i = c1_clock s + 3 * Suc i" for i by simp
  have not_yet: "\<not> stack_ready (network_at w (c1_clock s))" using Suc.prems(2) [of 0] by simp
  then have step: "worker_wait rounds w s = worker_wait m w ?u"
    by (simp add: m io_bind_def c1_sense_def io_return_def c1_sleep_def stamp_activity_def io_set_def numeral_3_eq_3)
  have "\<exists>t. worker_wait m w ?u = (Return (), t) \<and> outbound t = outbound ?u \<and> manager t = manager ?u
    \<and> (0 < n \<longrightarrow> core_1_activity_ms (boxes t) = Some (c1_ticks_at w (c1_clock ?u + 3 * n - 1)))"
    by (rule Suc.IH) (use Suc.prems m in \<open>simp_all only: shift\<close>, auto)
  then show ?case
    by (cases n) (auto simp: step, use Suc.prems m in \<open>cases m; auto simp: io_bind_def c1_sense_def io_return_def\<close>)
qed

lemma worker_queue:
  assumes "outq_reachable (outbound s)" and "core1_thread_entry rounds boot passes w s = (r, t)"
  shows "outq_reachable (outbound t)"
proof -
  have startup: "grows (core1_startup boot)"
    using core1_startup_spec unfolding grows_def by (metis (no_types, lifting) grown_def)
  have "grows (core1_thread_entry rounds boot passes)"
    unfolding core1_thread_entry_def core1_main_def
    by (intro grows_bind grows_wait startup grows_enter grows_passes leaves_grows leaves_rules)
  with assms show ?thesis by (auto simp: grows_def grown_def)
qed

subsection \<open>Properties\<close>


definition demo_boot_world :: boot_world where
  "demo_boot_world = \<lparr>uname = Inr (''RPI_PICO_W with RP2040'', ''v1''), led_fault = Inr (), boot_storage = (\<lambda>n. Ok),
     secrets = Inr (PDict [(PStr ''wifi_ssid'', PStr ''net''), (PStr ''wifi_password'', PStr ''pw'')]),
     unique_id = Inr [1, 2, 3], random_bytes = Inl OSError, id_ticks = 77, late_faults = [Inr (), Inr ()]\<rparr>"

lemma not_isl_Inr: "\<not> isl r \<Longrightarrow> \<exists>x. r = Inr x"
  by (cases r) simp_all


end
