(* ===== verification/Spec2Isabelle.thy ===== *)
theory Spec2Isabelle
  imports Ticks Admission Lanes DeviceFactory Config ConfigStore Session MqttWire MqttLink DeviceManager I2cSensors PinSensors Drivers Boot
begin

text \<open>
  \<^bold>\<open>The program.\<close> The firmware of a two-core sensor node (Raspberry Pi Pico W and Pico 2 W,
  MicroPython). Core 1 owns the sensors: it initializes, reads and retries them and produces
  telemetry, health reports, command answers and the startup record. Core 0 owns the network: Wi-Fi,
  the MQTT session, the command boundary, the UTC synchronization, the configuration store and the
  publication of what Core 1 produced. The cores meet in \<open>InterCore\<close> only: an outbound queue under
  heap admission (Core 1 to Core 0), an event queue (Core 0 to Core 1) and latest-value mailboxes.
  \<open>main.py\<close> recovers the configuration, splits it between the cores and starts both.

  \<^bold>\<open>How the code is modelled.\<close> Python values are the datatype \<open>pyval\<close>, exceptions the datatype
  \<open>exc\<close>, a call without effects that may raise has the result type \<open>res\<close> (a sum). Effectful code is
  a \<open>prog\<close>: it reads a world, passes a state and ends with \<open>Return\<close>, \<open>Raise\<close> or \<open>Cut\<close> (power lost,
  board reset, or fuel exhausted where a definition says so). The world of a component is what it
  does not own: the tick counter, bus and radio answers, storage faults, the memory and the moves
  of the other core, each a function of the component's own instant counter, so that a theorem over
  all worlds covers every interleaving and every fault pattern. Integers are \<open>int\<close>; the tick counter
  wraps at \<open>2 ^ 30\<close> as on the port; sensor registers, CRC bytes and MQTT lengths keep their width
  (\<open>word\<close>, or an explicit \<open>mod\<close>).

  \<^bold>\<open>Theories, their sources and what is shown.\<close>

  \<^item> \<open>Prelude\<close>: results, Python values, programs and their generic lemmas.
  \<^item> \<open>Ticks\<close> (\<open>uptime.py\<close>, \<open>network_wait.py\<close>, the boundary arithmetic of \<open>core1.py\<close>): accumulated
    uptime is exact over any number of wraps when samples are close enough; boundaries advance on
    their grid and the loops end; a one-shot difference goes stale after half a period.
  \<^item> \<open>Messages\<close> (\<open>message_serializer.py\<close>, \<open>message_protocol.py\<close>): validation, JSON text, UTC text.
  \<^item> \<open>Outbound\<close>, \<open>Admission\<close>, \<open>Lanes\<close> (\<open>intercore.py\<close>): the queue and its lock, the admission
    with collection, eviction and ceiling, the event queue, the mailboxes. \<open>outq_reachable\<close> is the
    closure under all public calls with the other core moving at every lock; every reachable queue
    satisfies \<open>outq_inv\<close>; a put ends (total), admits or rejects as specified, displaces only what its
    priority may displace. The locale \<open>leased_lane\<close> states what a publisher needs of a queue and is
    interpreted by the outbound queue.
  \<^item> \<open>DeviceValidation\<close>, \<open>DeviceFactory\<close> (\<open>devices/*/validation.py\<close>, \<open>rp2_pins.py\<close>, \<open>rp2_i2c.py\<close>,
    \<open>device_factory.py\<close>): the validators and the registry; accepted definitions can be constructed.
  \<^item> \<open>Config\<close> (\<open>config.py\<close>): the schema, the cross-device checks and the split; an accepted
    configuration gives every GPIO one signal, no sensor two owners, and only waits the ticks can
    represent.
  \<^item> \<open>ConfigStore\<close> (\<open>config_manager.py\<close>): the file protocol, every step under a fate (fault, garbled
    write, power cut); a Hoare-style \<open>triple\<close> shows recovery and write atomic, and the locale
    \<open>durable_store\<close> composes them over reboots.
  \<^item> \<open>Commands\<close> (\<open>core0.py\<close>, \<open>command_protocol.py\<close>): inbound messages, targets, debounce, the
    read and write of the configuration, the UTC answer; each command leaves one trace.
  \<^item> \<open>Publish\<close> (\<open>core0.py\<close>): envelope splice, wire sequence, pacing, publication of responses,
    of the reboot acknowledgement and of leased entries; nothing leaves its container before its
    acknowledgement. The locale \<open>container_kept\<close> is that argument, interpreted for both containers. The
    pacing gate goes stale after half a tick period (\<open>stale_pacing_gate\<close>).
  \<^item> \<open>Session\<close> (\<open>wifi.py\<close>, \<open>mqtt.py\<close>, \<open>core0.py\<close>): connection loops, probe, startup contract, run
    loop; identity on the wire, the startup contract, and that a working link is established.
  \<^item> \<open>MqttWire\<close> (\<open>mqtt_client.py\<close>): the client at byte level over a socket answered by the world.
  \<^item> \<open>MqttLink\<close> (\<open>mqtt.py\<close> over \<open>mqtt_client.py\<close>): the class \<open>Mqtt\<close> with its client and socket. The locale
    \<open>mqtt_session\<close> is what a session keeps in its books; it is interpreted by the abstract session of
    \<open>Publish\<close> and \<open>Session\<close> and by the object over the socket, which refines the first. Connected means an
    open socket in blocking mode, and every operation ends or is reset.
  \<^item> \<open>DeviceManager\<close> (\<open>device_manager.py\<close>): initialization, reads, failure counting, reinitialization
    and retries; every configured device is accounted for, and the counting refines a small machine
    (\<open>health_step\<close>).
  \<^item> \<open>I2cSensors\<close>, \<open>PinSensors\<close> (\<open>devices/*/*_device.py\<close>): the drivers over buses and pins; checksums,
    error classes, fresh conversions, the power line of the probe.
  \<^item> \<open>Drivers\<close> (\<open>device.py\<close>): what \<open>initialize\<close> and \<open>read\<close> owe the manager, as the locales
    \<open>sensor_driver\<close> and \<open>operational_driver\<close>, interpreted by the five drivers; over such drivers no
    sensor fault ends Core 1.
  \<^item> \<open>SystemInformation\<close> (\<open>system_information.py\<close>, \<open>hardware.py\<close>): board policy and report sections.
  \<^item> \<open>Core1\<close> (\<open>core1.py\<close>): startup record, command answers with their reduced forms, telemetry, health,
    bus factories, the worker loop; no answer is lost or silently cut, and the startup record is first.
  \<^item> \<open>Boot\<close> (\<open>main.py\<close>, \<open>led_manager.py\<close>): the joining of all parts and the LED.

  The definitions keep the order and, where possible, the names of the code; a record is the state
  of the class it models, its fields the attributes.

  \<^bold>\<open>Bounds.\<close> Where the code waits on the world the model has fuel, and the fuel is either shown to
  be enough or is part of what is modelled: the polls of the drivers run 101 and 51 rounds, one more
  than their timeouts allow (\<open>poll_ends\<close>, \<open>data_ready_poll_ends\<close>); a put on the outbound queue is total
  because each retry displaces an entry; a wait loop of the MQTT client gets
  one round more than there are bytes to come, which is enough under a timeout (\<open>publish_bounded\<close>,
  \<open>ping_bounded\<close>, \<open>subscribe_answers\<close>); the reconnection loops and the startup of Core 0 carry a bound that
  \<open>network_established\<close> shows enough once the link works; the run loops of both cores are endless in
  the code and are modelled over any number of passes; the wait of the worker ends with the first
  ready snapshot (\<open>wait_ends\<close>).

  \<^bold>\<open>Parameters.\<close> Text of exceptions and of floats (\<open>repr\<close>), the seconds \<open>gmtime\<close> accepts, the
  answers of the \<open>machine\<close>, \<open>network\<close>, \<open>socket\<close>, \<open>os\<close> and \<open>gc\<close> modules, and the power with exponent
  0.1903 in the altitude formula. Sensor and temperature arithmetic is exact rational arithmetic:
  the rounding of the port's floats is not modelled.

  \<^bold>\<open>Not modelled.\<close> Printing and the \<open>DEBUG\<close> switch, garbage collection other than through the heap
  readings it changes, imports, the release script, the deployment scripts and the tests. The
  message texts of exceptions are not modelled, their classes and stable codes are. The two cores are
  joined through worlds, not as one interleaved state: each side is proved against every behaviour
  of the other.
\<close>

end
